(* ===== verification/Prelude.thy ===== *)
theory Prelude
  imports
    Main
    "HOL-Library.Word"
    "HOL-Library.Signed_Division"
    "HOL-Library.Multiset"
begin

text \<open>
  The prelude of the carbonapi development: the collections of facts the component theories
  share, the Go notions every component uses (signed machine integers, truncating division,
  panics), and generic lemmas on lists, options and maps.

  \<^item> A Go \<open>int\<close>, \<open>int64\<close> or \<open>int32\<close> that the code only compares, indexes with or moves
    around is an \<^typ>\<open>int\<close>; where the arithmetic can leave the machine range and the result
    is observable the wrap-around is written out with \<open>wrap64\<close> and \<open>wrap32\<close>, or the value is
    an \<open>64 word\<close>.
  \<^item> Go's \<open>/\<close> and \<open>%\<close> truncate towards zero; they are \<open>sdiv\<close> and \<open>smod\<close> of
    HOL-Library.Signed_Division. A zero divisor panics in Go, so every such division of the
    model is guarded and yields the value \<open>Panic\<close> of \<open>go_panic\<close>.
\<close>

section \<open>Collections of facts\<close>

named_theorems go_defs \<open>definitions of Go library functions, for unfolding at concrete inputs\<close>
named_theorems go_len \<open>facts on the lengths of the pieces a scanner returns\<close>
named_theorems f64_simps \<open>rewrite rules of the binary64 model\<close>
named_theorems wf_intros \<open>introduction rules of the components' invariants\<close>

section \<open>Go integers\<close>

definition wrap32 :: "int \<Rightarrow> int" where
  "wrap32 x = (x + 2 ^ 31) mod 2 ^ 32 - 2 ^ 31"

definition wrap64 :: "int \<Rightarrow> int" where
  "wrap64 x = (x + 2 ^ 63) mod 2 ^ 64 - 2 ^ 63"

definition in_int32 :: "int \<Rightarrow> bool" where
  "in_int32 x \<longleftrightarrow> - (2 ^ 31) \<le> x \<and> x < 2 ^ 31"

definition in_int64 :: "int \<Rightarrow> bool" where
  "in_int64 x \<longleftrightarrow> - (2 ^ 63) \<le> x \<and> x < 2 ^ 63"

lemma wrap32_id [simp]: "in_int32 x \<Longrightarrow> wrap32 x = x"
  by (simp add: wrap32_def in_int32_def)

lemma wrap64_id [simp]: "in_int64 x \<Longrightarrow> wrap64 x = x"
  by (simp add: wrap64_def in_int64_def)

lemma in_int32_wrap32 [simp]: "in_int32 (wrap32 x)"
proof -
  have "0 \<le> (x + 2 ^ 31) mod 2 ^ 32" and "(x + 2 ^ 31) mod 2 ^ 32 < 2 ^ 32"
    by simp_all
  then show ?thesis by (simp add: wrap32_def in_int32_def)
qed

lemma in_int64_wrap64 [simp]: "in_int64 (wrap64 x)"
proof -
  have "0 \<le> (x + 2 ^ 63) mod 2 ^ 64" and "(x + 2 ^ 63) mod 2 ^ 64 < 2 ^ 64"
    by simp_all
  then show ?thesis by (simp add: wrap64_def in_int64_def)
qed

text \<open>Truncating division agrees with the flooring one on the non-negative numbers.\<close>

lemma sdiv_nonneg: "0 \<le> (a :: int) \<Longrightarrow> 0 < b \<Longrightarrow> a sdiv b = a div b"
  by (simp add: signed_divide_int_def sgn_if)

lemma smod_nonneg: "0 \<le> (a :: int) \<Longrightarrow> 0 < b \<Longrightarrow> a smod b = a mod b"
  by (cases "a = 0") (auto simp: signed_modulo_int_def sgn_if)

lemma sdiv_smod_eq: "(a :: int) sdiv b * b + a smod b = a"
  by (rule sdiv_mult_smod_eq)

lemma div_less_int: "0 < (b :: int) \<Longrightarrow> a < b * k \<Longrightarrow> a div b < k"
proof -
  assume b: "0 < b" "a < b * k"
  have "b * (a div b) \<le> a" using mult_div_mod_eq[of b a] pos_mod_sign[OF b(1), of a] by linarith
  with b(2) have "b * (a div b) < b * k" by linarith
  with b(1) show ?thesis by (simp only: mult_less_cancel_left_pos)
qed

section \<open>Panics\<close>

text \<open>
  A run-time panic (an index out of range, a division by zero, a nil dereference) ends the
  Go computation without a result: a model whose source can panic returns \<open>'a option\<close> in the
  sense of \<open>go_panic\<close>, with \<open>None\<close> for the panic.
\<close>

type_synonym 'a go_result = "'a option"

abbreviation (input) Panic :: "'a go_result" where
  "Panic \<equiv> None"

text \<open>Indexing and slicing with the bounds checks of Go.\<close>

definition go_index :: "'a list \<Rightarrow> int \<Rightarrow> 'a go_result" where
  "go_index xs i = (if 0 \<le> i \<and> i < int (length xs) then Some (xs ! nat i) else Panic)"

definition go_drop :: "int \<Rightarrow> 'a list \<Rightarrow> 'a list go_result" where
  "go_drop i xs = (if 0 \<le> i \<and> i \<le> int (length xs) then Some (drop (nat i) xs) else Panic)"

definition go_take :: "int \<Rightarrow> 'a list \<Rightarrow> 'a list go_result" where
  "go_take i xs = (if 0 \<le> i \<and> i \<le> int (length xs) then Some (take (nat i) xs) else Panic)"

declare go_index_def [go_defs] go_drop_def [go_defs] go_take_def [go_defs]

text \<open>\<open>opt_map f xs\<close> runs \<open>f\<close> over a list from left to right and stops at the first panic.\<close>

fun opt_map :: "('a \<Rightarrow> 'b option) \<Rightarrow> 'a list \<Rightarrow> 'b list option" where
  "opt_map f [] = Some []"
| "opt_map f (x # xs) =
     (case f x of None \<Rightarrow> None
      | Some y \<Rightarrow> (case opt_map f xs of None \<Rightarrow> None | Some ys \<Rightarrow> Some (y # ys)))"

lemma opt_map_length: "opt_map f xs = Some ys \<Longrightarrow> length ys = length xs"
  by (induction xs arbitrary: ys) (auto split: option.splits)

lemma opt_map_nth:
  "opt_map f xs = Some ys \<Longrightarrow> i < length xs \<Longrightarrow> f (xs ! i) = Some (ys ! i)"
proof (induction xs arbitrary: ys i)
  case Nil
  then show ?case by simp
next
  case (Cons x xs)
  then show ?case
    by (cases i) (auto split: option.splits)
qed

lemma opt_map_Some: "(\<And>x. x \<in> set xs \<Longrightarrow> f x = Some (g x)) \<Longrightarrow> opt_map f xs = Some (map g xs)"
  by (induction xs) auto

lemma opt_map_map: "opt_map f (map g xs) = opt_map (\<lambda>x. f (g x)) xs"
  by (induction xs) (auto split: option.splits)

lemma opt_map_in_set: "opt_map f xs = Some ys \<Longrightarrow> y \<in> set ys \<Longrightarrow> \<exists>x\<in>set xs. f x = Some y"
  by (induction xs arbitrary: ys) (auto split: option.splits)

lemma length_filter_update:
  "i < length xs \<Longrightarrow> length (filter P (xs[i := x])) + (if P (xs ! i) then 1 else 0) = length (filter P xs) + (if P x then 1 else 0)"
  using arg_cong[OF id_take_nth_drop[of i xs], of "\<lambda>ys. length (filter P ys)"]
  by (simp add: upd_conv_take_nth_drop)

end
