(* ===== verification/Float64.thy ===== *)
theory Float64
  imports Prelude Complex_Main
begin

text \<open>
  Go's \<open>float64\<close>: IEEE 754 binary64 with rounding to nearest, ties to even. A value is NaN
  (all NaNs are one value: the code never looks at the payload), an infinity, minus zero, or a
  number, kept as the rational it denotes. Each arithmetic operation is the exact rational
  operation followed by one rounding, as the standard prescribes, with its special cases
  written out. Comparisons follow IEEE: every comparison with NaN is false and the two zeros
  are equal. The operations are instances of HOL's arithmetic and order syntax, so the
  component theories read like the Go code; none of HOL's algebraic laws is assumed of them.
\<close>

section \<open>Values\<close>

datatype f64 = FNaN | FInf bool | FNegZero | FNum rat

text \<open>\<open>FInf True\<close> is minus infinity; \<open>FNum 0\<close> is plus zero.\<close>

definition isNaN :: "f64 \<Rightarrow> bool" where
  "isNaN x \<longleftrightarrow> x = FNaN"

fun isInf :: "f64 \<Rightarrow> bool" where
  "isInf (FInf s) = True"
| "isInf _ = False"

text \<open>The number a finite value denotes, and its sign bit.\<close>

fun fval :: "f64 \<Rightarrow> rat" where
  "fval (FNum q) = q"
| "fval _ = 0"

fun fneg :: "f64 \<Rightarrow> bool" where
  "fneg FNaN = False"
| "fneg (FInf s) = s"
| "fneg FNegZero = True"
| "fneg (FNum q) = (q < 0)"

fun finite64 :: "f64 \<Rightarrow> bool" where
  "finite64 FNegZero = True"
| "finite64 (FNum q) = True"
| "finite64 _ = False"

section \<open>Rounding\<close>

function bit_len :: "int \<Rightarrow> int" where
  "bit_len n = (if n \<le> 0 then 0 else 1 + bit_len (n div 2))"
  by pat_completeness auto
termination
  by (relation "measure nat") auto

declare bit_len.simps [simp del]

definition pow2 :: "int \<Rightarrow> rat" where
  "pow2 e = (if 0 \<le> e then 2 ^ nat e else 1 / 2 ^ nat (- e))"

text \<open>The exponent \<open>e\<close> of a positive rational: \<open>2 ^ e \<le> q < 2 ^ (e + 1)\<close>.\<close>

definition rat_exponent :: "rat \<Rightarrow> int" where
  "rat_exponent q =
     (let (n, d) = quotient_of q;
          e = bit_len n - bit_len d
      in if pow2 e \<le> q then e else e - 1)"

definition round_half_even :: "rat \<Rightarrow> int" where
  "round_half_even q =
     (let f = \<lfloor>q\<rfloor>; d = q - of_int f
      in if d < 1 / 2 then f
         else if 1 / 2 < d then f + 1
         else if even f then f else f + 1)"

text \<open>The unit in the last place at a positive rational; subnormals share the smallest one.\<close>

definition ulp_exponent :: "rat \<Rightarrow> int" where
  "ulp_exponent q = max (rat_exponent q - 52) (- 1074)"

definition round_pos :: "rat \<Rightarrow> rat" where
  "round_pos q = of_int (round_half_even (q / pow2 (ulp_exponent q))) * pow2 (ulp_exponent q)"

text \<open>
  The rounded value of a rational, an infinity from \<open>2 ^ 1024\<close> on; \<open>neg\<close> is the sign a zero result carries, which is the sign
  of the exact result when that underflows.
\<close>

definition mk_zero :: "bool \<Rightarrow> f64" where
  "mk_zero neg = (if neg then FNegZero else FNum 0)"

definition round64 :: "bool \<Rightarrow> rat \<Rightarrow> f64" where
  "round64 neg q =
     (if q = 0 then mk_zero neg
      else (let r = round_pos \<bar>q\<bar>
            in if r = 0 then mk_zero (q < 0)
               else if 1024 \<le> rat_exponent r then FInf (q < 0)
               else FNum (if q < 0 then - r else r)))"

section \<open>Arithmetic\<close>

instantiation f64 :: "{zero, one, uminus, plus, minus, times, inverse, ord, abs}"
begin

definition zero_f64 :: f64 where
  "0 = FNum 0"

definition one_f64 :: f64 where
  "1 = FNum 1"

fun uminus_f64 :: "f64 \<Rightarrow> f64" where
  "- FNaN = FNaN"
| "- FInf s = FInf (\<not> s)"
| "- FNegZero = FNum 0"
| "- FNum q = (if q = 0 then FNegZero else FNum (- q))"

fun abs_f64 :: "f64 \<Rightarrow> f64" where
  "\<bar>FNaN\<bar> = FNaN"
| "\<bar>FInf s\<bar> = FInf False"
| "\<bar>FNegZero\<bar> = FNum 0"
| "\<bar>FNum q\<bar> = FNum \<bar>q\<bar>"

definition plus_f64 :: "f64 \<Rightarrow> f64 \<Rightarrow> f64" where
  "x + y =
     (if x = FNaN \<or> y = FNaN then FNaN
      else if isInf x then (if isInf y \<and> fneg x \<noteq> fneg y then FNaN else x)
      else if isInf y then y
      else round64 (x = FNegZero \<and> y = FNegZero) (fval x + fval y))"

definition minus_f64 :: "f64 \<Rightarrow> f64 \<Rightarrow> f64" where
  "x - y = x + (- y :: f64)"

definition times_f64 :: "f64 \<Rightarrow> f64 \<Rightarrow> f64" where
  "x * y =
     (if x = FNaN \<or> y = FNaN then FNaN
      else if isInf x \<or> isInf y
      then (if (finite64 x \<and> fval x = 0) \<or> (finite64 y \<and> fval y = 0) then FNaN
            else FInf (fneg x \<noteq> fneg y))
      else round64 (fneg x \<noteq> fneg y) (fval x * fval y))"

definition divide_f64 :: "f64 \<Rightarrow> f64 \<Rightarrow> f64" where
  "x div y =
     (if x = FNaN \<or> y = FNaN then FNaN
      else if isInf x then (if isInf y then FNaN else FInf (fneg x \<noteq> fneg y))
      else if isInf y then mk_zero (fneg x \<noteq> fneg y)
      else if fval y = 0
      then (if fval x = 0 then FNaN else FInf (fneg x \<noteq> fneg y))
      else round64 (fneg x \<noteq> fneg y) (fval x / fval y))"

definition inverse_f64 :: "f64 \<Rightarrow> f64" where
  "inverse_f64 x = (FNum 1 :: f64) div x"

text \<open>The order of IEEE: NaN is unordered, minus infinity is below and plus infinity above.\<close>

fun less_f64 :: "f64 \<Rightarrow> f64 \<Rightarrow> bool" where
  "less_f64 FNaN y = False"
| "less_f64 x FNaN = False"
| "less_f64 (FInf s) (FInf t) = (s \<and> \<not> t)"
| "less_f64 (FInf s) y = s"
| "less_f64 x (FInf t) = (\<not> t)"
| "less_f64 x y = (fval x < fval y)"

definition less_eq_f64 :: "f64 \<Rightarrow> f64 \<Rightarrow> bool" where
  "less_eq_f64 x y \<longleftrightarrow> \<not> isNaN x \<and> \<not> isNaN y \<and> \<not> y < (x :: f64)"

instance ..

end

text \<open>Go's \<open>==\<close> on floats: false on NaN, true on the two zeros.\<close>

definition feq :: "f64 \<Rightarrow> f64 \<Rightarrow> bool" where
  "feq x y \<longleftrightarrow> x \<le> y \<and> y \<le> x"

text \<open>Conversions: \<open>float64(n)\<close>, \<open>math.Floor\<close>, \<open>math.Ceil\<close>, \<open>int(x)\<close>.\<close>

definition f64_of_int :: "int \<Rightarrow> f64" where
  "f64_of_int n = round64 False (of_int n)"

fun ffloor :: "f64 \<Rightarrow> f64" where
  "ffloor (FNum q) = FNum (of_int \<lfloor>q\<rfloor>)"
| "ffloor x = x"

fun fceil :: "f64 \<Rightarrow> f64" where
  "fceil (FNum q) = (if \<lceil>q\<rceil> = 0 \<and> q < 0 then FNegZero else FNum (of_int \<lceil>q\<rceil>))"
| "fceil x = x"

text \<open>
  \<open>int(x)\<close> truncates towards zero. Outside the range of \<open>int64\<close> the Go specification leaves
  the value to the implementation; amd64 yields the least \<open>int64\<close>, which is what the model has.
\<close>

definition int_of_f64 :: "f64 \<Rightarrow> int" where
  "int_of_f64 x =
     (if \<not> finite64 x then - (2 ^ 63)
      else (let t = (if fval x < 0 then \<lceil>fval x\<rceil> else \<lfloor>fval x\<rfloor>)
            in if in_int64 t then t else - (2 ^ 63)))"

text \<open>\<open>math.Sqrt\<close>, correctly rounded: sixty bits of the root and a sticky half decide the rounding.\<close>

function isqrt :: "int \<Rightarrow> int" where
  "isqrt n =
     (if n \<le> 0 then 0
      else (let s = 2 * isqrt (n div 4) in if (s + 1) * (s + 1) \<le> n then s + 1 else s))"
  by pat_completeness auto
termination
  by (relation "measure nat") auto

declare isqrt.simps [simp del]

definition sqrt_pos :: "rat \<Rightarrow> f64" where
  "sqrt_pos q =
     (let k = 60 - rat_exponent q div 2;
          r = q * pow2 (2 * k);
          s = isqrt \<lfloor>r\<rfloor>
      in round64 False ((if of_int (s * s) = r then of_int s else of_int s + 1 / 2) / pow2 k))"

fun fsqrt :: "f64 \<Rightarrow> f64" where
  "fsqrt FNaN = FNaN"
| "fsqrt (FInf s) = (if s then FNaN else FInf False)"
| "fsqrt FNegZero = FNegZero"
| "fsqrt (FNum q) = (if q < 0 then FNaN else if q = 0 then FNum 0 else sqrt_pos q)"

text \<open>
  \<open>float32\<close> appears only as the ratio of two counts and as the \<open>xFilesFactor\<close> it is compared
  with; a \<open>float32\<close> value is kept as the \<open>f64\<close> of the same number.
\<close>

definition round32 :: "rat \<Rightarrow> rat" where
  "round32 q =
     (if q \<le> 0 then 0
      else (let e = max (rat_exponent q - 23) (- 149) in of_int (round_half_even (q / pow2 e)) * pow2 e))"

definition f32_ratio :: "nat \<Rightarrow> nat \<Rightarrow> f64" where
  "f32_ratio a b =
     (if b = 0 then (if a = 0 then FNaN else FInf False)
      else FNum (round32 (round32 (of_nat a) / round32 (of_nat b))))"

section \<open>Comparison\<close>

lemma isNaN_simps [simp, f64_simps]:
  "isNaN FNaN" "\<not> isNaN (FInf s)" "\<not> isNaN FNegZero" "\<not> isNaN (FNum q)"
  by (simp_all add: isNaN_def)

lemma less_f64_NaN [simp]: "\<not> FNaN < x" "\<not> x < FNaN"
  by (cases x; simp)+

lemma less_f64_isNaN: "x < (y :: f64) \<Longrightarrow> \<not> isNaN x \<and> \<not> isNaN y"
  by (cases x; cases y) (simp_all add: isNaN_def)

lemma less_f64_irrefl [simp]: "\<not> x < (x :: f64)"
  by (cases x) simp_all

lemma less_f64_trans: "x < y \<Longrightarrow> y < z \<Longrightarrow> x < (z :: f64)"
  by (cases x; cases y; cases z) auto

lemma less_f64_asym: "x < y \<Longrightarrow> \<not> y < (x :: f64)"
  using less_f64_trans less_f64_irrefl by blast

text \<open>On numbers the order is a total preorder: incomparability is transitive.\<close>

lemma less_f64_negtrans:
  "\<not> isNaN y \<Longrightarrow> \<not> isNaN z \<Longrightarrow> x < (z :: f64) \<Longrightarrow> x < y \<or> y < z"
  by (cases x; cases y; cases z) auto

lemma le_f64_refl [simp]: "\<not> isNaN x \<Longrightarrow> x \<le> (x :: f64)"
  by (simp add: less_eq_f64_def)

lemma le_f64_trans: "x \<le> y \<Longrightarrow> y \<le> z \<Longrightarrow> x \<le> (z :: f64)"
  using less_f64_negtrans by (auto simp: less_eq_f64_def)

lemma le_f64_total: "\<not> isNaN x \<Longrightarrow> \<not> isNaN y \<Longrightarrow> x \<le> y \<or> y \<le> (x :: f64)"
  using less_f64_asym by (auto simp: less_eq_f64_def)

lemma less_imp_le_f64: "x < y \<Longrightarrow> x \<le> (y :: f64)"
  using less_f64_asym less_f64_isNaN by (auto simp: less_eq_f64_def)

lemma not_less_f64: "\<not> isNaN x \<Longrightarrow> \<not> isNaN y \<Longrightarrow> (\<not> x < y) = (y \<le> (x :: f64))"
  by (simp add: less_eq_f64_def)

lemma less_le_f64_trans: "x < y \<Longrightarrow> y \<le> z \<Longrightarrow> x < (z :: f64)"
  using less_f64_negtrans less_f64_isNaN by (fastforce simp: less_eq_f64_def)

lemma le_f64_isNaN: "x \<le> (y :: f64) \<Longrightarrow> \<not> isNaN x \<and> \<not> isNaN y"
  by (simp add: less_eq_f64_def)

lemma NInf_least: "\<not> isNaN x \<Longrightarrow> FInf True \<le> x"
  by (cases x) (simp_all add: less_eq_f64_def)

lemma PInf_greatest: "\<not> isNaN x \<Longrightarrow> x \<le> FInf False"
  by (cases x) (simp_all add: less_eq_f64_def)

text \<open>Values IEEE calls equal are the same value, the two zeros apart.\<close>

lemma feq_iff: "feq x y \<longleftrightarrow> \<not> isNaN x \<and> \<not> isNaN y \<and> (x = y \<or> (finite64 x \<and> finite64 y \<and> fval x = 0 \<and> fval y = 0))"
  by (cases x; cases y) (auto simp: feq_def less_eq_f64_def)

section \<open>Commutativity and NaN\<close>

lemma plus_f64_comm: "x + y = y + (x :: f64)"
  by (cases x; cases y) (auto simp: plus_f64_def add.commute)

lemma times_f64_comm: "x * y = y * (x :: f64)"
proof -
  have "(fneg x \<noteq> fneg y) = (fneg y \<noteq> fneg x)" by blast
  then show ?thesis by (auto simp: times_f64_def mult.commute)
qed

lemma NaN_arith [simp, f64_simps]:
  "FNaN + x = FNaN" "x + FNaN = FNaN" "FNaN - x = FNaN" "x - FNaN = FNaN"
  "FNaN * x = FNaN" "x * FNaN = FNaN" "FNaN div x = FNaN" "x div FNaN = FNaN"
  by (simp_all add: plus_f64_def minus_f64_def times_f64_def divide_f64_def)

lemma isNaN_uminus [simp]: "isNaN (- x) = isNaN x"
  by (cases x) (simp_all add: isNaN_def)

lemma isNaN_abs [simp]: "isNaN \<bar>x :: f64\<bar> = isNaN x"
  by (cases x) (simp_all add: isNaN_def)

lemma round64_not_NaN [simp]: "round64 s q \<noteq> FNaN" "\<not> isNaN (round64 s q)"
  by (simp_all add: round64_def mk_zero_def Let_def isNaN_def)

lemma mk_zero_not_NaN [simp]: "mk_zero s \<noteq> FNaN"
  by (simp add: mk_zero_def)

text \<open>A sum of values that are not NaN is NaN only where two opposite infinities meet.\<close>

lemma isNaN_plus:
  "isNaN (x + y) \<longleftrightarrow> isNaN x \<or> isNaN y \<or> (isInf x \<and> isInf y \<and> fneg x \<noteq> fneg y)"
  by (cases x; cases y) (auto simp: plus_f64_def isNaN_def)

lemma finite64_not_NaN: "finite64 x \<Longrightarrow> \<not> isNaN x"
  by (cases x) simp_all

lemma finite64_isInf: "finite64 x \<Longrightarrow> \<not> isInf x"
  by (cases x) simp_all

section \<open>Rounding is exact on representable numbers\<close>

lemma pow2_powi: "pow2 e = 2 powi e"
  by (simp add: pow2_def power_int_def field_simps)

lemma pow2_pos [simp]: "0 < pow2 e"
  by (simp add: pow2_powi)

lemma pow2_nonzero [simp]: "pow2 e \<noteq> 0"
  using pow2_pos [of e] by linarith

lemma pow2_add: "pow2 (a + b) = pow2 a * pow2 b"
  by (simp add: pow2_powi power_int_add)

lemma pow2_nat: "pow2 (int n) = 2 ^ n"
  by (simp add: pow2_def)

lemma pow2_mono: "a \<le> b \<Longrightarrow> pow2 a \<le> pow2 b"
  unfolding pow2_powi by (rule power_int_increasing) simp_all

lemma pow2_strict_mono: "a < b \<Longrightarrow> pow2 a < pow2 b"
  unfolding pow2_powi by (rule power_int_strict_increasing) simp_all

lemma pow2_less_iff: "pow2 a < pow2 b \<longleftrightarrow> a < b"
  using pow2_strict_mono pow2_mono by (meson not_less)

lemma bit_len_bounds: "0 < n \<Longrightarrow> pow2 (bit_len n - 1) \<le> of_int n \<and> of_int n < pow2 (bit_len n)"
proof (induction n rule: bit_len.induct)
  case (1 n)
  show ?case
  proof (cases "n = 1")
    case True
    then show ?thesis by (simp add: bit_len.simps pow2_def)
  next
    case False
    with "1.prems" have "0 < n div 2" by linarith
    with "1.IH" "1.prems" have IH: "pow2 (bit_len (n div 2) - 1) \<le> of_int (n div 2)"
      "of_int (n div 2) < pow2 (bit_len (n div 2))" by simp_all
    have b: "0 \<le> bit_len k" for k
      by (induction k rule: bit_len.induct) (subst bit_len.simps, simp)
    have step: "bit_len n = bit_len (n div 2) + 1"
      using "1.prems" by (subst bit_len.simps) simp
    have dbl: "pow2 (e + 1) = 2 * pow2 e" for e
      by (simp add: pow2_add pow2_def [of 1])
    have pw: "pow2 (bit_len (n div 2)) = of_int (2 ^ nat (bit_len (n div 2)))"
      using b by (simp add: pow2_def)
    have "n div 2 + 1 \<le> 2 ^ nat (bit_len (n div 2))"
      using IH(2) unfolding pw by (metis of_int_less_iff zless_imp_add1_zle)
    then have "n < 2 * 2 ^ nat (bit_len (n div 2))" by linarith
    then have "of_int n < (of_int (2 * 2 ^ nat (bit_len (n div 2))) :: rat)"
      by (simp only: of_int_less_iff)
    then have "of_int n < pow2 (bit_len n)"
      unfolding step dbl pw by simp
    moreover have "of_int (2 * (n div 2)) \<le> (of_int n :: rat)"
      by (simp only: of_int_le_iff)
    then have "pow2 (bit_len n - 1) \<le> of_int n"
      using IH(1) dbl [of "bit_len (n div 2) - 1"] by (simp add: step)
    ultimately show ?thesis by simp
  qed
qed

lemma rat_exponent_bounds:
  assumes "0 < q"
  shows "pow2 (rat_exponent q) \<le> q" and "q < pow2 (rat_exponent q + 1)"
proof -
  obtain n d where nd: "quotient_of q = (n, d)" by (cases "quotient_of q")
  have d: "0 < d" using nd by (rule quotient_of_denom_pos)
  have q: "q = of_int n / of_int d" using nd by (rule quotient_of_div)
  have n: "0 < n" using assms d by (simp add: q zero_less_divide_iff)
  define a b where "a = bit_len n" and "b = bit_len d"
  have n1: "pow2 (a - 1) \<le> of_int n" and n2: "of_int n < pow2 a"
    and d1: "pow2 (b - 1) \<le> of_int d" and d2: "of_int d < pow2 b"
    unfolding a_def b_def using bit_len_bounds n d by blast+
  have "pow2 (a - 1) / pow2 b \<le> q"
    unfolding q using n1 d2 d n by (intro frac_le) simp_all
  moreover have "q < pow2 a / pow2 (b - 1)"
    unfolding q using n2 d1 n d by (intro frac_less) simp_all
  moreover have "pow2 (a - 1) / pow2 b = pow2 (a - b - 1)" "pow2 a / pow2 (b - 1) = pow2 (a - b + 1)"
    by (simp_all add: divide_eq_eq flip: pow2_add)
  moreover have "rat_exponent q = (if pow2 (a - b) \<le> q then a - b else a - b - 1)"
    by (simp add: rat_exponent_def nd a_def b_def)
  ultimately show "pow2 (rat_exponent q) \<le> q" and "q < pow2 (rat_exponent q + 1)"
    by (auto split: if_splits)
qed

lemma rat_exponent_unique:
  assumes "pow2 e \<le> q" and "q < pow2 (e + 1)"
  shows "rat_exponent q = e"
proof -
  have "0 < q" using assms(1) pow2_pos [of e] by linarith
  then have "pow2 (rat_exponent q) \<le> q" and "q < pow2 (rat_exponent q + 1)"
    by (rule rat_exponent_bounds)+
  then have "pow2 (rat_exponent q) < pow2 (e + 1)" and "pow2 e < pow2 (rat_exponent q + 1)"
    using assms by linarith+
  then show ?thesis by (simp add: pow2_less_iff)
qed

lemma round_half_even_of_int [simp]: "round_half_even (of_int n) = n"
  by (simp add: round_half_even_def)

lemma round_pos_exact:
  assumes "q / pow2 (ulp_exponent q) = of_int m"
  shows "round_pos q = q"
proof -
  have "q = of_int m * pow2 (ulp_exponent q)" using assms by (simp add: field_simps)
  then show ?thesis by (simp add: round_pos_def assms)
qed

text \<open>Multiples of a power of two with at most 53 significant bits are represented exactly.\<close>

lemma round_pos_dyadic:
  assumes "0 < m" and "m \<le> 2 ^ 53" and "- 1074 \<le> e"
  shows "round_pos (of_int m * pow2 e) = of_int m * pow2 e"
proof -
  let ?q = "of_int m * pow2 e" and ?k = "rat_exponent (of_int m)"
  have b: "pow2 ?k \<le> of_int m" "of_int m < pow2 (?k + 1)"
    using rat_exponent_bounds [of "of_int m"] assms(1) by simp_all
  have "rat_exponent ?q = ?k + e"
    by (rule rat_exponent_unique) (use b in \<open>simp_all add: pow2_add\<close>)
  then have u: "ulp_exponent ?q = max (?k + e - 52) (- 1074)" by (simp add: ulp_exponent_def)
  have div: "?q / pow2 (e - int j) = of_int (m * 2 ^ j)" for j
    by (simp add: divide_eq_eq flip: pow2_nat pow2_add)
  show ?thesis
  proof (cases "?k \<le> 52")
    case True
    then have "ulp_exponent ?q = e - int (nat (e - ulp_exponent ?q))"
      using assms(3) u by simp
    then show ?thesis using div by (metis round_pos_exact)
  next
    case False
    have "pow2 53 \<le> pow2 ?k" using False by (intro pow2_mono) simp
    moreover have "(of_int m :: rat) \<le> of_int (2 ^ 53)"
      using assms(2) by (subst of_int_le_iff)
    ultimately have m: "(of_int m :: rat) = of_int (2 ^ 53)" using b(1) by (simp add: pow2_def)
    then have "?k = 53"
      unfolding m by (intro rat_exponent_unique) (simp_all add: pow2_def)
    then have "ulp_exponent ?q = e + 1" using assms(3) u by simp
    then have "?q / pow2 (ulp_exponent ?q) = of_int (2 ^ 52)"
      unfolding m by (simp add: pow2_add) (simp add: pow2_def)
    then show ?thesis by (rule round_pos_exact)
  qed
qed

lemma round64_dyadic:
  assumes "m \<noteq> 0" and "\<bar>m\<bar> \<le> 2 ^ 53" and "- 1074 \<le> e" and "e \<le> 970"
  shows "round64 s (of_int m * pow2 e) = FNum (of_int m * pow2 e)"
proof -
  let ?q = "of_int m * pow2 e"
  have "round_pos (of_int \<bar>m\<bar> * pow2 e) = of_int \<bar>m\<bar> * pow2 e"
    using assms by (intro round_pos_dyadic) auto
  moreover have q: "\<bar>?q\<bar> = of_int \<bar>m\<bar> * pow2 e"
    using abs_of_pos [OF pow2_pos [of e]] by (simp add: abs_mult)
  ultimately have r: "round_pos \<bar>?q\<bar> = \<bar>?q\<bar>" by simp
  have "(of_int \<bar>m\<bar> :: rat) \<le> of_int (2 ^ 53)" using assms(2) by (subst of_int_le_iff)
  then have "\<bar>?q\<bar> \<le> pow2 53 * pow2 970"
    unfolding q using assms(4) by (intro mult_mono pow2_mono) (simp_all add: pow2_def)
  then have "\<bar>?q\<bar> \<le> pow2 1023" by (simp flip: pow2_add)
  moreover have "pow2 (rat_exponent \<bar>?q\<bar>) \<le> \<bar>?q\<bar>"
    using assms(1) by (intro rat_exponent_bounds) simp
  ultimately have "pow2 (rat_exponent \<bar>?q\<bar>) \<le> pow2 1023" by linarith
  then have "\<not> 1024 \<le> rat_exponent \<bar>?q\<bar>"
    using pow2_less_iff [of 1023 "rat_exponent \<bar>?q\<bar>"] by linarith
  with r assms(1) show ?thesis by (auto simp: round64_def Let_def)
qed

text \<open>
  In particular integers up to \<open>2 ^ 53\<close> are exact: counts, indices and steps survive
  \<open>float64(n)\<close>.
\<close>

lemma round64_zero [simp]: "round64 s 0 = mk_zero s"
  by (simp add: round64_def)

lemma round64_int:
  assumes "n \<noteq> 0" and "\<bar>n\<bar> \<le> 2 ^ 53"
  shows "round64 s (of_int n) = FNum (of_int n)"
  using round64_dyadic [of n 0 s] assms by (simp add: pow2_def)

lemma f64_of_int_exact: "\<bar>n\<bar> \<le> 2 ^ 53 \<Longrightarrow> f64_of_int n = FNum (of_int n)"
  by (cases "n = 0") (simp_all add: f64_of_int_def round64_int mk_zero_def)

lemma f64_of_int_less:
  "\<bar>a\<bar> \<le> 2 ^ 53 \<Longrightarrow> \<bar>b\<bar> \<le> 2 ^ 53 \<Longrightarrow> f64_of_int a < f64_of_int b \<longleftrightarrow> a < b"
  by (simp add: f64_of_int_exact)

lemma f64_of_int_not_NaN [simp]: "\<not> isNaN (f64_of_int n)"
  by (simp add: f64_of_int_def)

text \<open>Rewrite rules for the numerals of concrete inputs.\<close>

lemma round64_one [simp, f64_simps]: "round64 s 1 = FNum 1" "round64 s (- 1) = FNum (- 1)"
  using round64_int [of 1 s] round64_int [of "- 1" s] by simp_all

lemma round64_numeral [simp, f64_simps]:
  "numeral k \<le> (2 :: int) ^ 53 \<Longrightarrow> round64 s (numeral k) = FNum (numeral k)"
  "numeral k \<le> (2 :: int) ^ 53 \<Longrightarrow> round64 s (- numeral k) = FNum (- numeral k)"
  using round64_int [of "numeral k" s] round64_int [of "- numeral k" s] by simp_all

lemma round64_half [f64_simps]:
  "m \<noteq> 0 \<Longrightarrow> \<bar>m\<bar> \<le> 2 ^ 53 \<Longrightarrow> round64 s (of_int m / 2) = FNum (of_int m / 2)"
  using round64_dyadic [of m "- 1" s] by (simp add: pow2_def)

section \<open>Square roots and ratios\<close>

lemma isqrt_bounds: "0 \<le> n \<Longrightarrow> 0 \<le> isqrt n \<and> isqrt n * isqrt n \<le> n \<and> n < (isqrt n + 1) * (isqrt n + 1)"
proof (induction n rule: isqrt.induct)
  case (1 n)
  show ?case
  proof (cases "n = 0")
    case True
    then show ?thesis by (subst (1 2 3 4 5) isqrt.simps) simp
  next
    case False
    define s where "s = isqrt (n div 4)"
    have IH: "0 \<le> s" "s * s \<le> n div 4" "n div 4 < (s + 1) * (s + 1)"
      using 1 False by (simp_all add: s_def)
    have "4 * (s * s) \<le> n" "n < 4 * ((s + 1) * (s + 1))"
      using IH(2,3) by linarith+
    then have "2 * s * (2 * s) \<le> n" "n < (2 * s + 1 + 1) * (2 * s + 1 + 1)"
      by (simp_all add: algebra_simps)
    with IH(1) 1(2) False show ?thesis
      by (subst (1 2 3 4 5) isqrt.simps) (auto simp: Let_def s_def[symmetric])
  qed
qed

lemma round_half_even_ge: "\<lfloor>q\<rfloor> \<le> round_half_even q"
  by (simp add: round_half_even_def Let_def)

lemma round32_nonneg: "0 \<le> round32 q"
proof (cases "q \<le> 0")
  case False
  define e where "e = max (rat_exponent q - 23) (- 149)"
  have "0 \<le> q / pow2 e" using False by (intro divide_nonneg_pos) simp_all
  then have "0 \<le> round_half_even (q / pow2 e)"
    using round_half_even_ge[of "q / pow2 e"] by linarith
  then have "0 \<le> rat_of_int (round_half_even (q / pow2 e)) * pow2 e"
    by (intro mult_nonneg_nonneg) (simp_all add: less_imp_le)
  with False show ?thesis by (simp add: round32_def e_def[symmetric] Let_def)
qed (simp add: round32_def)

lemma f32_ratio_not_less_0: "\<not> f32_ratio a b < FNum 0"
  using round32_nonneg by (simp add: f32_ratio_def not_less)

section \<open>The rounding error\<close>

lemma round_half_even_error: "\<bar>of_int (round_half_even x) - x\<bar> \<le> 1 / 2"
proof -
  have f: "of_int \<lfloor>x\<rfloor> \<le> x" "x < of_int \<lfloor>x\<rfloor> + 1" by linarith+
  show ?thesis using f by (auto simp: round_half_even_def Let_def abs_le_iff)
qed

lemma round_pos_error:
  assumes "0 < q" "- 1022 \<le> rat_exponent q"
  shows "\<bar>round_pos q - q\<bar> \<le> q / 2 ^ 53"
proof -
  define e where "e = rat_exponent q"
  define u where "u = pow2 (e - 52)"
  have u: "0 < u" "ulp_exponent q = e - 52" using assms by (simp_all add: u_def e_def ulp_exponent_def)
  have "round_pos q - q = (of_int (round_half_even (q / u)) - q / u) * u"
    using u by (simp add: round_pos_def u_def[symmetric] left_diff_distrib)
  then have "\<bar>round_pos q - q\<bar> = \<bar>of_int (round_half_even (q / u)) - q / u\<bar> * u"
    using u by (simp add: abs_mult)
  also have "\<dots> \<le> 1 / 2 * u"
    using round_half_even_error[of "q / u"] u by (intro mult_right_mono) auto
  also have "\<dots> = pow2 e / 2 ^ 53"
    using pow2_add[of "e - 52" 52] pow2_nat[of 52] by (simp add: u_def)
  also have "\<dots> \<le> q / 2 ^ 53"
    using rat_exponent_bounds[OF assms(1)] by (simp add: e_def divide_right_mono)
  finally show ?thesis .
qed

lemma rat_exponent_ge:
  assumes "pow2 k \<le> q"
  shows "k \<le> rat_exponent q"
proof -
  have "0 < q" using assms pow2_pos[of k] by (rule less_le_trans[rotated])
  then have "q < pow2 (rat_exponent q + 1)" using rat_exponent_bounds by simp
  then have "pow2 k < pow2 (rat_exponent q + 1)" using assms by simp
  then show ?thesis by (simp add: pow2_less_iff)
qed

lemma rat_exponent_less:
  assumes "0 < q" "q < pow2 k"
  shows "rat_exponent q < k"
  using rat_exponent_bounds[OF assms(1)] assms(2) pow2_less_iff by (metis le_less_trans)

text \<open>Rounding to nearest is off by at most one part in \<open>2 ^ 53\<close> of the value.\<close>

lemma round64_error:
  assumes "pow2 (- 1000) \<le> q" "q < pow2 1000"
  shows "\<exists>r. round64 s q = FNum r \<and> 0 < r \<and> \<bar>r - q\<bar> \<le> q / 2 ^ 53"
proof -
  have q: "0 < q" using assms(1) pow2_pos[of "- 1000"] by linarith
  define r where "r = round_pos q"
  have err: "\<bar>r - q\<bar> \<le> q / 2 ^ 53"
    unfolding r_def using q rat_exponent_ge[OF assms(1)] by (intro round_pos_error) simp_all
  then have "r - q \<le> q / 2 ^ 53" "- (r - q) \<le> q / 2 ^ 53" by (simp_all only: abs_le_iff)
  moreover have "q / 2 ^ 53 < q" using q by simp
  ultimately have r: "0 < r" "r < 2 * q" by linarith+
  have "2 * pow2 1000 = pow2 1001" using pow2_add[of 1000 1] by (simp add: pow2_def)
  then have "rat_exponent r < 1001"
    using r assms(2) by (intro rat_exponent_less) linarith+
  then have "round64 s q = FNum r"
    using q r by (simp add: round64_def r_def[symmetric] Let_def)
  with r err show ?thesis by blast
qed

text \<open>
  Quotients of integers below \<open>2 ^ 53\<close>: rounding does not carry one across the next integer, so
  the floor and the ceiling of the rounded quotient are on the right side of the exact one.
\<close>

lemma quotient_rounded:
  assumes "0 < a" "a < 2 ^ 53" "0 < b" "b < 2 ^ 53"
  shows "\<exists>r. f64_of_int a div f64_of_int b = FNum r \<and> 0 < r \<and> a div b \<le> \<lfloor>r\<rfloor> \<and> a \<le> \<lceil>r\<rceil> * b \<and> r \<le> of_int a * 2"
proof -
  define q :: rat where "q = of_int a / of_int b"
  have ab: "1 \<le> rat_of_int a" "rat_of_int a < 2 ^ 53" "1 \<le> rat_of_int b" "rat_of_int b < 2 ^ 53"
    using assms of_int_less_iff[where 'a = rat, of a "2 ^ 53"] of_int_less_iff[where 'a = rat, of b "2 ^ 53"] by simp_all
  have qb: "q * of_int b = of_int a" using ab by (simp add: q_def)
  have small: "pow2 (- 1000) \<le> q"
  proof -
    have "pow2 (- 1000) \<le> 1 / 2 ^ 53" by (simp add: pow2_def)
    also have "\<dots> \<le> q" unfolding q_def using ab by (intro frac_le) simp_all
    finally show ?thesis .
  qed
  have "q \<le> of_int a" unfolding q_def using ab by (simp add: divide_le_eq mult_le_cancel_left1)
  then have big: "q < pow2 1000" using ab by (simp add: pow2_def)
  obtain r where r: "round64 (fneg (FNum (of_int a)) \<noteq> fneg (FNum (of_int b))) q = FNum r" "0 < r" "\<bar>r - q\<bar> \<le> q / 2 ^ 53"
    using round64_error[OF small big] by blast
  have div: "f64_of_int a div f64_of_int b = FNum r"
    using r(1) assms by (simp add: f64_of_int_exact divide_f64_def q_def)
  have err: "r - q \<le> q / 2 ^ 53" "- (r - q) \<le> q / 2 ^ 53" using r(3) by (simp_all only: abs_le_iff)
  have gap: "q / 2 ^ 53 < 1 / of_int b"
    using ab qb by (simp add: field_simps)
  have step: "of_int n + 1 / of_int b \<le> q" if "n * b < a" for n
  proof -
    have "rat_of_int (n * b + 1) \<le> of_int a" using that by (subst of_int_le_iff) simp
    then have "(of_int n * of_int b + 1) / of_int b \<le> of_int a / rat_of_int b"
      using ab by (intro divide_right_mono) simp_all
    then show ?thesis using ab by (simp add: q_def add_divide_distrib)
  qed
  have "of_int (a div b) \<le> r"
  proof (cases "b dvd a")
    case True
    then have "q = of_int (a div b)" using ab by (simp add: q_def of_int_div)
    moreover have "0 \<le> a div b" "a div b \<le> a"
      using assms by (simp_all add: pos_imp_zdiv_nonneg_iff int_div_le_self)
    then have "\<bar>a div b\<bar> \<le> 2 ^ 53" using assms by linarith
    ultimately have "round64 False q = FNum q"
      using f64_of_int_exact[of "a div b"] by (simp add: f64_of_int_def)
    then have "r = q" using r(1) assms by (simp add: q_def)
    then show ?thesis using \<open>q = of_int (a div b)\<close> by simp
  next
    case False
    then have "0 < a mod b" using assms by (simp add: dvd_eq_mod_eq_0 less_le)
    then have "a div b * b < a" using div_mult_mod_eq[of a b] by linarith
    from step[OF this] show ?thesis using gap err(2) by linarith
  qed
  then have "a div b \<le> \<lfloor>r\<rfloor>" by (simp add: le_floor_iff)
  moreover have "a \<le> \<lceil>r\<rceil> * b"
  proof (rule ccontr)
    assume "\<not> a \<le> \<lceil>r\<rceil> * b"
    then have "of_int \<lceil>r\<rceil> + 1 / of_int b \<le> q" using step by simp
    moreover have "r \<le> of_int \<lceil>r\<rceil>" by linarith
    ultimately show False using gap err(2) by linarith
  qed
  moreover have "r \<le> of_int a * 2"
  proof -
    have "0 < q" using small pow2_pos[of "- 1000"] by linarith
    then have "q / 2 ^ 53 \<le> q" by simp
    then show ?thesis using err(1) \<open>q \<le> of_int a\<close> by linarith
  qed
  ultimately show ?thesis using div r(2) by blast
qed

end
