(* ===== verification/Go_Strings.thy ===== *)
theory Go_Strings
  imports Float64
begin

text \<open>
  What the code uses of Go's \<open>strings\<close>, \<open>unicode\<close>, \<open>utf8\<close> and \<open>strconv\<close>. A Go string is a
  sequence of bytes, and so is HOL's \<^typ>\<open>string\<close>: a \<^typ>\<open>char\<close> is one byte. Indices that
  Go returns as \<open>-1\<close> for absent are of type \<open>nat option\<close> here.

  What depends on data tables of the Go distribution is a parameter, the record \<open>go_env\<close>: which
  code points from 128 on are letters, how \<open>strings.ToLower\<close> maps a string with bytes from 128
  on, which code points are in the configured \<open>parser.RangeTables\<close>, and how a non-zero
  \<open>float64\<close> is printed. On ASCII everything is defined here.
\<close>

section \<open>Bytes\<close>

definition byte :: "char \<Rightarrow> nat" where
  "byte c = of_char c"

definition is_digit :: "char \<Rightarrow> bool" where
  "is_digit c \<longleftrightarrow> 48 \<le> byte c \<and> byte c \<le> 57"

definition is_ascii :: "char \<Rightarrow> bool" where
  "is_ascii c \<longleftrightarrow> byte c < 128"

definition lower_byte :: "char \<Rightarrow> char" where
  "lower_byte c = (if 65 \<le> byte c \<and> byte c \<le> 90 then char_of (byte c + 32) else c)"

record go_env =
  uni_letter :: "nat \<Rightarrow> bool"
  uni_lower :: "string \<Rightarrow> string"
  range_tables :: "nat \<Rightarrow> bool"
  fmt_float :: "f64 \<Rightarrow> string"

text \<open>\<open>fmt.Sprint\<close> of a float; plus zero prints as \<open>0\<close>.\<close>

definition Sprint_f64 :: "go_env \<Rightarrow> f64 \<Rightarrow> string" where
  "Sprint_f64 E x = (if x = FNum 0 then ''0'' else fmt_float E x)"

section \<open>UTF-8\<close>

definition RuneError :: nat where
  "RuneError = 65533"

definition cont_byte :: "nat \<Rightarrow> nat \<Rightarrow> char \<Rightarrow> bool" where
  "cont_byte lo hi c \<longleftrightarrow> lo \<le> byte c \<and> byte c \<le> hi"

text \<open>
  \<open>utf8.DecodeRuneInString\<close>: the code point at the front and its width in bytes, with
  \<open>(RuneError, 0)\<close> for the empty string and \<open>(RuneError, 1)\<close> for an invalid encoding (overlong
  forms, surrogates and values above U+10FFFF included).
\<close>

definition decode2 :: "nat \<Rightarrow> string \<Rightarrow> nat \<times> nat" where
  "decode2 b cs =
     (case cs of
        c1 # _ \<Rightarrow> if cont_byte 128 191 c1 then ((b - 192) * 64 + (byte c1 - 128), 2) else (RuneError, 1)
      | _ \<Rightarrow> (RuneError, 1))"

definition decode3 :: "nat \<Rightarrow> string \<Rightarrow> nat \<times> nat" where
  "decode3 b cs =
     (case cs of
        c1 # c2 # _ \<Rightarrow>
          if cont_byte (if b = 224 then 160 else 128) (if b = 237 then 159 else 191) c1 \<and> cont_byte 128 191 c2
          then ((b - 224) * 4096 + (byte c1 - 128) * 64 + (byte c2 - 128), 3)
          else (RuneError, 1)
      | _ \<Rightarrow> (RuneError, 1))"

definition decode4 :: "nat \<Rightarrow> string \<Rightarrow> nat \<times> nat" where
  "decode4 b cs =
     (case cs of
        c1 # c2 # c3 # _ \<Rightarrow>
          if cont_byte (if b = 240 then 144 else 128) (if b = 244 then 143 else 191) c1
             \<and> cont_byte 128 191 c2 \<and> cont_byte 128 191 c3
          then ((b - 240) * 262144 + (byte c1 - 128) * 4096 + (byte c2 - 128) * 64 + (byte c3 - 128), 4)
          else (RuneError, 1)
      | _ \<Rightarrow> (RuneError, 1))"

fun decode_rune :: "string \<Rightarrow> nat \<times> nat" where
  "decode_rune [] = (RuneError, 0)"
| "decode_rune (c # cs) =
     (let b = byte c
      in if b < 128 then (b, 1)
         else if 194 \<le> b \<and> b \<le> 223 then decode2 b cs
         else if 224 \<le> b \<and> b \<le> 239 then decode3 b cs
         else if 240 \<le> b \<and> b \<le> 244 then decode4 b cs
         else (RuneError, 1))"

lemma decode_rune_width:
  "snd (decode_rune (c # cs)) \<ge> 1 \<and> snd (decode_rune (c # cs)) \<le> length (c # cs)"
  by (auto simp: Let_def decode2_def decode3_def decode4_def split: list.splits)

lemma decode_rune_ascii: "is_ascii c \<Longrightarrow> decode_rune (c # cs) = (byte c, 1)"
  by (simp add: is_ascii_def Let_def)


declare decode_rune.simps [simp del]

lemma decode_rune_pos: "s \<noteq> [] \<Longrightarrow> (r, w) = decode_rune s \<Longrightarrow> 1 \<le> w \<and> w \<le> length s"
  using decode_rune_width by (cases s) (metis snd_conv)+

lemma decode_rune_shorter [go_len]:
  "s \<noteq> [] \<Longrightarrow> (r, w) = decode_rune s \<Longrightarrow> length s - w < length s"
  using decode_rune_pos by fastforce

text \<open>\<open>unicode.IsSpace\<close> is defined by an explicit list of code points.\<close>

definition is_space :: "nat \<Rightarrow> bool" where
  "is_space r \<longleftrightarrow>
     (9 \<le> r \<and> r \<le> 13) \<or> r = 32 \<or> r = 133 \<or> r = 160 \<or> r = 5760 \<or> (8192 \<le> r \<and> r \<le> 8202)
     \<or> r = 8232 \<or> r = 8233 \<or> r = 8239 \<or> r = 8287 \<or> r = 12288"

definition is_letter :: "go_env \<Rightarrow> nat \<Rightarrow> bool" where
  "is_letter U r =
     (if r < 128 then (65 \<le> r \<and> r \<le> 90) \<or> (97 \<le> r \<and> r \<le> 122)
      else r \<noteq> RuneError \<and> uni_letter U r)"

section \<open>Package strings\<close>

definition HasPrefix :: "string \<Rightarrow> string \<Rightarrow> bool" where
  "HasPrefix s p \<longleftrightarrow> take (length p) s = p"

definition HasSuffix :: "string \<Rightarrow> string \<Rightarrow> bool" where
  "HasSuffix s p \<longleftrightarrow> HasPrefix (rev s) (rev p)"

definition ToLower :: "go_env \<Rightarrow> string \<Rightarrow> string" where
  "ToLower U s = (if list_all is_ascii s then map lower_byte s else uni_lower U s)"

fun index_byte :: "char \<Rightarrow> string \<Rightarrow> nat option" where
  "index_byte c [] = None"
| "index_byte c (x # xs) = (if x = c then Some 0 else map_option Suc (index_byte c xs))"

text \<open>\<open>strings.ReplaceAll\<close> with a one-byte pattern.\<close>

definition ReplaceAll1 :: "string \<Rightarrow> char \<Rightarrow> string \<Rightarrow> string" where
  "ReplaceAll1 s c new = concat (map (\<lambda>x. if x = c then new else [x]) s)"

text \<open>\<open>strings.Split\<close> with a one-byte separator, and \<open>strings.Join\<close>.\<close>

fun Split1 :: "string \<Rightarrow> char \<Rightarrow> string list" where
  "Split1 [] c = [[]]"
| "Split1 (x # xs) c =
     (if x = c then [] # Split1 xs c
      else (case Split1 xs c of [] \<Rightarrow> [[x]] | y # ys \<Rightarrow> (x # y) # ys))"

fun Join :: "string list \<Rightarrow> string \<Rightarrow> string" where
  "Join [] sep = []"
| "Join [x] sep = x"
| "Join (x # y # ys) sep = x @ sep @ Join (y # ys) sep"

definition ContainsAny :: "string \<Rightarrow> string \<Rightarrow> bool" where
  "ContainsAny s chars \<longleftrightarrow> list_ex (\<lambda>c. c \<in> set chars) s"

lemma index_byte_Some:
  "index_byte c s = Some i \<Longrightarrow> i < length s \<and> s ! i = c \<and> c \<notin> set (take i s)"
proof (induction s arbitrary: i)
  case Nil
  then show ?case by simp
next
  case (Cons x xs)
  then show ?case by (cases i) (auto split: if_splits)
qed

lemma index_byte_None: "index_byte c s = None \<longleftrightarrow> c \<notin> set s"
  by (induction s) auto

lemma index_byte_append: "c \<notin> set xs \<Longrightarrow> index_byte c (xs @ c # ys) = Some (length xs)"
  by (induction xs) auto

lemma Split1_nonempty [simp]: "Split1 s c \<noteq> []"
  by (induction s) (auto split: list.splits)

text \<open>Splitting and joining are inverse on pieces without the separator.\<close>

lemma Join_Split1: "Join (Split1 s c) [c] = s"
proof (induction s)
  case Nil
  then show ?case by simp
next
  case (Cons x xs)
  then show ?case
    by (cases "Split1 xs c"; cases "tl (Split1 xs c)") (auto split: list.splits)
qed

lemma Split1_no_sep: "p \<in> set (Split1 s c) \<Longrightarrow> c \<notin> set p"
proof (induction s arbitrary: p)
  case Nil
  then show ?case by simp
next
  case (Cons x xs)
  then show ?case by (cases "Split1 xs c") (auto split: if_splits)
qed

lemma Split1_append: "c \<notin> set p \<Longrightarrow> Split1 (p @ c # s) c = p # Split1 s c"
  by (induction p) auto

lemma Split1_single: "c \<notin> set p \<Longrightarrow> Split1 p c = [p]"
  by (induction p) auto

lemma Split1_Join:
  "ps \<noteq> [] \<Longrightarrow> \<forall>p\<in>set ps. c \<notin> set p \<Longrightarrow> Split1 (Join ps [c]) c = ps"
proof (induction ps "[c]" rule: Join.induct)
  case 1
  then show ?case by simp
next
  case (2 x)
  then show ?case by (simp add: Split1_single)
next
  case (3 x y ys)
  then show ?case by (simp add: Split1_append)
qed

section \<open>Package strconv\<close>

datatype num_error = ErrSyntax | ErrRange

definition digit_val :: "char \<Rightarrow> int" where
  "digit_val c = int (byte c) - 48"

text \<open>The value of a string of decimal digits, \<open>None\<close> when it has another byte.\<close>

fun dec_val :: "int \<Rightarrow> string \<Rightarrow> int option" where
  "dec_val n [] = Some n"
| "dec_val n (c # cs) = (if is_digit c then dec_val (10 * n + digit_val c) cs else None)"

definition strip_sign :: "string \<Rightarrow> bool \<times> string" where
  "strip_sign s =
     (case s of
        c # cs \<Rightarrow> if c = CHR ''-'' then (True, cs) else if c = CHR ''+'' then (False, cs) else (False, s)
      | [] \<Rightarrow> (False, []))"

definition Atoi :: "string \<Rightarrow> num_error + int" where
  "Atoi s =
     (case strip_sign s of (neg, ds) \<Rightarrow>
        if ds = [] then Inl ErrSyntax
        else (case dec_val 0 ds of
                None \<Rightarrow> Inl ErrSyntax
              | Some n \<Rightarrow> (let v = (if neg then - n else n)
                          in if in_int64 v then Inr v else Inl ErrRange)))"

text \<open>Decimal printing (\<open>strconv.AppendInt\<close>, base 10) and its inverse.\<close>

definition digit_char :: "int \<Rightarrow> char" where
  "digit_char d = char_of (nat (48 + d))"

function dec_digits :: "int \<Rightarrow> string" where
  "dec_digits n = (if n < 10 then [digit_char n] else dec_digits (n div 10) @ [digit_char (n mod 10)])"
  by pat_completeness auto
termination
  by (relation "measure nat") auto

declare dec_digits.simps [simp del]

definition FormatInt :: "int \<Rightarrow> string" where
  "FormatInt n = (if n < 0 then CHR ''-'' # dec_digits (- n) else dec_digits n)"

lemma byte_digit_char: "0 \<le> d \<Longrightarrow> d < 10 \<Longrightarrow> byte (digit_char d) = nat (48 + d)"
  by (simp add: byte_def digit_char_def)

lemma is_digit_digit_char: "0 \<le> d \<Longrightarrow> d < 10 \<Longrightarrow> is_digit (digit_char d)"
  by (simp add: is_digit_def byte_digit_char nat_le_iff)

lemma digit_val_digit_char: "0 \<le> d \<Longrightarrow> d < 10 \<Longrightarrow> digit_val (digit_char d) = d"
  by (simp add: digit_val_def byte_digit_char)

lemma dec_digits_nonempty [simp]: "dec_digits n \<noteq> []"
  by (subst dec_digits.simps) simp

lemma dec_digits_are_digits: "0 \<le> n \<Longrightarrow> list_all is_digit (dec_digits n)"
proof (induction n rule: dec_digits.induct)
  case (1 n)
  then show ?case
    by (subst dec_digits.simps) (simp add: is_digit_digit_char)
qed

lemma dec_val_append: "dec_val n (xs @ ys) = Option.bind (dec_val n xs) (\<lambda>m. dec_val m ys)"
  by (induction xs arbitrary: n) auto

lemma dec_val_dec_digits: "0 \<le> n \<Longrightarrow> dec_val 0 (dec_digits n) = Some n"
proof (induction n rule: dec_digits.induct)
  case (1 n)
  show ?case
  proof (cases "n < 10")
    case True
    with "1.prems" show ?thesis
      by (subst dec_digits.simps) (simp add: is_digit_digit_char digit_val_digit_char)
  next
    case False
    with "1" show ?thesis
      by (subst dec_digits.simps) (simp add: dec_val_append is_digit_digit_char digit_val_digit_char)
  qed
qed

lemma digit_not_sign: "is_digit c \<Longrightarrow> c \<noteq> CHR ''-'' \<and> c \<noteq> CHR ''+''"
  by (auto simp: is_digit_def byte_def)

lemma strip_sign_digits: "list_all is_digit s \<Longrightarrow> strip_sign s = (False, s)"
  by (cases s) (auto simp: strip_sign_def digit_not_sign)

lemma Atoi_dec_digits: "0 \<le> n \<Longrightarrow> in_int64 n \<Longrightarrow> Atoi (dec_digits n) = Inr n"
  by (simp add: Atoi_def strip_sign_digits dec_digits_are_digits dec_val_dec_digits)

text \<open>Parsing what \<open>strconv\<close> printed gives the number back.\<close>

lemma Atoi_FormatInt: "in_int64 n \<Longrightarrow> Atoi (FormatInt n) = Inr n"
  by (simp add: FormatInt_def Atoi_dec_digits)
    (simp add: Atoi_def strip_sign_def dec_val_dec_digits)

text \<open>
  Underscores in numbers (\<open>underscoreOK\<close> of strconv): each separates two digits, a base prefix
  counting as a digit. The flag \<open>saw\<close> is 1 after a digit, 2 after an underscore and 0 otherwise.
\<close>

definition hex_letter :: "char \<Rightarrow> bool" where
  "hex_letter c \<longleftrightarrow> 97 \<le> byte (lower_byte c) \<and> byte (lower_byte c) \<le> 102"

fun underscore_loop :: "bool \<Rightarrow> nat \<Rightarrow> string \<Rightarrow> bool" where
  "underscore_loop hex saw [] = (saw \<noteq> 2)"
| "underscore_loop hex saw (c # cs) =
     (if is_digit c \<or> (hex \<and> hex_letter c) then underscore_loop hex 1 cs
      else if c = CHR ''_'' then saw = 1 \<and> underscore_loop hex 2 cs
      else saw \<noteq> 2 \<and> underscore_loop hex 0 cs)"

definition underscoreOK :: "string \<Rightarrow> bool" where
  "underscoreOK s0 =
     (let s = snd (strip_sign s0)
      in case s of
           z # b # rest \<Rightarrow>
             if z = CHR ''0'' \<and> lower_byte b \<in> set ''box''
             then underscore_loop (lower_byte b = CHR ''x'') 1 rest
             else underscore_loop False 0 s
         | _ \<Rightarrow> underscore_loop False 0 s)"

text \<open>\<open>strconv.ParseInt(s, 0, 32)\<close>, with the base taken from the prefix.\<close>

fun base_val :: "int \<Rightarrow> int \<Rightarrow> string \<Rightarrow> int option" where
  "base_val base n [] = Some n"
| "base_val base n (c # cs) =
     (if c = CHR ''_'' then base_val base n cs
      else (let l = lower_byte c;
                d = (if is_digit c then digit_val c
                     else if 97 \<le> byte l \<and> byte l \<le> 122 then int (byte l) - 87 else 99)
            in if d < base then base_val base (base * n + d) cs else None))"

definition int_base :: "string \<Rightarrow> int \<times> string" where
  "int_base s =
     (case s of
        z # rest \<Rightarrow>
          if z \<noteq> CHR ''0'' then (10, s)
          else (case rest of
                  b # d # ds \<Rightarrow>
                    if lower_byte b = CHR ''b'' then (2, d # ds)
                    else if lower_byte b = CHR ''o'' then (8, d # ds)
                    else if lower_byte b = CHR ''x'' then (16, d # ds)
                    else (8, rest)
                | _ \<Rightarrow> (8, rest))
      | [] \<Rightarrow> (10, s))"

definition ParseInt32 :: "string \<Rightarrow> num_error + int" where
  "ParseInt32 s =
     (case strip_sign s of (neg, us) \<Rightarrow>
        if us = [] then Inl ErrSyntax
        else (case int_base us of (base, ds) \<Rightarrow>
                (case base_val base 0 ds of
                   None \<Rightarrow> Inl ErrSyntax
                 | Some n \<Rightarrow>
                     if CHR ''_'' \<in> set us \<and> \<not> underscoreOK us then Inl ErrSyntax
                     else (let v = (if neg then - n else n)
                           in if in_int32 v then Inr v else Inl ErrRange))))"

text \<open>
  \<open>strconv.ParseFloat(s, 64)\<close>: decimal and hexadecimal literals and the special names. The
  mantissa scanner returns whether it saw a digit, the digits as one integer, how many of them
  follow the point, and the rest.
\<close>

fun scan_mant :: "bool \<Rightarrow> bool \<Rightarrow> bool \<Rightarrow> int \<Rightarrow> nat \<Rightarrow> string \<Rightarrow> bool \<times> int \<times> nat \<times> string" where
  "scan_mant hex sawdot sawdig m fd [] = (sawdig, m, fd, [])"
| "scan_mant hex sawdot sawdig m fd (c # cs) =
     (let fd' = (if sawdot then Suc fd else fd); base = (if hex then 16 else 10)
      in if c = CHR ''_'' then scan_mant hex sawdot sawdig m fd cs
         else if c = CHR ''.''
         then (if sawdot then (sawdig, m, fd, c # cs) else scan_mant hex True sawdig m fd cs)
         else if is_digit c then scan_mant hex sawdot True (base * m + digit_val c) fd' cs
         else if hex \<and> hex_letter c
         then scan_mant hex sawdot True (base * m + (int (byte (lower_byte c)) - 87)) fd' cs
         else (sawdig, m, fd, c # cs))"

fun scan_exp :: "int \<Rightarrow> string \<Rightarrow> int \<times> string" where
  "scan_exp e [] = (e, [])"
| "scan_exp e (c # cs) =
     (if c = CHR ''_'' then scan_exp e cs
      else if is_digit c then scan_exp (if e < 10000 then 10 * e + digit_val c else e) cs
      else (e, c # cs))"

definition pow10 :: "int \<Rightarrow> rat" where
  "pow10 e = (if 0 \<le> e then 10 ^ nat e else 1 / 10 ^ nat (- e))"

definition float_exponent :: "char \<Rightarrow> string \<Rightarrow> (int \<times> string) option" where
  "float_exponent ec s =
     (case s of
        [] \<Rightarrow> Some (0, [])
      | c # cs \<Rightarrow>
          if lower_byte c \<noteq> ec then Some (0, s)
          else (case strip_sign cs of (neg, ds) \<Rightarrow>
                  (case ds of
                     d # _ \<Rightarrow>
                       if is_digit d
                       then (case scan_exp 0 ds of (e, rest) \<Rightarrow> Some (if neg then - e else e, rest))
                       else None
                   | [] \<Rightarrow> None)))"

definition special_float :: "string \<Rightarrow> f64 option" where
  "special_float s =
     (case strip_sign s of (neg, r) \<Rightarrow>
        (let l = map lower_byte r
         in if l = ''inf'' \<or> l = ''infinity'' then Some (FInf neg)
            else if map lower_byte s = ''nan'' then Some FNaN else None))"

definition is_hex_float :: "string \<Rightarrow> bool" where
  "is_hex_float us =
     (case us of z # x # _ # _ \<Rightarrow> z = CHR ''0'' \<and> lower_byte x = CHR ''x'' | _ \<Rightarrow> False)"

definition ParseFloat :: "string \<Rightarrow> num_error + f64" where
  "ParseFloat s =
     (case special_float s of
        Some x \<Rightarrow> Inr x
      | None \<Rightarrow>
          (case strip_sign s of (neg, us) \<Rightarrow>
             (let hex = is_hex_float us
              in case scan_mant hex False False 0 0 (if hex then drop 2 us else us) of
                   (sawdig, m, fd, rest) \<Rightarrow>
                     if \<not> sawdig then Inl ErrSyntax
                     else (case float_exponent (if hex then CHR ''p'' else CHR ''e'') rest of
                             None \<Rightarrow> Inl ErrSyntax
                           | Some (e, rest') \<Rightarrow>
                               if rest' \<noteq> [] \<or> (hex \<and> rest = [])
                                  \<or> (CHR ''_'' \<in> set s \<and> \<not> underscoreOK s)
                               then Inl ErrSyntax
                               else (let q = (if hex then of_int m * pow2 (e - 4 * int fd)
                                              else of_int m * pow10 (e - int fd));
                                         x = round64 neg (if neg then - q else q)
                                     in if isInf x then Inl ErrRange else Inr x)))))"

end
