(* ===== verification/Parser_Types.thy ===== *)
theory Parser_Types
  imports Go_Strings "HOL-Library.AList"
begin

text \<open>
  The data of the expression parser: the error values of \<open>pkg/parser/interface.go\<close>, the kinds
  of expressions and the struct \<open>expr\<close> of \<open>pkg/parser/parser.go\<close> with its printing and its
  constructors. A map from argument names to expressions is an association list with distinct
  keys (the nil map is the empty list); \<open>AList.update\<close> is the map assignment.
\<close>

section \<open>Errors and kinds\<close>

datatype parser_error =
    ErrMissingExpr
  | ErrMissingComma
  | ErrMissingQuote
  | ErrUnexpectedCharacter
  | ErrBadType
  | ErrMissingArgument
  | ErrMissingTimeseries
  | ErrMissingValues
  | ErrUnknownTimeUnits
  | ErrInvalidArg
  | ErrInvalidInterval
  | ErrNum num_error
  | ErrIntervalOutOfRange
  | ErrPipeToNotFunction

datatype ExprType = EtName | EtFunc | EtConst | EtString | EtBool

section \<open>Expressions\<close>

datatype expr = Expr
  (target: string)
  (etype: ExprType)
  (val: f64)
  (valStr: string)
  (args: "expr list")
  (namedArgs: "(string \<times> expr) list")
  (argString: string)

text \<open>\<open>&expr{}\<close>: every field has its zero value.\<close>

definition zero_expr :: expr where
  "zero_expr = Expr [] EtName (FNum 0) [] [] [] []"

primrec set_target :: "string \<Rightarrow> expr \<Rightarrow> expr" where
  "set_target t (Expr t' k v vs as ns s) = Expr t k v vs as ns s"

primrec set_valStr :: "string \<Rightarrow> expr \<Rightarrow> expr" where
  "set_valStr w (Expr t k v vs as ns s) = Expr t k v w as ns s"

primrec set_argString :: "string \<Rightarrow> expr \<Rightarrow> expr" where
  "set_argString w (Expr t k v vs as ns s) = Expr t k v vs as ns w"

definition IsName :: "expr \<Rightarrow> bool" where "IsName e \<longleftrightarrow> etype e = EtName"
definition IsFunc :: "expr \<Rightarrow> bool" where "IsFunc e \<longleftrightarrow> etype e = EtFunc"
definition IsConst :: "expr \<Rightarrow> bool" where "IsConst e \<longleftrightarrow> etype e = EtConst"
definition IsString :: "expr \<Rightarrow> bool" where "IsString e \<longleftrightarrow> etype e = EtString"
definition IsBool :: "expr \<Rightarrow> bool" where "IsBool e \<longleftrightarrow> etype e = EtBool"

lemmas expr_kind_defs = IsName_def IsFunc_def IsConst_def IsString_def IsBool_def

definition escape_string :: "string \<Rightarrow> string" where
  "escape_string s = ReplaceAll1 (ReplaceAll1 s (CHR 0x5C) [CHR 0x5C, CHR 0x5C]) (CHR 0x27) [CHR 0x5C, CHR 0x27]"

definition ToString :: "go_env \<Rightarrow> expr \<Rightarrow> string" where
  "ToString E e =
     (case etype e of
        EtFunc \<Rightarrow> target e @ ''('' @ argString e @ '')''
      | EtConst \<Rightarrow> valStr e
      | EtString \<Rightarrow> [CHR 0x27] @ escape_string (valStr e) @ [CHR 0x27]
      | EtBool \<Rightarrow> Sprint_f64 E (val e)
      | EtName \<Rightarrow> target e)"

section \<open>Constructors\<close>

definition NewTargetExpr :: "string \<Rightarrow> expr" where
  "NewTargetExpr t = Expr t EtName (FNum 0) [] [] [] t"

definition NewNameExpr :: "string \<Rightarrow> expr" where
  "NewNameExpr n = Expr n EtName (FNum 0) [] [] [] n"

definition NewConstExpr :: "go_env \<Rightarrow> f64 \<Rightarrow> expr" where
  "NewConstExpr E v = Expr [] EtConst v [] [] [] (Sprint_f64 E v)"

definition NewValueExpr :: "string \<Rightarrow> expr" where
  "NewValueExpr w = Expr [] EtString (FNum 0) w [] [] w"

definition NewExprTyped :: "string \<Rightarrow> expr list \<Rightarrow> expr" where
  "NewExprTyped t as = Expr t EtFunc (FNum 0) [] as [] (Join (map target as) '','')"

text \<open>The dynamically typed arguments \<open>NewExpr\<close> takes, and its named arguments.\<close>

datatype arg_value =
    ArgName string
  | ArgValue string
  | ArgFloat f64
  | ArgInt int
  | ArgStr string
  | ArgExpr expr

datatype va_arg = VArg arg_value | NamedArgs "(string \<times> arg_value) list"

fun arg_expr :: "go_env \<Rightarrow> arg_value \<Rightarrow> expr" where
  "arg_expr E (ArgName n) = NewNameExpr n"
| "arg_expr E (ArgValue v) = NewValueExpr v"
| "arg_expr E (ArgFloat f) = NewConstExpr E f"
| "arg_expr E (ArgInt i) = NewConstExpr E (f64_of_int i)"
| "arg_expr E (ArgStr s) = NewTargetExpr s"
| "arg_expr E (ArgExpr e) = e"

definition mapExpr :: "go_env \<Rightarrow> (string \<times> arg_value) list \<Rightarrow> (string \<times> expr) list" where
  "mapExpr E m = map (\<lambda>(k, a). (k, arg_expr E a)) m"

definition mergeNamedArgs :: "(string \<times> expr) list \<Rightarrow> (string \<times> expr) list \<Rightarrow> (string \<times> expr) list" where
  "mergeNamedArgs arg1 arg2 = AList.updates (map fst arg2) (map snd arg2) arg1"

fun sliceExpr :: "go_env \<Rightarrow> va_arg list \<Rightarrow> expr list \<Rightarrow> (string \<times> expr) list \<Rightarrow> expr list \<times> (string \<times> expr) list" where
  "sliceExpr E [] res nArgs = (res, nArgs)"
| "sliceExpr E (VArg a # as) res nArgs = sliceExpr E as (res @ [arg_expr E a]) nArgs"
| "sliceExpr E (NamedArgs m # as) res nArgs = sliceExpr E as res (mergeNamedArgs nArgs (mapExpr E m))"

text \<open>
  \<open>NewExpr\<close> panics when there is no positional argument (\<open>args == nil\<close>). The order in which it
  prints the named arguments is the map iteration order, here the order of the list.
\<close>

definition NewExpr :: "go_env \<Rightarrow> string \<Rightarrow> va_arg list \<Rightarrow> expr go_result" where
  "NewExpr E t va =
     (case sliceExpr E va [] [] of (as, ns) \<Rightarrow>
        if as = [] then Panic
        else Some (Expr t EtFunc (FNum 0) [] as ns
               (Join (map argString as @ map (\<lambda>(k, v). k @ ''='' @ argString v) ns) '','')))"

end
