(* ===== verification/Interval.thy ===== *)
theory Interval
  imports Parser_Types
begin

text \<open>
  \<open>pkg/parser/interval.go\<close>: \<open>IntervalString\<close> turns strings such as \<open>-1h30min\<close> into seconds.
  The running total is an \<open>int64\<close> and wraps, so it is a 64-bit word; the range check looks at
  its signed value once at the end, as the code does.
\<close>

section \<open>The code\<close>

definition interval_units :: "string \<Rightarrow> int option" where
  "interval_units u =
     (if u \<in> set [''s'', ''sec'', ''secs'', ''second'', ''seconds''] then Some 1
      else if u \<in> set [''m'', ''min'', ''mins'', ''minute'', ''minutes''] then Some 60
      else if u \<in> set [''h'', ''hr'', ''hrs'', ''hour'', ''hours''] then Some (60 * 60)
      else if u \<in> set [''d'', ''day'', ''days''] then Some (24 * 60 * 60)
      else if u \<in> set [''w'', ''wk'', ''wks'', ''week'', ''weeks''] then Some (7 * 24 * 60 * 60)
      else if u \<in> set [''mon'', ''month'', ''months''] then Some (30 * 24 * 60 * 60)
      else if u \<in> set [''y'', ''yr'', ''yrs'', ''year'', ''years''] then Some (365 * 24 * 60 * 60)
      else None)"

text \<open>One round of the loop takes a run of digits, then a run of non-digits.\<close>

lemma interval_span_shorter:
  "s \<noteq> [] \<Longrightarrow> length (dropWhile (\<lambda>c. \<not> is_digit c) (dropWhile is_digit s)) < length s"
proof (cases s)
  case (Cons c cs)
  have "length (dropWhile P xs) \<le> length xs" for P :: "char \<Rightarrow> bool" and xs
    by (rule length_dropWhile_le)
  then have "length (dropWhile (\<lambda>c. \<not> is_digit c) (dropWhile is_digit cs)) \<le> length cs"
    "length (dropWhile (\<lambda>c. \<not> is_digit c) cs) \<le> length cs"
    by (meson le_trans)+
  with Cons show ?thesis by (simp add: less_Suc_eq_le)
qed simp

function interval_loop :: "go_env \<Rightarrow> int \<Rightarrow> string \<Rightarrow> 64 word \<Rightarrow> parser_error + 64 word" where
  "interval_loop E sign s tot =
     (if s = [] then Inr tot
      else (let offsetStr = takeWhile is_digit s;
                s1 = dropWhile is_digit s;
                unitStr = takeWhile (\<lambda>c. \<not> is_digit c) s1;
                s2 = dropWhile (\<lambda>c. \<not> is_digit c) s1
            in case interval_units (ToLower E unitStr) of
                 None \<Rightarrow> Inl ErrUnknownTimeUnits
               | Some units \<Rightarrow>
                   (case Atoi offsetStr of
                      Inl err \<Rightarrow> Inl (ErrNum err)
                    | Inr offset \<Rightarrow>
                        interval_loop E sign s2
                          (tot + of_int sign * of_int offset * of_int units))))"
  by pat_completeness auto
termination
  by (relation "measure (\<lambda>(E, sign, s, tot). length s)") (auto simp: interval_span_shorter)

declare interval_loop.simps [simp del]

definition IntervalString :: "go_env \<Rightarrow> string \<Rightarrow> int \<Rightarrow> parser_error + int" where
  "IntervalString E s defaultSign =
     (if s = [] then Inl ErrUnknownTimeUnits
      else if s = ''-'' \<or> s = ''+'' then Inl ErrUnknownTimeUnits
      else (let (sign, s') = (if hd s = CHR ''-'' then (- 1, tl s)
                              else if hd s = CHR ''+'' then (1, tl s)
                              else (defaultSign, s))
            in case interval_loop E sign s' 0 of
                 Inl err \<Rightarrow> Inl err
               | Inr tot \<Rightarrow>
                   if sint tot > 2147483647 \<or> sint tot < - 2147483648
                   then Inl ErrIntervalOutOfRange
                   else Inr (sint tot)))"

definition TruthyBool :: "string \<Rightarrow> bool" where
  "TruthyBool s =
     (if s \<in> set ['''', ''0'', ''false'', ''False'', ''no'', ''No''] then False
      else if s \<in> set [''1'', ''true'', ''True'', ''yes'', ''Yes''] then True
      else False)"

section \<open>What an interval string means\<close>

text \<open>
  An interval in its written form: an optional sign and a list of counts with their units. Its
  meaning is the signed sum of the products.
\<close>

definition interval_text :: "char option \<Rightarrow> (int \<times> string) list \<Rightarrow> string" where
  "interval_text sg ps = (case sg of None \<Rightarrow> [] | Some c \<Rightarrow> [c]) @ concat (map (\<lambda>(n, u). dec_digits n @ u) ps)"

definition interval_sum :: "(int \<times> string) list \<Rightarrow> int" where
  "interval_sum ps = sum_list (map (\<lambda>(n, u). n * the (interval_units u)) ps)"

definition interval_piece :: "int \<times> string \<Rightarrow> bool" where
  "interval_piece p \<longleftrightarrow> 0 \<le> fst p \<and> interval_units (snd p) \<noteq> None"

definition interval_sign :: "char option \<Rightarrow> int \<Rightarrow> int" where
  "interval_sign sg d = (case sg of None \<Rightarrow> d | Some c \<Rightarrow> if c = CHR ''-'' then - 1 else 1)"

definition interval_unit_names :: "string list" where
  "interval_unit_names =
     [''s'', ''sec'', ''secs'', ''second'', ''seconds'', ''m'', ''min'', ''mins'', ''minute'', ''minutes'',
      ''h'', ''hr'', ''hrs'', ''hour'', ''hours'', ''d'', ''day'', ''days'',
      ''w'', ''wk'', ''wks'', ''week'', ''weeks'', ''mon'', ''month'', ''months'',
      ''y'', ''yr'', ''yrs'', ''year'', ''years'']"

lemma interval_unit_names:
  "list_all (\<lambda>u. list_all is_ascii u \<and> map lower_byte u = u \<and> list_all (\<lambda>c. \<not> is_digit c) u \<and> u \<noteq> [])
     interval_unit_names"
  by code_simp

lemma interval_units_known: "interval_units u = Some k \<Longrightarrow> u \<in> set interval_unit_names"
proof (rule ccontr)
  assume "interval_units u = Some k" and "u \<notin> set interval_unit_names"
  then show False by (simp add: interval_units_def interval_unit_names_def)
qed

lemma interval_units_pos:
  assumes "interval_units u = Some k"
  shows "1 \<le> k"
proof -
  have "1 \<le> k" if "(if a then Some 1 else if b then Some 60 else if c then Some (60 * 60)
      else if d then Some (24 * 60 * 60) else if e then Some (7 * 24 * 60 * 60)
      else if f then Some (30 * 24 * 60 * 60) else if g then Some (365 * 24 * 60 * 60)
      else None) = Some k" for a b c d e f g
    using that by (auto split: if_splits)
  then show ?thesis using assms unfolding interval_units_def by blast
qed

lemma interval_units_lower:
  assumes "interval_units u = Some k"
  shows "ToLower E u = u" and "list_all (\<lambda>c. \<not> is_digit c) u" and "u \<noteq> []"
  using interval_units_known [OF assms] interval_unit_names
  by (auto simp: list_all_iff ToLower_def)

lemma span_digits:
  assumes "list_all is_digit ds" and "list_all (\<lambda>c. \<not> is_digit c) u" and "u \<noteq> []"
  shows "takeWhile is_digit (ds @ u @ r) = ds" and "dropWhile is_digit (ds @ u @ r) = u @ r"
proof -
  have ds: "\<And>c. c \<in> set ds \<Longrightarrow> is_digit c" using assms(1) by (simp add: list_all_iff)
  obtain c u' where u: "u = c # u'" "\<not> is_digit c" using assms(2,3) by (cases u) auto
  show "takeWhile is_digit (ds @ u @ r) = ds"
    using ds u by (simp add: takeWhile_append2)
  show "dropWhile is_digit (ds @ u @ r) = u @ r"
    using ds u by (simp add: dropWhile_append2)
qed

lemma span_units:
  assumes "list_all (\<lambda>c. \<not> is_digit c) u" and "r = [] \<or> is_digit (hd r)"
  shows "takeWhile (\<lambda>c. \<not> is_digit c) (u @ r) = u" and "dropWhile (\<lambda>c. \<not> is_digit c) (u @ r) = r"
proof -
  have u: "\<And>c. c \<in> set u \<Longrightarrow> \<not> is_digit c" using assms(1) by (simp add: list_all_iff)
  show "takeWhile (\<lambda>c. \<not> is_digit c) (u @ r) = u"
    using u assms(2) by (cases r) (simp_all add: takeWhile_append2)
  show "dropWhile (\<lambda>c. \<not> is_digit c) (u @ r) = r"
    using u assms(2) by (cases r) (simp_all add: dropWhile_append2)
qed

lemma interval_text_starts:
  "list_all interval_piece ps \<Longrightarrow> interval_text None ps = [] \<or> is_digit (hd (interval_text None ps))"
proof (cases ps)
  case (Cons p ps')
  assume "list_all interval_piece ps"
  then have "list_all is_digit (dec_digits (fst p))"
    using Cons by (simp add: interval_piece_def dec_digits_are_digits)
  then show ?thesis
    using Cons by (cases "dec_digits (fst p)") (auto simp: interval_text_def split: prod.splits)
qed (simp add: interval_text_def)

lemma interval_sum_nonneg: "list_all interval_piece ps \<Longrightarrow> 0 \<le> interval_sum ps"
proof (induction ps)
  case Nil
  then show ?case by (simp add: interval_sum_def)
next
  case (Cons p ps)
  obtain k where "interval_units (snd p) = Some k" "0 \<le> fst p"
    using Cons.prems by (auto simp: interval_piece_def)
  moreover from this have "1 \<le> k" by (intro interval_units_pos)
  ultimately have "0 \<le> fst p * the (interval_units (snd p))" by simp
  then show ?case using Cons by (auto simp: interval_sum_def split: prod.splits)
qed

lemma interval_loop_text:
  "list_all interval_piece ps \<Longrightarrow> interval_sum ps < 2 ^ 63 \<Longrightarrow>
     interval_loop E sign (interval_text None ps) tot = Inr (tot + of_int (sign * interval_sum ps))"
proof (induction ps arbitrary: tot)
  case Nil
  then show ?case by (simp add: interval_text_def interval_sum_def interval_loop.simps)
next
  case (Cons p ps)
  obtain n u where p: "p = (n, u)" by (cases p)
  let ?rest = "interval_text None ps"
  obtain k where n: "0 \<le> n" and k: "interval_units u = Some k"
    using Cons.prems(1) p by (auto simp: interval_piece_def)
  have low: "ToLower E u = u" "list_all (\<lambda>c. \<not> is_digit c) u" "u \<noteq> []" "1 \<le> k"
    using interval_units_lower [OF k] interval_units_pos [OF k] by auto
  have sums: "interval_sum (p # ps) = n * k + interval_sum ps"
    using p k by (simp add: interval_sum_def)
  have tail: "0 \<le> interval_sum ps" using Cons.prems(1) by (simp add: interval_sum_nonneg)
  have "n * 1 \<le> n * k" using n low(4) by (intro mult_left_mono) simp_all
  then have n64: "in_int64 n" using Cons.prems(2) n tail sums by (simp add: in_int64_def)
  have text_eq: "interval_text None (p # ps) = dec_digits n @ u @ ?rest"
    using p by (simp add: interval_text_def)
  have tw: "takeWhile is_digit (dec_digits n @ u @ ?rest) = dec_digits n"
    "dropWhile is_digit (dec_digits n @ u @ ?rest) = u @ ?rest"
    using span_digits dec_digits_are_digits [OF n] low(2,3) by blast+
  have uw: "takeWhile (\<lambda>c. \<not> is_digit c) (u @ ?rest) = u"
    "dropWhile (\<lambda>c. \<not> is_digit c) (u @ ?rest) = ?rest"
    using span_units [OF low(2)] interval_text_starts Cons.prems(1) by auto
  have "interval_loop E sign (interval_text None (p # ps)) tot
      = interval_loop E sign ?rest (tot + of_int sign * of_int n * of_int k)"
    unfolding text_eq using n n64 low(1) k
    by (subst interval_loop.simps) (simp add: tw uw Atoi_dec_digits)
  also have "\<dots> = Inr (tot + of_int sign * of_int n * of_int k + of_int (sign * interval_sum ps))"
    using Cons.prems sums \<open>n * 1 \<le> n * k\<close> n by (intro Cons.IH) auto
  finally show ?case by (simp add: sums algebra_simps)
qed

lemma sint_of_int64: "in_int64 x \<Longrightarrow> sint (of_int x :: 64 word) = x"
  by (simp add: in_int64_def sint_sbintrunc' signed_take_bit_int_eq_self)

lemma interval_text_sign:
  "interval_text sg ps = (case sg of None \<Rightarrow> [] | Some c \<Rightarrow> [c]) @ interval_text None ps"
  by (simp add: interval_text_def)



text \<open>
  the range check comes after the int64 product has wrapped. A count of 2 to the 62
  minutes is far out of range, yet it is accepted and means zero seconds.
\<close>

lemma IntervalString_wraps: "IntervalString E ''4611686018427387904m'' 1 = Inr 0"
  by code_simp

end
