(* ===== verification/Parser_Args.thy ===== *)
theory Parser_Args
  imports Interval
begin

text \<open>
  The typed access to the arguments of a parsed call: the \<open>doGet...\<close> methods of
  \<open>pkg/parser/internal.go\<close> and the \<open>Get...\<close> methods of \<open>pkg/parser/parser.go\<close>. Every method
  that returns a value and an error in Go returns \<open>parser_error + 'a\<close> here; callers of the Go
  methods use the value only when the error is nil. Positions are natural numbers: the code
  calls the methods with constants.
\<close>

section \<open>Conversions of one argument\<close>

definition from_num :: "num_error + 'a \<Rightarrow> parser_error + 'a" where
  "from_num r = (case r of Inl e \<Rightarrow> Inl (ErrNum e) | Inr v \<Rightarrow> Inr v)"

definition doGetIntArg :: "expr \<Rightarrow> parser_error + int" where
  "doGetIntArg e =
     (if etype e \<noteq> EtConst
      then (if etype e = EtString then from_num (ParseInt32 (valStr e)) else Inl ErrBadType)
      else Inr (int_of_f64 (val e)))"

datatype IntOrInf = IOInf | IOInt int

definition doGetIntOrInfArg :: "go_env \<Rightarrow> expr \<Rightarrow> parser_error + IntOrInf" where
  "doGetIntOrInfArg E e =
     (if (etype e = EtName \<and> ToLower E (target e) = ''inf'')
         \<or> (etype e = EtString \<and> ToLower E (valStr e) = ''inf'')
      then Inr IOInf
      else (case doGetIntArg e of Inl err \<Rightarrow> Inl err | Inr i \<Rightarrow> Inr (IOInt i)))"

definition getNamedArg :: "expr \<Rightarrow> string \<Rightarrow> expr option" where
  "getNamedArg e name = map_of (namedArgs e) name"

definition doGetFloatArg :: "go_env \<Rightarrow> expr \<Rightarrow> parser_error + f64" where
  "doGetFloatArg E e =
     (if etype e \<noteq> EtConst
      then (if etype e = EtString then from_num (ParseFloat (valStr e))
            else if etype e = EtName \<and> ToLower E (target e) = ''inf'' then Inr (FInf False)
            else Inl ErrBadType)
      else Inr (val e))"

definition doGetStringArg :: "expr \<Rightarrow> parser_error + string" where
  "doGetStringArg e = (if etype e \<noteq> EtString then Inl ErrBadType else Inr (valStr e))"

definition doGetBoolArg :: "expr \<Rightarrow> parser_error + bool" where
  "doGetBoolArg e =
     (if etype e \<noteq> EtString \<and> etype e \<noteq> EtBool \<and> etype e \<noteq> EtConst then Inl ErrBadType
      else if valStr e \<in> set [''False'', ''false'', ''0''] then Inr False
      else if valStr e \<in> set [''True'', ''true'', ''1''] then Inr True
      else Inl ErrBadType)"

section \<open>Arguments by position\<close>

text \<open>The three shapes every typed getter has: required, with a default, named first.\<close>

definition req_arg :: "expr \<Rightarrow> nat \<Rightarrow> (expr \<Rightarrow> parser_error + 'a) \<Rightarrow> parser_error + 'a" where
  "req_arg e n conv = (if length (args e) \<le> n then Inl ErrMissingArgument else conv (args e ! n))"

definition def_arg :: "expr \<Rightarrow> nat \<Rightarrow> 'a \<Rightarrow> (expr \<Rightarrow> parser_error + 'a) \<Rightarrow> parser_error + 'a" where
  "def_arg e n d conv = (if length (args e) \<le> n then Inr d else conv (args e ! n))"

definition named_or :: "expr \<Rightarrow> string \<Rightarrow> (expr \<Rightarrow> parser_error + 'a) \<Rightarrow> parser_error + 'a \<Rightarrow> parser_error + 'a" where
  "named_or e k conv dflt = (case getNamedArg e k of Some a \<Rightarrow> conv a | None \<Rightarrow> dflt)"

definition NamedOrPosArg :: "expr \<Rightarrow> string \<Rightarrow> nat \<Rightarrow> expr option" where
  "NamedOrPosArg e name pos =
     (case getNamedArg e name of
        Some a \<Rightarrow> Some a
      | None \<Rightarrow> if length (args e) > pos then Some (args e ! pos) else None)"

definition GetStringArg :: "expr \<Rightarrow> nat \<Rightarrow> parser_error + string" where
  "GetStringArg e n = req_arg e n doGetStringArg"

definition GetStringArgDefault :: "expr \<Rightarrow> nat \<Rightarrow> string \<Rightarrow> parser_error + string" where
  "GetStringArgDefault e n s = def_arg e n s doGetStringArg"

definition GetStringNamedOrPosArgDefault :: "expr \<Rightarrow> string \<Rightarrow> nat \<Rightarrow> string \<Rightarrow> parser_error + string" where
  "GetStringNamedOrPosArgDefault e k n s = named_or e k doGetStringArg (GetStringArgDefault e n s)"

definition GetFloatArg :: "go_env \<Rightarrow> expr \<Rightarrow> nat \<Rightarrow> parser_error + f64" where
  "GetFloatArg E e n = req_arg e n (doGetFloatArg E)"

definition GetFloatArgDefault :: "go_env \<Rightarrow> expr \<Rightarrow> nat \<Rightarrow> f64 \<Rightarrow> parser_error + f64" where
  "GetFloatArgDefault E e n v = def_arg e n v (doGetFloatArg E)"

definition GetFloatNamedOrPosArgDefault :: "go_env \<Rightarrow> expr \<Rightarrow> string \<Rightarrow> nat \<Rightarrow> f64 \<Rightarrow> parser_error + f64" where
  "GetFloatNamedOrPosArgDefault E e k n v = named_or e k (doGetFloatArg E) (GetFloatArgDefault E e n v)"

definition GetIntArg :: "expr \<Rightarrow> nat \<Rightarrow> parser_error + int" where
  "GetIntArg e n = req_arg e n doGetIntArg"

definition GetIntArgDefault :: "expr \<Rightarrow> nat \<Rightarrow> int \<Rightarrow> parser_error + int" where
  "GetIntArgDefault e n d = def_arg e n d doGetIntArg"

definition GetIntNamedOrPosArgDefault :: "expr \<Rightarrow> string \<Rightarrow> nat \<Rightarrow> int \<Rightarrow> parser_error + int" where
  "GetIntNamedOrPosArgDefault e k n d = named_or e k doGetIntArg (GetIntArgDefault e n d)"

text \<open>
  The getters with indication return the value, whether the argument was there, and the error:
  a present argument that does not convert is still indicated as present.
\<close>

definition GetIntArgWithIndication :: "expr \<Rightarrow> nat \<Rightarrow> (parser_error + int) \<times> bool" where
  "GetIntArgWithIndication e n =
     (if length (args e) \<le> n then (Inr 0, False) else (doGetIntArg (args e ! n), True))"

definition GetIntNamedOrPosArgWithIndication :: "expr \<Rightarrow> string \<Rightarrow> nat \<Rightarrow> (parser_error + int) \<times> bool" where
  "GetIntNamedOrPosArgWithIndication e k n =
     (case getNamedArg e k of
        Some a \<Rightarrow> (doGetIntArg a, True)
      | None \<Rightarrow> GetIntArgWithIndication e n)"

definition GetIntOrInfArg :: "go_env \<Rightarrow> expr \<Rightarrow> nat \<Rightarrow> parser_error + IntOrInf" where
  "GetIntOrInfArg E e n = req_arg e n (doGetIntOrInfArg E)"

definition GetIntOrInfArgDefault :: "go_env \<Rightarrow> expr \<Rightarrow> nat \<Rightarrow> IntOrInf \<Rightarrow> parser_error + IntOrInf" where
  "GetIntOrInfArgDefault E e n d = def_arg e n d (doGetIntOrInfArg E)"

definition GetIntOrInfNamedOrPosArgDefault ::
  "go_env \<Rightarrow> expr \<Rightarrow> string \<Rightarrow> nat \<Rightarrow> IntOrInf \<Rightarrow> parser_error + IntOrInf" where
  "GetIntOrInfNamedOrPosArgDefault E e k n d =
     named_or e k (doGetIntOrInfArg E) (GetIntOrInfArgDefault E e n d)"

definition GetBoolArgDefault :: "expr \<Rightarrow> nat \<Rightarrow> bool \<Rightarrow> parser_error + bool" where
  "GetBoolArgDefault e n b = def_arg e n b doGetBoolArg"

definition GetBoolNamedOrPosArgDefault :: "expr \<Rightarrow> string \<Rightarrow> nat \<Rightarrow> bool \<Rightarrow> parser_error + bool" where
  "GetBoolNamedOrPosArgDefault e k n b = named_or e k doGetBoolArg (GetBoolArgDefault e n b)"

definition GetIntervalArg :: "go_env \<Rightarrow> expr \<Rightarrow> nat \<Rightarrow> int \<Rightarrow> parser_error + int" where
  "GetIntervalArg E e n defaultSign =
     req_arg e n (\<lambda>a.
       if etype a \<noteq> EtString then Inl ErrBadType
       else (case IntervalString E (valStr a) defaultSign of
               Inl _ \<Rightarrow> Inl ErrBadType
             | Inr seconds \<Rightarrow> Inr seconds))"

definition GetIntervalNamedOrPosArgDefault ::
  "go_env \<Rightarrow> expr \<Rightarrow> string \<Rightarrow> nat \<Rightarrow> int \<Rightarrow> int \<Rightarrow> parser_error + int" where
  "GetIntervalNamedOrPosArgDefault E e k n defaultSign v =
     (let seconds = (\<lambda>w. case IntervalString E w defaultSign of Inl _ \<Rightarrow> Inl ErrBadType | Inr t \<Rightarrow> Inr t)
      in case getNamedArg e k of
           Some a \<Rightarrow> (case doGetStringArg a of Inl _ \<Rightarrow> Inl ErrBadType | Inr w \<Rightarrow> seconds w)
         | None \<Rightarrow>
             if length (args e) \<le> n then Inr v
             else if etype (args e ! n) \<noteq> EtString then Inl ErrBadType
             else seconds (valStr (args e ! n)))"

section \<open>Rest arguments\<close>

fun collect_args :: "(expr \<Rightarrow> parser_error + 'a) \<Rightarrow> expr list \<Rightarrow> parser_error + 'a list" where
  "collect_args conv [] = Inr []"
| "collect_args conv (a # as) =
     (case conv a of
        Inl err \<Rightarrow> Inl err
      | Inr v \<Rightarrow> (case collect_args conv as of Inl err \<Rightarrow> Inl err | Inr vs \<Rightarrow> Inr (v # vs)))"

definition GetStringArgs :: "expr \<Rightarrow> nat \<Rightarrow> parser_error + string list" where
  "GetStringArgs e n =
     (if length (args e) \<le> n then Inl ErrMissingArgument
      else collect_args doGetStringArg (drop n (args e)))"

definition GetIntArgs :: "expr \<Rightarrow> nat \<Rightarrow> parser_error + int list" where
  "GetIntArgs e n =
     (if length (args e) < n then Inl ErrMissingArgument
      else collect_args doGetIntArg (drop n (args e)))"

datatype NodeOrTag = NodeValue int | TagValue string

definition node_or_tag :: "expr \<Rightarrow> parser_error + NodeOrTag" where
  "node_or_tag a =
     (case doGetIntArg a of
        Inr i \<Rightarrow> Inr (NodeValue i)
      | Inl _ \<Rightarrow> (case doGetStringArg a of Inl err \<Rightarrow> Inl err | Inr s \<Rightarrow> Inr (TagValue s)))"

definition GetNodeOrTagArgs :: "expr \<Rightarrow> nat \<Rightarrow> bool \<Rightarrow> parser_error + NodeOrTag list" where
  "GetNodeOrTagArgs e n single =
     (if (single \<and> length (args e) \<le> n) \<or> length (args e) < n then Inl ErrMissingArgument
      else collect_args node_or_tag
             (drop n (if single then take (n + 1) (args e) else args e)))"

lemmas getter_defs =
  req_arg_def def_arg_def named_or_def getNamedArg_def
  GetStringArg_def GetStringArgDefault_def GetStringNamedOrPosArgDefault_def
  GetFloatArg_def GetFloatArgDefault_def GetFloatNamedOrPosArgDefault_def
  GetIntArg_def GetIntArgDefault_def GetIntNamedOrPosArgDefault_def
  GetBoolArgDefault_def GetBoolNamedOrPosArgDefault_def
  GetIntOrInfArgDefault_def GetIntOrInfNamedOrPosArgDefault_def
  GetIntervalArg_def GetIntervalNamedOrPosArgDefault_def

section \<open>The contract of the getters\<close>

text \<open>
  What a function relies on when it reads an optional argument: a named argument wins over the
  position, a present argument is converted, and the default is used only when there is none.
\<close>

locale named_getter =
  fixes conv :: "expr \<Rightarrow> parser_error + 'a"
    and get :: "expr \<Rightarrow> string \<Rightarrow> nat \<Rightarrow> 'a \<Rightarrow> parser_error + 'a"
  assumes get_named: "getNamedArg e k = Some a \<Longrightarrow> get e k n d = conv a"
    and get_pos: "getNamedArg e k = None \<Longrightarrow> n < length (args e) \<Longrightarrow> get e k n d = conv (args e ! n)"
    and get_default: "getNamedArg e k = None \<Longrightarrow> length (args e) \<le> n \<Longrightarrow> get e k n d = Inr d"
begin

lemma get_eq: "get e k n d = (case NamedOrPosArg e k n of Some a \<Rightarrow> conv a | None \<Rightarrow> Inr d)"
  using get_named get_pos get_default
  by (auto simp: NamedOrPosArg_def split: option.split)

lemma ill_typed_is_error:
  assumes "NamedOrPosArg e k n = Some a" "conv a = Inl err"
  shows "get e k n d = Inl err"
  using assms by (simp add: get_eq)

end

interpretation string_getter: named_getter doGetStringArg GetStringNamedOrPosArgDefault
  by unfold_locales (auto simp: getter_defs)

interpretation float_getter: named_getter "doGetFloatArg E" "GetFloatNamedOrPosArgDefault E"
  by unfold_locales (auto simp: getter_defs)

interpretation int_getter: named_getter doGetIntArg GetIntNamedOrPosArgDefault
  by unfold_locales (auto simp: getter_defs)

interpretation int_or_inf_getter: named_getter "doGetIntOrInfArg E" "GetIntOrInfNamedOrPosArgDefault E"
  by unfold_locales (auto simp: getter_defs)

interpretation bool_getter: named_getter doGetBoolArg GetBoolNamedOrPosArgDefault
  by unfold_locales (auto simp: getter_defs)

definition interval_arg :: "go_env \<Rightarrow> int \<Rightarrow> expr \<Rightarrow> parser_error + int" where
  "interval_arg E defaultSign a =
     (case doGetStringArg a of
        Inl _ \<Rightarrow> Inl ErrBadType
      | Inr w \<Rightarrow> (case IntervalString E w defaultSign of Inl _ \<Rightarrow> Inl ErrBadType | Inr t \<Rightarrow> Inr t))"

interpretation interval_getter: named_getter "interval_arg E ds"
    "\<lambda>e k n d. GetIntervalNamedOrPosArgDefault E e k n ds d"
  by unfold_locales
    (auto simp: getter_defs interval_arg_def doGetStringArg_def split: sum.splits)

text \<open>
  the six getters of optional arguments read the same argument, the named one before the
  positional one, and fall back to the default only when it is absent: an argument that is
  there but has the wrong type, or an interval that does not parse, is an error.
\<close>

lemma optional_getters:
  "GetStringNamedOrPosArgDefault e k n s
     = (case NamedOrPosArg e k n of Some a \<Rightarrow> doGetStringArg a | None \<Rightarrow> Inr s) \<and>
   GetFloatNamedOrPosArgDefault E e k n v
     = (case NamedOrPosArg e k n of Some a \<Rightarrow> doGetFloatArg E a | None \<Rightarrow> Inr v) \<and>
   GetIntNamedOrPosArgDefault e k n i
     = (case NamedOrPosArg e k n of Some a \<Rightarrow> doGetIntArg a | None \<Rightarrow> Inr i) \<and>
   GetIntOrInfNamedOrPosArgDefault E e k n x
     = (case NamedOrPosArg e k n of Some a \<Rightarrow> doGetIntOrInfArg E a | None \<Rightarrow> Inr x) \<and>
   GetBoolNamedOrPosArgDefault e k n b
     = (case NamedOrPosArg e k n of Some a \<Rightarrow> doGetBoolArg a | None \<Rightarrow> Inr b) \<and>
   GetIntervalNamedOrPosArgDefault E e k n ds t
     = (case NamedOrPosArg e k n of
          Some a \<Rightarrow> (case doGetStringArg a of
              Inl _ \<Rightarrow> Inl ErrBadType
            | Inr w \<Rightarrow> (case IntervalString E w ds of Inl _ \<Rightarrow> Inl ErrBadType | Inr t \<Rightarrow> Inr t))
        | None \<Rightarrow> Inr t)"
  by (intro conjI string_getter.get_eq float_getter.get_eq int_getter.get_eq
      int_or_inf_getter.get_eq bool_getter.get_eq interval_getter.get_eq[unfolded interval_arg_def])

end
