(* ===== verification/Parser_Total.thy ===== *)
theory Parser_Total
  imports Parser
begin

text \<open>
  The parser always returns: it does not panic, it does not run out of the fuel \<open>parse_fuel\<close>,
  and every successful call leaves a shorter input. Fuel is monotone, so the parser with
  \<open>parse_fuel\<close> satisfies the recursion equations of the Go functions without any fuel
  (\<open>parse_equations\<close>); the later theories use only these.
\<close>

section \<open>What the scanners consume\<close>

lemma skipWhitespace_len [go_len]: "length (skipWhitespace e) \<le> length e"
proof (induction e rule: skipWhitespace.induct)
  case (1 e)
  then show ?case
    by (subst skipWhitespace.simps) (auto split: prod.split dest!: 1 intro: le_trans)
qed

lemma skipWhitespace_nonspace:
  "e \<noteq> [] \<Longrightarrow> \<not> is_space (fst (decode_rune e)) \<Longrightarrow> skipWhitespace e = e"
  by (subst skipWhitespace.simps) (auto split: prod.split)

lemma skipWhitespace_Nil [simp]: "skipWhitespace [] = []"
  by (subst skipWhitespace.simps) simp

lemma skipWhitespace_idem [simp]: "skipWhitespace (skipWhitespace e) = skipWhitespace e"
proof (induction e rule: skipWhitespace.induct)
  case (1 e)
  show ?case
  proof (cases "e = [] \<or> \<not> is_space (fst (decode_rune e))")
    case True
    then show ?thesis by (cases "e = []") (simp_all add: skipWhitespace_nonspace)
  next
    case False
    then have "skipWhitespace e = skipWhitespace (drop (snd (decode_rune e)) e)"
      by (subst skipWhitespace.simps) (auto split: prod.split)
    with 1 False show ?thesis by (metis prod.collapse)
  qed
qed

lemma parseConst_len:
  "parseConst e = Inr (v, vs, rest) \<Longrightarrow> e \<noteq> [] \<Longrightarrow> starts_const e \<Longrightarrow> length rest < length e"
  by (cases e)
    (auto simp: parseConst_def starts_const_def const_char_def length_dropWhile_le less_Suc_eq_le
      split: sum.splits)

lemma parseString_result:
  assumes "e \<noteq> []" "hd e = CHR 0x27 \<or> hd e = CHR 0x22"
  shows "case parseString e of POk w rest \<Rightarrow> length rest < length e | PErr _ _ \<Rightarrow> True | _ \<Rightarrow> False"
proof -
  have "length (dropWhile (\<lambda>c. c \<noteq> hd e) (tl e)) \<le> length (tl e)"
    by (rule length_dropWhile_le)
  then have "length (tl (dropWhile (\<lambda>c. c \<noteq> hd e) (tl e))) < length e"
    using assms(1) by (cases e) auto
  with assms show ?thesis by (simp add: parseString_def Let_def)
qed

lemma name_loop_Nil [simp]: "name_loop E [] braces isEscape buf = (buf, [])"
  by (subst name_loop.simps) simp

lemma name_loop_len [go_len]: "length (snd (name_loop E s braces isEscape buf)) \<le> length s"
proof (induction s arbitrary: braces isEscape buf rule: length_induct)
  case (1 s)
  show ?case
  proof (cases "s = []")
    case True
    then show ?thesis by simp
  next
    case False
    have step: "length (snd (name_loop E t b i u)) \<le> length s" if "length t < length s" for t b i u
      using 1 that by (meson le_trans less_imp_le)
    have "length (snd (name_loop E (tl s) b i u)) \<le> length s" for b i u
      using False by (intro step) (cases s; simp)
    moreover have "length (snd (name_loop E (drop w s) b i u)) \<le> length s"
      if "decode_rune s = (r, w)" for r w b i u
      using decode_rune_shorter[OF False that[symmetric]] by (intro step) simp
    ultimately show ?thesis
      by (subst name_loop.simps) (simp add: Let_def split: prod.split)
  qed
qed

lemma parseName_len:
  "parseName E e = (name, rest) \<Longrightarrow> e \<noteq> [] \<Longrightarrow> name \<noteq> [] \<Longrightarrow> length rest < length e"
  by (auto simp: parseName_def split: prod.splits if_splits)

section \<open>No panic, no fuel exhaustion\<close>

text \<open>\<open>outcome f Q r\<close>: no panic, a rest that satisfies \<open>Q\<close>, and fuel exhaustion only if \<open>f\<close>.\<close>

definition outcome :: "bool \<Rightarrow> (string \<Rightarrow> bool) \<Rightarrow> 'a presult \<Rightarrow> bool" where
  "outcome f Q r = (case r of POk a rest \<Rightarrow> Q rest | PErr _ _ \<Rightarrow> True | PPanic \<Rightarrow> False | PFuel \<Rightarrow> f)"

lemma outcome_simps [simp]:
  "outcome f Q (POk a rest) = Q rest" "outcome f Q (PErr er rest)" "\<not> outcome f Q PPanic"
  "outcome f Q PFuel = f"
  by (simp_all add: outcome_def)

lemma outcome_pbind:
  "outcome f P r \<Longrightarrow> (\<And>a rest. r = POk a rest \<Longrightarrow> P rest \<Longrightarrow> outcome f Q (k a rest)) \<Longrightarrow> outcome f Q (pbind r k)"
  by (cases r) auto

lemma outcome_mono:
  "outcome f P r \<Longrightarrow> (f \<Longrightarrow> g) \<Longrightarrow> (\<And>rest. P rest \<Longrightarrow> Q rest) \<Longrightarrow> outcome g Q r"
  by (cases r) auto

abbreviation shorter :: "string \<Rightarrow> string \<Rightarrow> bool" where
  "shorter e \<equiv> (\<lambda>rest. length rest < length e)"

lemma outcome_try_const:
  "e \<noteq> [] \<Longrightarrow> try_const E e = Some r \<Longrightarrow> outcome f (shorter e) r"
  by (auto simp: try_const_def parseConst_len split: if_splits sum.splits)

lemma outcome_after_name:
  assumes "name \<noteq> [] \<Longrightarrow> length e < l"
    and "e \<noteq> [] \<Longrightarrow> hd e = CHR ''('' \<Longrightarrow> name \<noteq> [] \<Longrightarrow> outcome f (shorter e) (argList e)"
  shows "outcome f (\<lambda>r. length r < l) (after_name E argList name e)"
proof (cases "name \<noteq> [] \<and> e \<noteq> [] \<and> hd e = CHR ''(''")
  case True
  with assms show ?thesis by (cases "argList e") (simp_all add: after_name_def)
next
  case False
  with assms(1) show ?thesis unfolding after_name_def by (auto split: if_split)
qed

lemma outcome_withoutPipe:
  assumes "\<And>e1. e1 \<noteq> [] \<Longrightarrow> hd e1 = CHR ''('' \<Longrightarrow> length e1 < length e \<Longrightarrow> outcome f (shorter e1) (argList e1)"
  shows "outcome f (shorter e) (withoutPipe_body E argList e)"
proof -
  define s where "s = skipWhitespace e"
  have s: "length s \<le> length e" by (simp add: s_def skipWhitespace_len)
  have str: "outcome f (shorter s) (pbind (parseString s) (\<lambda>w rest. POk (Expr [] EtString (FNum 0) w [] [] []) rest))"
    if "s \<noteq> []" "hd s = CHR 0x27 \<or> hd s = CHR 0x22"
    using parseString_result[OF that] by (cases "parseString s") auto
  have "outcome f (shorter s) (withoutPipe_body E argList e)"
  proof (cases "s = [] \<or> try_const E s \<noteq> None \<or> hd s = CHR 0x27 \<or> hd s = CHR 0x22")
    case True
    then show ?thesis using outcome_try_const[of s E] str
      by (cases "try_const E s") (auto simp: withoutPipe_body_def s_def[symmetric] Let_def)
  next
    case False
    obtain name e1 where n: "parseName E s = (name, e1)" by fastforce
    have "length e1 < length s" if "name \<noteq> []" using n False that parseName_len by blast
    then have "outcome f (shorter s) (after_name E argList name e1)"
      using assms s by (intro outcome_after_name) auto
    with False n show ?thesis
      by (simp add: withoutPipe_body_def s_def[symmetric] Let_def)
  qed
  then show ?thesis by (rule outcome_mono) (use s in auto)
qed

definition trimmed :: "string \<Rightarrow> bool" where
  "trimmed e \<longleftrightarrow> skipWhitespace e = e"

lemma outcome_inner:
  assumes "outcome f (shorter e) (withoutPipe e)"
    and "\<And>x e1. length e1 < length e \<Longrightarrow> outcome f (\<lambda>r. length r \<le> length e1 \<and> trimmed r) (pip x e1)"
  shows "outcome f (\<lambda>r. length r < length e \<and> trimmed r) (inner_body withoutPipe pip e)"
  unfolding inner_body_def
  by (rule outcome_pbind[OF assms(1)]) (auto intro: outcome_mono[OF assms(2)])

lemma outcome_pipe:
  assumes "\<And>e1. length e1 < length e \<Longrightarrow> outcome f (shorter e1) (withoutPipe e1)"
    and "\<And>x e1. length e1 < length e \<Longrightarrow> outcome f (\<lambda>r. length r \<le> length e1 \<and> trimmed r) (pip x e1)"
  shows "outcome f (\<lambda>r. length r \<le> length e \<and> trimmed r) (pipe_body E withoutPipe pip x e)"
proof (cases "skipWhitespace e = [] \<or> hd (skipWhitespace e) \<noteq> CHR ''|''")
  case True
  then show ?thesis by (auto simp: pipe_body_def Let_def trimmed_def skipWhitespace_len)
next
  case False
  then have l: "length (tl (skipWhitespace e)) < length e"
    using skipWhitespace_len[of e] by (cases "skipWhitespace e") auto
  show ?thesis
    using False l
    by (auto simp: pipe_body_def Let_def split: sum.split
        intro!: outcome_pbind[OF assms(1)[OF l]] outcome_mono[OF assms(2)])
qed

lemma outcome_argList:
  assumes "e \<noteq> []" "hd e = CHR ''(''"
    and "\<And>al. outcome f (shorter (tl e)) (loop (tl e) al)"
  shows "outcome f (shorter e) (argList_body loop e)"
proof -
  have "length (tl e) < length e" using assms(1) by simp
  then have "outcome f (shorter e) (loop (tl e) al)" for al
    by (auto intro: outcome_mono[OF assms(3)])
  then show ?thesis using assms skipWhitespace_len[of "tl e"]
    by (cases e) (auto simp: argList_body_def Let_def)
qed

lemma arg_separator_trimmed:
  assumes "trimmed e" "e \<noteq> []"
  shows "case arg_separator e of SepPanic \<Rightarrow> False | SepClose r \<Rightarrow> length r < length e
    | SepMore r \<Rightarrow> length r < length e | SepBad \<Rightarrow> True"
  using assms by (auto simp: arg_separator_def trimmed_def Let_def)

lemma outcome_after_arg:
  assumes "trimmed e" "e \<noteq> []" "\<And>e1 al. length e1 < length e \<Longrightarrow> outcome f (shorter e1) (loop e1 al)"
  shows "outcome f (shorter e) (after_arg loop e al)"
  using arg_separator_trimmed[OF assms(1,2)]
  by (auto simp: after_arg_def split: arg_sep.splits intro: outcome_mono[OF assms(3)])

lemma outcome_argLoop:
  assumes inner: "\<And>e1. length e1 \<le> length e \<Longrightarrow> outcome f (\<lambda>r. length r < length e1 \<and> trimmed r) (inner e1)"
    and loop: "\<And>e1 al. length e1 < length e \<Longrightarrow> outcome f (shorter e1) (loop e1 al)"
  shows "outcome f (shorter e) (argLoop_body E inner loop e al)"
proof -
  obtain buf pos named where al: "al = (buf, pos, named)" by (cases al)
  have after: "outcome f (shorter e) (after_arg loop e1 al')"
    if "length e1 < length e" "trimmed e1" "e1 \<noteq> []" for e1 al'
    by (rule outcome_mono[where P = "shorter e1"], rule outcome_after_arg) (use that loop in auto)
  have named: "outcome f (shorter e) (pbind (inner (tl e1)) k)"
    if "length e1 < length e" "\<And>a r. length r < length e \<Longrightarrow> trimmed r \<Longrightarrow> outcome f (shorter e) (k a r)"
    for e1 and k :: "expr \<Rightarrow> string \<Rightarrow> arg_list presult"
    by (rule outcome_pbind[OF inner[of "tl e1"]]) (use that in auto)
  show ?thesis
    unfolding al argLoop_body_def
    by (simp, rule outcome_pbind[OF inner]) (auto intro!: after named)
qed

text \<open>The fuel each function needs on an input of a given length.\<close>

lemma outcome_all:
  "(\<forall>e. outcome (n < 2 * length e + 1) (shorter e) (parseExprWithoutPipe E n e)) \<and>
   (\<forall>e. outcome (n < 2 * length e + 2) (\<lambda>r. length r < length e \<and> trimmed r) (parseExprInner E n e)) \<and>
   (\<forall>x e. outcome (n < 2 * length e + 1) (\<lambda>r. length r \<le> length e \<and> trimmed r) (pipe E n x e)) \<and>
   (\<forall>e. e \<noteq> [] \<longrightarrow> hd e = CHR ''('' \<longrightarrow> outcome (n < 2 * length e + 2) (shorter e) (parseArgList E n e)) \<and>
   (\<forall>e al. outcome (n < 2 * length e + 3) (shorter e) (arg_loop E n e al))"
proof (induction n)
  case 0
  then show ?case by simp
next
  case (Suc n)
  note W = Suc.IH[THEN conjunct1, rule_format]
    and I = Suc.IH[THEN conjunct2, THEN conjunct1, rule_format]
    and P = Suc.IH[THEN conjunct2, THEN conjunct2, THEN conjunct1, rule_format]
    and A = Suc.IH[THEN conjunct2, THEN conjunct2, THEN conjunct2, THEN conjunct1, rule_format]
    and L = Suc.IH[THEN conjunct2, THEN conjunct2, THEN conjunct2, THEN conjunct2, rule_format]
  have "outcome (Suc n < 2 * length e + 1) (shorter e) (parseExprWithoutPipe E (Suc n) e)" for e
    unfolding parseExprWithoutPipe.simps
    by (rule outcome_withoutPipe, rule outcome_mono[OF A]) auto
  moreover have "outcome (Suc n < 2 * length e + 2) (\<lambda>r. length r < length e \<and> trimmed r) (parseExprInner E (Suc n) e)" for e
    unfolding parseExprInner.simps
    by (rule outcome_inner; (rule outcome_mono[OF W] outcome_mono[OF P])) auto
  moreover have "outcome (Suc n < 2 * length e + 1) (\<lambda>r. length r \<le> length e \<and> trimmed r) (pipe E (Suc n) x e)" for x e
    unfolding pipe.simps
    by (rule outcome_pipe; (rule outcome_mono[OF W] outcome_mono[OF P])) auto
  moreover have "outcome (Suc n < 2 * length e + 2) (shorter e) (parseArgList E (Suc n) e)"
    if "e \<noteq> []" "hd e = CHR ''(''" for e
    unfolding parseArgList.simps
    by (rule outcome_argList[OF that], rule outcome_mono[OF L]) (use that in \<open>cases e; auto\<close>)+
  moreover have "outcome (Suc n < 2 * length e + 3) (shorter e) (arg_loop E (Suc n) e al)" for e al
    unfolding arg_loop.simps
    by (rule outcome_argLoop; (rule outcome_mono[OF I] outcome_mono[OF L])) auto
  ultimately show ?case by blast
qed

section \<open>Fuel is monotone\<close>

definition more_fuel :: "'a presult \<Rightarrow> 'a presult \<Rightarrow> bool" where
  "more_fuel r r' \<longleftrightarrow> r = PFuel \<or> r = r'"

lemma more_fuel_refl [simp]: "more_fuel r r" "more_fuel PFuel r"
  by (simp_all add: more_fuel_def)

lemma more_fuel_trans: "more_fuel r s \<Longrightarrow> more_fuel s t \<Longrightarrow> more_fuel r t"
  by (auto simp: more_fuel_def)

lemma more_fuel_pbind:
  "more_fuel r r' \<Longrightarrow> (\<And>a rest. more_fuel (k a rest) (k' a rest)) \<Longrightarrow> more_fuel (pbind r k) (pbind r' k')"
  unfolding more_fuel_def[of r r'] by (cases r) auto

lemma more_fuel_withoutPipe:
  assumes "\<And>e. more_fuel (f e) (g e)"
  shows "more_fuel (withoutPipe_body E f e) (withoutPipe_body E g e)"
proof -
  have "more_fuel (after_name E f n r) (after_name E g n r)" for n r
    unfolding after_name_def by (auto intro!: more_fuel_pbind assms)
  then show ?thesis
    by (simp add: withoutPipe_body_def Let_def split: option.split prod.split)
qed

lemma more_fuel_inner:
  assumes "\<And>e. more_fuel (f e) (g e)" "\<And>x e. more_fuel (p x e) (q x e)"
  shows "more_fuel (inner_body f p e) (inner_body g q e)"
  unfolding inner_body_def by (intro more_fuel_pbind assms)

lemma more_fuel_pipe:
  assumes "\<And>e. more_fuel (f e) (g e)" "\<And>x e. more_fuel (p x e) (q x e)"
  shows "more_fuel (pipe_body E f p x e) (pipe_body E g q x e)"
  unfolding pipe_body_def Let_def
  by (auto split: sum.split simp: assms intro!: more_fuel_pbind)

lemma more_fuel_argList:
  assumes "\<And>e al. more_fuel (f e al) (g e al)"
  shows "more_fuel (argList_body f e) (argList_body g e)"
  using assms by (simp add: argList_body_def Let_def)

lemma more_fuel_argLoop:
  assumes "\<And>e. more_fuel (f e) (g e)" "\<And>e al. more_fuel (p e al) (q e al)"
  shows "more_fuel (argLoop_body E f p e al) (argLoop_body E g q e al)"
proof -
  have after: "more_fuel (after_arg p r l) (after_arg q r l)" for r l
    using assms(2) by (simp add: after_arg_def split: arg_sep.split)
  show ?thesis
    unfolding argLoop_body_def
    by (cases al) (auto intro!: more_fuel_pbind assms(1) after)
qed

lemma more_fuel_Suc:
  "(\<forall>e. more_fuel (parseExprWithoutPipe E n e) (parseExprWithoutPipe E (Suc n) e)) \<and>
   (\<forall>e. more_fuel (parseExprInner E n e) (parseExprInner E (Suc n) e)) \<and>
   (\<forall>x e. more_fuel (pipe E n x e) (pipe E (Suc n) x e)) \<and>
   (\<forall>e. more_fuel (parseArgList E n e) (parseArgList E (Suc n) e)) \<and>
   (\<forall>e al. more_fuel (arg_loop E n e al) (arg_loop E (Suc n) e al))"
proof (induction n)
  case 0
  then show ?case by simp
next
  case (Suc n)
  note IH = Suc.IH[THEN conjunct1, rule_format]
    Suc.IH[THEN conjunct2, THEN conjunct1, rule_format]
    Suc.IH[THEN conjunct2, THEN conjunct2, THEN conjunct1, rule_format]
    Suc.IH[THEN conjunct2, THEN conjunct2, THEN conjunct2, THEN conjunct1, rule_format]
    Suc.IH[THEN conjunct2, THEN conjunct2, THEN conjunct2, THEN conjunct2, rule_format]
  have "more_fuel (parseExprWithoutPipe E (Suc n) e) (parseExprWithoutPipe E (Suc (Suc n)) e)" for e
    unfolding parseExprWithoutPipe.simps(2) by (intro more_fuel_withoutPipe IH)
  moreover have "more_fuel (parseExprInner E (Suc n) e) (parseExprInner E (Suc (Suc n)) e)" for e
    unfolding parseExprInner.simps(2) by (intro more_fuel_inner IH)
  moreover have "more_fuel (pipe E (Suc n) x e) (pipe E (Suc (Suc n)) x e)" for x e
    by (subst (1 2) pipe.simps(2)) (intro more_fuel_pipe IH)
  moreover have "more_fuel (parseArgList E (Suc n) e) (parseArgList E (Suc (Suc n)) e)" for e
    unfolding parseArgList.simps(2) by (intro more_fuel_argList IH)
  moreover have "more_fuel (arg_loop E (Suc n) e al) (arg_loop E (Suc (Suc n)) e al)" for e al
    by (subst (1 2) arg_loop.simps(2)) (intro more_fuel_argLoop IH)
  ultimately show ?case by blast
qed

lemma more_fuel_chain:
  "(\<And>n. more_fuel (f n) (f (Suc n))) \<Longrightarrow> n \<le> m \<Longrightarrow> more_fuel (f n) (f m)"
  by (rotate_tac, induction rule: dec_induct) (auto intro: more_fuel_trans)

text \<open>Any amount of fuel is at most as good as one that is enough.\<close>

lemma more_fuel_enough:
  assumes "\<And>n. more_fuel (f n) (f (Suc n))" "f m \<noteq> PFuel"
  shows "more_fuel (f n) (f m)"
  using more_fuel_chain[of f n "max n m", OF assms(1)] more_fuel_chain[of f m "max n m", OF assms(1)] assms(2)
  by (auto simp: more_fuel_def)

section \<open>The recursion equations of the parser\<close>

definition parse_withoutPipe :: "go_env \<Rightarrow> string \<Rightarrow> expr presult" where
  "parse_withoutPipe E e = parseExprWithoutPipe E (parse_fuel e) e"

definition parse_pipe :: "go_env \<Rightarrow> expr \<Rightarrow> string \<Rightarrow> expr presult" where
  "parse_pipe E x e = pipe E (parse_fuel e) x e"

definition parse_argList :: "go_env \<Rightarrow> string \<Rightarrow> arg_list presult" where
  "parse_argList E e = parseArgList E (parse_fuel e) e"

definition parse_args :: "go_env \<Rightarrow> string \<Rightarrow> arg_list \<Rightarrow> arg_list presult" where
  "parse_args E e al = arg_loop E (parse_fuel e) e al"

lemmas parse_defs =
  parse_withoutPipe_def parse_inner_def parse_pipe_def parse_argList_def parse_args_def

lemma parse_fuel_Suc: "parse_fuel e = Suc (4 * length e + 3)"
  by (simp add: parse_fuel_def)

lemma outcome_not_fuel: "outcome f Q r \<Longrightarrow> \<not> f \<Longrightarrow> r \<noteq> PFuel"
  by auto

lemma parse_argList_bad: "e = [] \<or> hd e \<noteq> CHR ''('' \<Longrightarrow> parse_argList E e = PPanic"
  unfolding parse_argList_def parse_fuel_Suc parseArgList.simps by (auto simp: argList_body_def)

lemma parse_not_fuel:
  "parse_withoutPipe E e \<noteq> PFuel" "parse_inner E e \<noteq> PFuel" "parse_pipe E x e \<noteq> PFuel"
  "parse_argList E e \<noteq> PFuel" "parse_args E e al \<noteq> PFuel"
proof -
  note all = outcome_all[of "parse_fuel e" E]
  show "parse_withoutPipe E e \<noteq> PFuel"
    unfolding parse_defs by (rule outcome_not_fuel[OF all[THEN conjunct1, rule_format]]) (simp add: parse_fuel_def)
  show "parse_inner E e \<noteq> PFuel"
    unfolding parse_defs by (rule outcome_not_fuel[OF all[THEN conjunct2, THEN conjunct1, rule_format]]) (simp add: parse_fuel_def)
  show "parse_pipe E x e \<noteq> PFuel"
    unfolding parse_defs by (rule outcome_not_fuel[OF all[THEN conjunct2, THEN conjunct2, THEN conjunct1, rule_format]])
      (simp add: parse_fuel_def)
  show "parse_args E e al \<noteq> PFuel"
    unfolding parse_defs
    by (rule outcome_not_fuel[OF all[THEN conjunct2, THEN conjunct2, THEN conjunct2, THEN conjunct2, rule_format]])
      (simp add: parse_fuel_def)
  show "parse_argList E e \<noteq> PFuel"
  proof (cases "e = [] \<or> hd e \<noteq> CHR ''(''")
    case False
    then show ?thesis
      unfolding parse_defs
      by (intro outcome_not_fuel[OF all[THEN conjunct2, THEN conjunct2, THEN conjunct2, THEN conjunct1, rule_format]])
        (simp_all add: parse_fuel_def)
  qed (simp add: parse_argList_bad)
qed

lemma parse_best:
  "more_fuel (parseExprWithoutPipe E n e) (parse_withoutPipe E e)"
  "more_fuel (parseExprInner E n e) (parse_inner E e)"
  "more_fuel (pipe E n x e) (parse_pipe E x e)"
  "more_fuel (parseArgList E n e) (parse_argList E e)"
  "more_fuel (arg_loop E n e al) (parse_args E e al)"
proof -
  show "more_fuel (parseExprWithoutPipe E n e) (parse_withoutPipe E e)"
    unfolding parse_defs
    by (rule more_fuel_enough[where f = "\<lambda>n. parseExprWithoutPipe E n e", OF more_fuel_Suc[THEN conjunct1, rule_format]
          parse_not_fuel(1)[unfolded parse_defs]])
  show "more_fuel (parseExprInner E n e) (parse_inner E e)"
    unfolding parse_defs
    by (rule more_fuel_enough[where f = "\<lambda>n. parseExprInner E n e", OF more_fuel_Suc[THEN conjunct2, THEN conjunct1, rule_format]
          parse_not_fuel(2)[unfolded parse_defs]])
  show "more_fuel (pipe E n x e) (parse_pipe E x e)"
    unfolding parse_defs
    by (rule more_fuel_enough[where f = "\<lambda>n. pipe E n x e", OF more_fuel_Suc[THEN conjunct2, THEN conjunct2, THEN conjunct1, rule_format]
          parse_not_fuel(3)[unfolded parse_defs]])
  show "more_fuel (parseArgList E n e) (parse_argList E e)"
    unfolding parse_defs
    by (rule more_fuel_enough[where f = "\<lambda>n. parseArgList E n e", OF more_fuel_Suc[THEN conjunct2, THEN conjunct2, THEN conjunct2, THEN conjunct1, rule_format]
          parse_not_fuel(4)[unfolded parse_defs]])
  show "more_fuel (arg_loop E n e al) (parse_args E e al)"
    unfolding parse_defs
    by (rule more_fuel_enough[where f = "\<lambda>n. arg_loop E n e al", OF more_fuel_Suc[THEN conjunct2, THEN conjunct2, THEN conjunct2, THEN conjunct2, rule_format]
          parse_not_fuel(5)[unfolded parse_defs]])
qed

lemma more_fuel_eq: "more_fuel r r' \<Longrightarrow> r \<noteq> PFuel \<Longrightarrow> r = r'"
  by (simp add: more_fuel_def)

text \<open>The five Go functions, without fuel.\<close>

lemma parse_withoutPipe_eq: "parse_withoutPipe E e = withoutPipe_body E (parse_argList E) e"
proof -
  have "parse_withoutPipe E e = withoutPipe_body E (parseArgList E (4 * length e + 3)) e"
    unfolding parse_withoutPipe_def parse_fuel_Suc parseExprWithoutPipe.simps by (rule refl)
  then show ?thesis
    using parse_not_fuel(1)[of E e] by (simp only:) (rule more_fuel_eq, intro more_fuel_withoutPipe parse_best, assumption)
qed

lemma parse_inner_eq: "parse_inner E e = inner_body (parse_withoutPipe E) (parse_pipe E) e"
proof -
  have "parse_inner E e = inner_body (parseExprWithoutPipe E (4 * length e + 3)) (pipe E (4 * length e + 3)) e"
    unfolding parse_inner_def parse_fuel_Suc parseExprInner.simps by (rule refl)
  then show ?thesis
    using parse_not_fuel(2)[of E e] by (simp only:) (rule more_fuel_eq, intro more_fuel_inner parse_best, assumption)
qed

lemma parse_pipe_eq: "parse_pipe E x e = pipe_body E (parse_withoutPipe E) (parse_pipe E) x e"
proof -
  have "parse_pipe E x e = pipe_body E (parseExprWithoutPipe E (4 * length e + 3)) (pipe E (4 * length e + 3)) x e"
    unfolding parse_pipe_def parse_fuel_Suc by (subst pipe.simps) (rule refl)
  then show ?thesis
    using parse_not_fuel(3)[of E x e] by (simp only:) (rule more_fuel_eq, intro more_fuel_pipe parse_best, assumption)
qed

lemma parse_argList_eq: "parse_argList E e = argList_body (parse_args E) e"
proof -
  have "parse_argList E e = argList_body (arg_loop E (4 * length e + 3)) e"
    unfolding parse_argList_def parse_fuel_Suc parseArgList.simps by (rule refl)
  then show ?thesis
    using parse_not_fuel(4)[of E e] by (simp only:) (rule more_fuel_eq, intro more_fuel_argList parse_best, assumption)
qed

lemma parse_args_eq: "parse_args E e al = argLoop_body E (parse_inner E) (parse_args E) e al"
proof -
  have "parse_args E e al = argLoop_body E (parseExprInner E (4 * length e + 3)) (arg_loop E (4 * length e + 3)) e al"
    unfolding parse_args_def parse_fuel_Suc by (subst arg_loop.simps) (rule refl)
  then show ?thesis
    using parse_not_fuel(5)[of E e al] by (simp only:) (rule more_fuel_eq, intro more_fuel_argLoop parse_best, assumption)
qed

lemma parse_inner_outcome: "outcome False (\<lambda>r. length r < length e \<and> trimmed r) (parse_inner E e)"
  using outcome_all[of "parse_fuel e" E, THEN conjunct2, THEN conjunct1, rule_format, of e]
  by (simp add: parse_inner_def parse_fuel_def)

text \<open>
  C1: the parser always returns, on every input and with any amount of fuel from \<open>parse_fuel\<close>
  on: it never panics (no index out of range in \<open>parseArgList\<close>, no string or argument list
  entered at the wrong character), and a successful parse leaves a strictly shorter rest with
  no leading white space.
\<close>

theorem parse_total:
  "case parse_inner E e of
     POk x rest \<Rightarrow> length rest < length e \<and> skipWhitespace rest = rest
   | PErr err rest \<Rightarrow> True
   | PPanic \<Rightarrow> False
   | PFuel \<Rightarrow> False"
  using parse_inner_outcome[of e E] by (auto simp: outcome_def trimmed_def split: presult.splits)


end
