(* ===== verification/Parser_Roundtrip.thy ===== *)
theory Parser_Roundtrip
  imports Parser_Total
begin

text \<open>
  The parser against an abstract syntax: what the parser returns on the text of an expression
  is that expression. The abstract syntax \<open>ast\<close> has the five forms of the query language, the
  renderer writes them without optional white space, and \<open>to_expr\<close> is the struct the parser
  must build. Nothing here models Go code: it is the specification the parser is held against.
\<close>

section \<open>Abstract syntax\<close>

datatype ast =
    AName string
  | AConst string
  | AString char string
  | ABool string
  | ACall string "arg list"
  and arg = Pos ast | Named string ast

primrec render :: "ast \<Rightarrow> string" and render_arg :: "arg \<Rightarrow> string" where
  "render (AName n) = n"
| "render (AConst t) = t"
| "render (AString q b) = q # b @ [q]"
| "render (ABool t) = t"
| "render (ACall f as) = f @ ''('' @ Join (map render_arg as) '','' @ '')''"
| "render_arg (Pos a) = render a"
| "render_arg (Named k a) = k @ ''='' @ render a"

definition const_value :: "string \<Rightarrow> f64" where
  "const_value t = (case ParseFloat t of Inr v \<Rightarrow> v | Inl _ \<Rightarrow> FNum 0)"

fun add_arg :: "expr list \<times> (string \<times> expr) list \<Rightarrow> string option \<times> expr \<Rightarrow> expr list \<times> (string \<times> expr) list" where
  "add_arg (pos, named) (None, e) = (pos @ [e], named)"
| "add_arg (pos, named) (Some k, e) = (pos, AList.update k (named_value e) named)"

primrec to_expr :: "go_env \<Rightarrow> ast \<Rightarrow> expr" and to_arg :: "go_env \<Rightarrow> arg \<Rightarrow> string option \<times> expr" where
  "to_expr E (AName n) = name_expr n"
| "to_expr E (AConst t) = Expr [] EtConst (const_value t) t [] [] []"
| "to_expr E (AString q b) = Expr [] EtString (FNum 0) b [] [] []"
| "to_expr E (ABool t) = bool_expr (ToLower E t)"
| "to_expr E (ACall f as) =
     call_expr f (Join (map render_arg as) '','', foldl add_arg ([], []) (map (to_arg E) as))"
| "to_arg E (Pos a) = (None, to_expr E a)"
| "to_arg E (Named k a) = (Some k, to_expr E a)"

text \<open>Names: name characters, and comma-separated alternatives in balanced braces.\<close>

fun name_scan :: "nat \<Rightarrow> string \<Rightarrow> bool" where
  "name_scan b [] = (b = 0)"
| "name_scan b (c # cs) =
     (if IsNameChar c then name_scan b cs
      else if c = CHR ''{'' then name_scan (Suc b) cs
      else if c = CHR ''}'' then 0 < b \<and> name_scan (b - 1) cs
      else c = CHR '','' \<and> 0 < b \<and> name_scan b cs)"

definition plain_name :: "string \<Rightarrow> bool" where
  "plain_name n \<longleftrightarrow> n \<noteq> [] \<and> \<not> starts_const n \<and> name_scan 0 n"

definition is_bool_text :: "go_env \<Rightarrow> string \<Rightarrow> bool" where
  "is_bool_text E n \<longleftrightarrow> ToLower E n = ''false'' \<or> ToLower E n = ''true''"

definition const_text :: "string \<Rightarrow> bool" where
  "const_text t \<longleftrightarrow> t \<noteq> [] \<and> starts_const t \<and> list_all const_char t
     \<and> (case ParseFloat t of Inr v \<Rightarrow> True | Inl _ \<Rightarrow> False)"

fun is_call :: "ast \<Rightarrow> bool" where
  "is_call (ACall f as) = True"
| "is_call a = False"

primrec ast_ok :: "go_env \<Rightarrow> ast \<Rightarrow> bool" and arg_ok :: "go_env \<Rightarrow> arg \<Rightarrow> bool" where
  "ast_ok E (AName n) = (plain_name n \<and> \<not> is_bool_text E n)"
| "ast_ok E (AConst t) = const_text t"
| "ast_ok E (AString q b) = (q \<in> {CHR 0x27, CHR 0x22} \<and> q \<notin> set b)"
| "ast_ok E (ABool t) = (plain_name t \<and> is_bool_text E t)"
| "ast_ok E (ACall f as) =
     (plain_name f \<and> \<not> is_bool_text E f \<and> f \<noteq> ''seriesByTag'' \<and> list_all (arg_ok E) as)"
| "arg_ok E (Pos a) = ast_ok E a"
| "arg_ok E (Named k a) = (plain_name k \<and> \<not> is_bool_text E k \<and> \<not> is_call a \<and> ast_ok E a)"

section \<open>First characters\<close>

text \<open>The characters an expression can start with: ASCII, no space, no separator.\<close>

definition start_char :: "char \<Rightarrow> bool" where
  "start_char c \<longleftrightarrow> is_ascii c \<and> \<not> is_space (byte c) \<and> c \<notin> set ''=,)(|''"

lemma start_char_name: "IsNameChar c \<Longrightarrow> start_char c"
  by (auto simp: IsNameChar_def start_char_def is_ascii_def is_space_def byte_def)

lemma start_char_cases [simp]:
  "start_char (CHR 0x27)" "start_char (CHR 0x22)" "start_char (CHR ''{'')" "start_char (CHR ''}'')"
  by (simp_all add: start_char_def is_ascii_def is_space_def byte_def)

lemma start_char_const: "is_digit c \<or> c = CHR ''-'' \<or> c = CHR ''+'' \<Longrightarrow> start_char c"
  by (auto simp: is_digit_def start_char_def is_ascii_def is_space_def byte_def)

lemma start_char_plain: "plain_name n \<Longrightarrow> n \<noteq> [] \<and> start_char (hd n)"
  by (cases n) (auto simp: plain_name_def start_char_name split: if_splits)

lemma start_char_ast: "ast_ok E a \<Longrightarrow> render a \<noteq> [] \<and> start_char (hd (render a))"
  by (cases a) (auto simp: start_char_plain const_text_def starts_const_def start_char_const hd_append)

lemma start_char_arg: "arg_ok E a \<Longrightarrow> render_arg a \<noteq> [] \<and> start_char (hd (render_arg a))"
  by (cases a) (auto simp: start_char_plain start_char_ast hd_append)

lemma skipWhitespace_start: "s \<noteq> [] \<Longrightarrow> start_char (hd s) \<Longrightarrow> skipWhitespace (s @ rest) = s @ rest"
  by (cases s) (auto intro!: skipWhitespace_nonspace simp: start_char_def decode_rune_ascii)

text \<open>What may follow an expression.\<close>

definition delim :: "string \<Rightarrow> bool" where
  "delim rest \<longleftrightarrow> rest = [] \<or> hd rest \<in> set '',)|''"

definition name_delim :: "string \<Rightarrow> bool" where
  "name_delim rest \<longleftrightarrow> delim rest \<or> hd rest = CHR ''(''
     \<or> (hd rest = CHR ''='' \<and> tl rest \<noteq> [] \<and> start_char (hd (tl rest)))"

lemma delim_trim: "name_delim rest \<Longrightarrow> skipWhitespace rest = rest"
  by (cases rest) (auto simp: name_delim_def delim_def is_ascii_def is_space_def byte_def decode_rune_ascii
      intro!: skipWhitespace_nonspace)

section \<open>Scanners on rendered text\<close>

lemma name_loop_name:
  "IsNameChar c \<Longrightarrow> name_loop E (c # s) b False buf = name_loop E s b False (buf @ [c])"
  by (subst name_loop.simps) (auto simp: Let_def IsNameChar_def byte_def)

lemma name_loop_open: "name_loop E (CHR ''{'' # s) b False buf = name_loop E s (Suc b) False (buf @ ''{'')"
  by (subst name_loop.simps) (simp add: Let_def IsNameChar_def byte_def)

lemma name_loop_close:
  "0 < b \<Longrightarrow> name_loop E (CHR ''}'' # s) b False buf = name_loop E s (b - 1) False (buf @ ''}'')"
  by (subst name_loop.simps) (simp add: Let_def IsNameChar_def byte_def)

lemma name_loop_comma:
  "0 < b \<Longrightarrow> name_loop E (CHR '','' # s) b False buf = name_loop E s b False (buf @ '','')"
  by (subst name_loop.simps) (simp add: Let_def IsNameChar_def byte_def)

lemma name_loop_scan:
  "name_scan b n \<Longrightarrow> name_loop E (n @ rest) b False buf = name_loop E rest 0 False (buf @ n)"
proof (induction b n arbitrary: buf rule: name_scan.induct)
  case (1 b)
  then show ?case by simp
next
  case (2 b c cs)
  show ?case
  proof (cases "IsNameChar c")
    case True
    then show ?thesis using 2(1)[of "buf @ [c]"] 2(5) by (simp add: name_loop_name)
  next
    case False
    have "c = CHR ''{'' \<or> (c = CHR ''}'' \<and> 0 < b) \<or> (c = CHR '','' \<and> 0 < b)"
      using 2(5) False unfolding name_scan.simps by metis
    then consider "c = CHR ''{''" | "c = CHR ''}''" "0 < b" | "c = CHR '',''" "0 < b"
      by blast
    then show ?thesis
    proof cases
      case 1
      with 2(5) False have "name_scan (Suc b) cs" by simp
      from 2(2)[OF False 1 this, of "buf @ ''{''"] 1 show ?thesis by (simp add: name_loop_open)
    next
      case c: 2
      with 2(5) False have "name_scan (b - 1) cs" by simp
      from 2(3)[OF False _ c(1) this, of "buf @ ''}''"] c show ?thesis by (simp add: name_loop_close)
    next
      case 3
      with 2(5) False have "name_scan b cs" by simp
      from 2(4)[OF False _ _ this, of "buf @ '',''"] 3 show ?thesis by (simp add: name_loop_comma)
    qed
  qed
qed

lemma name_loop_stop_rune:
  "\<not> IsNameChar c \<Longrightarrow> c \<notin> set ([CHR 0x5C] @ ''{},='') \<Longrightarrow> is_ascii c \<Longrightarrow> \<not> unicodeRuneAllowedInName (byte c) \<Longrightarrow>
   snd (name_loop E (c # s) 0 False buf) = c # s"
  by (subst name_loop.simps) (simp add: Let_def decode_rune_ascii)

lemma name_loop_stop_chars:
  "snd (name_loop E (CHR ''('' # s) 0 False buf) = CHR ''('' # s"
  "snd (name_loop E (CHR '')'' # s) 0 False buf) = CHR '')'' # s"
  "snd (name_loop E (CHR ''|'' # s) 0 False buf) = CHR ''|'' # s"
  by (rule name_loop_stop_rune; simp add: IsNameChar_def is_ascii_def unicodeRuneAllowedInName_def byte_def)+

lemma name_loop_stop_comma: "snd (name_loop E (CHR '','' # s) 0 False buf) = CHR '','' # s"
  by (subst name_loop.simps) (simp add: Let_def IsNameChar_def byte_def)

lemma name_loop_stop_eq:
  "s \<noteq> [] \<Longrightarrow> start_char (hd s) \<Longrightarrow> snd (name_loop E (CHR ''='' # s) 0 False buf) = CHR ''='' # s"
  by (subst name_loop.simps) (simp add: Let_def IsNameChar_def byte_def start_char_def)

lemma name_loop_delim:
  assumes "name_delim rest"
  shows "snd (name_loop E rest 0 False buf) = rest"
  using assms
  by (cases rest) (auto simp: name_delim_def delim_def name_loop_stop_chars name_loop_stop_comma name_loop_stop_eq)

lemma parseName_plain: "plain_name n \<Longrightarrow> name_delim rest \<Longrightarrow> parseName E (n @ rest) = (n, rest)"
  using name_loop_scan[of 0 n E rest "[]"] name_loop_delim[of rest E n]
  by (auto simp: parseName_def plain_name_def split: prod.split)

lemma quote_not_name: "\<not> IsNameChar (CHR 0x27)" "\<not> IsNameChar (CHR 0x22)"
  by (simp_all add: IsNameChar_def byte_def)

lemma plain_name_no_quote: "plain_name n \<Longrightarrow> hd n \<noteq> CHR 0x27 \<and> hd n \<noteq> CHR 0x22"
  by (cases n) (auto simp: plain_name_def quote_not_name split: if_splits)

lemma delim_not_letter: "delim rest \<Longrightarrow> \<not> is_letter E (fst (decode_rune rest))"
  by (cases rest)
    (auto simp: delim_def decode_rune.simps(1) is_letter_def RuneError_def decode_rune_ascii is_ascii_def byte_def)

lemma delim_not_const: "delim rest \<Longrightarrow> dropWhile const_char rest = rest \<and> takeWhile const_char rest = []"
  by (cases rest) (auto simp: delim_def const_char_def is_digit_def byte_def)

text \<open>\<open>parseExprWithoutPipe\<close> on each of the forms.\<close>

lemma parse_plain:
  assumes "plain_name n" "name_delim rest"
  shows "parse_withoutPipe E (n @ rest) = after_name E (parse_argList E) n rest"
proof -
  have n: "n \<noteq> []" "\<not> starts_const (n @ rest)"
    using assms(1) by (auto simp: plain_name_def starts_const_def hd_append)
  have "hd (n @ rest) \<noteq> CHR 0x27" "hd (n @ rest) \<noteq> CHR 0x22"
    using plain_name_no_quote[OF assms(1)] n by (auto simp: hd_append)
  then show ?thesis
    using n assms start_char_plain[OF assms(1)]
    by (simp add: parse_withoutPipe_eq withoutPipe_body_def skipWhitespace_start try_const_def
        parseName_plain)
qed

lemma parse_const:
  assumes "const_text t" "delim rest"
  shows "parse_withoutPipe E (t @ rest) = POk (Expr [] EtConst (const_value t) t [] [] []) rest"
proof -
  have t: "t \<noteq> []" "start_char (hd t)" "starts_const (t @ rest)"
    using assms(1) by (auto simp: const_text_def starts_const_def start_char_const hd_append)
  have tw: "takeWhile const_char (t @ rest) = t" "dropWhile const_char (t @ rest) = rest"
    using assms(1) delim_not_const[OF assms(2)]
    by (auto simp: const_text_def list_all_iff takeWhile_append2 dropWhile_append2)
  show ?thesis
    using t assms delim_not_letter[OF assms(2)]
    by (auto simp: parse_withoutPipe_eq withoutPipe_body_def skipWhitespace_start try_const_def
        parseConst_def tw const_text_def const_value_def Let_def split: sum.splits)
qed

lemma parse_string:
  assumes "q \<in> {CHR 0x27, CHR 0x22}" "q \<notin> set b"
  shows "parse_withoutPipe E (q # b @ q # rest) = POk (Expr [] EtString (FNum 0) b [] [] []) rest"
proof -
  have "start_char q" "\<not> starts_const (q # b @ q # rest)"
    using assms(1) by (auto simp: starts_const_def is_digit_def byte_def)
  moreover have "takeWhile (\<lambda>c. c \<noteq> q) (b @ q # rest) = b" "dropWhile (\<lambda>c. c \<noteq> q) (b @ q # rest) = q # rest"
    using assms(2) by (induction b) auto
  ultimately show ?thesis
    using assms(1) skipWhitespace_start[of "[q]" "b @ q # rest"]
    by (auto simp: parse_withoutPipe_eq withoutPipe_body_def try_const_def parseString_def Let_def)
qed

text \<open>Arguments and the separators between them.\<close>

lemma arg_separator_simps:
  "arg_separator (CHR '')'' # rest) = SepClose rest"
  "arg_separator (CHR '','' # rest) = SepMore rest"
proof -
  have "skipWhitespace (CHR '')'' # rest) = CHR '')'' # rest"
    "skipWhitespace (CHR '','' # rest) = CHR '','' # rest"
    by (rule delim_trim, simp add: name_delim_def delim_def)+
  then show "arg_separator (CHR '')'' # rest) = SepClose rest"
    "arg_separator (CHR '','' # rest) = SepMore rest"
    by (simp_all add: arg_separator_def)
qed

lemma parse_inner_delim:
  assumes "parse_withoutPipe E s = POk x rest" "name_delim rest" "rest = [] \<or> hd rest \<noteq> CHR ''|''"
  shows "parse_inner E s = POk x rest"
  using assms
  by (auto simp: parse_inner_eq inner_body_def parse_pipe_eq pipe_body_def delim_trim)

lemma add_comma_add_comma: "r \<noteq> [] \<Longrightarrow> add_comma (add_comma buf @ r) = add_comma buf @ r @ '',''"
  by (auto simp: add_comma_def)

lemma IsX_to_expr:
  "\<not> is_call a \<Longrightarrow> IsConst (to_expr E a) \<or> IsName (to_expr E a) \<or> IsString (to_expr E a) \<or> IsBool (to_expr E a)"
  "IsFunc (to_expr E a) = is_call a"
  by (cases a; simp add: expr_kind_defs name_expr_def bool_expr_def call_expr_def split: prod.split)+

lemma ToString_call: "is_call a \<Longrightarrow> ToString E (to_expr E a) = render a"
  by (cases a) (auto simp: ToString_def call_expr_def split: prod.split)

lemma not_name_to_expr: "IsName (to_expr E a) \<Longrightarrow> \<exists>n. a = AName n"
  by (cases a) (auto simp: expr_kind_defs name_expr_def bool_expr_def call_expr_def split: prod.splits)

definition arg_delim :: "string \<Rightarrow> bool" where
  "arg_delim rest \<longleftrightarrow> rest \<noteq> [] \<and> (hd rest = CHR '','' \<or> hd rest = CHR '')'')"

lemma arg_delim_delim: "arg_delim rest \<Longrightarrow> delim rest \<and> name_delim rest \<and> rest \<noteq> [] \<and> hd rest \<noteq> CHR ''|'' \<and> hd rest \<noteq> CHR ''=''"
  by (auto simp: arg_delim_def delim_def name_delim_def)

text \<open>One turn of the argument loop.\<close>

lemma arg_turn:
  assumes parse: "\<And>b rest. ast_ok E b \<Longrightarrow> b \<in> (case a of Pos x \<Rightarrow> {x} | Named k x \<Rightarrow> {x}) \<Longrightarrow> delim rest \<Longrightarrow>
      parse_withoutPipe E (render b @ rest) = POk (to_expr E b) rest"
    and ok: "arg_ok E a" and d: "arg_delim rest"
  shows "parse_args E (render_arg a @ rest) (buf, al) =
      after_arg (parse_args E) rest (add_comma buf @ render_arg a, add_arg al (to_arg E a))"
proof (cases a)
  case (Pos x)
  have "parse_inner E (render x @ rest) = POk (to_expr E x) rest"
    using parse_inner_delim parse ok Pos arg_delim_delim[OF d] by auto
  then show ?thesis
    using Pos arg_delim_delim[OF d]
    by (cases al) (auto simp: parse_args_eq argLoop_body_def IsX_to_expr ToString_call)
next
  case (Named k x)
  have nd: "name_delim (CHR ''='' # render x @ rest)"
    using ok Named start_char_ast[of E x] by (auto simp: name_delim_def hd_append)
  have key: "parse_inner E (k @ CHR ''='' # render x @ rest) = POk (name_expr k) (CHR ''='' # render x @ rest)"
    using parse_plain[OF _ nd, of k E] ok Named nd
    by (intro parse_inner_delim) (auto simp: after_name_def is_bool_text_def plain_name_def)
  have val: "parse_inner E (render x @ rest) = POk (to_expr E x) rest"
    using parse_inner_delim parse ok Named arg_delim_delim[OF d] by auto
  have name: "IsName (name_expr k)" "target (name_expr k) = k"
    by (simp_all add: IsName_def name_expr_def)
  have kind: "\<not> (\<not> IsConst (to_expr E x) \<and> \<not> IsName (to_expr E x) \<and> \<not> IsString (to_expr E x) \<and> \<not> IsBool (to_expr E x))"
    using IsX_to_expr(1) ok Named by auto
  show ?thesis
    using Named arg_delim_delim[OF d] key val name kind
    by (cases al) (auto simp: parse_args_eq argLoop_body_def)
qed

section \<open>The round trip\<close>

lemma args_turns:
  assumes "\<And>a b rest. a \<in> set as \<Longrightarrow> b \<in> (case a of Pos x \<Rightarrow> {x} | Named k x \<Rightarrow> {x}) \<Longrightarrow> ast_ok E b \<Longrightarrow> delim rest \<Longrightarrow>
      parse_withoutPipe E (render b @ rest) = POk (to_expr E b) rest"
    and "list_all (arg_ok E) as" "as \<noteq> []"
  shows "parse_args E (Join (map render_arg as) '','' @ CHR '')'' # rest) (buf, al) =
      POk (add_comma buf @ Join (map render_arg as) '','', foldl add_arg al (map (to_arg E) as)) rest"
  using assms
proof (induction as arbitrary: buf al)
  case Nil
  then show ?case by simp
next
  case (Cons a as)
  have turn: "parse_args E (render_arg a @ r) (buf, al) =
      after_arg (parse_args E) r (add_comma buf @ render_arg a, add_arg al (to_arg E a))"
    if "arg_delim r" for r
    using that Cons.prems by (intro arg_turn) auto
  show ?case
  proof (cases "as = []")
    case True
    then show ?thesis
      using turn[of "CHR '')'' # rest"] by (simp add: arg_delim_def after_arg_def arg_separator_simps)
  next
    case False
    have "render_arg a \<noteq> []" using Cons.prems start_char_arg by auto
    moreover have "parse_args E (Join (map render_arg as) '','' @ CHR '')'' # rest) (b', al') =
      POk (add_comma b' @ Join (map render_arg as) '','', foldl add_arg al' (map (to_arg E) as)) rest" for b' al'
      using Cons.prems False by (intro Cons.IH) auto
    moreover obtain r rs where "map render_arg as = r # rs" using False by (cases as) auto
    ultimately show ?thesis
      using turn[of "CHR '','' # Join (map render_arg as) '','' @ CHR '')'' # rest"]
      by (simp add: arg_delim_def after_arg_def arg_separator_simps add_comma_add_comma)
  qed
qed

lemma start_char_args:
  "list_all (arg_ok E) as \<Longrightarrow> as \<noteq> [] \<Longrightarrow>
   Join (map render_arg as) '','' \<noteq> [] \<and> start_char (hd (Join (map render_arg as) '',''))"
  using start_char_arg[of E "hd as"] by (cases as; cases "tl as") (auto simp: hd_append)

lemma parse_call:
  assumes args: "\<And>a b rest. a \<in> set as \<Longrightarrow> b \<in> (case a of Pos x \<Rightarrow> {x} | Named k x \<Rightarrow> {x}) \<Longrightarrow> ast_ok E b \<Longrightarrow> delim rest \<Longrightarrow>
      parse_withoutPipe E (render b @ rest) = POk (to_expr E b) rest"
    and ok: "list_all (arg_ok E) as"
  shows "parse_argList E (CHR ''('' # Join (map render_arg as) '','' @ CHR '')'' # rest) =
      POk (Join (map render_arg as) '','', foldl add_arg ([], []) (map (to_arg E) as)) rest"
proof (cases "as = []")
  case True
  have "skipWhitespace (CHR '')'' # rest) = CHR '')'' # rest"
    by (rule delim_trim) (simp add: name_delim_def delim_def)
  with True show ?thesis by (simp add: parse_argList_eq argList_body_def)
next
  case False
  let ?t = "Join (map render_arg as) '','' @ CHR '')'' # rest"
  have "skipWhitespace ?t = ?t" "hd ?t \<noteq> CHR '')''"
    using start_char_args[OF ok False] by (auto simp: skipWhitespace_start hd_append start_char_def)
  moreover have "parse_args E ?t ([], [], []) =
      POk (add_comma [] @ Join (map render_arg as) '','', foldl add_arg ([], []) (map (to_arg E) as)) rest"
    by (rule args_turns) (use args ok False in auto)
  ultimately show ?thesis
    by (simp add: parse_argList_eq argList_body_def add_comma_def)
qed

lemma parse_render:
  "ast_ok E a \<Longrightarrow> delim rest \<Longrightarrow> parse_withoutPipe E (render a @ rest) = POk (to_expr E a) rest"
  "arg_ok E c \<Longrightarrow> b \<in> (case c of Pos x \<Rightarrow> {x} | Named k x \<Rightarrow> {x}) \<Longrightarrow> delim rest' \<Longrightarrow>
   parse_withoutPipe E (render b @ rest') = POk (to_expr E b) rest'"
proof (induction a and c arbitrary: rest and b rest')
  case (AName n)
  then show ?case
    using parse_plain[of n rest E]
    by (auto simp: after_name_def is_bool_text_def plain_name_def name_delim_def delim_def)
next
  case (AConst t)
  then show ?case by (simp add: parse_const)
next
  case (AString q b)
  then show ?case using parse_string[of q b E rest] by simp
next
  case (ABool t)
  then show ?case
    using parse_plain[of t rest E] by (simp add: after_name_def is_bool_text_def plain_name_def name_delim_def)
next
  case (ACall f as)
  let ?t = "CHR ''('' # Join (map render_arg as) '','' @ CHR '')'' # rest"
  have "parse_withoutPipe E (f @ ?t) = after_name E (parse_argList E) f ?t"
    using ACall.prems by (intro parse_plain) (simp_all add: name_delim_def)
  moreover have "parse_argList E ?t =
      POk (Join (map render_arg as) '','', foldl add_arg ([], []) (map (to_arg E) as)) rest"
    using ACall by (intro parse_call) (auto simp: list_all_iff)
  ultimately show ?case
    using ACall.prems by (simp add: after_name_def is_bool_text_def plain_name_def)
next
  case (Pos x)
  then show ?case by simp
next
  case (Named k x)
  then show ?case by simp
qed

lemma parse_inner_render:
  "ast_ok E a \<Longrightarrow> delim rest \<Longrightarrow> rest = [] \<or> hd rest \<noteq> CHR ''|'' \<Longrightarrow>
   parse_inner E (render a @ rest) = POk (to_expr E a) rest"
  using parse_render(1)[of E a rest] by (intro parse_inner_delim) (simp_all add: name_delim_def)

text \<open>
  C2: parsing the text of an expression gives that expression: names with brace alternatives,
  constants, quoted strings, booleans, and calls nested to any depth with positional and named
  arguments in any order, with the argument text and the last value of a repeated argument name
  as the struct holds them.
\<close>

theorem parse_render_roundtrip:
  "ast_ok E a \<Longrightarrow> parse_inner E (render a) = POk (to_expr E a) []"
  using parse_inner_render[of E a "[]"] by (simp add: delim_def)

definition sample_ast :: ast where
  "sample_ast = ACall ''summarize''
     [Pos (ACall ''sumSeries'' [Pos (AName ''a.{b,c}.*''), Pos (AConst ''-1.5'')]),
      Named ''func'' (AString (CHR 0x27) ''max, min''), Named ''alignToFrom'' (ABool ''True'')]"

lemma sample_ast_ok: "ast_ok E sample_ast"
  by code_simp

theorem parse_render_roundtrip_witness:
  "\<forall>E. ast_ok E sample_ast \<and> parse_inner E (render sample_ast) = POk (to_expr E sample_ast) []"
  using parse_render_roundtrip[OF sample_ast_ok] sample_ast_ok by blast

section \<open>Pipes\<close>

lemma foldl_add_arg:
  "foldl add_arg (p @ q, m) xs = (case foldl add_arg (q, m) xs of (q', m') \<Rightarrow> (p @ q', m'))"
proof (induction xs arbitrary: q m)
  case (Cons x xs)
  obtain k e where x: "x = (k, e)" by (cases x)
  show ?case using Cons.IH[of "q @ [e]" m] Cons.IH[of q] by (cases k) (simp_all add: x)
qed simp

text \<open>The expressions whose struct prints as their text: all but quoted strings and Booleans.\<close>

fun prints_back :: "ast \<Rightarrow> bool" where
  "prints_back (AString q b) = False"
| "prints_back (ABool t) = False"
| "prints_back a = True"

lemma ToString_render: "prints_back a \<Longrightarrow> ToString E (to_expr E a) = render a"
  by (cases a) (auto simp: ToString_def name_expr_def call_expr_def split: prod.splits)

lemma pipe_render:
  assumes "ast_ok E a" "ast_ok E (ACall f as)" "prints_back a"
  shows "insertFirstArg E (to_expr E (ACall f as)) (to_expr E a) = Inr (to_expr E (ACall f (Pos a # as)))"
proof -
  have "Join (map render_arg as) '','' = [] \<longleftrightarrow> as = []"
    using start_char_args[of E as] assms(2) by auto
  moreover have "Join (render a # map render_arg as) '','' = render a @ '','' @ Join (map render_arg as) '',''"
    if "as \<noteq> []" using that by (cases as) simp_all
  ultimately show ?thesis
    using foldl_add_arg[of "[to_expr E a]" "[]" "[]" "map (to_arg E) as"] ToString_render[OF assms(3)]
    by (auto simp: insertFirstArg_def call_expr_def split: prod.splits)
qed

text \<open>
  C5: piping an expression into a call is passing it as the first argument: \<open>a|f(b,c)\<close> parses
  to the same struct as \<open>f(a,b,c)\<close>, argument text included, for names, constants and calls \<open>a\<close>
  (the forms whose struct prints as their text).
\<close>

theorem parse_pipe_first_arg:
  assumes "ast_ok E a" "ast_ok E (ACall f as)" "prints_back a"
  shows "parse_inner E (render a @ ''|'' @ render (ACall f as)) = parse_inner E (render (ACall f (Pos a # as)))"
proof -
  let ?t = "CHR ''|'' # render (ACall f as)"
  have l: "parse_withoutPipe E (render a @ ?t) = POk (to_expr E a) ?t"
    using assms(1) by (rule parse_render(1)) (simp add: delim_def)
  have r: "parse_withoutPipe E (render (ACall f as)) = POk (to_expr E (ACall f as)) []"
    using parse_render(1)[OF assms(2), of "[]"] by (simp add: delim_def)
  have "skipWhitespace ?t = ?t" by (rule delim_trim) (simp add: name_delim_def delim_def)
  then have "parse_pipe E (to_expr E a) ?t = POk (to_expr E (ACall f (Pos a # as))) []"
    using r pipe_render[OF assms] parse_pipe_eq[of E _ "[]"]
    by (simp add: parse_pipe_eq[of E _ ?t] pipe_body_def del: to_expr.simps render.simps)
  then have "parse_inner E (render a @ ?t) = POk (to_expr E (ACall f (Pos a # as))) []"
    by (simp add: parse_inner_eq inner_body_def l del: to_expr.simps render.simps)
  moreover have "ast_ok E (ACall f (Pos a # as))" using assms by simp
  ultimately show ?thesis
    using parse_inner_render[of E "ACall f (Pos a # as)" "[]"] by (simp add: delim_def del: to_expr.simps render.simps)
qed

theorem parse_pipe_first_arg_witness:
  "\<forall>E. ast_ok E sample_ast \<and> prints_back sample_ast
     \<and> parse_inner E (render sample_ast @ ''|'' @ render (ACall ''alias'' [Pos (AName ''x'')]))
         = parse_inner E (render (ACall ''alias'' [Pos sample_ast, Pos (AName ''x'')]))"
proof -
  have "ast_ok E (ACall ''alias'' [Pos (AName ''x'')])" "prints_back sample_ast" for E
    by code_simp+
  then show ?thesis using parse_pipe_first_arg sample_ast_ok by blast
qed

text \<open>
  The struct of a Boolean does not print as its text: \<open>ToString\<close> prints the numeric field, which
  the parser leaves at 0. The argument text of \<open>true|f(x)\<close> therefore reads \<open>0,x\<close>.
\<close>

lemma ToString_bool: "ToString E (to_expr E (ABool t)) = Sprint_f64 E (FNum 0)"
  by (simp add: ToString_def bool_expr_def)

end
