(* ===== verification/Tags.thy ===== *)
theory Tags
  imports Go_Strings "HOL-Library.AList"
begin

text \<open>
  Names and tags: \<open>expr/types/extract.go\<close>, which finds the metric name in the text of an
  expression, and \<open>expr/tags/helper.go\<close>, which reads the tags of a tagged name and of a
  \<open>seriesByTag\<close> call. A Go map from tag to value is an association list with distinct keys.
  A slice expression out of range is a panic.
\<close>

type_synonym tag_map = "(string \<times> string) list"

section \<open>The name in an expression\<close>

text \<open>\<open>utf8.RuneLen\<close> of a decoded rune: an invalid byte decodes to U+FFFD, whose length is 3.\<close>

definition rune_len :: "nat \<Rightarrow> nat" where
  "rune_len r = (if r < 128 then 1 else if r < 2048 then 2 else if r < 65536 then 3 else 4)"

text \<open>\<open>s[a:b]\<close>.\<close>

definition go_slice :: "string \<Rightarrow> nat \<Rightarrow> nat \<Rightarrow> string go_result" where
  "go_slice s a b = (if a \<le> b \<and> b \<le> length s then Some (take (b - a) (drop a s)) else Panic)"

text \<open>
  The loop over the runes from position \<open>i\<close>; \<open>w\<close> is the end of the last rune looked at. \<open>stops\<close> are
  the characters besides an unbraced comma or brace that end the name.
\<close>

function name_loc :: "nat list \<Rightarrow> string \<Rightarrow> nat \<Rightarrow> nat \<Rightarrow> nat \<Rightarrow> nat \<Rightarrow> nat \<times> nat" where
  "name_loc stops s i start braces w =
     (if length s \<le> i then (start, w)
      else (case decode_rune (drop i s) of (c, n) \<Rightarrow>
              (let w1 = i + rune_len c
               in if c = 123 then name_loc stops s (i + n) start (Suc braces) w1
                  else if c = 125
                  then (if braces = 0 then (start, i) else name_loc stops s (i + n) start (braces - 1) w1)
                  else if c = 44
                  then (if braces = 0 then (start, i) else name_loc stops s (i + n) start braces w1)
                  else if c = 40
                  then (if 11 \<le> i \<and> take 11 (drop (i - 11) s) = ''seriesByTag''
                        then (case index_byte (CHR '')'') (drop (i - 11) s) of
                                None \<Rightarrow> (i - 11, length s)
                              | Some e \<Rightarrow> (i - 11, i - 11 + e + 1))
                        else name_loc stops s (i + n) (i + 1) braces w1)
                  else if c \<in> set stops then (start, i)
                  else name_loc stops s (i + n) start braces w1)))"
  by pat_completeness auto
termination
proof (relation "measure (\<lambda>(stops, s, i, start, braces, w). length s - i)", goal_cases)
  case 1
  then show ?case by simp
qed (auto dest!: decode_rune_pos[rotated])

declare name_loc.simps [simp del]

definition ExtractNameLoc :: "string \<Rightarrow> nat \<times> nat" where
  "ExtractNameLoc s = name_loc [41] s 0 0 0 0"

definition ExtractName :: "string \<Rightarrow> string go_result" where
  "ExtractName s = (case ExtractNameLoc s of (a, b) \<Rightarrow> go_slice s a b)"

definition ExtractNameTag :: "string \<Rightarrow> string go_result" where
  "ExtractNameTag s = (case name_loc [41, 59] s 0 0 0 0 of (a, b) \<Rightarrow> go_slice s a b)"

section \<open>Tags of a tagged name\<close>

definition tag_segment :: "string \<Rightarrow> tag_map \<Rightarrow> tag_map" where
  "tag_segment seg m =
     (if seg = [] then m
      else (case index_byte (CHR ''='') seg of
              None \<Rightarrow> AList.update seg [] m
            | Some j \<Rightarrow> if j = 0 then m else AList.update (take j seg) (drop (j + 1) seg) m))"

function tags_loop :: "string \<Rightarrow> tag_map \<Rightarrow> tag_map" where
  "tags_loop newS m =
     (case index_byte (CHR '';'') newS of
        None \<Rightarrow> tag_segment newS m
      | Some idx \<Rightarrow> tags_loop (drop (idx + 1) newS) (tag_segment (take idx newS) m))"
  by pat_completeness auto
termination
  by (relation "measure (\<lambda>(s, m). length s)") (auto dest: index_byte_Some)

declare tags_loop.simps [simp del]

definition ExtractTags :: "string \<Rightarrow> tag_map" where
  "ExtractTags s =
     (case index_byte (CHR '';'') s of
        None \<Rightarrow> [(''name'', s)]
      | Some idx \<Rightarrow> tags_loop (drop (idx + 1) s) [(''name'', take idx s)])"

section \<open>Tags of a \<open>seriesByTag\<close> call\<close>

definition trim_right :: "string \<Rightarrow> string \<Rightarrow> string" where
  "trim_right s cutset = rev (dropWhile (\<lambda>c. c \<in> set cutset) (rev s))"

text \<open>\<open>WriteRune\<close> writes an invalid byte as the encoding of U+FFFD.\<close>

function regex_loop :: "nat \<Rightarrow> string \<Rightarrow> string" where
  "regex_loop prev s =
     (if s = [] then []
      else (case decode_rune s of (c, n) \<Rightarrow>
              (if c = 46 \<and> prev \<noteq> 92 then ''__''
               else if c = RuneError \<and> n = 1 then [CHR 0xEF, CHR 0xBF, CHR 0xBD]
               else take n s) @ regex_loop c (drop n s)))"
  by pat_completeness auto
termination
  by (relation "measure (\<lambda>(p, s). length s)") (auto intro: decode_rune_shorter)

declare regex_loop.simps [simp del]

definition sanitizeRegex :: "string \<Rightarrow> string" where
  "sanitizeRegex s0 =
     (let opened = HasPrefix s0 ''^'';
          s1 = (if opened then tl s0 else s0);
          closed = HasSuffix s1 ''$'';
          s2 = (if closed then butlast s1 else s1)
      in (if opened then [] else ''__*'') @ regex_loop 0 (trim_right s2 ''.*'') @ (if closed then [] else ''__*''))"

datatype ParseStep = WantTag | WantCmp | WantDelim

text \<open>The comparator at the position: how many bytes, whether the tag is recorded, whether a regex.\<close>

definition comparator :: "string \<Rightarrow> (nat \<times> bool \<times> bool) option" where
  "comparator p =
     (if HasPrefix p ''!=~'' then Some (3, False, True)
      else if HasPrefix p ''!='' then Some (2, False, False)
      else if HasPrefix p ''=~'' then Some (2, True, True)
      else if HasPrefix p ''='' then Some (1, True, False)
      else None)"

definition record_tag :: "string \<Rightarrow> bool \<Rightarrow> bool \<Rightarrow> string \<Rightarrow> char \<Rightarrow> tag_map \<Rightarrow> tag_map" where
  "record_tag tag0 add isRegex vs delim m =
     (let tag = (if tag0 = ''__name__'' then ''name'' else tag0)
      in case index_byte delim vs of
           None \<Rightarrow> m
         | Some e \<Rightarrow>
             if add \<and> tag \<noteq> [] \<and> 0 < e
             then AList.update tag (if isRegex then sanitizeRegex (take e vs) else take e vs) m
             else m)"

definition value_end :: "string \<Rightarrow> char \<Rightarrow> nat" where
  "value_end vs delim = (case index_byte delim vs of None \<Rightarrow> 0 | Some e \<Rightarrow> e + 1)"

function sbt_loop :: "string \<Rightarrow> nat \<Rightarrow> nat \<Rightarrow> char \<Rightarrow> ParseStep \<Rightarrow> tag_map \<Rightarrow> tag_map" where
  "sbt_loop s i startTag delim step m =
     (if length s \<le> i then m
      else (case decode_rune (drop i s) of (c, w) \<Rightarrow>
        if c = 44 then sbt_loop s (i + 1) startTag delim (if step = WantDelim then WantTag else step) m
        else if c = 41
        then (if step = WantTag \<or> step = WantDelim then m else sbt_loop s (i + 1) startTag delim step m)
        else if c = 39 \<or> c = 34
        then (if step = WantTag then sbt_loop s (i + 1) (i + 1) (s ! i) WantCmp m
              else sbt_loop s (i + 1) startTag delim WantDelim m)
        else if (c = 61 \<or> c = 33 \<or> c = 126) \<and> step = WantCmp
        then (case comparator (drop i s) of
                None \<Rightarrow> sbt_loop s (i + w) startTag delim step m
              | Some (n, add, isRegex) \<Rightarrow>
                  sbt_loop s (i + n + value_end (drop (i + n) s) delim) startTag delim WantDelim
                    (record_tag (take (i - startTag) (drop startTag s)) add isRegex (drop (i + n) s) delim m))
        else sbt_loop s (i + w) startTag delim step m))"
  by pat_completeness auto
termination
proof (relation "measure (\<lambda>(s, i, startTag, delim, step, m). length s - i)", goal_cases)
  case 1
  then show ?case by simp
qed (auto dest!: decode_rune_pos[rotated] simp: comparator_def split: if_splits)

declare sbt_loop.simps [simp del]

text \<open>\<open>nil\<close> on a text too short to be a call; reading the nil map is reading an empty one.\<close>

definition ExtractSeriesByTags :: "string \<Rightarrow> string \<Rightarrow> tag_map option" where
  "ExtractSeriesByTags s defaultName =
     (if length s < 13 then None
      else (let m = sbt_loop (drop 12 s) 0 0 (CHR 0x00) WantTag []
            in Some (if map_of m ''name'' = None then AList.update ''name'' defaultName m else m)))"

section \<open>Reading back what was written\<close>

definition tag_text :: "string \<times> string \<Rightarrow> string" where
  "tag_text p = CHR '';'' # fst p @ ''='' @ snd p"

definition tagged_name :: "string \<Rightarrow> tag_map \<Rightarrow> string" where
  "tagged_name n kvs = n @ concat (map tag_text kvs)"

definition tag_ok :: "string \<times> string \<Rightarrow> bool" where
  "tag_ok p \<longleftrightarrow> fst p \<noteq> [] \<and> CHR '';'' \<notin> set (fst p) \<and> CHR ''='' \<notin> set (fst p) \<and> CHR '';'' \<notin> set (snd p)"

lemma tag_segment_text: "tag_ok (k, v) \<Longrightarrow> tag_segment (k @ CHR ''='' # v) m = AList.update k v m"
  by (auto simp: tag_segment_def tag_ok_def index_byte_append)

lemma tags_loop_segment: "CHR '';'' \<notin> set seg \<Longrightarrow> tags_loop (seg @ CHR '';'' # s) m = tags_loop s (tag_segment seg m)"
  by (subst tags_loop.simps) (simp add: index_byte_append)

lemma tags_loop_last: "CHR '';'' \<notin> set seg \<Longrightarrow> tags_loop seg m = tag_segment seg m"
  by (subst tags_loop.simps) (simp add: index_byte_None[THEN iffD2])

lemma tags_loop_text:
  "tag_ok p \<Longrightarrow> list_all tag_ok kvs \<Longrightarrow>
   tags_loop (tl (tag_text p) @ concat (map tag_text kvs)) m =
     AList.updates (map fst kvs) (map snd kvs) (AList.update (fst p) (snd p) m)"
proof (induction kvs arbitrary: p m)
  case Nil
  have "CHR '';'' \<notin> set (fst p @ CHR ''='' # snd p)" using Nil by (auto simp: tag_ok_def)
  with Nil show ?case
    using tags_loop_last[of "fst p @ CHR ''='' # snd p"] tag_segment_text[of "fst p" "snd p"]
    by (simp add: tag_text_def)
next
  case (Cons q kvs)
  have "CHR '';'' \<notin> set (fst p @ CHR ''='' # snd p)" using Cons.prems by (auto simp: tag_ok_def)
  from tags_loop_segment[OF this, of "tl (tag_text q) @ concat (map tag_text kvs)" m] Cons.prems
  show ?case
    using tag_segment_text[of "fst p" "snd p" m] Cons.IH[of q "AList.update (fst p) (snd p) m"]
    by (simp add: tag_text_def[of p] tag_text_def[of q])
qed

lemma ExtractTags_text:
  assumes "CHR '';'' \<notin> set n" "list_all tag_ok kvs"
  shows "ExtractTags (tagged_name n kvs) = AList.updates (map fst kvs) (map snd kvs) [(''name'', n)]"
proof (cases kvs)
  case Nil
  then show ?thesis using assms by (simp add: ExtractTags_def tagged_name_def index_byte_None[THEN iffD2])
next
  case (Cons p ps)
  then have "tagged_name n kvs = n @ CHR '';'' # (tl (tag_text p) @ concat (map tag_text ps))"
    by (simp add: tagged_name_def tag_text_def)
  then show ?thesis
    using Cons assms tags_loop_text[of p ps "[(''name'', n)]"] by (simp add: ExtractTags_def index_byte_append)
qed

text \<open>
  C7: the tags of a tagged name are the ones it was written with, a later value of a repeated
  tag replacing an earlier one, and the name before the first semicolon is the tag \<open>name\<close>.
\<close>

theorem ExtractTags_tagged_name:
  assumes "CHR '';'' \<notin> set n" "list_all tag_ok kvs"
  shows "ExtractTags (tagged_name n kvs) = AList.updates (map fst kvs) (map snd kvs) [(''name'', n)]"
  using assms by (rule ExtractTags_text)

theorem ExtractTags_tagged_name_witness:
  "CHR '';'' \<notin> set ''cpu.idle'' \<and> list_all tag_ok [(''cpu'', ''0''), (''host'', [])] \<and>
   ExtractTags ''cpu.idle;cpu=0;host='' = [(''name'', ''cpu.idle''), (''cpu'', ''0''), (''host'', [])]"
proof -
  have "CHR '';'' \<notin> set ''cpu.idle''" "list_all tag_ok [(''cpu'', ''0''), (''host'', [])]" by code_simp+
  from ExtractTags_tagged_name[OF this] this show ?thesis by (simp add: tagged_name_def tag_text_def)
qed

section \<open>The name of a nested call\<close>

text \<open>Plain characters: ASCII, none that the scan looks at.\<close>

definition plain_char :: "char \<Rightarrow> bool" where
  "plain_char c \<longleftrightarrow> is_ascii c \<and> c \<notin> set ''{},()''"

lemma plain_char_byte:
  "plain_char c \<Longrightarrow> byte c < 128 \<and> byte c \<noteq> 123 \<and> byte c \<noteq> 125 \<and> byte c \<noteq> 44 \<and> byte c \<noteq> 40 \<and> byte c \<noteq> 41"
proof -
  have "byte c = byte d \<longleftrightarrow> c = d" for d by (simp add: byte_def)
  from this[of "CHR ''{''"] this[of "CHR ''}''"] this[of "CHR '',''"] this[of "CHR ''(''"] this[of "CHR '')''"]
  show "plain_char c \<Longrightarrow> ?thesis" by (auto simp: plain_char_def is_ascii_def byte_def)
qed

lemma drop_decode: "i < length s \<Longrightarrow> is_ascii (s ! i) \<Longrightarrow> decode_rune (drop i s) = (byte (s ! i), 1)"
  by (simp add: Cons_nth_drop_Suc[symmetric] decode_rune_ascii)

lemma name_loc_plain:
  "i < length s \<Longrightarrow> plain_char (s ! i) \<Longrightarrow> name_loc [41] s i start braces w = name_loc [41] s (i + 1) start braces (i + 1)"
  using plain_char_byte[of "s ! i"]
  by (subst name_loc.simps) (simp add: drop_decode plain_char_def rune_len_def)

lemma name_loc_skip:
  assumes "list_all plain_char p" "s = a @ p @ b" "p \<noteq> []"
  shows "name_loc [41] s (length a) start braces w =
    name_loc [41] s (length a + length p) start braces (length a + length p)"
  using assms
proof (induction p arbitrary: a w)
  case (Cons c p)
  have "name_loc [41] s (length a) start braces w = name_loc [41] s (length a + 1) start braces (length a + 1)"
    using Cons.prems by (intro name_loc_plain) auto
  also have "\<dots> = name_loc [41] s (length a + length (c # p)) start braces (length a + length (c # p))"
    using Cons.IH[of "a @ [c]"] Cons.prems by (cases "p = []") auto
  finally show ?case .
qed simp

text \<open>
  A nest of function names around a name: \<open>f(g(name,...),...)\<close>. A function whose name ends in
  \<open>seriesByTag\<close> is scanned differently and excluded.
\<close>

definition opens :: "string list \<Rightarrow> string" where
  "opens fs = concat (map (\<lambda>f. f @ ''('') fs)"

definition fun_name :: "string \<Rightarrow> bool" where
  "fun_name f \<longleftrightarrow> list_all plain_char f \<and> \<not> HasSuffix f ''seriesByTag''"

lemma not_seriesByTag:
  assumes "s = a @ f @ CHR ''('' # b" "a = [] \<or> last a = CHR ''(''" "\<not> HasSuffix f ''seriesByTag''"
  shows "\<not> (11 \<le> length a + length f \<and> take 11 (drop (length a + length f - 11) s) = ''seriesByTag'')"
proof
  assume h: "11 \<le> length a + length f \<and> take 11 (drop (length a + length f - 11) s) = ''seriesByTag''"
  show False
  proof (cases "11 \<le> length f")
    case True
    then have "take 11 (drop (length a + length f - 11) s) = drop (length f - 11) f"
      by (simp add: assms(1) add_diff_assoc)
    also have "\<dots> = rev (take 11 (rev f))" by (simp add: rev_take)
    finally have "take 11 (rev f) = rev ''seriesByTag''" using h by (metis rev_rev_ident)
    then show False using assms(3) by (simp add: HasSuffix_def HasPrefix_def eval_nat_numeral)
  next
    case False
    with h assms(2) have a: "a \<noteq> []" "last a = CHR ''(''" by auto
    let ?j = "length a - 1 - (length a + length f - 11)"
    have j: "?j < 11" "length a + length f - 11 + ?j = length a - 1" using False h a by (cases a; simp)+
    have "take 11 (drop (length a + length f - 11) s) ! ?j = s ! (length a - 1)"
      using j h assms(1) by (subst nth_take, simp, subst nth_drop) simp_all
    also have "\<dots> = CHR ''(''" using a by (simp add: assms(1) nth_append last_conv_nth)
    finally have "CHR ''('' \<in> set ''seriesByTag''"
      using h j(1) by (metis nth_mem length_Cons list.size(3) numeral_eq_Suc pred_numeral_simps BitM.simps)
    then show False by simp
  qed
qed

lemma name_loc_open:
  assumes "s = a @ CHR ''('' # b" "\<not> (11 \<le> length a \<and> take 11 (drop (length a - 11) s) = ''seriesByTag'')"
  shows "name_loc [41] s (length a) start braces w = name_loc [41] s (length a + 1) (length a + 1) braces (length a + 1)"
proof -
  have "decode_rune (drop (length a) s) = (40, 1)" "length a < length s"
    by (simp_all add: assms(1) decode_rune_ascii is_ascii_def byte_def)
  with assms(2) show ?thesis by (subst name_loc.simps) (auto simp: rune_len_def)
qed

lemma name_loc_end:
  assumes "s = a @ rest" "rest = [] \<or> hd rest = CHR '','' \<or> hd rest = CHR '')''"
  shows "name_loc [41] s (length a) start 0 (length a) = (start, length a)"
  using assms by (cases rest) (subst name_loc.simps, auto simp: decode_rune_ascii is_ascii_def byte_def)+

lemma name_loc_nest:
  assumes "list_all fun_name fs" "list_all plain_char name" "name \<noteq> []"
    and "rest = [] \<or> hd rest = CHR '','' \<or> hd rest = CHR '')''"
    and "s = a @ opens fs @ name @ rest" "a = [] \<or> last a = CHR ''(''"
  shows "name_loc [41] s (length a) (length a) 0 w =
    (length a + length (opens fs), length a + length (opens fs) + length name)"
  using assms
proof (induction fs arbitrary: a w)
  case Nil
  then show ?case
    using name_loc_skip[of name s a rest] name_loc_end[of s "a @ name" rest] by (simp add: opens_def)
next
  case (Cons f fs)
  let ?b = "opens fs @ name @ rest"
  have s: "s = a @ f @ CHR ''('' # ?b" using Cons.prems by (simp add: opens_def)
  have f: "list_all plain_char f" "\<not> HasSuffix f ''seriesByTag''" using Cons.prems by (auto simp: fun_name_def)
  have "name_loc [41] s (length a) (length a) 0 w = name_loc [41] s (length (a @ f)) (length a) 0 (if f = [] then w else length (a @ f))"
    using name_loc_skip[of f s a "CHR ''('' # ?b"] f(1) s by simp
  also have "\<dots> = name_loc [41] s (length (a @ f) + 1) (length (a @ f) + 1) 0 (length (a @ f) + 1)"
    using not_seriesByTag[OF s Cons.prems(6) f(2)]
    by (intro name_loc_open[where b = ?b]) (simp add: s, unfold length_append, assumption)
  also have "\<dots> = name_loc [41] s (length (a @ f @ ''('')) (length (a @ f @ ''('')) 0 (length (a @ f @ ''(''))"
    by simp
  also have "\<dots> = (length (a @ f @ ''('') + length (opens fs), length (a @ f @ ''('') + length (opens fs) + length name)"
    using Cons.prems s by (intro Cons.IH) auto
  finally show ?case by (simp add: opens_def)
qed

text \<open>
  the name found in the text of nested calls is the innermost first argument:
  \<open>ExtractName\<close> of \<open>f(g(name,...),...)\<close> is \<open>name\<close>, whatever follows the name's comma or
  parenthesis.
\<close>

lemma ExtractName_nested:
  assumes "list_all fun_name fs" "list_all plain_char name" "name \<noteq> []"
    and "rest = [] \<or> hd rest = CHR '','' \<or> hd rest = CHR '')''"
  shows "ExtractName (opens fs @ name @ rest) = Some name"
  using name_loc_nest[OF assms, of _ "[]" 0]
  by (simp add: ExtractName_def ExtractNameLoc_def go_slice_def)

lemma ExtractName_nested_witness:
  "list_all fun_name [''alias'', ''sumSeries''] \<and> list_all plain_char ''a.*.b;dc=1'' \<and>
   ExtractName (''alias(sumSeries(a.*.b;dc=1,x),'' @ [CHR 0x27] @ ''n'' @ [CHR 0x27] @ '')'') = Some ''a.*.b;dc=1''"
proof -
  have "list_all fun_name [''alias'', ''sumSeries'']" "list_all plain_char ''a.*.b;dc=1''" by code_simp+
  with ExtractName_nested[OF this, of "'',x),'' @ [CHR 0x27] @ ''n'' @ [CHR 0x27] @ '')''"]
  show ?thesis by (simp add: opens_def)
qed

lemma invalid_byte: "decode_rune [CHR 0xFF] = (RuneError, 1)"
  by (simp add: decode_rune.simps Let_def byte_def)

lemma name_loc_invalid: "name_loc [41] (n @ [CHR 0xFF]) (length n) start 0 w = (start, length n + 3)"
  by (subst name_loc.simps, simp add: invalid_byte, subst name_loc.simps) (simp add: RuneError_def rune_len_def)

text \<open>
  the scan counts an invalid UTF-8 byte as the three bytes of U+FFFD, so a name that ends in
  one is sliced past its end: \<open>ExtractName\<close>, and with it every function that makes a series
  from such a name, panics.
\<close>

lemma ExtractName_panics:
  assumes "list_all plain_char n"
  shows "ExtractName (n @ [CHR 0xFF]) = Panic"
  using name_loc_skip[of n "n @ [CHR 0xFF]" "[]" "[CHR 0xFF]" 0 0 0] assms name_loc_invalid[of n 0]
  by (cases "n = []") (auto simp: ExtractName_def ExtractNameLoc_def go_slice_def)

lemma ExtractName_panics_witness: "list_all plain_char ''cpu'' \<and> ExtractName (''cpu'' @ [CHR 0xFF]) = Panic"
proof -
  have "list_all plain_char ''cpu''" by code_simp
  with ExtractName_panics[OF this] show ?thesis by simp
qed

end
