(* ===== verification/Limiter.thy ===== *)
theory Limiter
  imports Prelude
begin

text \<open>
  The concurrency limiters of \<open>limiter/\<close>. A buffered channel of empty structs is the number of
  its elements with its capacity, a nil channel blocks for ever. \<open>Enter\<close> and \<open>Leave\<close> return the
  limiter after the call, and \<open>None\<close> while the call blocks; that \<open>Enter\<close> gives up when its
  context is done is a step of the system of requests below.
\<close>

section \<open>The limiters\<close>

record RealLimiter =
  rl_m :: "(string \<rightharpoonup> nat) option"
  rl_cap :: nat

datatype ServerLimiter = NoopLimiter | Real RealLimiter

definition NewServerLimiter :: "string list \<Rightarrow> int \<Rightarrow> ServerLimiter" where
  "NewServerLimiter servers l =
     (if l \<le> 0 then NoopLimiter
      else Real \<lparr>rl_m = Some (\<lambda>s. if s \<in> set servers then Some 0 else None), rl_cap = nat l\<rparr>)"

definition RealEnter :: "RealLimiter \<Rightarrow> string \<Rightarrow> RealLimiter option" where
  "RealEnter sl s =
     (case rl_m sl of
        None \<Rightarrow> Some sl
      | Some m \<Rightarrow>
          (case m s of
             None \<Rightarrow> None
           | Some n \<Rightarrow> if n < rl_cap sl then Some (sl\<lparr>rl_m := Some (m(s \<mapsto> n + 1))\<rparr>) else None))"

definition RealLeave :: "RealLimiter \<Rightarrow> string \<Rightarrow> RealLimiter option" where
  "RealLeave sl s =
     (case rl_m sl of
        None \<Rightarrow> Some sl
      | Some m \<Rightarrow>
          (case m s of
             None \<Rightarrow> None
           | Some n \<Rightarrow> if 0 < n then Some (sl\<lparr>rl_m := Some (m(s \<mapsto> n - 1))\<rparr>) else None))"

fun Capacity :: "ServerLimiter \<Rightarrow> nat" where
  "Capacity NoopLimiter = 0"
| "Capacity (Real sl) = rl_cap sl"

fun Enter :: "ServerLimiter \<Rightarrow> string \<Rightarrow> ServerLimiter option" where
  "Enter NoopLimiter s = Some NoopLimiter"
| "Enter (Real sl) s = map_option Real (RealEnter sl s)"

fun Leave :: "ServerLimiter \<Rightarrow> string \<Rightarrow> ServerLimiter option" where
  "Leave NoopLimiter s = Some NoopLimiter"
| "Leave (Real sl) s = map_option Real (RealLeave sl s)"

text \<open>A simple limiter is one channel: \<open>None\<close> when nil, else its capacity and its length.\<close>

type_synonym SimpleLimiter = "(nat \<times> nat) option"

definition NewSimpleLimiter :: "int \<Rightarrow> SimpleLimiter go_result" where
  "NewSimpleLimiter l = (if l < 0 then Panic else Some (Some (nat l, 0)))"

definition SimpleEnter :: "SimpleLimiter \<Rightarrow> SimpleLimiter option" where
  "SimpleEnter l =
     (case l of None \<Rightarrow> Some None | Some (c, n) \<Rightarrow> if n < c then Some (Some (c, n + 1)) else None)"

definition SimpleLeave :: "SimpleLimiter \<Rightarrow> SimpleLimiter option" where
  "SimpleLeave l =
     (case l of None \<Rightarrow> Some None | Some (c, n) \<Rightarrow> if 0 < n then Some (Some (c, n - 1)) else None)"

section \<open>Requests that share a limiter\<close>

text \<open>
  Concurrent requests, each as \<open>HttpQuery.doRequest\<close> of \<open>zipper/helper/requests.go\<close> uses the
  limiter: it waits in \<open>Enter\<close>, runs once it has a slot and leaves when it is done, or gives up
  while it waits because its context is done.
\<close>

datatype phase = Waiting | Running | Finished bool

type_synonym 's requests = "('s \<times> phase) list"

inductive serve_step ::
  "('l \<Rightarrow> 's \<Rightarrow> 'l option) \<Rightarrow> ('l \<Rightarrow> 's \<Rightarrow> 'l option) \<Rightarrow> 'l \<times> 's requests \<Rightarrow> 'l \<times> 's requests \<Rightarrow> bool"
  for enter leave where
  enters: "i < length rs \<Longrightarrow> rs ! i = (s, Waiting) \<Longrightarrow> enter l s = Some l' \<Longrightarrow>
     serve_step enter leave (l, rs) (l', rs[i := (s, Running)])"
| leaves: "i < length rs \<Longrightarrow> rs ! i = (s, Running) \<Longrightarrow> leave l s = Some l' \<Longrightarrow>
     serve_step enter leave (l, rs) (l', rs[i := (s, Finished True)])"

inductive request_step ::
  "('l \<Rightarrow> 's \<Rightarrow> 'l option) \<Rightarrow> ('l \<Rightarrow> 's \<Rightarrow> 'l option) \<Rightarrow> 'l \<times> 's requests \<Rightarrow> 'l \<times> 's requests \<Rightarrow> bool"
  for enter leave where
  serves: "serve_step enter leave a b \<Longrightarrow> request_step enter leave a b"
| times_out: "i < length rs \<Longrightarrow> rs ! i = (s, Waiting) \<Longrightarrow>
     request_step enter leave (l, rs) (l, rs[i := (s, Finished False)])"

inductive_cases serve_stepE: "serve_step enter leave (l, rs) (l', rs')"
inductive_cases request_stepE: "request_step enter leave (l, rs) (l', rs')"

definition running :: "'s requests \<Rightarrow> 's \<Rightarrow> nat" where
  "running rs s = length (filter (\<lambda>r. r = (s, Running)) rs)"

definition finished :: "'s \<times> phase \<Rightarrow> bool" where
  "finished r \<longleftrightarrow> (\<exists>b. snd r = Finished b)"

fun weight :: "phase \<Rightarrow> nat" where
  "weight Waiting = 2"
| "weight Running = 1"
| "weight (Finished b) = 0"

definition work :: "'s requests \<Rightarrow> nat" where
  "work rs = sum_list (map (\<lambda>r. weight (snd r)) rs)"

lemma running_enter: "i < length rs \<Longrightarrow> rs ! i = (s, Waiting) \<Longrightarrow> running (rs[i := (s, Running)]) = (running rs)(s := Suc (running rs s))"
proof (rule ext)
  fix t assume "i < length rs" "rs ! i = (s, Waiting)"
  then show "running (rs[i := (s, Running)]) t = ((running rs)(s := Suc (running rs s))) t"
    using length_filter_update[of i rs "\<lambda>r. r = (t, Running)" "(s, Running)"] by (auto simp: running_def)
qed

lemma running_leave:
  "i < length rs \<Longrightarrow> rs ! i = (s, Running) \<Longrightarrow> 0 < running rs s \<and> running (rs[i := (s, Finished b)]) = (running rs)(s := running rs s - 1)"
proof
  assume i: "i < length rs" "rs ! i = (s, Running)"
  then show "0 < running rs s" by (auto simp: running_def filter_empty_conv in_set_conv_nth)
  show "running (rs[i := (s, Finished b)]) = (running rs)(s := running rs s - 1)"
  proof (rule ext)
    fix t
    show "running (rs[i := (s, Finished b)]) t = ((running rs)(s := running rs s - 1)) t"
      using i length_filter_update[of i rs "\<lambda>r. r = (t, Running)" "(s, Finished b)"] by (auto simp: running_def)
  qed
qed

lemma running_timeout: "i < length rs \<Longrightarrow> rs ! i = (s, Waiting) \<Longrightarrow> running (rs[i := (s, Finished b)]) = running rs"
proof (rule ext)
  fix t assume "i < length rs" "rs ! i = (s, Waiting)"
  then show "running (rs[i := (s, Finished b)]) t = running rs t"
    using length_filter_update[of i rs "\<lambda>r. r = (t, Running)" "(s, Finished b)"] by (simp add: running_def)
qed

lemma fst_update: "i < length rs \<Longrightarrow> rs ! i = (s, q) \<Longrightarrow> map fst (rs[i := (s, p)]) = map fst rs"
  by (metis fst_conv list_update_id map_update nth_map)

lemma request_step_fst: "request_step enter leave (l, rs) (l', rs') \<Longrightarrow> map fst rs' = map fst rs"
  by (elim request_stepE serve_stepE) (auto simp: fst_update)

lemma work_update: "i < length rs \<Longrightarrow> work (rs[i := (s, p)]) + weight (snd (rs ! i)) = work rs + weight p"
  by (induction rs arbitrary: i) (auto simp: work_def nth_Cons split: nat.split)

lemma request_step_work: "request_step enter leave (l, rs) (l', rs') \<Longrightarrow> work rs' < work rs"
proof (elim request_stepE serve_stepE)
  fix i s assume "i < length rs" "rs ! i = (s, Waiting)" "rs' = rs[i := (s, Running)]"
  then show "work rs' < work rs" using work_update[of i rs s Running] by simp
next
  fix i s assume "i < length rs" "rs ! i = (s, Running)" "rs' = rs[i := (s, Finished True)]"
  then show "work rs' < work rs" using work_update[of i rs s "Finished True"] by simp
next
  fix i s assume "i < length rs" "rs ! i = (s, Waiting)" "rs' = rs[i := (s, Finished False)]"
  then show "work rs' < work rs" using work_update[of i rs s "Finished False"] by simp
qed

section \<open>The contract of a limiter\<close>

text \<open>
  \<open>holds l h\<close> relates a limiter to the number of requests that have a slot, per server: entering
  adds one, and a request that has a slot can leave at once.
\<close>

locale slot_limiter =
  fixes enter :: "'l \<Rightarrow> 's \<Rightarrow> 'l option"
    and leave :: "'l \<Rightarrow> 's \<Rightarrow> 'l option"
    and holds :: "'l \<Rightarrow> ('s \<Rightarrow> nat) \<Rightarrow> bool"
  assumes enter_holds: "holds l h \<Longrightarrow> enter l s = Some l' \<Longrightarrow> holds l' (h(s := Suc (h s)))"
    and leave_holds: "holds l h \<Longrightarrow> 0 < h s \<Longrightarrow> \<exists>l'. leave l s = Some l' \<and> holds l' (h(s := h s - 1))"
begin

lemma serve_step_holds:
  "serve_step enter leave (l, rs) (l', rs') \<Longrightarrow> holds l (running rs) \<Longrightarrow> holds l' (running rs')"
proof (elim serve_stepE)
  fix i s assume "i < length rs" "rs ! i = (s, Waiting)" "enter l s = Some l'" "rs' = rs[i := (s, Running)]"
    "holds l (running rs)"
  then show "holds l' (running rs')" using enter_holds running_enter by metis
next
  fix i s assume i: "i < length rs" "rs ! i = (s, Running)" "leave l s = Some l'" "rs' = rs[i := (s, Finished True)]"
    "holds l (running rs)"
  then show "holds l' (running rs')"
    using leave_holds[of l "running rs" s] running_leave[OF i(1,2), of True] by simp
qed

lemma request_step_holds:
  "request_step enter leave (l, rs) (l', rs') \<Longrightarrow> holds l (running rs) \<Longrightarrow> holds l' (running rs')"
  by (elim request_stepE) (auto simp: running_timeout intro: serve_step_holds)

lemma reachable_holds:
  assumes "(request_step enter leave)\<^sup>*\<^sup>* (l, rs) (l', rs')" "holds l (running rs)"
  shows "holds l' (running rs')"
  using assms by (induction rule: rtranclp_induct2) (auto intro: request_step_holds)

end

text \<open>With a limiter that lets a request in when its server has no request running, all get served.\<close>

locale free_limiter = slot_limiter enter leave holds
  for enter :: "'l \<Rightarrow> 's \<Rightarrow> 'l option" and leave :: "'l \<Rightarrow> 's \<Rightarrow> 'l option" and holds :: "'l \<Rightarrow> ('s \<Rightarrow> nat) \<Rightarrow> bool" +
  fixes known :: "'l \<Rightarrow> 's \<Rightarrow> bool"
  assumes enter_free: "holds l h \<Longrightarrow> known l s \<Longrightarrow> h s = 0 \<Longrightarrow> \<exists>l'. enter l s = Some l'"
    and enter_known: "enter l s = Some l' \<Longrightarrow> known l' t \<longleftrightarrow> known l t"
    and leave_known: "leave l s = Some l' \<Longrightarrow> known l' t \<longleftrightarrow> known l t"
begin

lemma serve_step_known: "serve_step enter leave (l, rs) (l', rs') \<Longrightarrow> known l' t \<longleftrightarrow> known l t"
  by (elim serve_stepE) (auto simp: enter_known leave_known)

lemma request_step_known: "request_step enter leave (l, rs) (l', rs') \<Longrightarrow> known l' t \<longleftrightarrow> known l t"
  by (elim request_stepE) (auto simp: serve_step_known)

lemma serve_progress:
  assumes "holds l (running rs)" "r \<in> set rs" "\<not> finished r" "\<forall>r\<in>set rs. finished r \<or> known l (fst r)"
  shows "\<exists>l' rs'. serve_step enter leave (l, rs) (l', rs')"
proof (cases "\<exists>s. (s, Running) \<in> set rs")
  case True
  then obtain s i where i: "i < length rs" "rs ! i = (s, Running)" by (auto simp: in_set_conv_nth)
  from running_leave[OF this, of True] obtain l' where "leave l s = Some l'"
    using leave_holds[OF assms(1)] by blast
  with i show ?thesis by (meson serve_step.leaves)
next
  case False
  obtain s p where r: "r = (s, p)" by (cases r)
  have "p = Waiting" using assms(2,3) False by (cases p) (auto simp: r finished_def)
  then obtain i where i: "i < length rs" "rs ! i = (fst r, Waiting)"
    using assms(2) by (metis fst_conv in_set_conv_nth r)
  have "running rs (fst r) = 0" using False by (auto simp: running_def filter_empty_conv)
  then obtain l' where "enter l (fst r) = Some l'"
    using enter_free[OF assms(1)] assms(2-4) by blast
  with i show ?thesis by (meson serve_step.enters)
qed

lemma serve_step_requests:
  assumes "serve_step enter leave (l, rs) (l', rs')"
  shows "map fst rs' = map fst rs" "\<forall>i<length rs. snd (rs ! i) = Finished b \<longrightarrow> rs' ! i = rs ! i"
    and "\<forall>i<length rs. snd (rs' ! i) = Finished False \<longrightarrow> rs ! i = rs' ! i"
  using assms by (auto elim!: serve_stepE simp: map_update nth_list_update intro!: nth_equalityI)

lemma all_served:
  assumes "holds l (running rs)" "\<forall>r\<in>set rs. finished r \<or> known l (fst r)"
  shows "\<exists>l' rs'. (serve_step enter leave)\<^sup>*\<^sup>* (l, rs) (l', rs') \<and> map fst rs' = map fst rs
     \<and> (\<forall>i<length rs. rs' ! i = (if finished (rs ! i) then rs ! i else (fst (rs ! i), Finished True)))"
  using assms
proof (induction "work rs" arbitrary: l rs rule: less_induct)
  case less
  show ?case
  proof (cases "\<forall>r\<in>set rs. finished r")
    case True
    then show ?thesis by (intro exI[of _ l] exI[of _ rs]) auto
  next
    case False
    then obtain l1 rs1 where st: "serve_step enter leave (l, rs) (l1, rs1)"
      using serve_progress[OF less.prems(1)] less.prems(2) by blast
    note rq = serve_step_requests[OF st]
    have len: "length rs1 = length rs" using rq(1) by (metis length_map)
    have fst1: "fst (rs1 ! i) = fst (rs ! i)" if "i < length rs" for i
      using that rq(1) len by (metis nth_map)
    have w: "work rs1 < work rs" using request_step_work[OF request_step.serves[OF st]] .
    have h1: "holds l1 (running rs1)" using serve_step_holds[OF st less.prems(1)] .
    have k1: "\<forall>r\<in>set rs1. finished r \<or> known l1 (fst r)"
    proof
      fix r assume "r \<in> set rs1"
      then obtain i where i: "i < length rs" "r = rs1 ! i" by (auto simp: in_set_conv_nth len)
      then have "finished (rs ! i) \<or> known l (fst (rs ! i))" using less.prems(2) by simp
      then show "finished r \<or> known l1 (fst r)"
        using i fst1 rq(2) serve_step_known[OF st] by (auto simp: finished_def)
    qed
    from less.hyps[OF w h1 k1] obtain l' rs' where r:
      "(serve_step enter leave)\<^sup>*\<^sup>* (l1, rs1) (l', rs')" "map fst rs' = map fst rs1"
      "\<forall>i<length rs1. rs' ! i = (if finished (rs1 ! i) then rs1 ! i else (fst (rs1 ! i), Finished True))" by blast
    have "rs' ! i = (if finished (rs ! i) then rs ! i else (fst (rs ! i), Finished True))" if i: "i < length rs" for i
    proof (cases "finished (rs ! i)")
      case True
      then have "rs1 ! i = rs ! i" using rq(2) i by (auto simp: finished_def)
      then show ?thesis using True r(3) i len by simp
    next
      case False
      then have "snd (rs1 ! i) \<noteq> Finished False" using rq(3) i by (auto simp: finished_def)
      then show ?thesis using False r(3) i len fst1[OF i] by (cases "rs1 ! i") (auto simp: finished_def)
    qed
    then show ?thesis
      using r(1,2) rq(1) st by (intro exI[of _ l'] exI[of _ rs']) (auto intro: converse_rtranclp_into_rtranclp)
  qed
qed

end

section \<open>The limiters keep the contract\<close>

definition real_holds :: "RealLimiter \<Rightarrow> (string \<Rightarrow> nat) \<Rightarrow> bool" where
  "real_holds sl h \<longleftrightarrow>
     (case rl_m sl of
        None \<Rightarrow> True
      | Some m \<Rightarrow> 0 < rl_cap sl
          \<and> (\<forall>s. (case m s of None \<Rightarrow> 0 | Some n \<Rightarrow> n) = h s \<and> h s \<le> rl_cap sl))"

fun limiter_holds :: "ServerLimiter \<Rightarrow> (string \<Rightarrow> nat) \<Rightarrow> bool" where
  "limiter_holds NoopLimiter h \<longleftrightarrow> True"
| "limiter_holds (Real sl) h \<longleftrightarrow> real_holds sl h"

fun limiter_knows :: "ServerLimiter \<Rightarrow> string \<Rightarrow> bool" where
  "limiter_knows NoopLimiter s \<longleftrightarrow> True"
| "limiter_knows (Real sl) s \<longleftrightarrow> (case rl_m sl of None \<Rightarrow> True | Some m \<Rightarrow> m s \<noteq> None)"

lemma real_holdsD:
  assumes "real_holds sl h" "rl_m sl = Some m"
  shows "0 < rl_cap sl" "(case m s of None \<Rightarrow> 0 | Some n \<Rightarrow> n) = h s" "h s \<le> rl_cap sl"
  using assms by (simp_all add: real_holds_def)

lemma real_holdsI:
  "rl_m sl = Some m \<Longrightarrow> 0 < rl_cap sl \<Longrightarrow> (\<And>s. (case m s of None \<Rightarrow> 0 | Some n \<Rightarrow> n) = h s) \<Longrightarrow>
   (\<And>s. h s \<le> rl_cap sl) \<Longrightarrow> real_holds sl h"
  by (simp add: real_holds_def)

lemma real_enter_holds:
  assumes "real_holds sl h" "RealEnter sl s = Some sl'"
  shows "real_holds sl' (h(s := Suc (h s)))"
proof (cases "rl_m sl")
  case None
  then show ?thesis using assms by (auto simp: real_holds_def RealEnter_def)
next
  case (Some m)
  note D = real_holdsD[OF assms(1) Some]
  obtain n where n: "m s = Some n" "n < rl_cap sl" "sl' = sl\<lparr>rl_m := Some (m(s \<mapsto> n + 1))\<rparr>"
    using assms(2) Some by (auto simp: RealEnter_def split: option.splits if_splits)
  then show ?thesis using D D(2)[of s] by (intro real_holdsI) auto
qed

lemma real_leave_holds: "real_holds sl h \<Longrightarrow> 0 < h s \<Longrightarrow> \<exists>sl'. RealLeave sl s = Some sl' \<and> real_holds sl' (h(s := h s - 1))"
proof (cases "rl_m sl")
  case None
  then show "\<exists>sl'. RealLeave sl s = Some sl' \<and> real_holds sl' (h(s := h s - 1))"
    by (simp add: real_holds_def RealLeave_def)
next
  case (Some m)
  assume h: "real_holds sl h" "0 < h s"
  note D = real_holdsD[OF h(1) Some]
  have ms: "m s = Some (h s)" using D(2)[of s] h(2) by (cases "m s") auto
  have "real_holds (sl\<lparr>rl_m := Some (m(s \<mapsto> h s - 1))\<rparr>) (h(s := h s - 1))"
    using D le_trans[OF diff_le_self D(3)[of s]] by (intro real_holdsI) auto
  then show "\<exists>sl'. RealLeave sl s = Some sl' \<and> real_holds sl' (h(s := h s - 1))"
    using Some h(2) ms by (simp add: RealLeave_def)
qed

interpretation server_limiter: free_limiter Enter Leave limiter_holds limiter_knows
proof
  fix l l' :: ServerLimiter and h and s t :: string
  show "limiter_holds l h \<Longrightarrow> Enter l s = Some l' \<Longrightarrow> limiter_holds l' (h(s := Suc (h s)))"
    by (cases l) (auto dest: real_enter_holds)
  show "limiter_holds l h \<Longrightarrow> 0 < h s \<Longrightarrow> \<exists>l'. Leave l s = Some l' \<and> limiter_holds l' (h(s := h s - 1))"
    using real_leave_holds[of _ h s] by (cases l) (auto simp: ex_simps simp flip: ex_simps)
  show "limiter_holds l h \<Longrightarrow> limiter_knows l s \<Longrightarrow> h s = 0 \<Longrightarrow> \<exists>l'. Enter l s = Some l'"
    by (cases l) (auto simp: real_holds_def RealEnter_def split: option.splits dest: spec[of _ s])
  show "Enter l s = Some l' \<Longrightarrow> limiter_knows l' t \<longleftrightarrow> limiter_knows l t"
    by (cases l) (auto simp: RealEnter_def split: option.splits if_splits)
  show "Leave l s = Some l' \<Longrightarrow> limiter_knows l' t \<longleftrightarrow> limiter_knows l t"
    by (cases l) (auto simp: RealLeave_def split: option.splits if_splits)
qed

text \<open>The simple limiter keeps the same contract, for requests without a server.\<close>

definition simple_holds :: "SimpleLimiter \<Rightarrow> (unit \<Rightarrow> nat) \<Rightarrow> bool" where
  "simple_holds l h \<longleftrightarrow> (case l of None \<Rightarrow> True | Some (c, n) \<Rightarrow> h () = n \<and> n \<le> c)"

interpretation simple_limiter:
  free_limiter "\<lambda>l _. SimpleEnter l" "\<lambda>l _. SimpleLeave l" simple_holds "\<lambda>l _. case l of None \<Rightarrow> True | Some (c, n) \<Rightarrow> 0 < c"
  by unfold_locales (auto simp: simple_holds_def SimpleEnter_def SimpleLeave_def split: option.splits if_splits)

text \<open>
  C12: Never more requests run on a server than the limiter's capacity: in every state that
  requests sharing a new limiter of capacity \<open>c\<close> can reach, whatever the interleaving and the
  timeouts, at most \<open>c\<close> of them run on any one server.
\<close>

theorem limiter_bound:
  assumes "0 < c" "(request_step Enter Leave)\<^sup>*\<^sup>* (NewServerLimiter servers c, map (\<lambda>s. (s, Waiting)) ss) (l, rs)"
  shows "int (running rs s) \<le> c"
proof -
  let ?l0 = "NewServerLimiter servers c"
  have r0: "running (map (\<lambda>s. (s, Waiting)) ss) = (\<lambda>s. 0)"
    by (rule ext) (simp add: running_def filter_empty_conv)
  have "limiter_holds l (running rs)"
    using assms by (intro server_limiter.reachable_holds[OF assms(2)]) (simp add: r0 NewServerLimiter_def real_holds_def)
  moreover have "\<exists>sl m. l = Real sl \<and> rl_m sl = Some m \<and> rl_cap sl = nat c"
    using assms(2)
  proof (induction rule: rtranclp_induct2)
    case refl
    then show ?case using assms(1) by (simp add: NewServerLimiter_def)
  next
    case (step l1 rs1 l2 rs2)
    then show ?case
      by (auto elim!: request_stepE serve_stepE simp: RealEnter_def RealLeave_def split: option.splits if_splits)
  qed
  ultimately show ?thesis
    using assms(1) real_holdsD(3)[of _ "running rs" _ s] by fastforce
qed

theorem limiter_bound_witness:
  "int (running [(''a'', Running), (''a'', Waiting)] ''a'') \<le> 1"
proof (rule limiter_bound[of 1 "[''a'']" "[''a'', ''a'']"])
  have "serve_step Enter Leave (NewServerLimiter [''a''] 1, [(''a'', Waiting), (''a'', Waiting)])
      (Real \<lparr>rl_m = Some ((\<lambda>s. if s \<in> set [''a''] then Some 0 else None)(''a'' \<mapsto> 1)), rl_cap = 1\<rparr>,
       [(''a'', Waiting), (''a'', Waiting)][0 := (''a'', Running)])"
    by (rule serve_step.enters) (simp_all add: NewServerLimiter_def RealEnter_def)
  then show "(request_step Enter Leave)\<^sup>*\<^sup>* (NewServerLimiter [''a''] 1, map (\<lambda>s. (s, Waiting)) [''a'', ''a''])
      (Real \<lparr>rl_m = Some ((\<lambda>s. if s \<in> set [''a''] then Some 0 else None)(''a'' \<mapsto> 1)), rl_cap = 1\<rparr>,
       [(''a'', Running), (''a'', Waiting)])"
    by (intro r_into_rtranclp request_step.serves) simp
qed simp

text \<open>
  C13: Requests to servers of the limiter do not starve: from every reachable state the requests
  that still wait or run can all be served without a further timeout, and every run is finite,
  since each step leaves less work.
\<close>

theorem limiter_live:
  assumes "(request_step Enter Leave)\<^sup>*\<^sup>* (NewServerLimiter servers c, map (\<lambda>s. (s, Waiting)) ss) (l, rs)"
    and "set ss \<subseteq> set servers"
  shows "\<exists>l' rs'. (serve_step Enter Leave)\<^sup>*\<^sup>* (l, rs) (l', rs') \<and> map fst rs' = ss
     \<and> (\<forall>i<length rs. rs' ! i = (if finished (rs ! i) then rs ! i else (fst (rs ! i), Finished True)))
     \<and> (\<forall>l1 rs1. request_step Enter Leave (l, rs) (l1, rs1) \<longrightarrow> work rs1 < work rs)"
proof -
  let ?l0 = "NewServerLimiter servers c"
  have r0: "running (map (\<lambda>s. (s, Waiting)) ss) = (\<lambda>s. 0)"
    by (rule ext) (simp add: running_def filter_empty_conv)
  have h: "limiter_holds l (running rs)"
    by (intro server_limiter.reachable_holds[OF assms(1)]) (simp add: r0 NewServerLimiter_def real_holds_def)
  have k: "map fst rs = ss \<and> (\<forall>s\<in>set ss. limiter_knows l s)"
    using assms(1)
  proof (induction rule: rtranclp_induct2)
    case refl
    then show ?case using assms(2) by (auto simp: NewServerLimiter_def comp_def)
  next
    case (step l1 rs1 l2 rs2)
    then show ?case
      using request_step_fst[OF step(2)] server_limiter.request_step_known[OF step(2)] by simp
  qed
  then have "\<forall>r\<in>set rs. finished r \<or> limiter_knows l (fst r)" by (metis image_eqI image_set)
  from server_limiter.all_served[OF h this] show ?thesis
    using k request_step_work[of Enter Leave l rs] by metis
qed

theorem limiter_live_witness:
  "\<exists>l' rs'. (serve_step Enter Leave)\<^sup>*\<^sup>* (NewServerLimiter [''a''] 1, [(''a'', Waiting), (''a'', Waiting)]) (l', rs')
     \<and> rs' = [(''a'', Finished True), (''a'', Finished True)]"
proof -
  let ?rs = "map (\<lambda>s. (s, Waiting)) [''a'', ''a'']"
  obtain l' rs' where r: "(serve_step Enter Leave)\<^sup>*\<^sup>* (NewServerLimiter [''a''] 1, ?rs) (l', rs')" "map fst rs' = [''a'', ''a'']"
    "\<forall>i<length ?rs. rs' ! i = (if finished (?rs ! i) then ?rs ! i else (fst (?rs ! i), Finished True))"
    using limiter_live[OF rtranclp.rtrancl_refl, of "[''a'', ''a'']" "[''a'']" 1] by auto
  have "length rs' = 2" using arg_cong[OF r(2), of length] by simp
  then have "rs' = [(''a'', Finished True), (''a'', Finished True)]"
    using r(3) by (intro nth_equalityI) (auto simp: less_2_cases_iff less_Suc_eq finished_def)
  with r(1) show ?thesis by auto
qed

end
