(* ===== verification/Zipper_Errors.thy ===== *)
theory Zipper_Errors
  imports Go_Strings
begin

text \<open>
  Errors of the zipper: the error values of \<open>zipper/types/errors.go\<close>, the HTTP codes that
  \<open>zipper/helper/errors.go\<close> makes of them, and \<open>stripHtmlTags\<close> of \<open>zipper/helper/requests.go\<close>.

  An error of the package \<open>merry\<close> is a base error with an HTTP code, a message and a cause set
  on it; the last one set counts, so the error is kept as these four. A nil error is \<open>None\<close>
  where the code tests for it; the lists of errors hold none.
\<close>

section \<open>Error values\<close>

text \<open>The errors of \<open>net/http\<close> the code tells apart; a \<open>url.Error\<close> and a \<open>net.OpError\<close> carry their own text.\<close>

datatype net_error = DeadlineExceeded | UrlError string net_error | NetOpError string net_error | OtherNetError string

datatype err_id =
    ErrResponseTypeMismatch | ErrResponseLengthMismatch | ErrResponseStartTimeMismatch
  | ErrResponseStepTimeMismatch | ErrNotImplementedYet | ErrNotSupportedByBackend | ErrForbidden
  | ErrTimeoutExceeded | ErrNonFatalErrors | ErrNotFound | ErrNoResponseFetched | ErrNoMetricsFetched
  | ErrMaxTriesExceeded | ErrFailed | ErrFailedToFetch | ErrNoRequests | ErrNoTagSpecified
  | ErrNoServersSpecified | ErrConcurrencyLimitNotSet | ErrUnmarshalFailed | ErrBackendError
  | ErrResponceError
  | ParserErrInvalidArg | NetErr net_error | OtherErr string

datatype merry_error =
  Merry (m_id: err_id) (m_code: "int option") (m_text: string) (m_cause: "merry_error option")

text \<open>The codes and texts of the package's own errors.\<close>

definition err_code :: "err_id \<Rightarrow> int option" where
  "err_code i =
     (case i of
        ErrForbidden \<Rightarrow> Some 403
      | ErrTimeoutExceeded \<Rightarrow> Some 504
      | ErrNoMetricsFetched \<Rightarrow> Some 404
      | ErrBackendError \<Rightarrow> Some 503
      | _ \<Rightarrow> None)"

fun net_text :: "net_error \<Rightarrow> string" where
  "net_text (OtherNetError s) = s"
| "net_text DeadlineExceeded = ''context deadline exceeded''"
| "net_text (UrlError s e) = s"
| "net_text (NetOpError s e) = s"

definition err_text :: "err_id \<Rightarrow> string" where
  "err_text i =
     (case i of
        ErrResponseTypeMismatch \<Rightarrow> ''type for the response doesn'' @ [CHR 0x27] @ ''t match what'' @ [CHR 0x27] @ ''s expected''
      | ErrResponseLengthMismatch \<Rightarrow> ''response length mismatch''
      | ErrResponseStartTimeMismatch \<Rightarrow> ''response start time mismatch''
      | ErrResponseStepTimeMismatch \<Rightarrow> ''response step time mismatch''
      | ErrNotImplementedYet \<Rightarrow> ''this feature is not implemented yet''
      | ErrNotSupportedByBackend \<Rightarrow> ''this feature is not supported by backend''
      | ErrForbidden \<Rightarrow> ''forbidden''
      | ErrTimeoutExceeded \<Rightarrow> ''timeout while fetching Response''
      | ErrNonFatalErrors \<Rightarrow> ''response contains non-fatal errors''
      | ErrNotFound \<Rightarrow> ''metric not found''
      | ErrNoResponseFetched \<Rightarrow> ''no responses fetched from upstream''
      | ErrNoMetricsFetched \<Rightarrow> ''no metrics in the Response''
      | ErrMaxTriesExceeded \<Rightarrow> ''max tries exceeded''
      | ErrFailed \<Rightarrow> ''failed due to error''
      | ErrFailedToFetch \<Rightarrow> ''failed to fetch data from server/group''
      | ErrNoRequests \<Rightarrow> ''no requests to fetch''
      | ErrNoTagSpecified \<Rightarrow> ''no tag specified''
      | ErrNoServersSpecified \<Rightarrow> ''no servers specified''
      | ErrConcurrencyLimitNotSet \<Rightarrow> ''concurrency limit is not set''
      | ErrUnmarshalFailed \<Rightarrow> ''unmarshal failed''
      | ErrBackendError \<Rightarrow> ''error fetching data from backend''
      | ErrResponceError \<Rightarrow> ''error while fetching Response''
      | ParserErrInvalidArg \<Rightarrow> ''invalid function arg''
      | NetErr e \<Rightarrow> net_text e
      | OtherErr s \<Rightarrow> s)"

definition base_error :: "err_id \<Rightarrow> merry_error" where
  "base_error i = Merry i (err_code i) (err_text i) None"

definition WithHTTPCode :: "merry_error \<Rightarrow> int \<Rightarrow> merry_error" where
  "WithHTTPCode e c = Merry (m_id e) (Some c) (m_text e) (m_cause e)"

definition WithMessage :: "merry_error \<Rightarrow> string \<Rightarrow> merry_error" where
  "WithMessage e s = Merry (m_id e) (m_code e) s (m_cause e)"

definition WithCause :: "merry_error \<Rightarrow> merry_error \<Rightarrow> merry_error" where
  "WithCause e c = Merry (m_id e) (m_code e) (m_text e) (Some c)"

definition HTTPCode :: "merry_error \<Rightarrow> int" where
  "HTTPCode e = (case m_code e of None \<Rightarrow> 500 | Some c \<Rightarrow> if c = 0 then 500 else c)"

fun RootCause :: "merry_error \<Rightarrow> merry_error" where
  "RootCause (Merry i c s None) = Merry i c s None"
| "RootCause (Merry i c s (Some e)) = RootCause e"

fun merry_Is :: "merry_error \<Rightarrow> err_id \<Rightarrow> bool" where
  "merry_Is (Merry i c s None) j \<longleftrightarrow> i = j"
| "merry_Is (Merry i c s (Some e)) j \<longleftrightarrow> i = j \<or> merry_Is e j"

definition ReturnNonNotFoundError :: "merry_error list \<Rightarrow> merry_error list" where
  "ReturnNonNotFoundError errs = filter (\<lambda>e. \<not> merry_Is e ErrNotFound) errs"

section \<open>HTTP codes\<close>

fun is_deadline :: "net_error \<Rightarrow> bool" where
  "is_deadline DeadlineExceeded \<longleftrightarrow> True"
| "is_deadline (UrlError s e) \<longleftrightarrow> is_deadline e"
| "is_deadline (NetOpError s e) \<longleftrightarrow> is_deadline e"
| "is_deadline (OtherNetError s) \<longleftrightarrow> False"

definition requestError :: "net_error \<Rightarrow> merry_error" where
  "requestError err =
     (if is_deadline err then WithCause (base_error ErrTimeoutExceeded) (base_error (NetErr err))
      else case err of
        UrlError _ (NetOpError s e) \<Rightarrow> WithCause (base_error ErrBackendError) (base_error (NetErr (NetOpError s e)))
      | NetOpError s e \<Rightarrow> WithCause (base_error ErrBackendError) (base_error (NetErr (NetOpError s e)))
      | _ \<Rightarrow> base_error ErrResponceError)"

definition HttpErrorCode :: "merry_error option \<Rightarrow> int" where
  "HttpErrorCode err =
     (case err of
        None \<Rightarrow> 200
      | Some e \<Rightarrow>
          (let c = RootCause e; code = HTTPCode e
           in if code = 404 then code
              else (let code1 = (if code = 500 \<and> merry_Is c ParserErrInvalidArg then 400 else code)
                    in if code1 = 504 \<or> code1 = 502 \<or> merry_Is c ErrFailedToFetch then 503 else code1)))"

definition recalcCode :: "int \<Rightarrow> int \<Rightarrow> int" where
  "recalcCode code newCode0 =
     (let newCode = (if newCode0 = 504 \<or> newCode0 = 502 then 503 else newCode0)
      in if code = 0 \<or> code = 404 then newCode
         else if 400 \<le> newCode \<and> newCode < 500 \<and> 400 \<le> code \<and> code < 500
                 \<and> (newCode = 400 \<or> newCode = 403 \<and> code \<noteq> 400)
         then newCode
         else if newCode < code then newCode else code)"

definition merryError :: "merry_error \<Rightarrow> string" where
  "merryError e = rev (dropWhile (\<lambda>c. c = CHR 0x0A) (rev (m_text e)))"

definition MerryRootError :: "merry_error \<Rightarrow> string" where
  "MerryRootError e = merryError (RootCause e)"

text \<open>The code an error counts with; \<open>None\<close> when it is skipped.\<close>

definition merge_code :: "merry_error \<Rightarrow> int option" where
  "merge_code e =
     (if HTTPCode e = 404 then None
      else if HTTPCode e = 500 \<and> merry_Is (RootCause e) ParserErrInvalidArg then Some 400
      else Some (HTTPCode e))"

fun merge_loop :: "int \<Rightarrow> string list \<Rightarrow> merry_error list \<Rightarrow> int \<times> string list" where
  "merge_loop returnCode errMsgs [] = (returnCode, errMsgs)"
| "merge_loop returnCode errMsgs (e # es) =
     (case merge_code e of
        None \<Rightarrow> merge_loop returnCode errMsgs es
      | Some code \<Rightarrow> merge_loop (recalcCode returnCode code) (errMsgs @ [merryError (RootCause e)]) es)"

definition MergeHttpErrors :: "merry_error list \<Rightarrow> int \<times> string list" where
  "MergeHttpErrors errors = merge_loop 404 [] errors"

text \<open>The loop over a map visits its entries in any order: here in that of the list.\<close>

fun merge_map_loop :: "int \<Rightarrow> (string \<times> string) list \<Rightarrow> (string \<times> merry_error) list \<Rightarrow> int \<times> (string \<times> string) list" where
  "merge_map_loop returnCode errMap [] = (returnCode, errMap)"
| "merge_map_loop returnCode errMap ((k, e) # es) =
     (case merge_code e of
        None \<Rightarrow> merge_map_loop returnCode errMap es
      | Some code \<Rightarrow> merge_map_loop (recalcCode returnCode code) ((k, merryError (RootCause e)) # errMap) es)"

definition MergeHttpErrorMap :: "(string \<times> merry_error) list \<Rightarrow> int \<times> (string \<times> string) list" where
  "MergeHttpErrorMap errorsMap = merge_map_loop 404 [] errorsMap"

section \<open>HTML in messages\<close>

definition go_slice :: "string \<Rightarrow> nat \<Rightarrow> nat \<Rightarrow> string go_result" where
  "go_slice s a b = (if a \<le> b \<and> b \<le> length s then Some (take (b - a) (drop a s)) else Panic)"

fun contains_sub :: "string \<Rightarrow> string \<Rightarrow> bool" where
  "contains_sub [] p \<longleftrightarrow> p = []"
| "contains_sub (c # s) p \<longleftrightarrow> HasPrefix (c # s) p \<or> contains_sub s p"

definition trim_set :: "string \<Rightarrow> string \<Rightarrow> string" where
  "trim_set cs s = rev (dropWhile (\<lambda>c. c \<in> set cs) (rev (dropWhile (\<lambda>c. c \<in> set cs) s)))"

lemma rune_step: "i < length s \<Longrightarrow> (c, w) = decode_rune (drop i s) \<Longrightarrow> length s - (i + w) < length s - i"
  using decode_rune_shorter[of "drop i s" c w] by simp

text \<open>
  The loop over the runes of \<open>s\<close>: the position, whether it is in a tag, the positions of the
  last start and end, and the text written so far.
\<close>

function html_loop :: "string \<Rightarrow> nat \<Rightarrow> bool \<Rightarrow> nat \<Rightarrow> nat \<Rightarrow> string \<Rightarrow> string go_result" where
  "html_loop s i inTag start stop buf =
     (if i \<ge> length s then Some buf
      else (case decode_rune (drop i s) of (c, w) \<Rightarrow>
        let buf1 = (if i + 1 = length s \<and> stop \<ge> start then buf @ drop stop s else buf)
        in if c = 60
           then (let start1 = (if inTag then start else i)
                 in case go_slice s stop start1 of
                      None \<Rightarrow> Panic
                    | Some t \<Rightarrow> html_loop s (i + w) True start1 (i + 1) (buf1 @ t))
           else if c = 62 then html_loop s (i + w) False start (i + 1) buf1
           else html_loop s (i + w) inTag start stop buf1))"
  by pat_completeness auto
termination
  by (relation "measure (\<lambda>(s, i, inTag, start, stop, buf). length s - i)") (auto intro: rune_step)

declare html_loop.simps [simp del]

definition stripHtmlTags :: "string \<Rightarrow> nat \<Rightarrow> string go_result" where
  "stripHtmlTags s maxLen =
     (if \<not> contains_sub s ''<html>''
      then Some (if maxLen = 0 \<or> maxLen > length s then s else take maxLen s)
      else map_option (trim_set [CHR 0x0D, CHR 0x0A]) (html_loop s 0 False 0 0 []))"

definition HttpErrorByCode :: "merry_error option \<Rightarrow> merry_error go_result" where
  "HttpErrorByCode err =
     (case err of
        None \<Rightarrow> Some (base_error ErrNoMetricsFetched)
      | Some e \<Rightarrow>
          map_option (\<lambda>msg.
              if HTTPCode e = 403
              then (if msg \<noteq> [] then WithMessage (base_error ErrForbidden) msg else base_error ErrForbidden)
              else if HTTPCode e = 503 \<or> HTTPCode e = 502 \<or> HTTPCode e = 504
              then WithMessage (WithHTTPCode (base_error ErrFailedToFetch) (HTTPCode e)) msg
              else WithMessage (WithHTTPCode (base_error ErrFailed) (HTTPCode e)) msg)
            (stripHtmlTags (m_text e) 0))"

section \<open>The merged code\<close>

definition norm_code :: "int \<Rightarrow> int" where
  "norm_code c = (if c = 504 \<or> c = 502 then 503 else c)"

definition merge_codes :: "merry_error list \<Rightarrow> int list" where
  "merge_codes errs = map norm_code (List.map_filter merge_code errs)"

lemma merge_codes_simps [simp]:
  "merge_codes [] = []"
  "merge_codes (e # es) = (case merge_code e of None \<Rightarrow> merge_codes es | Some c \<Rightarrow> norm_code c # merge_codes es)"
  by (simp_all add: merge_codes_def List.map_filter_simps split: option.split)

lemma recalcCode_unset: "code = 0 \<or> code = 404 \<Longrightarrow> recalcCode code c = norm_code c"
  by (auto simp: recalcCode_def norm_code_def Let_def)

lemma recalcCode_min:
  "code \<notin> {0, 401, 402, 404} \<Longrightarrow> c \<notin> {401, 402} \<Longrightarrow> recalcCode code c = min code (norm_code c)"
  by (auto simp: recalcCode_def norm_code_def Let_def)

lemma merge_code_cases:
  assumes "HTTPCode e \<notin> {401, 402}" "merge_code e = Some c"
  shows "c \<notin> {401, 402}" "norm_code c \<notin> {0, 401, 402, 404}"
proof -
  have "HTTPCode e \<noteq> 0" by (simp add: HTTPCode_def split: option.split)
  then show "c \<notin> {401, 402}" "norm_code c \<notin> {0, 401, 402, 404}"
    using assms by (auto simp: merge_code_def norm_code_def split: if_splits)
qed

lemma Min_insert_min: "finite S \<Longrightarrow> Min (insert (min a b) S) = Min (insert a (insert b S))" for a b :: int
  by (cases "S = {}") (auto simp: min.assoc)

lemma merge_loop_min:
  "\<forall>e\<in>set es. HTTPCode e \<notin> {401, 402} \<Longrightarrow> code \<notin> {0, 401, 402, 404} \<Longrightarrow>
   fst (merge_loop code ms es) = Min (set (code # merge_codes es))"
proof (induction es arbitrary: code ms)
  case (Cons e es)
  show ?case
  proof (cases "merge_code e")
    case None
    then show ?thesis using Cons by simp
  next
    case (Some c)
    note cc = merge_code_cases[OF _ Some]
    have "min code (norm_code c) \<notin> {0, 401, 402, 404}" using cc(2) Cons.prems by (auto simp: min_def)
    then show ?thesis
      using Some Cons.IH[of "min code (norm_code c)"] Cons.prems cc(1) recalcCode_min[of code c]
      by (simp add: Min_insert_min)
  qed
qed simp

lemma merge_loop_code:
  assumes "\<forall>e\<in>set es. HTTPCode e \<notin> {401, 402}"
  shows "fst (merge_loop 404 ms es) = (if merge_codes es = [] then 404 else Min (set (merge_codes es)))"
  using assms
proof (induction es arbitrary: ms)
  case (Cons e es)
  then show ?case
    using merge_loop_min[of es] merge_code_cases[of e]
    by (auto simp: recalcCode_unset split: option.split)
qed simp

lemma merge_loop_msgs:
  "snd (merge_loop code ms es) = ms @ map (\<lambda>e. merryError (RootCause e)) (filter (\<lambda>e. merge_code e \<noteq> None) es)"
  by (induction es arbitrary: code ms) (auto split: option.split)

text \<open>
  C11: The errors of several backends are merged to the least of their codes: errors without a
  result (404) are left out, 502 and 504 count as 503, and an invalid argument as 400; when all
  are left out the code is 404. The messages are those of the errors that count, in order. This
  holds unless an error has one of the codes 401 and 402.
\<close>

theorem MergeHttpErrors_least:
  assumes "\<forall>e\<in>set errs. HTTPCode e \<notin> {401, 402}"
  shows "MergeHttpErrors errs =
    ((if merge_codes errs = [] then 404 else Min (set (merge_codes errs))),
     map (\<lambda>e. merryError (RootCause e)) (filter (\<lambda>e. merge_code e \<noteq> None) errs))"
  unfolding MergeHttpErrors_def
  by (rule prod_eqI) (simp_all add: merge_loop_code[OF assms] merge_loop_msgs)

theorem MergeHttpErrors_least_witness:
  "MergeHttpErrors [base_error ErrTimeoutExceeded, base_error ErrForbidden, base_error ErrNoMetricsFetched] =
     (403, [''timeout while fetching Response'', ''forbidden''])"
proof -
  let ?es = "[base_error ErrTimeoutExceeded, base_error ErrForbidden, base_error ErrNoMetricsFetched]"
  have "\<forall>e\<in>set ?es. HTTPCode e \<notin> {401, 402}"
    by (simp add: base_error_def err_code_def HTTPCode_def)
  from MergeHttpErrors_least[OF this] show ?thesis
    by (simp add: base_error_def err_code_def err_text_def HTTPCode_def merge_code_def norm_code_def merryError_def)
qed

text \<open>
  With the codes 401 and 403 the merged code depends on the order of the errors, although
  the code is meant to be stable: a 401 that comes last hides the 403, one that comes first is
  hidden by it. \<open>MergeHttpErrorMap\<close> visits the map in random order, so its answer is not
  determined.
\<close>

lemma recalcCode_order:
  "fst (MergeHttpErrorMap [(''a'', WithHTTPCode (base_error ErrFailedToFetch) 401), (''b'', base_error ErrForbidden)]) = 403
   \<and> fst (MergeHttpErrorMap [(''b'', base_error ErrForbidden), (''a'', WithHTTPCode (base_error ErrFailedToFetch) 401)]) = 401"
  by (simp add: MergeHttpErrorMap_def base_error_def err_code_def WithHTTPCode_def HTTPCode_def merge_code_def recalcCode_def)

section \<open>Stripped messages\<close>

abbreviation plain :: "string \<Rightarrow> bool" where
  "plain t \<equiv> list_all (\<lambda>c. is_ascii c \<and> c \<noteq> CHR ''<'' \<and> c \<noteq> CHR ''>'') t"

lemma byte_eq_iff: "byte c = byte d \<longleftrightarrow> c = d"
  by (simp add: byte_def)

lemma html_step:
  assumes "is_ascii (s ! i)" "i < length s"
  shows "html_loop s i inTag start stop buf =
     (let buf1 = (if i + 1 = length s \<and> stop \<ge> start then buf @ drop stop s else buf)
      in if s ! i = CHR ''<''
         then (let start1 = (if inTag then start else i)
               in case go_slice s stop start1 of
                    None \<Rightarrow> Panic
                  | Some t \<Rightarrow> html_loop s (i + 1) True start1 (i + 1) (buf1 @ t))
         else if s ! i = CHR ''>'' then html_loop s (i + 1) False start (i + 1) buf1
         else html_loop s (i + 1) inTag start stop buf1)"
proof -
  have "decode_rune (drop i s) = (byte (s ! i), 1)"
    using assms decode_rune_ascii[of "s ! i" "drop (Suc i) s"] by (simp add: Cons_nth_drop_Suc)
  moreover have "byte (s ! i) = 60 \<longleftrightarrow> s ! i = CHR ''<''" "byte (s ! i) = 62 \<longleftrightarrow> s ! i = CHR ''>''"
    using byte_eq_iff[of "s ! i" "CHR ''<''"] byte_eq_iff[of "s ! i" "CHR ''>''"] by (simp_all add: byte_def)
  ultimately show ?thesis using assms(2) by (subst html_loop.simps) (simp add: Let_def split: option.split)
qed

lemma html_text:
  assumes "plain t" "s = p @ t @ q" "q \<noteq> []"
  shows "html_loop s (length p) inTag start stop buf = html_loop s (length p + length t) inTag start stop buf"
  using assms
proof (induction t arbitrary: p)
  case (Cons c t)
  then have "s = (p @ [c]) @ t @ q" "s ! length p = c" "length p < length s" "length p + 1 \<noteq> length s" by auto
  then show ?case
    using Cons.IH[of "p @ [c]"] Cons.prems html_step[of s "length p" inTag start stop buf] by (simp add: Let_def)
qed simp

lemma html_tag:
  assumes "plain g" "s = p @ ''<'' @ g @ ''>'' @ q" "q \<noteq> []" "stop \<le> length p"
  shows "html_loop s (length p) False start stop buf =
     html_loop s (length p + length g + 2) False (length p) (length p + length g + 2) (buf @ drop stop p)"
proof -
  have "html_loop s (length p) False start stop buf =
      html_loop s (length (p @ ''<'')) True (length p) (length p + 1) (buf @ drop stop p)"
    using assms html_step[of s "length p" False start stop buf]
    by (simp add: Let_def go_slice_def is_ascii_def byte_def)
  also have "\<dots> = html_loop s (length (p @ ''<'') + length g) True (length p) (length p + 1) (buf @ drop stop p)"
    using assms by (intro html_text[of g _ _ "''>'' @ q"]) auto
  also have "\<dots> = html_loop s (length p + length g + 2) False (length p) (length p + length g + 2) (buf @ drop stop p)"
    using assms html_step[of s "length p + 1 + length g" True "length p" "length p + 1" "buf @ drop stop p"]
    by (simp add: Let_def nth_append is_ascii_def byte_def)
  finally show ?thesis .
qed

fun tagged :: "string \<times> string \<Rightarrow> string" where
  "tagged (g, t) = ''<'' @ g @ ''>'' @ t"

lemma html_last:
  assumes "plain t" "t \<noteq> []" "s = p @ t" "start \<le> stop"
  shows "html_loop s (length p) inTag start stop buf = Some (buf @ drop stop s)"
  using assms
proof (induction t arbitrary: p)
  case (Cons c t)
  have n: "s ! length p = c" "length p < length s" "is_ascii c" "c \<noteq> CHR ''<''" "c \<noteq> CHR ''>''" using Cons.prems by auto
  show ?case
  proof (cases "t = []")
    case True
    then have "length p + 1 = length s" using Cons.prems by simp
    then show ?thesis
      using n Cons.prems(4) html_step[of s "length p" inTag start stop buf]
        html_loop.simps[of s "length p + 1"] by (simp add: Let_def)
  next
    case False
    then have "length p + 1 \<noteq> length s" using Cons.prems(3) by simp
    then show ?thesis
      using n Cons.IH[of "p @ [c]"] False Cons.prems html_step[of s "length p" inTag start stop buf]
      by (simp add: Let_def)
  qed
qed simp

lemma html_segments:
  assumes "s = p @ t @ concat (map tagged xs)" "plain t" "list_all (\<lambda>gt. plain (fst gt) \<and> plain (snd gt)) xs"
    and "last (t # map snd xs) \<noteq> []" "start \<le> length p"
  shows "html_loop s (length p) False start (length p) buf = Some (buf @ t @ concat (map snd xs))"
  using assms
proof (induction xs arbitrary: p t start buf)
  case Nil
  then show ?case using html_last[of t s p start "length p" False buf] by simp
next
  case (Cons x xs)
  obtain g u where x: "x = (g, u)" by (cases x)
  define p' where "p' = p @ t @ ''<'' @ g @ ''>''"
  have q: "u @ concat (map tagged xs) \<noteq> []"
    using Cons.prems(4) by (cases xs) (auto simp: x)
  have s: "s = (p @ t) @ ''<'' @ g @ ''>'' @ (u @ concat (map tagged xs))" "s = p' @ u @ concat (map tagged xs)"
    using Cons.prems(1) by (simp_all add: x p'_def)
  have "html_loop s (length p) False start (length p) buf = html_loop s (length (p @ t)) False start (length p) buf"
    using html_text[of t s p "concat (map tagged (x # xs))"] Cons.prems(1,2) by (simp add: x )
  also have "\<dots> = html_loop s (length p') False (length (p @ t)) (length p') (buf @ t)"
    using html_tag[OF _ s(1) q, of "length p" start buf] Cons.prems(3) by (simp add: x p'_def add.assoc)
  also have "\<dots> = Some ((buf @ t) @ u @ concat (map snd xs))"
    using Cons.prems(3,4) s(2) by (intro Cons.IH) (auto simp: x p'_def)
  finally show ?case by (simp add: x)
qed

text \<open>
  Of an HTML error page \<open>stripHtmlTags\<close> keeps the text between the tags: the page written
  as texts and tags of ASCII characters, ending in text, gives its texts, trimmed of line ends
  at both sides.
\<close>

lemma stripHtmlTags_texts:
  assumes "plain t" "list_all (\<lambda>gt. plain (fst gt) \<and> plain (snd gt)) xs" "last (t # map snd xs) \<noteq> []"
    and "contains_sub (t @ concat (map tagged xs)) ''<html>''"
  shows "stripHtmlTags (t @ concat (map tagged xs)) maxLen =
    Some (trim_set [CHR 0x0D, CHR 0x0A] (t @ concat (map snd xs)))"
  using assms html_segments[of "t @ concat (map tagged xs)" "[]" t xs 0 "[]"]
  by (simp add: stripHtmlTags_def)

lemma stripHtmlTags_texts_witness:
  "stripHtmlTags ''<html><h1>504</h1> down'' 0 = Some ''504 down''"
proof -
  let ?xs = "[(''html'', []), (''h1'', ''504''), (''/h1'', '' down'')]"
  have t: "''<html><h1>504</h1> down'' = [] @ concat (map tagged ?xs)" by simp
  have "plain []" "list_all (\<lambda>gt. plain (fst gt) \<and> plain (snd gt)) ?xs" "last ([] # map snd ?xs) \<noteq> []"
    by (simp_all add: is_ascii_def byte_def)
  moreover have "contains_sub ([] @ concat (map tagged ?xs)) ''<html>''" by (simp add: HasPrefix_def)
  ultimately have "stripHtmlTags ([] @ concat (map tagged ?xs)) 0 = Some (trim_set [CHR 0x0D, CHR 0x0A] ([] @ concat (map snd ?xs)))"
    by (rule stripHtmlTags_texts)
  then show ?thesis unfolding t by (simp add: trim_set_def)
qed

lemma html_panic_in:
  assumes "list_all is_ascii s" "i \<le> j" "j < length s" "s ! j = CHR ''<''" "\<forall>k. i \<le> k \<and> k < j \<longrightarrow> s ! k \<noteq> CHR ''>''" "start < stop"
  shows "html_loop s i True start stop buf = Panic"
  using assms
proof (induction "j - i" arbitrary: i buf)
  case 0
  then have "i = j" by simp
  then show ?case
    using 0 html_step[of s j True start stop buf]
    by (simp add: list_all_length Let_def go_slice_def is_ascii_def byte_def)
next
  case (Suc n)
  then have "i < j" by simp
  then have "html_loop s (i + 1) True start stop b = Panic" for b using Suc by (intro Suc.hyps(1)) auto
  then show ?case
    using Suc.prems \<open>i < j\<close> html_step[of s i True start stop buf]
    by (auto simp: list_all_length Let_def go_slice_def split: if_splits)
qed

lemma html_panic:
  assumes "list_all is_ascii s" "i \<le> a" "a < j" "j < length s" "s ! a = CHR ''<''" "s ! j = CHR ''<''"
    and "\<forall>k. a < k \<and> k < j \<longrightarrow> s ! k \<noteq> CHR ''>''" "start \<le> i"
  shows "html_loop s i inTag start stop buf = Panic"
  using assms(2,8)
proof (induction "a - i" arbitrary: i inTag start stop buf)
  case 0
  then have i: "i = a" "start \<le> a" by auto
  have "html_loop s (a + 1) True st (a + 1) b = Panic" if "st \<le> a" for st b
    using assms that by (intro html_panic_in[of s "a + 1" j]) auto
  then show ?case
    using assms i html_step[of s a inTag start stop buf]
    by (simp add: list_all_length Let_def is_ascii_def byte_def split: option.split)
next
  case (Suc n)
  then have "i < a" by simp
  then have "html_loop s (i + 1) inT st sp b = Panic" if "st \<le> i" for inT st sp b using Suc that by (intro Suc.hyps(1)) auto
  then show ?case
    using assms(1,3,4) Suc.prems \<open>i < a\<close> html_step[of s i inTag start stop buf]
    by (simp add: list_all_length Let_def split: option.split)
qed

text \<open>
  A tag opened inside a tag is not stripped but crashes the server: when a \<open><\<close> follows
  another one with no \<open>>\<close> between them in an ASCII page, \<open>stripHtmlTags\<close> panics.
\<close>

lemma stripHtmlTags_panics:
  assumes "list_all is_ascii s" "contains_sub s ''<html>''"
    and "a < b" "b < length s" "s ! a = CHR ''<''" "s ! b = CHR ''<''" "\<forall>k. a < k \<and> k < b \<longrightarrow> s ! k \<noteq> CHR ''>''"
  shows "stripHtmlTags s maxLen = Panic"
  using assms html_panic[of s 0 a b 0 False 0 "[]"] by (simp add: stripHtmlTags_def)

lemma stripHtmlTags_panics_witness: "stripHtmlTags ''<html><<br>x'' 0 = Panic"
proof -
  have "list_all is_ascii ''<html><<br>x''" "contains_sub ''<html><<br>x'' ''<html>''"
    by (simp_all add: is_ascii_def byte_def HasPrefix_def)
  moreover have "\<forall>k. (6 :: nat) < k \<and> k < 7 \<longrightarrow> ''<html><<br>x'' ! k \<noteq> CHR ''>''" by auto
  ultimately show ?thesis using stripHtmlTags_panics[of "''<html><<br>x''" 6 7 0] by simp
qed

end
