(* ===== verification/Zipper_Requests.thy ===== *)
theory Zipper_Requests
  imports Zipper_Errors
begin

text \<open>
  Requests to the servers of a group: \<open>HttpQuery\<close> of \<open>zipper/helper/requests.go\<close> and the load
  balancing methods of \<open>zipper/types/lbmethod.go\<close>. What the outside answers (URL parsing,
  marshalling, the limiter, the HTTP client) is an argument of \<open>doRequest\<close>, and the outcome of
  each try is an argument of the two query loops.
\<close>

section \<open>Load balancing methods\<close>

datatype LBMethod = RoundRobinLB | BroadcastLB

definition supportedLBMethods :: "(string \<times> LBMethod) list" where
  "supportedLBMethods =
     [(''roundrobin'', RoundRobinLB), (''rr'', RoundRobinLB), (''any'', RoundRobinLB),
      (''broadcast'', BroadcastLB), (''all'', BroadcastLB)]"

text \<open>An unknown method is an error and leaves the zero value, the first constant.\<close>

definition LB_FromString :: "go_env \<Rightarrow> string \<Rightarrow> bool \<times> LBMethod" where
  "LB_FromString E method =
     (case map_of supportedLBMethods (ToLower E method) of
        None \<Rightarrow> (False, RoundRobinLB)
      | Some m \<Rightarrow> (True, m))"

definition LB_UnmarshalJSON :: "go_env \<Rightarrow> string \<Rightarrow> bool \<times> LBMethod" where
  "LB_UnmarshalJSON E data = LB_FromString E (ToLower E data)"

definition LB_UnmarshalYAML :: "go_env \<Rightarrow> string option \<Rightarrow> (bool \<times> LBMethod) option" where
  "LB_UnmarshalYAML E method = map_option (LB_FromString E) method"

definition LB_MarshalJSON :: "LBMethod \<Rightarrow> string" where
  "LB_MarshalJSON m =
     [CHR 0x22] @ (case m of RoundRobinLB \<Rightarrow> ''RoundRobin'' | BroadcastLB \<Rightarrow> ''Broadcast'') @ [CHR 0x22]"

section \<open>One request\<close>

type_synonym ServerResponse = "string \<times> string option"

record http_outcome =
  url_error :: "merry_error option"
  marshalled :: "merry_error + string option"
  new_error :: "merry_error option"
  enter_error :: "merry_error option"
  client_do :: "net_error + (int \<times> (merry_error + string))"

datatype limiter_call = CallEnter string | CallLeave string

text \<open>The calls of the limiter and the result.\<close>

definition doRequest :: "string \<Rightarrow> http_outcome \<Rightarrow> limiter_call list \<times> (merry_error + ServerResponse)" where
  "doRequest server out =
     (case url_error out of
        Some err \<Rightarrow> ([], Inl err)
      | None \<Rightarrow>
          (case marshalled out of
             Inl err \<Rightarrow> ([], Inl err)
           | Inr body \<Rightarrow>
               (case new_error out of
                  Some err \<Rightarrow> ([], Inl err)
                | None \<Rightarrow>
                    (case enter_error out of
                       Some err \<Rightarrow> ([], Inl err)
                     | None \<Rightarrow>
                         ([CallEnter server, CallLeave server],
                          case client_do out of
                            Inl err \<Rightarrow> Inl (requestError err)
                          | Inr (status, rd) \<Rightarrow>
                              if status = 404 then Inr (server, None)
                              else (case rd of
                                      Inl err \<Rightarrow> Inl err
                                    | Inr b \<Rightarrow>
                                        if status \<noteq> 200
                                        then Inl (WithHTTPCode (WithMessage (base_error ErrFailedToFetch) b) status)
                                        else Inr (server, Some b)))))))"

section \<open>Queries\<close>

record HttpQuery =
  hq_servers :: "string list"
  hq_maxTries :: int
  hq_counter :: "64 word"

definition NewHttpQuery :: "string list \<Rightarrow> int \<Rightarrow> HttpQuery" where
  "NewHttpQuery servers maxTries = \<lparr>hq_servers = servers, hq_maxTries = maxTries, hq_counter = 0\<rparr>"

text \<open>Without servers the remainder panics.\<close>

definition pickServer :: "HttpQuery \<Rightarrow> (string \<times> HttpQuery) go_result" where
  "pickServer c =
     (if length (hq_servers c) = 1 then Some (hd (hq_servers c), c)
      else if hq_servers c = [] then Panic
      else (let counter = hq_counter c + 1
            in Some (hq_servers c ! (unat counter mod length (hq_servers c)), c\<lparr>hq_counter := counter\<rparr>)))"

definition query_tries :: "HttpQuery \<Rightarrow> nat" where
  "query_tries c =
     nat (if int (length (hq_servers c)) > hq_maxTries c then int (length (hq_servers c)) else hq_maxTries c)"

text \<open>The outcome of try number \<open>k\<close> on a server is \<open>req k server\<close>.\<close>

fun query_loop ::
  "(nat \<Rightarrow> string \<Rightarrow> merry_error + ServerResponse) \<Rightarrow> nat \<Rightarrow> nat \<Rightarrow> HttpQuery \<Rightarrow> merry_error \<Rightarrow> int \<Rightarrow>
   ((merry_error + ServerResponse) \<times> HttpQuery) go_result" where
  "query_loop req 0 k c e code =
     Some (Inl (WithHTTPCode (WithCause (base_error ErrMaxTriesExceeded) e) code), c)"
| "query_loop req (Suc n) k c e code =
     (case pickServer c of
        None \<Rightarrow> Panic
      | Some (server, c') \<Rightarrow>
          (case req k server of
             Inl err \<Rightarrow> query_loop req n (Suc k) c' (WithHTTPCode (WithCause e err) (HTTPCode err)) (HTTPCode err)
           | Inr res \<Rightarrow> Some (Inr res, c')))"

definition DoQuery ::
  "(nat \<Rightarrow> string \<Rightarrow> merry_error + ServerResponse) \<Rightarrow> HttpQuery \<Rightarrow> ((merry_error + ServerResponse) \<times> HttpQuery) go_result" where
  "DoQuery req c = query_loop req (query_tries c) 0 c (base_error ErrFailedToFetch) 500"

text \<open>The tries on one server: its response, and the error and the code after them.\<close>

fun try_server ::
  "(nat \<Rightarrow> string \<Rightarrow> merry_error + ServerResponse) \<Rightarrow> string \<Rightarrow> nat \<Rightarrow> nat \<Rightarrow> merry_error \<Rightarrow> int \<Rightarrow>
   ServerResponse option \<times> merry_error \<times> int" where
  "try_server req server 0 k e code = (None, e, code)"
| "try_server req server (Suc n) k e code =
     (case req k server of
        Inl err \<Rightarrow> try_server req server n (Suc k) (WithCause e err) (HTTPCode err)
      | Inr res \<Rightarrow> (Some res, e, code))"

fun all_servers ::
  "(nat \<Rightarrow> string \<Rightarrow> merry_error + ServerResponse) \<Rightarrow> nat \<Rightarrow> string list \<Rightarrow> merry_error \<Rightarrow> int \<Rightarrow>
   ServerResponse option list \<times> merry_error \<times> int" where
  "all_servers req n [] e code = ([], e, code)"
| "all_servers req n (s # ss) e code =
     (case try_server req s n 0 e code of (r, e1, code1) \<Rightarrow>
        case all_servers req n ss e1 code1 of (rs, e2, code2) \<Rightarrow> (r # rs, e2, code2))"

definition DoQueryToAll ::
  "(nat \<Rightarrow> string \<Rightarrow> merry_error + ServerResponse) \<Rightarrow> HttpQuery \<Rightarrow> ServerResponse option list \<times> merry_error option" where
  "DoQueryToAll req c =
     (case all_servers req (query_tries c) (hq_servers c) (base_error ErrFailedToFetch) 500 of
        (res, e, code) \<Rightarrow>
          if length (filter (\<lambda>r. r \<noteq> None) res) = length (hq_servers c) then (res, None)
          else (res, Some (WithHTTPCode (WithCause (base_error ErrMaxTriesExceeded) e) code)))"

section \<open>Round robin\<close>

lemma unat_plus: "unat x + k < 2 ^ 64 \<Longrightarrow> unat (x + of_nat k :: 64 word) = unat x + k"
  by (simp add: unat_word_ariths unat_of_nat)

text \<open>The server of try \<open>k\<close> counted from the counter.\<close>

definition nth_pick :: "HttpQuery \<Rightarrow> nat \<Rightarrow> string" where
  "nth_pick c k = hq_servers c ! ((unat (hq_counter c) + Suc k) mod length (hq_servers c))"

text \<open>The counter does not wrap in the next \<open>n\<close> picks, or is not used.\<close>

definition counts :: "HttpQuery \<Rightarrow> nat \<Rightarrow> bool" where
  "counts c n \<longleftrightarrow> hq_servers c \<noteq> [] \<and> (length (hq_servers c) = 1 \<or> unat (hq_counter c) + n < 2 ^ 64)"

lemma pickServer_nth:
  assumes "counts c (Suc n)"
  obtains c1 where "pickServer c = Some (nth_pick c 0, c1)" "counts c1 n" "\<And>i. nth_pick c1 i = nth_pick c (Suc i)"
    "hq_servers c1 = hq_servers c"
proof (cases "length (hq_servers c) = 1")
  case True
  then have "pickServer c = Some (nth_pick c 0, c)" "\<And>i. nth_pick c i = nth_pick c (Suc i)"
    using assms by (simp_all add: pickServer_def nth_pick_def hd_conv_nth counts_def)
  with True that[of c] assms show ?thesis by (simp add: counts_def)
next
  case False
  define c1 where "c1 = c\<lparr>hq_counter := hq_counter c + 1\<rparr>"
  have u: "unat (hq_counter c + 1) = unat (hq_counter c) + 1"
    using assms False unat_plus[of "hq_counter c" 1] by (simp add: counts_def)
  have "pickServer c = Some (nth_pick c 0, c1)"
    using False assms u by (simp add: pickServer_def nth_pick_def Let_def c1_def counts_def)
  moreover have "counts c1 n" "\<And>i. nth_pick c1 i = nth_pick c (Suc i)" "hq_servers c1 = hq_servers c"
    using assms False u by (simp_all add: counts_def c1_def nth_pick_def)
  ultimately show ?thesis by (rule that)
qed

lemma query_loop_finds:
  assumes "counts c n" "j < n" "req (k + j) (nth_pick c j) = Inr x"
  shows "\<exists>i\<le>j. \<exists>r c'. query_loop req n k c e code = Some (Inr r, c') \<and> req (k + i) (nth_pick c i) = Inr r"
  using assms
proof (induction n arbitrary: c j k e code)
  case (Suc n)
  obtain c1 where c1: "pickServer c = Some (nth_pick c 0, c1)" "counts c1 n" "\<And>i. nth_pick c1 i = nth_pick c (Suc i)"
    using pickServer_nth[OF Suc.prems(1)] by blast
  show ?case
  proof (cases "req k (nth_pick c 0)")
    case (Inr r)
    then show ?thesis using c1(1) by (intro exI[of _ 0]) simp
  next
    case (Inl err)
    then obtain j' where j: "j = Suc j'" using Suc.prems(3) by (cases j) auto
    then obtain i r c' where "i \<le> j'"
      "query_loop req n (Suc k) c1 (WithHTTPCode (WithCause e err) (HTTPCode err)) (HTTPCode err) = Some (Inr r, c')"
      "req (Suc k + i) (nth_pick c1 i) = Inr r"
      using Suc.IH[OF c1(2), of j' "Suc k" "WithHTTPCode (WithCause e err) (HTTPCode err)" "HTTPCode err"] Suc.prems(2,3) c1(3)
      by auto
    then show ?thesis using c1(1,3) Inl j by (intro exI[of _ "Suc i"]) simp
  qed
qed simp

lemma query_loop_fails:
  assumes "counts c n" "\<forall>j<n. req (k + j) (nth_pick c j) = Inl (err j)" "0 < n"
  shows "\<exists>e' c'. query_loop req n k c e code = Some (Inl e', c') \<and> m_id e' = ErrMaxTriesExceeded
    \<and> HTTPCode e' = HTTPCode (err (n - 1))"
  using assms
proof (induction n arbitrary: c k e code err)
  case (Suc n)
  obtain c1 where c1: "pickServer c = Some (nth_pick c 0, c1)" "counts c1 n" "\<And>i. nth_pick c1 i = nth_pick c (Suc i)"
    using pickServer_nth[OF Suc.prems(1)] by blast
  have r0: "req k (nth_pick c 0) = Inl (err 0)" using Suc.prems(2) by force
  let ?e = "WithHTTPCode (WithCause e (err 0)) (HTTPCode (err 0))"
  show ?case
  proof (cases "n = 0")
    case True
    then show ?thesis
      using c1(1) r0 by (auto simp: base_error_def WithCause_def WithHTTPCode_def HTTPCode_def split: option.split)
  next
    case False
    have "\<forall>j<n. req (Suc k + j) (nth_pick c1 j) = Inl (err (Suc j))"
      using Suc.prems(2) c1(3) by force
    with Suc.IH[OF c1(2) this, of ?e "HTTPCode (err 0)"] False show ?thesis using c1(1) r0 by simp
  qed
qed simp

lemma mod_shift: "i < n \<Longrightarrow> (u + (i + n - u mod n) mod n) mod n = (i :: nat)"
proof -
  assume i: "i < n"
  have "u mod n < n" using i by (intro mod_less_divisor) linarith
  then have "u + (i + n - u mod n) = i + n * Suc (u div n)"
    using mult_div_mod_eq[of n u] i unfolding mult_Suc_right by linarith
  then show "(u + (i + n - u mod n) mod n) mod n = i"
    using i by (simp only: mod_add_right_eq mod_mult_self2 mod_less)
qed

lemma nth_pick_covers:
  assumes "s \<in> set (hq_servers c)"
  shows "\<exists>j<length (hq_servers c). nth_pick c j = s"
proof -
  let ?n = "length (hq_servers c)" and ?u = "Suc (unat (hq_counter c))"
  obtain i where i: "i < ?n" "hq_servers c ! i = s" using assms by (auto simp: in_set_conv_nth)
  define j where "j = (i + ?n - ?u mod ?n) mod ?n"
  have "(?u + j) mod ?n = i" unfolding j_def using i(1) by (rule mod_shift)
  then have "(unat (hq_counter c) + Suc j) mod ?n = i" by simp
  moreover have "j < ?n" unfolding j_def using i(1) by (intro mod_less_divisor) linarith
  ultimately show ?thesis using i by (auto simp: nth_pick_def)
qed

lemma query_tries_ge: "length (hq_servers c) \<le> query_tries c" "hq_maxTries c \<le> int (query_tries c)"
  by (auto simp: query_tries_def)



text \<open>
  A query that no server answers fails with \<open>ErrMaxTriesExceeded\<close> after all its tries, and
  its HTTP code is that of the last try.
\<close>

lemma DoQuery_fails:
  assumes "hq_servers c \<noteq> []" "unat (hq_counter c) + query_tries c < 2 ^ 64"
    and "\<forall>k<query_tries c. req k (nth_pick c k) = Inl (err k)"
  shows "\<exists>e c'. DoQuery req c = Some (Inl e, c') \<and> m_id e = ErrMaxTriesExceeded
    \<and> HTTPCode e = HTTPCode (err (query_tries c - 1))"
proof -
  have "counts c (query_tries c)" "0 < query_tries c"
    using assms(1,2) query_tries_ge(1)[of c] by (auto simp: counts_def intro: gr0I)
  with assms(3) show ?thesis unfolding DoQuery_def by (intro query_loop_fails) auto
qed

lemma DoQuery_fails_witness:
  "\<exists>e c'. DoQuery (\<lambda>k s. Inl (WithHTTPCode (base_error ErrFailedToFetch) (500 + int k))) (NewHttpQuery [''a'', ''b''] 3) = Some (Inl e, c')
     \<and> m_id e = ErrMaxTriesExceeded \<and> HTTPCode e = 502"
  using DoQuery_fails[of "NewHttpQuery [''a'', ''b''] 3" "\<lambda>k s. Inl (WithHTTPCode (base_error ErrFailedToFetch) (500 + int k))"
      "\<lambda>k. WithHTTPCode (base_error ErrFailedToFetch) (500 + int k)"]
  by (simp add: NewHttpQuery_def query_tries_def HTTPCode_def WithHTTPCode_def)

section \<open>Queries to all servers\<close>

lemma try_server_result:
  "fst (try_server req s n k e code) = Some r \<Longrightarrow> \<exists>j<n. req (k + j) s = Inr r"
proof (induction n arbitrary: k e code)
  case (Suc n)
  show ?case
  proof (cases "req k s")
    case (Inl err)
    then obtain j where "j < n" "req (Suc k + j) s = Inr r" using Suc by fastforce
    then show ?thesis by (intro exI[of _ "Suc j"]) simp
  next
    case (Inr x)
    then show ?thesis using Suc.prems by (intro exI[of _ 0]) simp
  qed
qed simp

lemma try_server_none:
  "fst (try_server req s n k e code) = None \<longleftrightarrow> (\<forall>j<n. \<exists>err. req (k + j) s = Inl err)"
proof (induction n arbitrary: k e code)
  case (Suc n)
  then show ?case
    by (cases "req k s") (auto simp: All_less_Suc2)
qed simp

lemma all_servers_results:
  "fst (all_servers req n ss e code) = map (\<lambda>s. fst (try_server req s n 0 (base_error ErrFailedToFetch) 500)) ss"
proof (induction ss arbitrary: e code)
  case (Cons s ss)
  have "fst (try_server req s n k e code) = fst (try_server req s n k e' code')" for k e code e' code'
    by (induction n arbitrary: k e code e' code') (auto split: sum.split)
  then show ?case using Cons by (simp split: prod.split) (metis fst_conv)
qed simp

text \<open>
  A query to all servers gives one entry per server, in their order: what the server
  answered, or nothing when it answered none of the tries; it is an error exactly when some
  server did not answer.
\<close>

lemma DoQueryToAll_each:
  "length (fst (DoQueryToAll req c)) = length (hq_servers c)
   \<and> (\<forall>i<length (hq_servers c). case fst (DoQueryToAll req c) ! i of
        None \<Rightarrow> (\<forall>k<query_tries c. \<exists>err. req k (hq_servers c ! i) = Inl err)
      | Some r \<Rightarrow> (\<exists>k<query_tries c. req k (hq_servers c ! i) = Inr r))
   \<and> (snd (DoQueryToAll req c) = None \<longleftrightarrow>
        (\<forall>s\<in>set (hq_servers c). \<exists>k<query_tries c. \<exists>r. req k s = Inr r))"
proof -
  let ?f = "\<lambda>s. fst (try_server req s (query_tries c) 0 (base_error ErrFailedToFetch) 500)"
  obtain rs e code where a: "all_servers req (query_tries c) (hq_servers c) (base_error ErrFailedToFetch) 500 = (rs, e, code)"
    by (cases "all_servers req (query_tries c) (hq_servers c) (base_error ErrFailedToFetch) 500")
  have rs: "rs = map ?f (hq_servers c)"
    using all_servers_results[of req "query_tries c" "hq_servers c" "base_error ErrFailedToFetch" 500] a by simp
  have f: "fst (DoQueryToAll req c) = map ?f (hq_servers c)" by (simp add: DoQueryToAll_def a rs)
  have ok: "snd (DoQueryToAll req c) = None \<longleftrightarrow> (\<forall>s\<in>set (hq_servers c). ?f s \<noteq> None)"
  proof -
    have "snd (DoQueryToAll req c) = None \<longleftrightarrow> length (filter (\<lambda>r. r \<noteq> None) (map ?f (hq_servers c))) = length (map ?f (hq_servers c))"
      by (simp add: DoQueryToAll_def a rs)
    also have "\<dots> \<longleftrightarrow> (\<forall>r\<in>set (map ?f (hq_servers c)). r \<noteq> None)"
      by (metis (mono_tags, lifting) filter_True length_filter_less less_irrefl)
    finally show ?thesis by simp
  qed
  have n: "?f s \<noteq> None \<longleftrightarrow> (\<exists>k<query_tries c. \<exists>r. req k s = Inr r)" for s
    using try_server_none[of req s "query_tries c" 0 "base_error ErrFailedToFetch" 500]
    by (metis add_0 old.sum.exhaust sum.distinct(1))
  show ?thesis
    using ok n try_server_none[of req _ "query_tries c" 0 "base_error ErrFailedToFetch" 500]
      try_server_result[of req _ "query_tries c" 0 "base_error ErrFailedToFetch" 500]
    by (auto simp: f split: option.split)
qed

lemma DoQueryToAll_each_witness:
  "length (fst (DoQueryToAll (\<lambda>k s. if s = ''a'' then Inr (s, Some ''ok'') else Inl (base_error ErrTimeoutExceeded))
       (NewHttpQuery [''a'', ''b''] 1))) = 2
   \<and> snd (DoQueryToAll (\<lambda>k s. if s = ''a'' then Inr (s, Some ''ok'') else Inl (base_error ErrTimeoutExceeded))
       (NewHttpQuery [''a'', ''b''] 1)) \<noteq> None"
  using DoQueryToAll_each[of "\<lambda>k s. if s = ''a'' then Inr (s, Some ''ok'') else Inl (base_error ErrTimeoutExceeded)"
      "NewHttpQuery [''a'', ''b''] 1"]
  by (simp add: NewHttpQuery_def)

section \<open>Methods in JSON\<close>

text \<open>
  A load balancing method written as JSON cannot be read back: \<open>UnmarshalJSON\<close> looks up the
  text with its quotes, so it rejects what \<open>MarshalJSON\<close> writes (and every other JSON string),
  while \<open>FromString\<close> reads the text between the quotes.
\<close>

lemma LBMethod_json:
  "LB_UnmarshalJSON E (LB_MarshalJSON m) = (False, RoundRobinLB)
   \<and> LB_FromString E (butlast (tl (LB_MarshalJSON m))) = (True, m)"
  by (cases m)
    (simp_all add: LB_UnmarshalJSON_def LB_FromString_def LB_MarshalJSON_def ToLower_def supportedLBMethods_def
      is_ascii_def byte_def lower_byte_def char_of_def bit_0)

end
