(* ===== verification/Zipper_Response.thy ===== *)
theory Zipper_Response
  imports Zipper_Errors Float64 "HOL-Library.AList"
begin

text \<open>
  Responses of backends and how they are merged: \<open>zipper/types/response.go\<close> and
  \<open>zipper/types/stats.go\<close>. A nil pointer is \<open>None\<close>, a nil slice the empty list; the calls that
  dereference a nil pointer panic. The counters of the statistics are 64-bit words and wrap. The
  messages that pass between the fetchers and \<open>DoRequest\<close> are a list of events in the order in
  which the \<open>select\<close> statement takes them.
\<close>

section \<open>Statistics\<close>

record Stats =
  Timeouts :: "64 word"
  FindRequests :: "64 word"
  FindErrors :: "64 word"
  FindTimeouts :: "64 word"
  RenderRequests :: "64 word"
  RenderErrors :: "64 word"
  RenderTimeouts :: "64 word"
  InfoRequests :: "64 word"
  InfoErrors :: "64 word"
  InfoTimeouts :: "64 word"
  SearchRequests :: "64 word"
  SearchCacheHits :: "64 word"
  SearchCacheMisses :: "64 word"
  ZipperRequests :: "64 word"
  TotalMetricsCount :: "64 word"
  MemoryUsage :: "64 word"
  CacheMisses :: "64 word"
  CacheHits :: "64 word"
  StatsServers :: "string list"
  FailedServers :: "string list"

definition zero_stats :: Stats where
  "zero_stats =
     \<lparr>Timeouts = 0, FindRequests = 0, FindErrors = 0, FindTimeouts = 0, RenderRequests = 0, RenderErrors = 0,
      RenderTimeouts = 0, InfoRequests = 0, InfoErrors = 0, InfoTimeouts = 0, SearchRequests = 0,
      SearchCacheHits = 0, SearchCacheMisses = 0, ZipperRequests = 0, TotalMetricsCount = 0, MemoryUsage = 0,
      CacheMisses = 0, CacheHits = 0, StatsServers = [], FailedServers = []\<rparr>"

text \<open>\<open>ZipperRequests\<close> and \<open>TotalMetricsCount\<close> are not merged.\<close>

definition Stats_Merge :: "Stats \<Rightarrow> Stats \<Rightarrow> Stats" where
  "Stats_Merge s t =
     s\<lparr>Timeouts := Timeouts s + Timeouts t,
       FindRequests := FindRequests s + FindRequests t,
       FindTimeouts := FindTimeouts s + FindTimeouts t,
       FindErrors := FindErrors s + FindErrors t,
       RenderRequests := RenderRequests s + RenderRequests t,
       RenderTimeouts := RenderTimeouts s + RenderTimeouts t,
       RenderErrors := RenderErrors s + RenderErrors t,
       InfoRequests := InfoRequests s + InfoRequests t,
       InfoTimeouts := InfoTimeouts s + InfoTimeouts t,
       InfoErrors := InfoErrors s + InfoErrors t,
       SearchRequests := SearchRequests s + SearchRequests t,
       SearchCacheHits := SearchCacheHits s + SearchCacheHits t,
       SearchCacheMisses := SearchCacheMisses s + SearchCacheMisses t,
       MemoryUsage := MemoryUsage s + MemoryUsage t,
       CacheMisses := CacheMisses s + CacheMisses t,
       CacheHits := CacheHits s + CacheHits t,
       StatsServers := StatsServers s @ StatsServers t,
       FailedServers := FailedServers s @ FailedServers t\<rparr>"

section \<open>Fetched series\<close>

record FetchResponse =
  fr_Name :: string
  fr_PathExpression :: string
  fr_ConsolidationFunc :: string
  fr_StartTime :: int
  fr_StopTime :: int
  fr_StepTime :: int
  fr_XFilesFactor :: f64
  fr_HighPrecisionTimestamps :: bool
  fr_Values :: "f64 list"
  fr_AppliedFunctions :: "string list"
  fr_RequestStartTime :: int
  fr_RequestStopTime :: int

text \<open>The path expression, the precision and the requested range stay where they are.\<close>

definition swap_into :: "FetchResponse \<Rightarrow> FetchResponse \<Rightarrow> FetchResponse" where
  "swap_into m1 m2 =
     m1\<lparr>fr_Name := fr_Name m2, fr_StartTime := fr_StartTime m2, fr_StepTime := fr_StepTime m2,
        fr_ConsolidationFunc := fr_ConsolidationFunc m2, fr_XFilesFactor := fr_XFilesFactor m2,
        fr_Values := fr_Values m2, fr_AppliedFunctions := fr_AppliedFunctions m2, fr_StopTime := fr_StopTime m2\<rparr>"

definition swapFetchResponses :: "FetchResponse \<Rightarrow> FetchResponse \<Rightarrow> FetchResponse \<times> FetchResponse" where
  "swapFetchResponses m1 m2 = (swap_into m1 m2, swap_into m2 m1)"

fun fill_values :: "f64 list \<Rightarrow> f64 list \<Rightarrow> f64 list" where
  "fill_values (x # xs) (y # ys) = (if isNaN x then y else x) # fill_values xs ys"
| "fill_values xs [] = xs"
| "fill_values [] ys = []"

definition mergeFetchResponsesWithEqualStepTimes ::
  "FetchResponse \<Rightarrow> FetchResponse \<Rightarrow> merry_error option \<times> FetchResponse \<times> FetchResponse" where
  "mergeFetchResponsesWithEqualStepTimes m1 m2 =
     (if fr_StartTime m1 \<noteq> fr_StartTime m2 then (Some (base_error ErrResponseStartTimeMismatch), m1, m2)
      else (case (if length (fr_Values m1) < length (fr_Values m2) then swapFetchResponses m1 m2 else (m1, m2)) of
              (a, b) \<Rightarrow> (None, a\<lparr>fr_Values := fill_values (fr_Values a) (fr_Values b)\<rparr>, b)))"

definition mergeFetchResponsesWithUnequalStepTimes ::
  "FetchResponse \<Rightarrow> FetchResponse \<Rightarrow> merry_error option \<times> FetchResponse \<times> FetchResponse" where
  "mergeFetchResponsesWithUnequalStepTimes m1 m2 =
     (None, if fr_StepTime m1 > fr_StepTime m2 then swapFetchResponses m1 m2 else (m1, m2))"

definition MergeFetchResponses ::
  "FetchResponse \<Rightarrow> FetchResponse \<Rightarrow> merry_error option \<times> FetchResponse \<times> FetchResponse" where
  "MergeFetchResponses m1 m2 =
     (if fr_RequestStartTime m1 \<noteq> fr_RequestStartTime m2
      then (Some (base_error ErrResponseStartTimeMismatch), m1, m2)
      else if fr_StepTime m1 = fr_StepTime m2 then mergeFetchResponsesWithEqualStepTimes m1 m2
      else mergeFetchResponsesWithUnequalStepTimes m1 m2)"

definition coordinates :: "FetchResponse \<Rightarrow> string \<times> int \<times> int" where
  "coordinates r = (fr_Name r, fr_RequestStartTime r, fr_RequestStopTime r)"

section \<open>Responses\<close>

record 'r server_response =
  sr_Server :: string
  sr_Response :: "'r option"
  sr_Stats :: "Stats option"
  sr_Err :: "merry_error list"

definition new_response :: "'r \<Rightarrow> Stats option \<Rightarrow> 'r server_response" where
  "new_response r st = \<lparr>sr_Server = [], sr_Response = Some r, sr_Stats = st, sr_Err = []\<rparr>"

definition AddError :: "merry_error option \<Rightarrow> 'r server_response \<Rightarrow> 'r server_response" where
  "AddError err s = (case err of None \<Rightarrow> s | Some e \<Rightarrow> s\<lparr>sr_Err := sr_Err s @ [e]\<rparr>)"

definition merge_stats :: "Stats option \<Rightarrow> Stats option \<Rightarrow> Stats option go_result" where
  "merge_stats s t =
     (case t of None \<Rightarrow> Some s
      | Some t' \<Rightarrow> (case s of None \<Rightarrow> Panic | Some s' \<Rightarrow> Some (Some (Stats_Merge s' t'))))"

text \<open>What the four \<open>Merge\<close> methods share; \<open>f\<close> merges the payloads.\<close>

definition merge_response :: "('r \<Rightarrow> 'r \<Rightarrow> 'r) \<Rightarrow> 'r server_response \<Rightarrow> 'r server_response \<Rightarrow> 'r server_response go_result" where
  "merge_response f first second =
     (case merge_stats (sr_Stats first) (sr_Stats second) of
        None \<Rightarrow> Panic
      | Some st \<Rightarrow>
          (let first1 = first\<lparr>sr_Stats := st, sr_Err := sr_Err first @ sr_Err second\<rparr>
           in case sr_Response second of
                None \<Rightarrow> Some first1
              | Some y \<Rightarrow>
                  (case sr_Response first of
                     None \<Rightarrow> Panic
                   | Some x \<Rightarrow> Some (first1\<lparr>sr_Response := Some (f x y)\<rparr>))))"

definition tag_payload :: "string list \<Rightarrow> string list \<Rightarrow> string list" where
  "tag_payload xs ys = xs @ filter (\<lambda>v. v \<notin> set xs) ys"

definition ServerTagResponse_Merge ::
  "string list server_response \<Rightarrow> string list server_response \<Rightarrow> string list server_response go_result" where
  "ServerTagResponse_Merge = merge_response tag_payload"

text \<open>The infos are a map from servers; their contents are not looked at.\<close>

definition info_payload :: "(string \<times> 'i) list \<Rightarrow> (string \<times> 'i) list \<Rightarrow> (string \<times> 'i) list" where
  "info_payload xs ys = foldl (\<lambda>m (k, v). AList.update k v m) xs ys"

definition ServerInfoResponse_Merge ::
  "(string \<times> 'i) list server_response \<Rightarrow> (string \<times> 'i) list server_response \<Rightarrow> (string \<times> 'i) list server_response go_result" where
  "ServerInfoResponse_Merge = merge_response info_payload"

text \<open>A map from the key of each element to its index; of equal keys the last counts.\<close>

definition index_map :: "('a \<Rightarrow> 'k) \<Rightarrow> 'a list \<Rightarrow> 'k \<Rightarrow> nat option" where
  "index_map key xs = map_of (rev (zip (map key xs) [0..<length xs]))"

fun fetch_loop :: "(string \<times> int \<times> int \<Rightarrow> nat option) \<Rightarrow> FetchResponse list \<Rightarrow> FetchResponse list \<Rightarrow> FetchResponse list" where
  "fetch_loop idx ms [] = ms"
| "fetch_loop idx ms (r # rs) =
     (case idx (coordinates r) of
        Some j \<Rightarrow> fetch_loop idx (ms[j := fst (snd (MergeFetchResponses (ms ! j) r))]) rs
      | None \<Rightarrow> fetch_loop idx (ms @ [r]) rs)"

definition fetch_payload :: "FetchResponse list \<Rightarrow> FetchResponse list \<Rightarrow> FetchResponse list" where
  "fetch_payload xs ys = fetch_loop (index_map coordinates xs) xs ys"

definition ServerFetchResponse_Merge ::
  "FetchResponse list server_response \<Rightarrow> FetchResponse list server_response \<Rightarrow> FetchResponse list server_response go_result" where
  "ServerFetchResponse_Merge = merge_response fetch_payload"

record GlobMatch =
  gm_Path :: string
  gm_IsLeaf :: bool

record GlobResponse =
  gr_Name :: string
  gr_Matches :: "GlobMatch list"

definition match_key :: "string \<Rightarrow> GlobMatch \<Rightarrow> string \<times> bool" where
  "match_key name mm = (name @ ''.'' @ gm_Path mm, gm_IsLeaf mm)"

text \<open>The keys seen, with their leaf flags, and the matches added to one metric.\<close>

fun match_loop :: "string \<Rightarrow> (string \<times> bool) list \<Rightarrow> GlobMatch list \<Rightarrow> GlobMatch list \<Rightarrow> (string \<times> bool) list \<times> GlobMatch list" where
  "match_loop name seen ms [] = (seen, ms)"
| "match_loop name seen ms (mm # rest) =
     (if match_key name mm \<in> set seen then match_loop name seen ms rest
      else match_loop name (match_key name mm # seen) (ms @ [mm]) rest)"

fun find_loop :: "(string \<Rightarrow> nat option) \<Rightarrow> (string \<times> bool) list \<Rightarrow> GlobResponse list \<Rightarrow> GlobResponse list \<Rightarrow> GlobResponse list" where
  "find_loop idx seen gs [] = gs"
| "find_loop idx seen gs (m # ms) =
     (case idx (gr_Name m) of
        None \<Rightarrow> find_loop idx seen (gs @ [m]) ms
      | Some i \<Rightarrow>
          (case match_loop (gr_Name (gs ! i)) seen (gr_Matches (gs ! i)) (gr_Matches m) of
             (seen', matches) \<Rightarrow> find_loop idx seen' (gs[i := (gs ! i)\<lparr>gr_Matches := matches\<rparr>]) ms))"

definition seen_matches :: "GlobResponse list \<Rightarrow> (string \<times> bool) list" where
  "seen_matches gs = concat (map (\<lambda>m. map (match_key (gr_Name m)) (gr_Matches m)) gs)"

definition find_payload :: "GlobResponse list \<Rightarrow> GlobResponse list \<Rightarrow> GlobResponse list" where
  "find_payload xs ys = find_loop (index_map gr_Name xs) (seen_matches xs) xs ys"

definition ServerFindResponse_Merge ::
  "GlobResponse list server_response \<Rightarrow> GlobResponse list server_response \<Rightarrow> GlobResponse list server_response go_result" where
  "ServerFindResponse_Merge = merge_response find_payload"

section \<open>Gathering the responses\<close>

datatype 'i any_response =
    TagResponse "string list server_response"
  | InfoResponse "(string \<times> 'i) list server_response"
  | FindResponse "GlobResponse list server_response"
  | FetchResp "FetchResponse list server_response"

fun any_AddError :: "merry_error option \<Rightarrow> 'i any_response \<Rightarrow> 'i any_response" where
  "any_AddError e (TagResponse r) = TagResponse (AddError e r)"
| "any_AddError e (InfoResponse r) = InfoResponse (AddError e r)"
| "any_AddError e (FindResponse r) = FindResponse (AddError e r)"
| "any_AddError e (FetchResp r) = FetchResp (AddError e r)"

fun any_Errors :: "'i any_response \<Rightarrow> merry_error list" where
  "any_Errors (TagResponse r) = sr_Err r"
| "any_Errors (InfoResponse r) = sr_Err r"
| "any_Errors (FindResponse r) = sr_Err r"
| "any_Errors (FetchResp r) = sr_Err r"

fun GetServer :: "'i any_response \<Rightarrow> string" where
  "GetServer (TagResponse r) = sr_Server r"
| "GetServer (InfoResponse r) = sr_Server r"
| "GetServer (FindResponse r) = sr_Server r"
| "GetServer (FetchResp r) = sr_Server r"

text \<open>\<open>MergeI\<close>: the merged response, or an error when the responses are of different types.\<close>

fun MergeI :: "'i any_response \<Rightarrow> 'i any_response \<Rightarrow> (merry_error + 'i any_response) go_result" where
  "MergeI (TagResponse a) (TagResponse b) = map_option (\<lambda>r. Inr (TagResponse r)) (ServerTagResponse_Merge a b)"
| "MergeI (InfoResponse a) (InfoResponse b) = map_option (\<lambda>r. Inr (InfoResponse r)) (ServerInfoResponse_Merge a b)"
| "MergeI (FindResponse a) (FindResponse b) = map_option (\<lambda>r. Inr (FindResponse r)) (ServerFindResponse_Merge a b)"
| "MergeI (FetchResp a) (FetchResp b) = map_option (\<lambda>r. Inr (FetchResp r)) (ServerFetchResponse_Merge a b)"
| "MergeI a b = Some (Inl (base_error ErrResponseTypeMismatch))"

definition NoAnswerBackends :: "string list \<Rightarrow> string list \<Rightarrow> string list" where
  "NoAnswerBackends backends answered = filter (\<lambda>s. s \<notin> set answered) backends"

datatype 'i event = Answer "'i any_response" | CtxDone

text \<open>
  The loop of \<open>DoRequest\<close>: it ends with the result, the count and the backends that timed out,
  panics, or still waits when the events are used up.
\<close>

datatype 'i gathered = Gathered "'i any_response" nat "string list" | GatherPanic | StillWaiting

fun gather :: "string list \<Rightarrow> 'i any_response \<Rightarrow> nat \<Rightarrow> string list \<Rightarrow> 'i event list \<Rightarrow> 'i gathered" where
  "gather clients result cnt answered evs =
     (if length clients \<le> cnt then Gathered result cnt []
      else (case evs of
              [] \<Rightarrow> StillWaiting
            | CtxDone # _ \<Rightarrow>
                Gathered (any_AddError (Some (base_error ErrTimeoutExceeded)) result) cnt (NoAnswerBackends clients answered)
            | Answer res # rest \<Rightarrow>
                (case MergeI result res of
                   None \<Rightarrow> GatherPanic
                 | Some (Inl err) \<Rightarrow> gather clients (any_AddError (Some err) result) cnt (GetServer res # answered) rest
                 | Some (Inr result') \<Rightarrow> gather clients result' (cnt + 1) (GetServer res # answered) rest)))"

declare gather.simps [simp del]

definition DoRequest :: "string list \<Rightarrow> 'i any_response \<Rightarrow> 'i event list \<Rightarrow> 'i gathered" where
  "DoRequest clients result evs = gather clients result 0 [] evs"

section \<open>Merged values\<close>

lemma fill_values_nth:
  "length ys \<le> length xs \<Longrightarrow> length (fill_values xs ys) = length xs
     \<and> (\<forall>i<length xs. fill_values xs ys ! i = (if isNaN (xs ! i) \<and> i < length ys then ys ! i else xs ! i))"
proof (induction xs ys rule: fill_values.induct)
  case (1 x xs y ys)
  then show ?case by (auto simp: nth_Cons split: nat.split)
qed simp_all

definition value_of :: "FetchResponse \<Rightarrow> nat \<Rightarrow> f64" where
  "value_of r i = (if i < length (fr_Values r) then fr_Values r ! i else FNaN)"

text \<open>
  Merging two responses for the same series loses no sample: when they have the same start
  and step the result is as long as the longer one, and each of its values is the one of the
  longer response (the first, if they are equally long), or the other's where that is absent.
\<close>

lemma MergeFetchResponses_values:
  assumes "fr_RequestStartTime m1 = fr_RequestStartTime m2" "fr_StepTime m1 = fr_StepTime m2"
    and "fr_StartTime m1 = fr_StartTime m2"
  shows "\<exists>r m2'. MergeFetchResponses m1 m2 = (None, r, m2')
    \<and> length (fr_Values r) = max (length (fr_Values m1)) (length (fr_Values m2))
    \<and> (\<forall>i. value_of r i =
         (if length (fr_Values m1) < length (fr_Values m2)
          then (if isNaN (value_of m2 i) then value_of m1 i else value_of m2 i)
          else (if isNaN (value_of m1 i) then value_of m2 i else value_of m1 i)))"
proof (cases "length (fr_Values m1) < length (fr_Values m2)")
  case True
  then have "length (fr_Values m1) \<le> length (fr_Values m2)" by simp
  note f = fill_values_nth[OF this]
  show ?thesis
    using assms True f
    by (auto simp: MergeFetchResponses_def mergeFetchResponsesWithEqualStepTimes_def swapFetchResponses_def
        swap_into_def value_of_def isNaN_def)
next
  case False
  then have "length (fr_Values m2) \<le> length (fr_Values m1)" by simp
  note f = fill_values_nth[OF this]
  show ?thesis
    using assms False f
    by (auto simp: MergeFetchResponses_def mergeFetchResponsesWithEqualStepTimes_def value_of_def isNaN_def)
qed

definition fetched :: "string \<Rightarrow> f64 list \<Rightarrow> int \<Rightarrow> int \<Rightarrow> FetchResponse" where
  "fetched name vs start step =
     \<lparr>fr_Name = name, fr_PathExpression = name, fr_ConsolidationFunc = [], fr_StartTime = start,
      fr_StopTime = start + int (length vs) * step, fr_StepTime = step, fr_XFilesFactor = 0,
      fr_HighPrecisionTimestamps = False, fr_Values = vs, fr_AppliedFunctions = [],
      fr_RequestStartTime = start, fr_RequestStopTime = start + 100\<rparr>"

lemma MergeFetchResponses_values_witness:
  "\<exists>r m2'. MergeFetchResponses (fetched ''a'' [FNum 1, FNaN] 0 10) (fetched ''a'' [FNum 3, FNum 4, FNaN] 0 10) = (None, r, m2')
     \<and> length (fr_Values r) = 3 \<and> value_of r 0 = FNum 3 \<and> value_of r 1 = FNum 4 \<and> value_of r 2 = FNaN"
proof -
  let ?a = "fetched ''a'' [FNum 1, FNaN] 0 10" and ?b = "fetched ''a'' [FNum 3, FNum 4, FNaN] 0 10"
  obtain r m2' where "MergeFetchResponses ?a ?b = (None, r, m2')" "length (fr_Values r) = 3"
    "\<forall>i. value_of r i = (if isNaN (value_of ?b i) then value_of ?a i else value_of ?b i)"
    using MergeFetchResponses_values[of ?a ?b] by (auto simp: fetched_def)
  moreover have "value_of ?b 0 = FNum 3" "value_of ?b 1 = FNum 4" "value_of ?b 2 = FNaN" "value_of ?a 2 = FNaN"
    by (simp_all add: fetched_def value_of_def)
  ultimately show ?thesis by (auto simp: isNaN_def)
qed

section \<open>Merged lists of series\<close>

lemma index_map_Some: "index_map key xs k = Some j \<Longrightarrow> j < length xs \<and> key (xs ! j) = k"
  by (auto simp: index_map_def set_zip dest!: map_of_SomeD)

lemma index_map_None: "index_map key xs k = None \<longleftrightarrow> k \<notin> key ` set xs"
proof -
  have "map fst (zip (map key xs) [0..<length xs]) = map key xs" by (rule map_fst_zip) simp
  from arg_cong[OF this, of set] have "fst ` set (rev (zip (map key xs) [0..<length xs])) = key ` set xs"
    unfolding set_map set_rev .
  then show ?thesis by (simp only: index_map_def map_of_eq_None_iff)
qed

lemma coordinates_merge:
  "coordinates m1 = coordinates m2 \<Longrightarrow> coordinates (fst (snd (MergeFetchResponses m1 m2))) = coordinates m1"
  by (auto simp: MergeFetchResponses_def mergeFetchResponsesWithEqualStepTimes_def
      mergeFetchResponsesWithUnequalStepTimes_def swapFetchResponses_def swap_into_def coordinates_def)

definition merged_with :: "FetchResponse list \<Rightarrow> FetchResponse \<Rightarrow> FetchResponse" where
  "merged_with ys m =
     (case find (\<lambda>r. coordinates r = coordinates m) ys of
        None \<Rightarrow> m | Some r \<Rightarrow> fst (snd (MergeFetchResponses m r)))"

lemma fetch_loop_eq:
  assumes "distinct (map coordinates xs)" "distinct (map coordinates ys)"
    and "length zs = length xs" "map coordinates zs = map coordinates xs"
  shows "fetch_loop (index_map coordinates xs) (zs @ ws) ys =
    map (merged_with ys) zs @ ws @ filter (\<lambda>r. coordinates r \<notin> coordinates ` set xs) ys"
  using assms
proof (induction ys arbitrary: zs ws)
  case Nil
  then show ?case by (simp add: merged_with_def map_idI)
next
  case (Cons y ys)
  have none: "find (\<lambda>r. coordinates r = coordinates y) ys = None"
  proof -
    have "coordinates y \<notin> coordinates ` set ys" using Cons.prems(2) by simp
    then show ?thesis unfolding find_None_iff by (metis imageI)
  qed
  show ?case
  proof (cases "index_map coordinates xs (coordinates y)")
    case None
    then have out: "coordinates y \<notin> coordinates ` set xs" by (simp add: index_map_None)
    have "map (merged_with (y # ys)) zs = map (merged_with ys) zs"
    proof (rule map_cong[OF refl])
      fix m assume "m \<in> set zs"
      then have "coordinates m \<in> coordinates ` set xs" using Cons.prems(4) by (metis image_eqI image_set)
      then show "merged_with (y # ys) m = merged_with ys m" using out by (auto simp: merged_with_def)
    qed
    then show ?thesis
      using Cons.IH[of zs "ws @ [y]"] Cons.prems None out by simp
  next
    case (Some j)
    then have j: "j < length xs" "coordinates (xs ! j) = coordinates y" using index_map_Some by fastforce+
    have zj: "coordinates (zs ! j) = coordinates y" using j Cons.prems(3,4) by (metis nth_map)
    let ?m = "fst (snd (MergeFetchResponses (zs ! j) y))"
    have cm: "coordinates ?m = coordinates y" using coordinates_merge[OF zj] zj by simp
    have step: "map (merged_with ys) (zs[j := ?m]) = map (merged_with (y # ys)) zs"
    proof (rule nth_equalityI)
      fix i assume "i < length (map (merged_with ys) (zs[j := ?m]))"
      then have i: "i < length zs" by simp
      show "map (merged_with ys) (zs[j := ?m]) ! i = map (merged_with (y # ys)) zs ! i"
      proof (cases "i = j")
        case True
        then show ?thesis using i none cm zj by (simp add: merged_with_def)
      next
        case False
        have "coordinates (zs ! i) \<noteq> coordinates y"
          using False i j Cons.prems(1,3,4) zj by (metis length_map nth_eq_iff_index_eq nth_map)
        then show ?thesis using i False by (auto simp: merged_with_def)
      qed
    qed simp
    have "map coordinates (zs[j := ?m]) = map coordinates xs"
      using cm zj Cons.prems(3,4) j by (metis list_update_id map_update nth_map)
    moreover have "coordinates y \<in> coordinates ` set xs" using j by (metis image_eqI nth_mem)
    ultimately show ?thesis
      using Cons.IH[of "zs[j := ?m]" ws] Cons.prems Some j step by (simp add: list_update_append nth_append)
  qed
qed

lemma merge_response_ok:
  assumes "sr_Response first = Some x" "sr_Stats first \<noteq> None \<or> sr_Stats second = None"
  shows "\<exists>r. merge_response f first second = Some r \<and> sr_Err r = sr_Err first @ sr_Err second
    \<and> sr_Response r = Some (case sr_Response second of None \<Rightarrow> x | Some y \<Rightarrow> f x y)
    \<and> (sr_Stats first \<noteq> None \<longrightarrow> sr_Stats r \<noteq> None) \<and> sr_Server r = sr_Server first"
  using assms
  by (cases "sr_Stats second"; cases "sr_Response second")
    (auto simp: merge_response_def merge_stats_def Let_def)

text \<open>
  C15: Merging fetch responses keeps one series per metric and requested range: if neither
  response has two series with the same coordinates, the result has none, and it consists of the
  first response's series, each merged with the second's series of the same coordinates, and
  then of the second's other series.
\<close>

theorem ServerFetchResponse_Merge_series:
  assumes "sr_Response first = Some xs" "sr_Response second = Some ys" "sr_Stats first \<noteq> None"
    and "distinct (map coordinates xs)" "distinct (map coordinates ys)"
  shows "\<exists>r ms. ServerFetchResponse_Merge first second = Some r \<and> sr_Response r = Some ms
    \<and> sr_Err r = sr_Err first @ sr_Err second \<and> distinct (map coordinates ms)
    \<and> ms = map (merged_with ys) xs @ filter (\<lambda>r. coordinates r \<notin> coordinates ` set xs) ys"
proof -
  have ms: "fetch_payload xs ys = map (merged_with ys) xs @ filter (\<lambda>r. coordinates r \<notin> coordinates ` set xs) ys"
    using fetch_loop_eq[OF assms(4,5), of xs "[]"] by (simp add: fetch_payload_def)
  have "coordinates (merged_with ys m) = coordinates m" for m
    by (auto simp: merged_with_def find_Some_iff coordinates_merge split: option.split)
  then have "map coordinates (fetch_payload xs ys) =
      map coordinates xs @ filter (\<lambda>c. c \<notin> coordinates ` set xs) (map coordinates ys)"
    by (simp add: ms filter_map comp_def)
  then have "distinct (map coordinates (fetch_payload xs ys))" using assms(4,5) by auto
  then show ?thesis
    using merge_response_ok[OF assms(1), of second fetch_payload] assms(2,3) ms
    unfolding ServerFetchResponse_Merge_def by auto
qed

theorem ServerFetchResponse_Merge_series_witness:
  "\<exists>r ms. ServerFetchResponse_Merge (new_response [fetched ''a'' [FNum 1] 0 10] (Some zero_stats))
      (new_response [fetched ''b'' [FNum 2] 0 10, fetched ''a'' [FNaN, FNum 3] 0 10] None) = Some r \<and> sr_Response r = Some ms
    \<and> map fr_Name ms = [''a'', ''b'']"
proof -
  have "distinct (map coordinates [fetched ''a'' [FNum 1] 0 10])"
    "distinct (map coordinates [fetched ''b'' [FNum 2] 0 10, fetched ''a'' [FNaN, FNum 3] 0 10])"
    by (simp_all add: fetched_def coordinates_def)
  from ServerFetchResponse_Merge_series[OF _ _ _ this, of "new_response [fetched ''a'' [FNum 1] 0 10] (Some zero_stats)"
      "new_response [fetched ''b'' [FNum 2] 0 10, fetched ''a'' [FNaN, FNum 3] 0 10] None"]
  show ?thesis
    by (auto simp: new_response_def fetched_def coordinates_def merged_with_def MergeFetchResponses_def
        mergeFetchResponsesWithEqualStepTimes_def swapFetchResponses_def swap_into_def)
qed

section \<open>Merged globs\<close>

definition glob_matches :: "GlobResponse list \<Rightarrow> (string \<times> string \<times> bool) set" where
  "glob_matches gs = (\<Union>m\<in>set gs. (\<lambda>mm. (gr_Name m, gm_Path mm, gm_IsLeaf mm)) ` set (gr_Matches m))"

text \<open>The keys of the code join name and path; they stand for the pair when no two pairs collide.\<close>

definition no_collision :: "(string \<times> string \<times> bool) set \<Rightarrow> bool" where
  "no_collision P \<longleftrightarrow>
     (\<forall>(n, p, l)\<in>P. \<forall>(n', p', l')\<in>P. n @ ''.'' @ p = n' @ ''.'' @ p' \<longrightarrow> n = n' \<and> p = p')"

definition keys_of :: "(string \<times> string \<times> bool) set \<Rightarrow> (string \<times> bool) set" where
  "keys_of P = (\<lambda>(n, p, l). (n @ ''.'' @ p, l)) ` P"

lemma keys_of_Un: "keys_of (A \<union> B) = keys_of A \<union> keys_of B"
  by (simp add: keys_of_def image_Un)

lemma key_in_pairs:
  assumes "no_collision P" "Q \<subseteq> P" "(n, p, l) \<in> P" "(n @ ''.'' @ p, l) \<in> keys_of Q"
  shows "(n, p, l) \<in> Q"
proof -
  obtain n' p' where q: "(n', p', l) \<in> Q" "n @ ''.'' @ p = n' @ ''.'' @ p'"
    using assms(4) by (auto simp: keys_of_def)
  then have "n = n' \<and> p = p'" using assms(1-3) unfolding no_collision_def by blast
  with q(1) show ?thesis by simp
qed

abbreviation pairs_of :: "string \<Rightarrow> GlobMatch list \<Rightarrow> (string \<times> string \<times> bool) set" where
  "pairs_of n xs \<equiv> (\<lambda>mm. (n, gm_Path mm, gm_IsLeaf mm)) ` set xs"

lemma match_loop_pairs:
  assumes "no_collision P" "match_loop name seen ms rest = (seen', ms')"
    and "set seen \<subseteq> keys_of Q" "Q \<subseteq> P" "pairs_of name rest \<subseteq> P"
  shows "Q \<union> pairs_of name ms' = Q \<union> pairs_of name ms \<union> pairs_of name rest
    \<and> set seen' \<subseteq> keys_of (Q \<union> pairs_of name rest) \<and> set ms \<subseteq> set ms'"
  using assms(2-5)
proof (induction rest arbitrary: seen ms Q)
  case (Cons mm rest)
  let ?t = "(name, gm_Path mm, gm_IsLeaf mm)"
  show ?case
  proof (cases "match_key name mm \<in> set seen")
    case True
    then have "?t \<in> Q"
      using key_in_pairs[OF assms(1) Cons.prems(3), of name "gm_Path mm" "gm_IsLeaf mm"] Cons.prems(2,4)
      by (auto simp: match_key_def)
    moreover have "match_loop name seen ms rest = (seen', ms')" using Cons.prems(1) True by simp
    ultimately show ?thesis using Cons.IH[of seen ms Q] Cons.prems by (auto simp: insert_absorb)
  next
    case False
    have "set (match_key name mm # seen) \<subseteq> keys_of (insert ?t Q)"
      using Cons.prems(2) by (auto simp: keys_of_def match_key_def)
    moreover have "match_loop name (match_key name mm # seen) (ms @ [mm]) rest = (seen', ms')"
      using Cons.prems(1) False by simp
    ultimately have ih: "insert ?t Q \<union> pairs_of name ms' = insert ?t Q \<union> pairs_of name (ms @ [mm]) \<union> pairs_of name rest"
      "set seen' \<subseteq> keys_of (insert ?t Q \<union> pairs_of name rest)" "set (ms @ [mm]) \<subseteq> set ms'"
      using Cons.IH[of "match_key name mm # seen" "ms @ [mm]" "insert ?t Q"] Cons.prems(3,4) by auto
    have "?t \<in> pairs_of name ms'" using ih(3) by auto
    then have "Q \<union> pairs_of name ms' = insert ?t Q \<union> pairs_of name ms'" by blast
    also note ih(1)
    also have "insert ?t Q \<union> pairs_of name (ms @ [mm]) \<union> pairs_of name rest = Q \<union> pairs_of name ms \<union> pairs_of name (mm # rest)"
      by auto
    finally have "Q \<union> pairs_of name ms' = Q \<union> pairs_of name ms \<union> pairs_of name (mm # rest)" .
    then show ?thesis using ih(2,3) by (simp add: insert_commute)
  qed
qed auto

lemma glob_matches_simps [simp]:
  "glob_matches [] = {}"
  "glob_matches (m # ms) = pairs_of (gr_Name m) (gr_Matches m) \<union> glob_matches ms"
  "glob_matches (xs @ ys) = glob_matches xs \<union> glob_matches ys"
  by (auto simp: glob_matches_def)

lemma glob_matches_update:
  assumes "i < length gs" "set (gr_Matches (gs ! i)) \<subseteq> set ms"
  shows "glob_matches (gs[i := (gs ! i)\<lparr>gr_Matches := ms\<rparr>]) = glob_matches gs \<union> pairs_of (gr_Name (gs ! i)) ms"
proof -
  have "glob_matches gs = glob_matches (take i gs) \<union> pairs_of (gr_Name (gs ! i)) (gr_Matches (gs ! i)) \<union> glob_matches (drop (Suc i) gs)"
    using arg_cong[OF id_take_nth_drop[OF assms(1)], of glob_matches] by auto
  moreover have "pairs_of (gr_Name (gs ! i)) (gr_Matches (gs ! i)) \<subseteq> pairs_of (gr_Name (gs ! i)) ms" using assms(2) by blast
  ultimately show ?thesis using assms(1) by (auto simp: upd_conv_take_nth_drop)
qed

lemma find_loop_matches:
  assumes "no_collision P" "\<And>n i. idx n = Some i \<Longrightarrow> i < length gs \<and> gr_Name (gs ! i) = n"
    and "set seen \<subseteq> keys_of (glob_matches gs)" "glob_matches gs \<subseteq> P" "glob_matches ms \<subseteq> P"
  shows "glob_matches (find_loop idx seen gs ms) = glob_matches gs \<union> glob_matches ms"
  using assms(2-5)
proof (induction ms arbitrary: seen gs)
  case (Cons m ms)
  show ?case
  proof (cases "idx (gr_Name m)")
    case None
    have "glob_matches (find_loop idx seen (gs @ [m]) ms) = glob_matches (gs @ [m]) \<union> glob_matches ms"
    proof (rule Cons.IH)
      show "i < length (gs @ [m]) \<and> gr_Name ((gs @ [m]) ! i) = n" if "idx n = Some i" for n i
        using Cons.prems(1)[OF that] by (simp add: nth_append)
      show "set seen \<subseteq> keys_of (glob_matches (gs @ [m]))" using Cons.prems(2) by (auto simp: keys_of_Un)
    qed (use Cons.prems(3,4) in auto)
    then show ?thesis using None by auto
  next
    case (Some i)
    have i: "i < length gs" "gr_Name (gs ! i) = gr_Name m" using Cons.prems(1)[OF Some] by auto
    obtain seen' ms' where ml: "match_loop (gr_Name (gs ! i)) seen (gr_Matches (gs ! i)) (gr_Matches m) = (seen', ms')"
      by (cases "match_loop (gr_Name (gs ! i)) seen (gr_Matches (gs ! i)) (gr_Matches m)")
    have old: "pairs_of (gr_Name m) (gr_Matches (gs ! i)) \<subseteq> glob_matches gs"
    proof -
      have "pairs_of (gr_Name (gs ! i)) (gr_Matches (gs ! i)) \<subseteq> glob_matches gs"
        unfolding glob_matches_def using nth_mem[OF i(1)] by (rule UN_upper)
      then show ?thesis by (simp only: i(2))
    qed
    have m: "glob_matches gs \<union> pairs_of (gr_Name m) ms' = glob_matches gs \<union> pairs_of (gr_Name m) (gr_Matches m)"
      "set seen' \<subseteq> keys_of (glob_matches gs \<union> pairs_of (gr_Name m) (gr_Matches m))" "set (gr_Matches (gs ! i)) \<subseteq> set ms'"
      using match_loop_pairs[OF assms(1) ml Cons.prems(2,3)] Cons.prems(4) old by (auto simp: i(2))
    define gs' where "gs' = gs[i := (gs ! i)\<lparr>gr_Matches := ms'\<rparr>]"
    have g: "glob_matches gs' = glob_matches gs \<union> pairs_of (gr_Name m) (gr_Matches m)"
      using glob_matches_update[OF i(1) m(3)] m(1) by (simp add: gs'_def i(2))
    have "n < length gs' \<and> gr_Name (gs' ! n) = k" if "idx k = Some n" for n k
      using Cons.prems(1)[OF that] by (cases "n = i") (simp_all add: gs'_def)
    then have "glob_matches (find_loop idx seen' gs' ms) = glob_matches gs' \<union> glob_matches ms"
      using Cons.prems(3,4) m(2) g by (intro Cons.IH) auto
    then show ?thesis using Some ml g by (simp add: gs'_def Un_assoc)
  qed
qed simp

lemma seen_matches_keys: "set (seen_matches gs) = keys_of (glob_matches gs)"
proof -
  have "keys_of (pairs_of n xs) = match_key n ` set xs" for n xs
    by (simp add: keys_of_def match_key_def image_image)
  moreover have "keys_of {} = {}" by (simp add: keys_of_def)
  ultimately show ?thesis by (induction gs) (simp_all add: seen_matches_def keys_of_Un)
qed

text \<open>
  Merging find responses gives the union of their matches, with names, paths and leaf flags,
  whatever the order and the duplicates, provided that no two pairs of a name and a path have the
  same text when they are joined by a dot.
\<close>

lemma ServerFindResponse_Merge_union:
  assumes "sr_Response first = Some xs" "sr_Response second = Some ys" "sr_Stats first \<noteq> None"
    and "no_collision (glob_matches xs \<union> glob_matches ys)"
  shows "\<exists>r gs. ServerFindResponse_Merge first second = Some r \<and> sr_Response r = Some gs
    \<and> glob_matches gs = glob_matches xs \<union> glob_matches ys"
proof -
  have "glob_matches (find_payload xs ys) = glob_matches xs \<union> glob_matches ys"
    unfolding find_payload_def
    using index_map_Some[of gr_Name xs] by (intro find_loop_matches[OF assms(4)]) (auto simp: seen_matches_keys)
  then show ?thesis
    using merge_response_ok[OF assms(1), of second find_payload] assms(2,3)
    unfolding ServerFindResponse_Merge_def by auto
qed

lemma ServerFindResponse_Merge_union_witness:
  "\<exists>r gs. ServerFindResponse_Merge
      (new_response [\<lparr>gr_Name = ''*'', gr_Matches = [\<lparr>gm_Path = ''a'', gm_IsLeaf = True\<rparr>]\<rparr>] (Some zero_stats))
      (new_response [\<lparr>gr_Name = ''*'', gr_Matches = [\<lparr>gm_Path = ''a'', gm_IsLeaf = False\<rparr>, \<lparr>gm_Path = ''b'', gm_IsLeaf = True\<rparr>]\<rparr>] None)
    = Some r \<and> sr_Response r = Some gs \<and> glob_matches gs = {(''*'', ''a'', True), (''*'', ''a'', False), (''*'', ''b'', True)}"
proof -
  let ?x = "[\<lparr>gr_Name = ''*'', gr_Matches = [\<lparr>gm_Path = ''a'', gm_IsLeaf = True\<rparr>]\<rparr>]"
  let ?y = "[\<lparr>gr_Name = ''*'', gr_Matches = [\<lparr>gm_Path = ''a'', gm_IsLeaf = False\<rparr>, \<lparr>gm_Path = ''b'', gm_IsLeaf = True\<rparr>]\<rparr>]"
  have "no_collision (glob_matches ?x \<union> glob_matches ?y)" by (simp add: no_collision_def)
  from ServerFindResponse_Merge_union[OF _ _ _ this, of "new_response ?x (Some zero_stats)" "new_response ?y None"]
  show ?thesis by (simp add: new_response_def insert_commute)
qed

section \<open>Complete answers and timeouts\<close>

text \<open>
  A response a fetcher sends for this result (a tag response has no statistics), and a result
  that can take it.
\<close>

fun same_kind :: "'i any_response \<Rightarrow> 'i any_response \<Rightarrow> bool" where
  "same_kind (TagResponse a) (TagResponse b) \<longleftrightarrow> sr_Stats b = None"
| "same_kind (InfoResponse a) (InfoResponse b) \<longleftrightarrow> True"
| "same_kind (FindResponse a) (FindResponse b) \<longleftrightarrow> True"
| "same_kind (FetchResp a) (FetchResp b) \<longleftrightarrow> True"
| "same_kind a b \<longleftrightarrow> False"

fun takes_answers :: "'i any_response \<Rightarrow> bool" where
  "takes_answers (TagResponse r) \<longleftrightarrow> sr_Response r \<noteq> None \<and> sr_Stats r = None"
| "takes_answers (InfoResponse r) \<longleftrightarrow> sr_Response r \<noteq> None \<and> sr_Stats r \<noteq> None"
| "takes_answers (FindResponse r) \<longleftrightarrow> sr_Response r \<noteq> None \<and> sr_Stats r \<noteq> None"
| "takes_answers (FetchResp r) \<longleftrightarrow> sr_Response r \<noteq> None \<and> sr_Stats r \<noteq> None"

lemma merge_response_takes:
  assumes "sr_Response a \<noteq> None" "sr_Stats a \<noteq> None \<or> sr_Stats b = None"
  obtains r where "merge_response f a b = Some r" "sr_Response r \<noteq> None" "sr_Stats a \<noteq> None \<longrightarrow> sr_Stats r \<noteq> None"
    "sr_Err r = sr_Err a @ sr_Err b"
  using merge_response_ok[of a _ b f] assms by (metis not_None_eq)

lemma merge_response_no_stats:
  "merge_response f a b = Some r \<Longrightarrow> sr_Stats a = None \<Longrightarrow> sr_Stats b = None \<Longrightarrow> sr_Stats r = None"
  by (auto simp: merge_response_def merge_stats_def Let_def split: option.splits)

lemma MergeI_takes:
  assumes "takes_answers a" "same_kind a b"
  shows "\<exists>r. MergeI a b = Some (Inr r) \<and> takes_answers r \<and> any_Errors r = any_Errors a @ any_Errors b
    \<and> (\<forall>c. same_kind r c \<longleftrightarrow> same_kind a c)"
proof (cases a)
  case (TagResponse x)
  then obtain y where b: "b = TagResponse y" "sr_Stats y = None" using assms(2) by (cases b) auto
  then obtain r where "merge_response tag_payload x y = Some r" "sr_Response r \<noteq> None" "sr_Err r = sr_Err x @ sr_Err y"
    using merge_response_takes[of x y tag_payload] assms(1) TagResponse by auto
  moreover from this have "sr_Stats r = None"
    using merge_response_no_stats b(2) assms(1) TagResponse by fastforce
  moreover have "same_kind (TagResponse r) c \<longleftrightarrow> same_kind (TagResponse x) c" for c :: "'a any_response" by (cases c) auto
  ultimately show ?thesis using TagResponse b by (auto simp: ServerTagResponse_Merge_def)
next
  case (InfoResponse x)
  then obtain y where b: "b = InfoResponse y" using assms(2) by (cases b) auto
  then obtain r where "merge_response info_payload x y = Some r" "sr_Response r \<noteq> None" "sr_Stats r \<noteq> None" "sr_Err r = sr_Err x @ sr_Err y"
    using merge_response_takes[of x y info_payload] assms(1) InfoResponse by auto
  moreover have "same_kind (InfoResponse r) c \<longleftrightarrow> same_kind (InfoResponse x) c" for c by (cases c) auto
  ultimately show ?thesis using InfoResponse b by (auto simp: ServerInfoResponse_Merge_def)
next
  case (FindResponse x)
  then obtain y where b: "b = FindResponse y" using assms(2) by (cases b) auto
  then obtain r where "merge_response find_payload x y = Some r" "sr_Response r \<noteq> None" "sr_Stats r \<noteq> None" "sr_Err r = sr_Err x @ sr_Err y"
    using merge_response_takes[of x y find_payload] assms(1) FindResponse by auto
  moreover have "same_kind (FindResponse r) c \<longleftrightarrow> same_kind (FindResponse x) c" for c :: "'a any_response" by (cases c) auto
  ultimately show ?thesis using FindResponse b by (auto simp: ServerFindResponse_Merge_def)
next
  case (FetchResp x)
  then obtain y where b: "b = FetchResp y" using assms(2) by (cases b) auto
  then obtain r where "merge_response fetch_payload x y = Some r" "sr_Response r \<noteq> None" "sr_Stats r \<noteq> None" "sr_Err r = sr_Err x @ sr_Err y"
    using merge_response_takes[of x y fetch_payload] assms(1) FetchResp by auto
  moreover have "same_kind (FetchResp r) c \<longleftrightarrow> same_kind (FetchResp x) c" for c :: "'a any_response" by (cases c) auto
  ultimately show ?thesis using FetchResp b by (auto simp: ServerFetchResponse_Merge_def)
qed

lemma gather_answers:
  assumes "takes_answers result" "\<forall>r\<in>set rs. same_kind result r" "cnt + length rs \<le> length clients"
  shows "\<exists>r. gather clients result cnt answered (map Answer rs @ evs) =
      gather clients r (cnt + length rs) (rev (map GetServer rs) @ answered) evs
    \<and> any_Errors r = any_Errors result @ concat (map any_Errors rs)"
  using assms
proof (induction rs arbitrary: result cnt answered)
  case Nil
  show ?case by (intro exI[of _ result]) simp
next
  case (Cons x rs)
  obtain r where r: "MergeI result x = Some (Inr r)" "takes_answers r" "any_Errors r = any_Errors result @ any_Errors x"
    "\<forall>c. same_kind r c \<longleftrightarrow> same_kind result c"
    using MergeI_takes[of result x] Cons.prems(1,2) by auto
  have "gather clients result cnt answered (map Answer (x # rs) @ evs) =
      gather clients r (cnt + 1) (GetServer x # answered) (map Answer rs @ evs)"
    using Cons.prems(3) r(1) by (subst gather.simps) simp
  then show ?case
    using Cons.IH[of r "cnt + 1" "GetServer x # answered"] Cons.prems(2,3) r by auto
qed

text \<open>
  \<open>DoRequest\<close> returns once every client has answered, with the number of clients and all
  the errors of the answers, however they are ordered; when the context is done first, it returns
  what it has, and the error of the timeout names exactly the clients that have not answered.
\<close>

lemma DoRequest_gathers:
  assumes "takes_answers result" "\<forall>r\<in>set rs. same_kind result r" "length rs \<le> length clients"
  shows "\<exists>r. any_Errors r = any_Errors result @ concat (map any_Errors rs)
    \<and> (length rs = length clients \<longrightarrow> DoRequest clients result (map Answer rs @ evs) = Gathered r (length clients) [])
    \<and> (length rs < length clients \<longrightarrow> DoRequest clients result (map Answer rs @ CtxDone # evs) =
         Gathered (any_AddError (Some (base_error ErrTimeoutExceeded)) r) (length rs)
           (filter (\<lambda>s. s \<notin> GetServer ` set rs) clients))"
proof -
  from assms gather_answers[of result rs 0 clients "[]"] have g: "\<exists>r. gather clients result 0 [] (map Answer rs @ e) =
      gather clients r (length rs) (rev (map GetServer rs)) e \<and> any_Errors r = any_Errors result @ concat (map any_Errors rs)" for e
    by simp
  show ?thesis
  proof (cases "length rs = length clients")
    case True
    then show ?thesis using g[of evs] by (auto simp: DoRequest_def gather.simps)
  next
    case False
    then show ?thesis
      using g[of "CtxDone # evs"] assms(3) by (auto simp: DoRequest_def gather.simps NoAnswerBackends_def)
  qed
qed

lemma DoRequest_gathers_witness:
  "\<exists>r. DoRequest [''x'', ''y''] (FindResponse (new_response [] (Some zero_stats)) :: unit any_response)
     [Answer (FindResponse ((new_response [] None)\<lparr>sr_Server := ''x'', sr_Err := [base_error ErrNotFound]\<rparr>)), CtxDone]
   = Gathered r 1 [''y''] \<and> any_Errors r = [base_error ErrNotFound, base_error ErrTimeoutExceeded]"
proof -
  let ?x = "FindResponse ((new_response [] None)\<lparr>sr_Server := ''x'', sr_Err := [base_error ErrNotFound]\<rparr>) :: unit any_response"
  let ?r = "FindResponse (new_response [] (Some zero_stats)) :: unit any_response"
  have e: "any_Errors (any_AddError (Some err) r) = any_Errors r @ [err]" for err and r :: "unit any_response"
    by (cases r) (simp_all add: AddError_def)
  have "takes_answers ?r" "\<forall>r\<in>set [?x]. same_kind ?r r" "length [?x] \<le> length [''x'', ''y'']"
    by (simp_all add: new_response_def)
  from DoRequest_gathers[OF this, of "[]"] show ?thesis
    by (auto simp: e new_response_def)
qed

end
