(* ===== verification/Go_Sort.thy ===== *)
theory Go_Sort
  imports Go_Strings
begin

text \<open>
  Package \<open>sort\<close>. Strings have one sorted order, so \<open>sort.Strings\<close> is a function of the list. \<open>sort.Sort\<close> and
  \<open>sort.Slice\<close> leave open how equal elements are ordered; the functions that call them have the
  sorting routine as a parameter, of which the locale \<open>go_sort\<close> says what is documented.
\<close>

section \<open>Strings\<close>

text \<open>Strings are compared by their bytes.\<close>

fun string_le :: "string \<Rightarrow> string \<Rightarrow> bool" where
  "string_le [] t \<longleftrightarrow> True"
| "string_le (c # s) [] \<longleftrightarrow> False"
| "string_le (c # s) (d # t) \<longleftrightarrow> byte c < byte d \<or> c = d \<and> string_le s t"

definition string_less :: "string \<Rightarrow> string \<Rightarrow> bool" where
  "string_less s t \<longleftrightarrow> \<not> string_le t s"

fun insert_string :: "string \<Rightarrow> string list \<Rightarrow> string list" where
  "insert_string s [] = [s]"
| "insert_string s (t # ts) = (if string_le s t then s # t # ts else t # insert_string s ts)"

definition sort_strings :: "string list \<Rightarrow> string list" where
  "sort_strings xs = foldr insert_string xs []"

lemma byte_inj [simp]: "byte c = byte d \<longleftrightarrow> c = d"
  by (simp add: byte_def)

lemma string_le_refl [simp]: "string_le s s"
  by (induction s) auto

lemma string_le_total: "string_le s t \<or> string_le t s"
proof (induction s t rule: string_le.induct)
  case (3 c s d t)
  then show ?case by (metis byte_inj linorder_neqE_nat string_le.simps(3))
qed auto

lemma string_le_antisym: "string_le s t \<Longrightarrow> string_le t s \<Longrightarrow> s = t"
  by (induction s t rule: string_le.induct) (auto dest: less_asym elim: string_le.elims)

lemma string_le_trans: "string_le s t \<Longrightarrow> string_le t u \<Longrightarrow> string_le s u"
proof (induction s t arbitrary: u rule: string_le.induct)
  case (3 c s d t)
  then show ?case by (cases u) auto
qed auto

lemma insert_string_mset [simp]: "mset (insert_string s xs) = add_mset s (mset xs)"
  by (induction xs) auto

lemma sort_strings_mset [simp]: "mset (sort_strings xs) = mset xs"
  by (induction xs) (simp_all add: sort_strings_def)

lemma sort_strings_set [simp]: "set (sort_strings xs) = set xs"
  using mset_eq_setD[OF sort_strings_mset] .

lemma sort_strings_length: "length (sort_strings xs) = length xs"
  using mset_eq_length[OF sort_strings_mset] .

lemma insert_string_sorted: "sorted_wrt string_le xs \<Longrightarrow> sorted_wrt string_le (insert_string s xs)"
proof (induction xs)
  case (Cons t ts)
  have "set (insert_string s ts) = insert s (set ts)"
    using mset_eq_setD[of "insert_string s ts" "s # ts"] by simp
  then show ?case using Cons string_le_total[of s t] by (auto intro: string_le_trans)
qed simp

lemma sort_strings_sorted: "sorted_wrt string_le (sort_strings xs)"
  by (induction xs) (simp_all add: sort_strings_def insert_string_sorted)

section \<open>Other orders\<close>

text \<open>What \<open>sort.Sort\<close> needs of \<open>Less\<close> on the elements of the slice: a strict weak order.\<close>

definition weak_order_on :: "'a set \<Rightarrow> ('a \<Rightarrow> 'a \<Rightarrow> bool) \<Rightarrow> bool" where
  "weak_order_on A lt \<longleftrightarrow>
     (\<forall>a\<in>A. \<forall>b\<in>A. lt a b \<longrightarrow> \<not> lt b a) \<and> (\<forall>a\<in>A. \<forall>b\<in>A. \<forall>c\<in>A. lt a c \<longrightarrow> lt a b \<or> lt b c)"

lemma weak_order_on_subset: "weak_order_on A lt \<Longrightarrow> B \<subseteq> A \<Longrightarrow> weak_order_on B lt"
  unfolding weak_order_on_def by blast

locale go_sort =
  fixes sort_by :: "('a \<Rightarrow> 'a \<Rightarrow> bool) \<Rightarrow> 'a list \<Rightarrow> 'a list"
  assumes permutes: "mset (sort_by lt xs) = mset xs"
    and sorts: "weak_order_on (set xs) lt \<Longrightarrow> sorted_wrt (\<lambda>a b. \<not> lt b a) (sort_by lt xs)"
begin

lemma length_sort [simp]: "length (sort_by lt xs) = length xs"
  using mset_eq_length[OF permutes] .

lemma set_sort [simp]: "set (sort_by lt xs) = set xs"
  using mset_eq_setD[OF permutes] .

lemma sort_empty [simp]: "sort_by lt [] = []"
  using length_sort[of lt "[]"] by (simp del: length_sort)

lemma mset_map_sort [simp]: "mset (map f (sort_by lt xs)) = mset (map f xs)"
  using permutes[of lt xs] by simp

end

text \<open>The insertion sort that package \<open>sort\<close> uses for short slices.\<close>

fun insert_by :: "('a \<Rightarrow> 'a \<Rightarrow> bool) \<Rightarrow> 'a \<Rightarrow> 'a list \<Rightarrow> 'a list" where
  "insert_by lt x [] = [x]"
| "insert_by lt x (y # ys) = (if lt y x then y # insert_by lt x ys else x # y # ys)"

definition insertionSort :: "('a \<Rightarrow> 'a \<Rightarrow> bool) \<Rightarrow> 'a list \<Rightarrow> 'a list" where
  "insertionSort lt xs = foldr (insert_by lt) xs []"

lemma insert_by_mset [simp]: "mset (insert_by lt x xs) = add_mset x (mset xs)"
  by (induction xs) auto

lemma insert_by_sorted:
  assumes "weak_order_on (insert x (set xs)) lt" "sorted_wrt (\<lambda>a b. \<not> lt b a) xs"
  shows "sorted_wrt (\<lambda>a b. \<not> lt b a) (insert_by lt x xs)"
  using assms
proof (induction xs)
  case (Cons y ys)
  have s: "set (insert_by lt x ys) = insert x (set ys)"
    using mset_eq_setD[of "insert_by lt x ys" "x # ys"] by simp
  have w: "weak_order_on (insert x (set ys)) lt" using Cons.prems(1) by (rule weak_order_on_subset) auto
  show ?case
  proof (cases "lt y x")
    case True
    then have "\<not> lt x y" using Cons.prems(1) unfolding weak_order_on_def by auto
    then show ?thesis using Cons.IH[OF w] Cons.prems(2) s True by auto
  next
    case False
    have "\<not> lt z x" if z: "z \<in> set ys" for z
    proof
      assume "lt z x"
      then have "lt z y \<or> lt y x" using Cons.prems(1) z unfolding weak_order_on_def by auto
      then show False using Cons.prems(2) z False by auto
    qed
    then show ?thesis using Cons.prems(2) False by auto
  qed
qed simp

interpretation insertion: go_sort insertionSort
proof
  show "mset (insertionSort lt xs) = mset xs" for lt :: "'a \<Rightarrow> 'a \<Rightarrow> bool" and xs
    by (induction xs) (simp_all add: insertionSort_def)
  then have set: "set (insertionSort lt xs) = set xs" for lt :: "'a \<Rightarrow> 'a \<Rightarrow> bool" and xs
    by (rule mset_eq_setD)
  show "sorted_wrt (\<lambda>a b. \<not> lt b a) (insertionSort lt xs)" if "weak_order_on (set xs) lt"
    for lt :: "'a \<Rightarrow> 'a \<Rightarrow> bool" and xs
    using that
  proof (induction xs)
    case (Cons x xs)
    have "sorted_wrt (\<lambda>a b. \<not> lt b a) (insertionSort lt xs)"
      using Cons.IH Cons.prems weak_order_on_subset by fastforce
    then have "sorted_wrt (\<lambda>a b. \<not> lt b a) (insert_by lt x (insertionSort lt xs))"
      using Cons.prems by (intro insert_by_sorted) (simp_all add: set)
    then show ?case by (simp add: insertionSort_def)
  qed (simp add: insertionSort_def)
qed

lemma weak_order_string: "weak_order_on A (\<lambda>a b. string_less (f a) (f b))"
  unfolding weak_order_on_def string_less_def
  using string_le_total string_le_trans by blast

end
