(* ===== verification/Broadcast.thy ===== *)
theory Broadcast
  imports Zipper_Response Go_Sort
begin

text \<open>
  The broadcast group of \<open>zipper/broadcast/broadcast_group.go\<close>: it sends a request to all its
  backends, or to those known to have the first component of a metric, splits requests that are
  too large, and makes one answer of the backends' answers. A backend is what the code asks of
  it: its name, its limit and its answers. The path cache is an association list; that its entries
  expire is not modelled. A fatal log entry on a response of another type cannot be reached.
\<close>

section \<open>Requests and backends\<close>

record FetchRequest =
  fq_Name :: string
  fq_StartTime :: int
  fq_StopTime :: int
  fq_HighPrecisionTimestamps :: bool
  fq_PathExpression :: string
  fq_FilterFunctions :: "string list"
  fq_MaxDataPoints :: int

type_synonym 'r answer = "'r option \<times> Stats option \<times> merry_error option"

record 'i backend =
  b_Name :: string
  b_MaxMetricsPerRequest :: int
  b_Find :: "string list \<Rightarrow> GlobResponse list answer"
  b_Fetch :: "FetchRequest list \<Rightarrow> FetchResponse list answer"
  b_Info :: "string list \<Rightarrow> (string \<times> 'i) list answer"
  b_Tags :: "bool \<Rightarrow> string \<Rightarrow> int \<Rightarrow> string list option \<times> merry_error option"
  b_Enter :: "merry_error option"

text \<open>\<open>b_Enter\<close> is the error of the limiter when the context ends before there is a slot.\<close>

definition Prepend :: "merry_error \<Rightarrow> string \<Rightarrow> merry_error" where
  "Prepend e s = WithMessage e (s @ '': '' @ m_text e)"

record 'i BroadcastGroup =
  bg_backends :: "'i backend list"
  bg_tldCacheDisabled :: bool
  bg_requireSuccessAll :: bool
  bg_multi :: bool
  bg_pathCache :: "(string \<times> string list) list"

definition Backends :: "'i BroadcastGroup \<Rightarrow> string list" where
  "Backends bg = map b_Name (bg_backends bg)"

section \<open>Routing by the first component\<close>

text \<open>The key under which the servers of a request are cached.\<close>

definition tld_of :: "string \<Rightarrow> string" where
  "tld_of request =
     (case index_byte (CHR ''.'') request of
        None \<Rightarrow> request
      | Some idx \<Rightarrow> if 0 < idx then take idx request else request)"

text \<open>The servers cached for the requests; \<open>None\<close> when a request is for a \<open>seriesByTag\<close>.\<close>

fun tld_backends :: "(string \<times> string list) list \<Rightarrow> string list \<Rightarrow> string list \<Rightarrow> string list \<Rightarrow> string list option" where
  "tld_backends cache backends acc [] = Some acc"
| "tld_backends cache backends acc (r # rs) =
     (if HasPrefix r ''seriesByTag'' then None
      else tld_backends cache backends
             (case map_of cache (tld_of r) of
                Some cached \<Rightarrow> if backends \<noteq> [] then cached @ acc else acc
              | None \<Rightarrow> acc) rs)"

definition filterServersByTLD :: "'i BroadcastGroup \<Rightarrow> string list \<Rightarrow> string list \<Rightarrow> string list" where
  "filterServersByTLD bg requests backends =
     (if bg_tldCacheDisabled bg then backends
      else (case tld_backends (bg_pathCache bg) backends [] requests of
              None \<Rightarrow> backends
            | Some tld \<Rightarrow>
                (let filtered = filter (\<lambda>k. k \<in> set tld) backends
                 in if filtered = [] then backends else filtered)))"

datatype probe = Probed string "string list" "merry_error option" | ProbeTimeout

text \<open>The gathering loop of \<open>ProbeTLDs\<close>: answers so far, errors, cache and the set of components.\<close>

fun probe_loop ::
  "nat \<Rightarrow> nat \<Rightarrow> merry_error list \<Rightarrow> (string \<times> string list) list \<Rightarrow> probe list \<Rightarrow>
   (merry_error list \<times> (string \<times> string list) list) option" where
  "probe_loop n responses errs cache evs =
     (if responses = n then Some (errs, cache)
      else (case evs of
              [] \<Rightarrow> None
            | ProbeTimeout # _ \<Rightarrow> Some (errs @ [base_error ErrTimeoutExceeded], cache)
            | Probed server tlds err # rest \<Rightarrow>
                (case err of
                   Some e \<Rightarrow> probe_loop n (responses + 1) (errs @ [e]) cache rest
                 | None \<Rightarrow>
                     probe_loop n (responses + 1) errs
                       (foldl (\<lambda>c tld. AList.update tld ((case map_of c tld of None \<Rightarrow> [] | Some v \<Rightarrow> v) @ [server]) c) cache tlds)
                       rest)))"

declare probe_loop.simps [simp del]

definition non_fatal :: "merry_error list \<Rightarrow> merry_error option" where
  "non_fatal errs = (if errs = [] then None else Some (foldl WithCause (base_error ErrNonFatalErrors) errs))"

text \<open>The keys of the cache are the components seen, in any order.\<close>

definition ProbeTLDs :: "'i BroadcastGroup \<Rightarrow> probe list \<Rightarrow> (string list \<times> merry_error option \<times> 'i BroadcastGroup) option" where
  "ProbeTLDs bg evs =
     (case probe_loop (length (bg_backends bg)) 0 [] [] evs of
        None \<Rightarrow> None
      | Some (errs, cache) \<Rightarrow>
          Some (map fst cache, non_fatal errs,
                bg\<lparr>bg_pathCache := foldl (\<lambda>m (k, v). AList.update k v m) (bg_pathCache bg) cache\<rparr>))"

section \<open>Splitting a request\<close>

definition request_for :: "string \<Rightarrow> FetchRequest \<Rightarrow> FetchRequest" where
  "request_for name metric =
     \<lparr>fq_Name = name, fq_StartTime = fq_StartTime metric, fq_StopTime = fq_StopTime metric,
      fq_HighPrecisionTimestamps = False, fq_PathExpression = fq_PathExpression metric,
      fq_FilterFunctions = fq_FilterFunctions metric, fq_MaxDataPoints = 0\<rparr>"

text \<open>The requests that are full, and the one being filled.\<close>

type_synonym split_state = "FetchRequest list list \<times> FetchRequest list"

definition flush :: "int \<Rightarrow> split_state \<Rightarrow> split_state" where
  "flush mx st = (case st of (reqs, new) \<Rightarrow> if int (length new) \<ge> mx then (reqs @ [new], []) else (reqs, new))"

definition add_metric :: "FetchRequest \<Rightarrow> split_state \<Rightarrow> split_state" where
  "add_metric r st = (fst st, snd st @ [r])"

definition leaf_paths :: "GlobResponse list \<Rightarrow> string list" where
  "leaf_paths gs = concat (map (\<lambda>m. map gm_Path (filter gm_IsLeaf (gr_Matches m))) gs)"

definition find_failed :: "GlobResponse list answer \<Rightarrow> merry_error option" where
  "find_failed a =
     (case a of (f, _, e) \<Rightarrow>
        if e \<noteq> None \<or> f = None \<or> f = Some []
        then Some (case e of
                     Some e' \<Rightarrow> e'
                   | None \<Rightarrow> WithCause (base_error (OtherErr ''no result fetched''))
                               (base_error (if f = None then ErrUnmarshalFailed else ErrNoMetricsFetched)))
        else None)"

definition split_metric :: "'i backend \<Rightarrow> FetchRequest \<Rightarrow> split_state \<times> merry_error option \<Rightarrow> split_state \<times> merry_error option" where
  "split_metric b metric ste =
     (case ste of (st0, err) \<Rightarrow>
        let mx = b_MaxMetricsPerRequest b; st = flush mx st0
        in if HasPrefix (fq_Name metric) ''seriesByTag''
           then (add_metric (request_for (fq_PathExpression metric) metric) st, err)
           else if \<not> ContainsAny (fq_Name metric) ''*{''
           then (add_metric (request_for (fq_Name metric) metric) st, err)
           else (let a = b_Find b [fq_Name metric];
                     err' = (case find_failed a of None \<Rightarrow> err | Some e \<Rightarrow> Some e)
                 in case fst a of
                      None \<Rightarrow> (st, err')
                    | Some gs \<Rightarrow>
                        (foldl (\<lambda>s p. flush mx (add_metric (request_for p metric) s)) st (leaf_paths gs), err')))"

definition splitRequest :: "FetchRequest list \<Rightarrow> 'i backend \<Rightarrow> FetchRequest list list \<times> merry_error option" where
  "splitRequest request b =
     (if b_MaxMetricsPerRequest b = 0 then ([request], None)
      else (case foldl (\<lambda>s metric. split_metric b metric s) (([], []), None) request of
              ((reqs, new), err) \<Rightarrow> (if new \<noteq> [] then reqs @ [new] else reqs, err)))"

section \<open>Asking one backend\<close>

definition empty_fetch :: "string \<Rightarrow> FetchResponse list server_response" where
  "empty_fetch server = (new_response [] (Some zero_stats))\<lparr>sr_Server := server\<rparr>"

definition slot_error :: "merry_error \<Rightarrow> merry_error" where
  "slot_error e = Prepend e ''timeout waiting for slot''"

definition fetch_one :: "'i backend \<Rightarrow> string \<Rightarrow> FetchRequest list \<Rightarrow> FetchResponse list server_response" where
  "fetch_one b server req =
     (case b_Fetch b req of (r, st, err) \<Rightarrow>
        AddError err \<lparr>sr_Server = server, sr_Response = r, sr_Stats = st, sr_Err = []\<rparr>)"

text \<open>What a fetcher sends to the channel.\<close>

definition doSingleFetch :: "FetchRequest list \<Rightarrow> 'i backend \<Rightarrow> FetchResponse list server_response go_result" where
  "doSingleFetch request b =
     (case splitRequest request b of (requests, splitErr) \<Rightarrow>
        if requests = [] \<and> splitErr \<noteq> None then Some (AddError splitErr (empty_fetch (b_Name b)))
        else (case b_Enter b of
                Some e \<Rightarrow> Some (AddError (Some (slot_error e)) (empty_fetch (b_Name b)))
              | None \<Rightarrow>
                  foldl (\<lambda>acc req. Option.bind acc (\<lambda>response. ServerFetchResponse_Merge response (fetch_one b [] req)))
                    (Some (empty_fetch (b_Name b))) requests))"

text \<open>\<open>doMultiFetch\<close> sends one response per request, in any order.\<close>

definition doMultiFetch :: "FetchRequest list \<Rightarrow> 'i backend \<Rightarrow> FetchResponse list server_response list" where
  "doMultiFetch request b =
     (case splitRequest request b of (requests, err) \<Rightarrow>
        if requests = [] \<and> err \<noteq> None then [AddError err (empty_fetch (b_Name b))]
        else map (\<lambda>req.
               case b_Enter b of
                 Some e \<Rightarrow> AddError (Some (slot_error e)) (empty_fetch (b_Name b))
               | None \<Rightarrow> fetch_one b (b_Name b) req) requests)"

definition doFind :: "string list \<Rightarrow> 'i backend \<Rightarrow> GlobResponse list server_response" where
  "doFind request b =
     (case b_Enter b of
        Some e \<Rightarrow> AddError (Some (slot_error e)) ((new_response [] (Some zero_stats))\<lparr>sr_Server := b_Name b\<rparr>)
      | None \<Rightarrow> (case b_Find b request of (r, st, err) \<Rightarrow>
                   AddError err \<lparr>sr_Server = b_Name b, sr_Response = r, sr_Stats = st, sr_Err = []\<rparr>))"

definition doInfoRequest :: "string list \<Rightarrow> 'i backend \<Rightarrow> (string \<times> 'i) list server_response" where
  "doInfoRequest request b =
     (case b_Enter b of
        Some e \<Rightarrow> AddError (Some (slot_error e)) \<lparr>sr_Server = b_Name b, sr_Response = None, sr_Stats = None, sr_Err = []\<rparr>
      | None \<Rightarrow> (case b_Info b request of (r, st, err) \<Rightarrow>
                   AddError err \<lparr>sr_Server = b_Name b, sr_Response = r, sr_Stats = st, sr_Err = []\<rparr>))"

definition doTagRequest :: "bool \<Rightarrow> string \<Rightarrow> int \<Rightarrow> 'i backend \<Rightarrow> string list server_response" where
  "doTagRequest isName query limit b =
     (let r0 = \<lparr>sr_Server = b_Name b, sr_Response = Some [], sr_Stats = None, sr_Err = []\<rparr>
      in case b_Enter b of
           Some e \<Rightarrow> AddError (Some (slot_error e)) r0
         | None \<Rightarrow> (case b_Tags b isName query limit of (r, err) \<Rightarrow>
                      AddError err (r0\<lparr>sr_Response := Some (case r of None \<Rightarrow> [] | Some xs \<Rightarrow> xs)\<rparr>)))"

section \<open>The answers of the group\<close>

definition failed_to_fetch :: "int \<Rightarrow> string list \<Rightarrow> merry_error" where
  "failed_to_fetch code errors =
     WithMessage (WithHTTPCode (base_error ErrFailedToFetch) code) (Join errors [CHR 0x0A])"

definition fix_stop :: "FetchResponse \<Rightarrow> FetchResponse" where
  "fix_stop m = m\<lparr>fr_StopTime := fr_StartTime m + int (length (fr_Values m)) * fr_StepTime m\<rparr>"

text \<open>The payload of a gathered result; without one the code dereferences nil.\<close>

definition Fetch_answer :: "bool \<Rightarrow> FetchResponse list server_response \<Rightarrow> FetchResponse list answer go_result" where
  "Fetch_answer requireAll result =
     (case sr_Response result of
        None \<Rightarrow> Panic
      | Some metrics \<Rightarrow> Some (
          if metrics = [] \<or> requireAll \<and> sr_Err result \<noteq> []
          then (case MergeHttpErrors (sr_Err result) of (code, errors) \<Rightarrow>
                  (None, sr_Stats result,
                   Some (if errors \<noteq> [] then failed_to_fetch code errors
                         else WithHTTPCode (base_error ErrNotFound) 404)))
          else (Some (map fix_stop metrics), sr_Stats result, non_fatal (sr_Err result))))"

datatype ('r) outcome = Done 'r | Blocked | Crash

definition on_gathered :: "'i gathered \<Rightarrow> ('i any_response \<Rightarrow> 'r go_result) \<Rightarrow> 'r outcome" where
  "on_gathered g f =
     (case g of
        Gathered result cnt timedout \<Rightarrow> (case f result of None \<Rightarrow> Crash | Some r \<Rightarrow> Done r)
      | GatherPanic \<Rightarrow> Crash
      | StillWaiting \<Rightarrow> Blocked)"

text \<open>The events are the answers of the fetchers and the end of the context, as they arrive.\<close>

definition Fetch :: "'i BroadcastGroup \<Rightarrow> FetchRequest list \<Rightarrow> 'i event list \<Rightarrow> FetchResponse list answer outcome" where
  "Fetch bg request evs =
     on_gathered (DoRequest (filterServersByTLD bg (map fq_Name request) (Backends bg))
                    (FetchResp (new_response [] (Some zero_stats))) evs)
       (\<lambda>r. case r of FetchResp result \<Rightarrow> Fetch_answer (bg_requireSuccessAll bg) result | _ \<Rightarrow> Panic)"

definition match_count :: "GlobResponse list \<Rightarrow> nat" where
  "match_count gs = sum_list (map (\<lambda>m. length (gr_Matches m)) gs)"

definition Find_answer :: "bool \<Rightarrow> GlobResponse list server_response \<Rightarrow> GlobResponse list answer go_result" where
  "Find_answer requireAll result =
     (case sr_Response result of
        None \<Rightarrow> Panic
      | Some metrics \<Rightarrow>
          (case MergeHttpErrors (sr_Err result) of (code, errors) \<Rightarrow>
             if (metrics = [] \<or> requireAll \<and> sr_Err result \<noteq> []) \<and> errors \<noteq> []
             then Some (None, sr_Stats result, Some (failed_to_fetch code errors))
             else if metrics = []
             then Some (Some [], sr_Stats result, Some (WithHTTPCode (base_error ErrNotFound) 404))
             else (case sr_Stats result of
                     None \<Rightarrow> Panic
                   | Some st \<Rightarrow>
                       Some (Some metrics, Some (st\<lparr>TotalMetricsCount := of_nat (match_count metrics)\<rparr>),
                             non_fatal (sr_Err result)))))"

definition group_stats :: "'i BroadcastGroup \<Rightarrow> Stats" where
  "group_stats bg = zero_stats\<lparr>ZipperRequests := of_nat (length (bg_backends bg))\<rparr>"

definition Find :: "'i BroadcastGroup \<Rightarrow> 'i event list \<Rightarrow> GlobResponse list answer outcome" where
  "Find bg evs =
     on_gathered (DoRequest (Backends bg) (FindResponse (new_response [] (Some (group_stats bg)))) evs)
       (\<lambda>r. case r of FindResponse result \<Rightarrow> Find_answer (bg_requireSuccessAll bg) result | _ \<Rightarrow> Panic)"

definition Info_answer :: "bool \<Rightarrow> (string \<times> 'i) list server_response \<Rightarrow> (string \<times> 'i) list answer" where
  "Info_answer requireAll result =
     (sr_Response result, sr_Stats result,
      if sr_Err result = [] then None
      else Some (foldl WithCause (base_error (if requireAll then ErrFailedToFetch else ErrNonFatalErrors)) (sr_Err result)))"

definition Info :: "'i BroadcastGroup \<Rightarrow> 'i event list \<Rightarrow> (string \<times> 'i) list answer outcome" where
  "Info bg evs =
     on_gathered (DoRequest (Backends bg) (InfoResponse (new_response [] (Some (group_stats bg)))) evs)
       (\<lambda>r. case r of InfoResponse result \<Rightarrow> Some (Info_answer (bg_requireSuccessAll bg) result) | _ \<Rightarrow> Panic)"

definition Tag_answer :: "int \<Rightarrow> string list server_response \<Rightarrow> (string list \<times> merry_error option) go_result" where
  "Tag_answer limit result =
     (let xs = (case sr_Response result of None \<Rightarrow> [] | Some xs \<Rightarrow> xs);
          err = (case MergeHttpErrors (sr_Err result) of (code, errors) \<Rightarrow>
                   if errors \<noteq> []
                   then Some (WithMessage (WithHTTPCode (base_error ErrNonFatalErrors) code) (Join errors [CHR 0x0A]))
                   else None)
      in if limit \<noteq> - 1 \<and> int (length xs) > limit
         then map_option (\<lambda>ys. (ys, err)) (go_take (limit - 1) (sort_strings xs))
         else Some (xs, err))"

definition tagEverything :: "'i BroadcastGroup \<Rightarrow> int \<Rightarrow> 'i event list \<Rightarrow> (string list \<times> merry_error option) outcome" where
  "tagEverything bg limit evs =
     on_gathered (DoRequest (Backends bg) (TagResponse (new_response [] None)) evs)
       (\<lambda>r. case r of TagResponse result \<Rightarrow> Tag_answer limit result | _ \<Rightarrow> Panic)"

section \<open>The split requests\<close>

text \<open>What a metric of a request is expanded to on a backend.\<close>

definition expansion :: "'i backend \<Rightarrow> FetchRequest \<Rightarrow> FetchRequest list" where
  "expansion b metric =
     (if HasPrefix (fq_Name metric) ''seriesByTag'' then [request_for (fq_PathExpression metric) metric]
      else if \<not> ContainsAny (fq_Name metric) ''*{'' then [request_for (fq_Name metric) metric]
      else (case fst (b_Find b [fq_Name metric]) of
              None \<Rightarrow> []
            | Some gs \<Rightarrow> map (\<lambda>p. request_for p metric) (leaf_paths gs)))"

definition split_inv :: "int \<Rightarrow> FetchRequest list \<Rightarrow> split_state \<Rightarrow> bool" where
  "split_inv mx rs st \<longleftrightarrow>
     concat (fst st) @ snd st = rs \<and> (\<forall>r\<in>set (fst st). r \<noteq> [] \<and> int (length r) \<le> mx) \<and> int (length (snd st)) \<le> mx"

lemma split_inv_flush:
  "0 < mx \<Longrightarrow> split_inv mx rs st \<Longrightarrow> split_inv mx rs (flush mx st) \<and> int (length (snd (flush mx st))) < mx"
  by (cases st) (auto simp: split_inv_def flush_def)

lemma split_inv_add:
  "split_inv mx rs st \<Longrightarrow> int (length (snd st)) < mx \<Longrightarrow> split_inv mx (rs @ [r]) (add_metric r st)"
  by (auto simp: split_inv_def add_metric_def)

lemma split_inv_paths:
  "0 < mx \<Longrightarrow> split_inv mx rs st \<Longrightarrow> int (length (snd st)) < mx \<Longrightarrow>
   split_inv mx (rs @ map f ps) (foldl (\<lambda>s p. flush mx (add_metric (f p) s)) st ps)"
proof (induction ps arbitrary: rs st)
  case (Cons p ps)
  from split_inv_flush[OF Cons.prems(1) split_inv_add[OF Cons.prems(2,3), of "f p"]]
  show ?case using Cons.IH[of "rs @ [f p]" "flush mx (add_metric (f p) st)"] Cons.prems(1) by simp
qed simp

lemma split_inv_metric:
  assumes "0 < b_MaxMetricsPerRequest b" "split_inv (b_MaxMetricsPerRequest b) rs st"
  shows "split_inv (b_MaxMetricsPerRequest b) (rs @ expansion b metric) (fst (split_metric b metric (st, err)))"
proof -
  note f = split_inv_flush[OF assms]
  show ?thesis
    using f split_inv_add[of "b_MaxMetricsPerRequest b" rs "flush (b_MaxMetricsPerRequest b) st"]
      split_inv_paths[OF assms(1), of rs "flush (b_MaxMetricsPerRequest b) st" "\<lambda>p. request_for p metric"]
    by (auto simp: split_metric_def expansion_def Let_def split: option.split)
qed

lemma split_inv_all:
  "0 < b_MaxMetricsPerRequest b \<Longrightarrow> split_inv (b_MaxMetricsPerRequest b) rs (fst ste) \<Longrightarrow>
   split_inv (b_MaxMetricsPerRequest b) (rs @ concat (map (expansion b) ms))
     (fst (foldl (\<lambda>s metric. split_metric b metric s) ste ms))"
proof (induction ms arbitrary: rs ste)
  case (Cons m ms)
  obtain st err where "ste = (st, err)" by (cases ste)
  then show ?case
    using Cons.IH[of "rs @ expansion b m" "split_metric b m ste"] split_inv_metric[of b rs st m err] Cons.prems by simp
qed simp

text \<open>
  Splitting a request loses nothing and keeps the limit: with a positive limit the split
  requests, joined in order, are the expansions of the metrics in order (a glob stands for the
  leaves the backend finds for it), and none of them is empty or longer than the limit.
\<close>

lemma splitRequest_parts:
  assumes "0 < b_MaxMetricsPerRequest b"
  shows "concat (fst (splitRequest request b)) = concat (map (expansion b) request)
    \<and> (\<forall>r\<in>set (fst (splitRequest request b)). r \<noteq> [] \<and> int (length r) \<le> b_MaxMetricsPerRequest b)"
proof -
  have "split_inv (b_MaxMetricsPerRequest b) ([] @ concat (map (expansion b) request))
      (fst (foldl (\<lambda>s metric. split_metric b metric s) (([], []), None) request))"
    using assms by (intro split_inv_all) (simp_all add: split_inv_def)
  then show ?thesis
    using assms by (auto simp: splitRequest_def split_inv_def split: prod.split)
qed

section \<open>Routing\<close>

text \<open>The servers that reported a component in a complete probe.\<close>

definition owners :: "(string \<times> string list) list \<Rightarrow> string \<Rightarrow> string set" where
  "owners ps t = {s. \<exists>tlds. (s, tlds) \<in> set ps \<and> t \<in> set tlds}"

definition cached_set :: "(string \<times> string list) list \<Rightarrow> string \<Rightarrow> string set" where
  "cached_set cache t = (case map_of cache t of None \<Rightarrow> {} | Some v \<Rightarrow> set v)"

lemma cached_set_add:
  "cached_set (foldl (\<lambda>c tld. AList.update tld ((case map_of c tld of None \<Rightarrow> [] | Some v \<Rightarrow> v) @ [s]) c) cache tlds) t =
     cached_set cache t \<union> (if t \<in> set tlds then {s} else {})"
proof (induction tlds arbitrary: cache)
  case (Cons x tlds)
  have "cached_set (AList.update x ((case map_of cache x of None \<Rightarrow> [] | Some v \<Rightarrow> v) @ [s]) cache) t =
      cached_set cache t \<union> (if t = x then {s} else {})"
    by (auto simp: cached_set_def update_conv split: option.split)
  then show ?case using Cons by auto
qed simp

lemma probe_loop_all:
  "probe_loop n (n - length ps) errs cache (map (\<lambda>(s, tlds). Probed s tlds None) ps) = Some (errs', cache') \<Longrightarrow>
   length ps \<le> n \<Longrightarrow> errs' = errs \<and> cached_set cache' t = cached_set cache t \<union> owners ps t"
proof (induction ps arbitrary: cache)
  case Nil
  then show ?case by (subst (asm) probe_loop.simps) (simp add: owners_def)
next
  case (Cons p ps)
  obtain s tlds where p: "p = (s, tlds)" by (cases p)
  let ?c = "foldl (\<lambda>c tld. AList.update tld ((case map_of c tld of None \<Rightarrow> [] | Some v \<Rightarrow> v) @ [s]) c) cache tlds"
  have n: "n - length ((s, tlds) # ps) \<noteq> n" "n - length ((s, tlds) # ps) + 1 = n - length ps"
    using Cons.prems(2) by auto
  have "probe_loop n (n - length ps) errs ?c (map (\<lambda>(s, tlds). Probed s tlds None) ps) = Some (errs', cache')"
    using Cons.prems(1) by (subst (asm) probe_loop.simps) (simp only: p n if_False list.map list.case prod.case probe.case option.case)
  from Cons.IH[OF this] Cons.prems(2) show ?case
    by (auto simp: cached_set_add owners_def p)
qed

lemma cached_set_updates:
  "distinct (map fst kvs) \<Longrightarrow> cached_set (foldl (\<lambda>m (k, v). AList.update k v m) m kvs) t =
     (case map_of kvs t of None \<Rightarrow> cached_set m t | Some v \<Rightarrow> set v)"
proof (induction kvs arbitrary: m)
  case (Cons kv kvs)
  obtain k v where kv: "kv = (k, v)" by (cases kv)
  have "map_of kvs k = None" using Cons.prems by (simp add: kv map_of_eq_None_iff)
  then show ?case using Cons by (auto simp: kv cached_set_def update_conv split: option.split)
qed simp

lemma probe_loop_distinct:
  "probe_loop n k errs cache evs = Some (errs', cache') \<Longrightarrow> distinct (map fst cache) \<Longrightarrow> distinct (map fst cache')"
proof (induction n k errs cache evs rule: probe_loop.induct)
  case (1 n k errs cache evs)
  have d: "distinct (map fst c) \<Longrightarrow> distinct (map fst (foldl (\<lambda>c tld. AList.update tld (f c tld) c) c tlds))"
    for c and f :: "(string \<times> string list) list \<Rightarrow> string \<Rightarrow> string list" and tlds
    by (induction tlds arbitrary: c) (auto simp: distinct_update)
  note pl = "1.prems"(1)[unfolded probe_loop.simps[of n k errs cache evs]]
  show ?case
    using pl "1.prems"(2) d "1.IH" by (auto split: if_splits list.splits probe.splits option.splits)
qed

lemma tld_backends_set:
  "backends \<noteq> [] \<Longrightarrow> tld_backends cache backends acc rs = Some b \<Longrightarrow>
   set b = set acc \<union> (\<Union>r\<in>set rs. cached_set cache (tld_of r))"
  by (induction rs arbitrary: acc) (auto simp: cached_set_def split: if_splits option.splits)

lemma tld_backends_Some:
  "\<forall>r\<in>set rs. \<not> HasPrefix r ''seriesByTag'' \<Longrightarrow> \<exists>b. tld_backends cache backends acc rs = Some b"
  by (induction rs arbitrary: acc) auto

text \<open>
  Requests are routed to the servers that have the metric: after a probe that all servers
  answered, a request without tag queries goes to exactly the servers that reported the first
  component of one of its names, in the order of the group, or to all when none did.
\<close>

lemma ProbeTLDs_routes:
  assumes "bg_pathCache bg = []" "\<not> bg_tldCacheDisabled bg" "length ps = length (bg_backends bg)"
    and "ProbeTLDs bg (map (\<lambda>(s, tlds). Probed s tlds None) ps) = Some (tlds, err, bg')"
    and "\<forall>r\<in>set requests. \<not> HasPrefix r ''seriesByTag''"
  shows "err = None \<and> filterServersByTLD bg' requests (Backends bg) =
    (let hit = filter (\<lambda>s. \<exists>r\<in>set requests. s \<in> owners ps (tld_of r)) (Backends bg)
     in if hit = [] then Backends bg else hit)"
proof -
  obtain errs cache where pl: "probe_loop (length (bg_backends bg)) 0 [] [] (map (\<lambda>(s, tlds). Probed s tlds None) ps) = Some (errs, cache)"
    and b: "err = non_fatal errs" "bg' = bg\<lparr>bg_pathCache := foldl (\<lambda>m (k, v). AList.update k v m) [] cache\<rparr>"
    using assms(1,4) by (auto simp: ProbeTLDs_def split: option.splits)
  have e: "errs = [] \<and> cached_set cache t = owners ps t" for t
    using probe_loop_all[of "length ps" ps "[]" "[]" errs cache t] pl assms(3) by (simp add: cached_set_def)
  have "distinct (map fst cache)" using probe_loop_distinct[OF pl] by simp
  then have c: "cached_set (bg_pathCache bg') t = owners ps t" for t
  proof -
    have "cached_set (bg_pathCache bg') t = (case map_of cache t of None \<Rightarrow> cached_set [] t | Some v \<Rightarrow> set v)"
      using cached_set_updates[OF \<open>distinct (map fst cache)\<close>, of "[]" t] by (simp add: b)
    also have "\<dots> = cached_set cache t" by (cases "map_of cache t") (simp_all add: cached_set_def)
    finally show ?thesis using e by simp
  qed
  obtain acc where acc: "tld_backends (bg_pathCache bg') (Backends bg) [] requests = Some acc"
    using tld_backends_Some[OF assms(5)] by blast
  have "filter (\<lambda>k. k \<in> set acc) (Backends bg) = filter (\<lambda>s. \<exists>r\<in>set requests. s \<in> owners ps (tld_of r)) (Backends bg)"
  proof (cases "Backends bg = []")
    case False
    show ?thesis using tld_backends_set[OF False acc] c by (intro filter_cong) auto
  qed simp
  then show ?thesis
    using e[of "[]"] acc assms(2) by (simp add: filterServersByTLD_def b(1) non_fatal_def) (simp add: b(2))
qed

section \<open>A fetch from all backends\<close>

definition series_of :: "FetchResponse list option \<Rightarrow> (string \<times> int \<times> int) set" where
  "series_of r = (case r of None \<Rightarrow> {} | Some ms \<Rightarrow> coordinates ` set ms)"

lemma fetch_loop_coordinates:
  assumes "\<And>k j. idx k = Some j \<Longrightarrow> j < length ms \<and> coordinates (ms ! j) = k"
  shows "coordinates ` set (fetch_loop idx ms rs) = coordinates ` set ms \<union> coordinates ` set rs"
  using assms
proof (induction rs arbitrary: ms)
  case (Cons r rs)
  show ?case
  proof (cases "idx (coordinates r)")
    case None
    have "coordinates ` set (fetch_loop idx (ms @ [r]) rs) = coordinates ` set (ms @ [r]) \<union> coordinates ` set rs"
    proof (rule Cons.IH)
      show "j < length (ms @ [r]) \<and> coordinates ((ms @ [r]) ! j) = k" if "idx k = Some j" for k j
        using Cons.prems[OF that] by (simp add: nth_append)
    qed
    then show ?thesis using None by simp
  next
    case (Some j)
    let ?m = "fst (snd (MergeFetchResponses (ms ! j) r))"
    have j: "j < length ms" "coordinates (ms ! j) = coordinates r" using Cons.prems[OF Some] by auto
    have m: "coordinates ?m = coordinates (ms ! j)" using coordinates_merge[OF j(2)] .
    have same: "map coordinates (ms[j := ?m]) = map coordinates ms"
      using m j(1) by (metis list_update_id map_update nth_map)
    have "coordinates ` set (fetch_loop idx (ms[j := ?m]) rs) = coordinates ` set (ms[j := ?m]) \<union> coordinates ` set rs"
    proof (rule Cons.IH)
      show "i < length (ms[j := ?m]) \<and> coordinates (ms[j := ?m] ! i) = k" if "idx k = Some i" for k i
        using Cons.prems[OF that] m by (cases "i = j") simp_all
    qed
    also have "coordinates ` set (ms[j := ?m]) = coordinates ` set ms" using same by (metis set_map)
    finally have "coordinates ` set (fetch_loop idx (ms[j := ?m]) rs) = coordinates ` set ms \<union> coordinates ` set rs" .
    moreover have "coordinates r \<in> coordinates ` set ms" using j by (metis image_eqI nth_mem)
    ultimately show ?thesis using Some by auto
  qed
qed simp

lemma fetch_payload_coordinates:
  "coordinates ` set (fetch_payload xs ys) = coordinates ` set xs \<union> coordinates ` set ys"
  unfolding fetch_payload_def using index_map_Some[of coordinates xs] by (rule fetch_loop_coordinates)

lemma fetch_merge_series:
  assumes "sr_Response a \<noteq> None" "sr_Stats a \<noteq> None"
  shows "\<exists>r. ServerFetchResponse_Merge a b = Some r \<and> sr_Response r \<noteq> None \<and> sr_Stats r \<noteq> None
    \<and> series_of (sr_Response r) = series_of (sr_Response a) \<union> series_of (sr_Response b)
    \<and> sr_Err r = sr_Err a @ sr_Err b"
proof -
  obtain x where x: "sr_Response a = Some x" using assms(1) by auto
  from merge_response_ok[OF x, of b fetch_payload] assms(2) obtain r where
    "ServerFetchResponse_Merge a b = Some r" "sr_Err r = sr_Err a @ sr_Err b" "sr_Stats r \<noteq> None"
    "sr_Response r = Some (case sr_Response b of None \<Rightarrow> x | Some y \<Rightarrow> fetch_payload x y)"
    unfolding ServerFetchResponse_Merge_def by blast
  then show ?thesis
    by (intro exI[of _ r]) (simp add: series_of_def x fetch_payload_coordinates split: option.split)
qed

text \<open>The series a backend returns for the requests it is sent.\<close>

definition backend_series :: "FetchRequest list \<Rightarrow> 'i backend \<Rightarrow> (string \<times> int \<times> int) set" where
  "backend_series request b = (\<Union>req\<in>set (fst (splitRequest request b)). series_of (fst (b_Fetch b req)))"

lemma AddError_fields [simp]:
  "sr_Response (AddError e r) = sr_Response r" "sr_Stats (AddError e r) = sr_Stats r"
  "sr_Server (AddError e r) = sr_Server r"
  by (simp_all add: AddError_def split: option.split)

lemma doSingleFetch_series:
  assumes "b_Enter b = None"
  shows "\<exists>r. doSingleFetch request b = Some r \<and> sr_Response r \<noteq> None \<and> sr_Stats r \<noteq> None
    \<and> series_of (sr_Response r) = backend_series request b"
proof -
  obtain reqs e where sp: "splitRequest request b = (reqs, e)" by (cases "splitRequest request b")
  have fo: "sr_Response (fetch_one b [] req) = fst (b_Fetch b req)" for req
    by (simp add: fetch_one_def split: prod.split)
  have loop: "\<exists>r. foldl (\<lambda>acc req. Option.bind acc (\<lambda>response. ServerFetchResponse_Merge response (fetch_one b [] req))) (Some r0) qs = Some r
      \<and> sr_Response r \<noteq> None \<and> sr_Stats r \<noteq> None
      \<and> series_of (sr_Response r) = series_of (sr_Response r0) \<union> (\<Union>req\<in>set qs. series_of (fst (b_Fetch b req)))"
    if "sr_Response r0 \<noteq> None" "sr_Stats r0 \<noteq> None" for r0 qs
    using that
  proof (induction qs arbitrary: r0)
    case (Cons q qs)
    obtain r1 where r1: "ServerFetchResponse_Merge r0 (fetch_one b [] q) = Some r1" "sr_Response r1 \<noteq> None" "sr_Stats r1 \<noteq> None"
      "series_of (sr_Response r1) = series_of (sr_Response r0) \<union> series_of (fst (b_Fetch b q))"
      using fetch_merge_series[OF Cons.prems, of "fetch_one b [] q"] fo by auto
    show ?case using Cons.IH[OF r1(2,3)] r1(1,4) by (auto simp: Un_assoc)
  qed auto
  have e0: "sr_Response (empty_fetch (b_Name b)) = Some []" "sr_Stats (empty_fetch (b_Name b)) = Some zero_stats"
    by (simp_all add: empty_fetch_def new_response_def)
  show ?thesis
  proof (cases "reqs = [] \<and> e \<noteq> None")
    case True
    then show ?thesis using e0 by (auto simp: doSingleFetch_def backend_series_def sp series_of_def)
  next
    case False
    then show ?thesis
      using loop[of "empty_fetch (b_Name b)" reqs] e0 assms
      by (auto simp: doSingleFetch_def backend_series_def sp series_of_def)
  qed
qed

lemma gather_fetches:
  assumes "sr_Response a \<noteq> None" "sr_Stats a \<noteq> None" "cnt + length rs = length clients"
  shows "\<exists>r. gather clients (FetchResp a) cnt answered (map (\<lambda>x. Answer (FetchResp x)) rs @ evs) = Gathered (FetchResp r) (length clients) []
    \<and> sr_Response r \<noteq> None \<and> sr_Stats r \<noteq> None
    \<and> series_of (sr_Response r) = series_of (sr_Response a) \<union> (\<Union>x\<in>set rs. series_of (sr_Response x))"
  using assms
proof (induction rs arbitrary: a cnt answered)
  case Nil
  then show ?case by (subst gather.simps) auto
next
  case (Cons x rs)
  obtain r1 where r1: "ServerFetchResponse_Merge a x = Some r1" "sr_Response r1 \<noteq> None" "sr_Stats r1 \<noteq> None"
    "series_of (sr_Response r1) = series_of (sr_Response a) \<union> series_of (sr_Response x)"
    using fetch_merge_series[OF Cons.prems(1,2), of x] by auto
  have "gather clients (FetchResp a) cnt answered (map (\<lambda>x. Answer (FetchResp x)) (x # rs) @ evs) =
      gather clients (FetchResp r1) (cnt + 1) (sr_Server x # answered) (map (\<lambda>x. Answer (FetchResp x)) rs @ evs)"
    using Cons.prems(3) r1(1) by (subst gather.simps) simp
  then show ?case
    using Cons.IH[OF r1(2,3), of "cnt + 1" "sr_Server x # answered"] Cons.prems(3) r1(4) by (auto simp: Un_assoc)
qed

lemma series_of_fix_stop: "series_of (Some (map fix_stop ms)) = series_of (Some ms)"
proof -
  have "coordinates (fix_stop m) = coordinates m" for m by (simp add: fix_stop_def coordinates_def)
  then show ?thesis by (simp add: series_of_def image_image)
qed


text \<open>A backend that answers with the series of its list, for the examples.\<close>

definition sample_backend :: "string \<Rightarrow> int \<Rightarrow> string list \<Rightarrow> unit backend" where
  "sample_backend name mx names =
     \<lparr>b_Name = name, b_MaxMetricsPerRequest = mx,
      b_Find = (\<lambda>q. (Some [\<lparr>gr_Name = hd q, gr_Matches = map (\<lambda>n. \<lparr>gm_Path = n, gm_IsLeaf = True\<rparr>) names\<rparr>], None, None)),
      b_Fetch = (\<lambda>req. (Some (map (\<lambda>n. fetched n [FNum 1] 0 10) (filter (\<lambda>n. n \<in> fq_Name ` set req) names)), None, None)),
      b_Info = (\<lambda>q. (None, None, None)), b_Tags = (\<lambda>a b c. (Some names, None)), b_Enter = None\<rparr>"

definition sample_request :: "string \<Rightarrow> FetchRequest" where
  "sample_request name =
     \<lparr>fq_Name = name, fq_StartTime = 0, fq_StopTime = 100, fq_HighPrecisionTimestamps = False, fq_PathExpression = name,
      fq_FilterFunctions = [], fq_MaxDataPoints = 0\<rparr>"

lemma splitRequest_parts_witness:
  "concat (fst (splitRequest [sample_request ''*'', sample_request ''c''] (sample_backend ''x'' 1 [''a'', ''b'']))) =
     [request_for ''a'' (sample_request ''*''), request_for ''b'' (sample_request ''*''), request_for ''c'' (sample_request ''c'')]"
  using splitRequest_parts[of "sample_backend ''x'' 1 [''a'', ''b'']" "[sample_request ''*'', sample_request ''c'']"]
  by (simp add: sample_backend_def sample_request_def expansion_def HasPrefix_def ContainsAny_def leaf_paths_def)

lemma ProbeTLDs_routes_witness:
  "\<exists>tlds err bg'. ProbeTLDs \<lparr>bg_backends = [sample_backend ''x'' 0 [], sample_backend ''y'' 0 []], bg_tldCacheDisabled = False,
       bg_requireSuccessAll = False, bg_multi = False, bg_pathCache = []\<rparr>
     [Probed ''y'' [''b''] None, Probed ''x'' [''a''] None] = Some (tlds, err, bg')
   \<and> filterServersByTLD bg' [''a.cpu''] [''x'', ''y''] = [''x'']"
proof -
  let ?bg = "\<lparr>bg_backends = [sample_backend ''x'' 0 [], sample_backend ''y'' 0 []], bg_tldCacheDisabled = False,
       bg_requireSuccessAll = False, bg_multi = False, bg_pathCache = []\<rparr>"
  let ?ps = "[(''y'', [''b'']), (''x'', [''a''])]"
  obtain tlds err bg' where p: "ProbeTLDs ?bg (map (\<lambda>(s, tlds). Probed s tlds None) ?ps) = Some (tlds, err, bg')"
    by (auto simp: ProbeTLDs_def probe_loop.simps)
  have "filterServersByTLD bg' [''a.cpu''] (Backends ?bg) =
      (let hit = filter (\<lambda>s. \<exists>r\<in>set [''a.cpu'']. s \<in> owners ?ps (tld_of r)) (Backends ?bg) in if hit = [] then Backends ?bg else hit)"
    using ProbeTLDs_routes[OF _ _ _ p, of "[''a.cpu'']"] by (simp add: HasPrefix_def)
  then have "filterServersByTLD bg' [''a.cpu''] [''x'', ''y''] = [''x'']"
    by (simp add: Backends_def sample_backend_def owners_def tld_of_def)
  with p show ?thesis by auto
qed


section \<open>The limit of a tag query\<close>

text \<open>
  A tag query that has more results than its limit returns one less than the limit, and with the
  limit 0 it panics.
\<close>

lemma Tag_answer_limit:
  assumes "sr_Response result = Some xs" "limit < int (length xs)" "0 \<le> limit"
  shows "case Tag_answer limit result of None \<Rightarrow> limit = 0 | Some (ys, err) \<Rightarrow> int (length ys) = limit - 1"
  using assms by (auto simp: Tag_answer_def go_take_def sort_strings_length)

text \<open>
  With split requests in parallel a backend sends several responses, but the group waits for one
  per backend: the rest is lost. Here the backend has both series and only one comes back.
\<close>

lemma doMultiFetch_loses:
  "let b = sample_backend ''x'' 1 [''a'', ''b'']; rs = doMultiFetch [sample_request ''a'', sample_request ''b''] b;
       bg = \<lparr>bg_backends = [b], bg_tldCacheDisabled = True, bg_requireSuccessAll = False, bg_multi = True, bg_pathCache = []\<rparr>
   in length rs = 2 \<and> (case Fetch bg [sample_request ''a'', sample_request ''b''] (map (\<lambda>r. Answer (FetchResp r)) rs) of
        Done (ms, st, err) \<Rightarrow> series_of ms = {(''a'', 0, 100)} \<and> err = None
      | _ \<Rightarrow> False)"
  by (simp add: Let_def doMultiFetch_def splitRequest_def split_metric_def flush_def add_metric_def request_for_def
      sample_backend_def sample_request_def fetch_one_def AddError_def Fetch_def filterServersByTLD_def Backends_def
      DoRequest_def gather.simps on_gathered_def ServerFetchResponse_Merge_def merge_response_def merge_stats_def new_response_def
      fetch_payload_def index_map_def coordinates_def fetched_def Fetch_answer_def series_of_def fix_stop_def non_fatal_def
      HasPrefix_def ContainsAny_def)

end
