(* ===== verification/Consolidations.thy ===== *)
theory Consolidations
  imports Go_Strings
begin

text \<open>
  The consolidation functions of \<open>expr/consolidations/consolidations.go\<close>. Values are \<open>f64\<close> with
  NaN for an absent point. The selection of \<open>Percentile\<close> is package \<open>quickselect\<close>, a parameter:
  \<open>qs xs k\<close> is the slice after \<open>Float64QuickSelect(xs, k)\<close>, and \<open>quickselect_ok\<close> its documented
  behaviour, that the \<open>k\<close> smallest elements come first.
\<close>

section \<open>Averages, extremes and the like\<close>

definition non_nan :: "f64 list \<Rightarrow> f64 list" where
  "non_nan vs = filter (\<lambda>v. \<not> isNaN v) vs"

text \<open>The loop that adds up the present values and counts them.\<close>

fun sum_count :: "f64 list \<Rightarrow> f64 \<times> nat \<Rightarrow> f64 \<times> nat" where
  "sum_count [] acc = acc"
| "sum_count (v # vs) (t, n) = (if isNaN v then sum_count vs (t, n) else sum_count vs (t + v, Suc n))"

definition AvgValue :: "f64 list \<Rightarrow> f64" where
  "AvgValue f64s = (case sum_count f64s (0, 0) of (t, elts) \<Rightarrow> t div f64_of_int (int elts))"

fun square_sum :: "f64 \<Rightarrow> f64 list \<Rightarrow> f64 \<times> nat \<Rightarrow> f64 \<times> nat" where
  "square_sum mean [] acc = acc"
| "square_sum mean (v # vs) (t, n) =
     (if isNaN v then square_sum mean vs (t, n)
      else square_sum mean vs (t + (mean - v) * (mean - v), Suc n))"

definition VarianceValue :: "f64 list \<Rightarrow> f64" where
  "VarianceValue f64s =
     (let mean = AvgValue f64s
      in if isNaN mean then mean
         else (case square_sum mean f64s (0, 0) of (t, elts) \<Rightarrow> t div f64_of_int (int elts)))"

definition AggMean :: "f64 list \<Rightarrow> f64" where
  "AggMean v = (case sum_count v (0, 0) of (s, n) \<Rightarrow> if n = 0 then FNaN else s div f64_of_int (int n))"

definition AggMeanZero :: "f64 list \<Rightarrow> f64" where
  "AggMeanZero v =
     (case sum_count v (0, 0) of (s, n2) \<Rightarrow>
        if n2 = 0 then FNaN else s div f64_of_int (int (length v)))"

text \<open>The loops of the extremes: the running extreme, and whether every value was absent.\<close>

fun max_loop :: "f64 list \<Rightarrow> f64 \<times> bool \<Rightarrow> f64 \<times> bool" where
  "max_loop [] acc = acc"
| "max_loop (v # vs) (m, absent) =
     (if isNaN v then max_loop vs (m, absent)
      else max_loop vs (if m < v then v else m, False))"

fun min_loop :: "f64 list \<Rightarrow> f64 \<times> bool \<Rightarrow> f64 \<times> bool" where
  "min_loop [] acc = acc"
| "min_loop (v # vs) (m, absent) =
     (if isNaN v then min_loop vs (m, absent)
      else min_loop vs (if v < m then v else m, False))"

definition AggMax :: "f64 list \<Rightarrow> f64" where
  "AggMax v = (case max_loop v (FInf True, True) of (m, absent) \<Rightarrow> if absent then FNaN else m)"

definition AggMin :: "f64 list \<Rightarrow> f64" where
  "AggMin v = (case min_loop v (FInf False, True) of (m, absent) \<Rightarrow> if absent then FNaN else m)"

definition MaxValue :: "f64 list \<Rightarrow> f64" where
  "MaxValue f64s = fst (max_loop f64s (FInf True, True))"

definition MinValue :: "f64 list \<Rightarrow> f64" where
  "MinValue f64s = fst (min_loop f64s (FInf False, True))"

definition AggSum :: "f64 list \<Rightarrow> f64" where
  "AggSum v = (case sum_count v (0, 0) of (s, n) \<Rightarrow> if n = 0 then FNaN else s)"

definition AggFirst :: "f64 list \<Rightarrow> f64" where
  "AggFirst v = (case v of x # xs \<Rightarrow> x | [] \<Rightarrow> FNaN)"

text \<open>The last present value, scanning from the end.\<close>

definition AggLast :: "f64 list \<Rightarrow> f64" where
  "AggLast v = (case find (\<lambda>x. \<not> isNaN x) (rev v) of Some x \<Rightarrow> x | None \<Rightarrow> FNaN)"

definition CurrentValue :: "f64 list \<Rightarrow> f64" where
  "CurrentValue f64s = (case find (\<lambda>x. \<not> isNaN x) (rev f64s) of Some x \<Rightarrow> x | None \<Rightarrow> FNaN)"

definition notNans :: "f64 list \<Rightarrow> nat" where
  "notNans vs = length (non_nan vs)"

definition AggCount :: "f64 list \<Rightarrow> f64" where
  "AggCount v = (if notNans v = 0 then FNaN else f64_of_int (int (notNans v)))"

definition AggDiff :: "f64 list \<Rightarrow> f64" where
  "AggDiff v = (case non_nan v of [] \<Rightarrow> FNaN | x # xs \<Rightarrow> foldl (-) x xs)"

text \<open>\<open>Poly\<close> indexes the first coefficient: it panics without one.\<close>

fun poly_loop :: "f64 \<Rightarrow> f64 list \<Rightarrow> f64 \<Rightarrow> f64 \<Rightarrow> f64" where
  "poly_loop x [] v y = y"
| "poly_loop x (c # cs) v y = poly_loop x cs (v * x) (y + c * (v * x))"

definition Poly :: "f64 \<Rightarrow> f64 list \<Rightarrow> f64 go_result" where
  "Poly x coeffs = (case coeffs of [] \<Rightarrow> Panic | c # cs \<Rightarrow> Some (poly_loop x cs (FNum 1) c))"

section \<open>Percentiles\<close>

type_synonym quickselect = "f64 list \<Rightarrow> nat \<Rightarrow> f64 list"

fun top_two :: "f64 list \<Rightarrow> f64 \<times> f64 \<Rightarrow> f64 \<times> f64" where
  "top_two [] acc = acc"
| "top_two (v # vs) (t1, t2) =
     (if t1 < v then top_two vs (v, t1)
      else if t2 < v then top_two vs (t1, v)
      else top_two vs (t1, t2))"

text \<open>The index the percentile lies at, and how many of the smallest values are looked at.\<close>

definition percentile_index :: "nat \<Rightarrow> f64 \<Rightarrow> f64" where
  "percentile_index n percent = (f64_of_int (int n - 1) * percent) div FNum 100"

definition percentile_length :: "nat \<Rightarrow> f64 \<Rightarrow> nat" where
  "percentile_length n percent = nat (int_of_f64 (fceil (percentile_index n percent)) + 1)"

definition Percentile :: "quickselect \<Rightarrow> f64 list \<Rightarrow> f64 \<Rightarrow> bool \<Rightarrow> f64" where
  "Percentile qs data percent interpolate =
     (let dataFiltered = non_nan data; n = length dataFiltered
      in if n = 0 \<or> percent < FNum 0 \<or> FNum 100 < percent then FNaN
         else if n = 1 then hd dataFiltered
         else (let k = percentile_index n percent;
                   len = percentile_length n percent
               in case top_two (take len (qs dataFiltered len)) (FInf True, FInf True) of
                    (t1, t2) \<Rightarrow>
                      (let remainder = k - f64_of_int (int_of_f64 k)
                       in if feq remainder (FNum 0) \<or> \<not> interpolate then t1
                          else t1 * remainder + t2 * (FNum 1 - remainder))))"

section \<open>Summaries\<close>

text \<open>The loop of \<open>range\<close>: comparisons with NaN are false, so only the count looks at it.\<close>

fun range_loop :: "f64 list \<Rightarrow> f64 \<times> f64 \<Rightarrow> f64 \<times> f64" where
  "range_loop [] acc = acc"
| "range_loop (v # vs) (vMax, vMin) =
     range_loop vs (if vMax < v then v else vMax, if v < vMin then v else vMin)"

text \<open>\<open>multiply\<close> stops at the first absent value, with the count of the values before it.\<close>

fun multiply_loop :: "f64 list \<Rightarrow> f64 \<times> nat \<Rightarrow> f64 \<times> nat" where
  "multiply_loop [] acc = acc"
| "multiply_loop (v # vs) (rv, n) = (if isNaN v then (FNaN, n) else multiply_loop vs (rv * v, Suc n))"

fun diff_loop :: "f64 list \<Rightarrow> f64 \<times> nat \<Rightarrow> f64 \<times> nat" where
  "diff_loop [] acc = acc"
| "diff_loop (v # vs) (rv, n) = (if isNaN v then diff_loop vs (rv, n) else diff_loop vs (rv - v, Suc n))"

text \<open>The value and the count of each summary; an unknown name leaves both at zero.\<close>

definition summary :: "quickselect \<Rightarrow> string \<Rightarrow> f64 list \<Rightarrow> f64 \<times> nat" where
  "summary qs f values =
     (if f = ''sum'' \<or> f = ''total'' then sum_count values (0, 0)
      else if f = ''avg'' \<or> f = ''average'' \<or> f = ''avg_zero''
      then (case sum_count values (0, 0) of (rv, n) \<Rightarrow> (if 0 < n then rv div f64_of_int (int n) else rv, n))
      else if f = ''max'' then (fst (max_loop values (FInf True, True)), notNans values)
      else if f = ''min'' then (fst (min_loop values (FInf False, True)), notNans values)
      else if f = ''last'' \<or> f = ''current'' then (CurrentValue values, notNans values)
      else if f = ''range'' \<or> f = ''rangeOf''
      then (if notNans values = 0 then FNaN
            else (case range_loop values (FInf True, FInf False) of (vMax, vMin) \<Rightarrow> vMax - vMin),
            notNans values)
      else if f = ''median'' then (Percentile qs values (FNum 50) True, notNans values)
      else if f = ''multiply'' then multiply_loop values (FNum 1, 0)
      else if f = ''diff'' then diff_loop (tl values) (hd values, 0)
      else if f = ''count'' then (f64_of_int (int (notNans values)), notNans values)
      else if f = ''stddev'' then (fsqrt (VarianceValue values), notNans values)
      else if f = ''first'' then (hd values, notNans values)
      else (case Split1 f (CHR ''p'') of
              _ # g # _ \<Rightarrow>
                (case ParseFloat g of
                   Inr percent \<Rightarrow> (Percentile qs values percent True, notNans values)
                 | Inl _ \<Rightarrow> (0, 0))
            | _ \<Rightarrow> (0, 0)))"

definition SummarizeValues :: "quickselect \<Rightarrow> string \<Rightarrow> f64 list \<Rightarrow> f64 \<Rightarrow> f64" where
  "SummarizeValues qs f values XFilesFactor =
     (if values = [] then FNaN
      else (case summary qs f values of (rv, n) \<Rightarrow>
              if n = 0 then FNaN
              else if f32_ratio n (length values) < XFilesFactor then FNaN
              else rv))"

definition ConsolidationToFunc :: "quickselect \<Rightarrow> (string \<times> (f64 list \<Rightarrow> f64)) list" where
  "ConsolidationToFunc qs =
     (let summarizeToAggregate = (\<lambda>f v. SummarizeValues qs f v 0)
      in [(''average'', AggMean), (''avg_zero'', AggMeanZero), (''avg'', AggMean), (''count'', AggCount),
          (''diff'', AggDiff), (''max'', AggMax), (''maximum'', AggMax),
          (''median'', summarizeToAggregate ''median''), (''min'', AggMin), (''minimum'', AggMin),
          (''multiply'', summarizeToAggregate ''multiply''), (''range'', summarizeToAggregate ''range''),
          (''rangeOf'', summarizeToAggregate ''rangeOf''), (''sum'', AggSum), (''total'', AggSum),
          (''stddev'', summarizeToAggregate ''stddev''), (''first'', AggFirst), (''last'', AggLast),
          (''current'', AggLast)])"

text \<open>The regular expression \<open>p([0-9]*[.])?[0-9]+\<close> matches anywhere in the name.\<close>

fun percentile_name :: "string \<Rightarrow> bool" where
  "percentile_name [] = False"
| "percentile_name (c # s) =
     ((c = CHR ''p'' \<and>
       (case s of
          d # ds \<Rightarrow> is_digit d \<or> (d = CHR ''.'' \<and> ds \<noteq> [] \<and> is_digit (hd ds))
        | [] \<Rightarrow> False))
      \<or> percentile_name s)"

definition CheckValidConsolidationFunc :: "quickselect \<Rightarrow> string \<Rightarrow> bool" where
  "CheckValidConsolidationFunc qs name \<longleftrightarrow>
     map_of (ConsolidationToFunc qs) name \<noteq> None \<or> percentile_name name"

section \<open>What the aggregations compute\<close>

lemma sum_count_snd: "snd (sum_count vs (t, n)) = n + notNans vs"
  by (induction vs arbitrary: t n) (auto simp: notNans_def non_nan_def)

lemma max_loop_snd: "snd (max_loop vs (m, b)) = (b \<and> notNans vs = 0)"
  by (induction vs arbitrary: m b) (auto simp: notNans_def non_nan_def)

lemma min_loop_snd: "snd (min_loop vs (m, b)) = (b \<and> notNans vs = 0)"
  by (induction vs arbitrary: m b) (auto simp: notNans_def non_nan_def)

lemma max_loop_fst:
  "\<not> isNaN m \<Longrightarrow> (\<forall>v\<in>set (m # non_nan vs). v \<le> fst (max_loop vs (m, b))) \<and> fst (max_loop vs (m, b)) \<in> set (m # non_nan vs)"
proof (induction vs arbitrary: m b)
  case (Cons v vs)
  show ?case
  proof (cases "isNaN v")
    case False
    define m' where "m' = (if m < v then v else m)"
    have "m \<le> m'" "v \<le> m'" "\<not> isNaN m'"
      using Cons.prems False not_less_f64[of m v] by (auto simp: m'_def less_imp_le_f64)
    moreover have "m' \<in> {m, v}" by (simp add: m'_def)
    ultimately show ?thesis
      using False Cons.IH[of m' False] le_f64_trans by (auto simp: m'_def[symmetric] non_nan_def)
  qed (use Cons in \<open>auto simp: non_nan_def\<close>)
qed (simp add: non_nan_def)

lemma min_loop_fst:
  "\<not> isNaN m \<Longrightarrow> (\<forall>v\<in>set (m # non_nan vs). fst (min_loop vs (m, b)) \<le> v) \<and> fst (min_loop vs (m, b)) \<in> set (m # non_nan vs)"
proof (induction vs arbitrary: m b)
  case (Cons v vs)
  show ?case
  proof (cases "isNaN v")
    case False
    define m' where "m' = (if v < m then v else m)"
    have "m' \<le> m" "m' \<le> v" "\<not> isNaN m'"
      using Cons.prems False not_less_f64[of v m] by (auto simp: m'_def less_imp_le_f64)
    moreover have "m' \<in> {m, v}" by (simp add: m'_def)
    ultimately show ?thesis
      using False Cons.IH[of m' False] le_f64_trans by (auto simp: m'_def[symmetric] non_nan_def)
  qed (use Cons in \<open>auto simp: non_nan_def\<close>)
qed (simp add: non_nan_def)

lemma infinite_extremes: "x \<le> FInf True \<Longrightarrow> x = FInf True" "FInf False \<le> x \<Longrightarrow> x = FInf False"
  by (cases x; simp add: less_eq_f64_def)+

lemma extreme_mem:
  assumes "non_nan vs \<noteq> []"
  shows "fst (max_loop vs (FInf True, b)) \<in> set (non_nan vs)" "fst (min_loop vs (FInf False, b)) \<in> set (non_nan vs)"
proof -
  obtain x where x: "x \<in> set (non_nan vs)" using assms by (cases "non_nan vs") auto
  show "fst (max_loop vs (FInf True, b)) \<in> set (non_nan vs)"
    using max_loop_fst[of "FInf True" vs b] x infinite_extremes(1)[of x] by auto
  show "fst (min_loop vs (FInf False, b)) \<in> set (non_nan vs)"
    using min_loop_fst[of "FInf False" vs b] x infinite_extremes(2)[of x] by auto
qed

text \<open>
  \<open>AggMax\<close> and \<open>AggMin\<close> are the greatest and the least of the present values, and absent
  exactly when every value is.
\<close>

lemma AggMax_AggMin_extreme:
  assumes "non_nan v \<noteq> []"
  shows "AggMax v \<in> set (non_nan v) \<and> AggMin v \<in> set (non_nan v)
    \<and> (\<forall>x\<in>set (non_nan v). AggMin v \<le> x \<and> x \<le> AggMax v)"
proof -
  have "notNans v \<noteq> 0" using assms by (simp add: notNans_def)
  then have "AggMax v = fst (max_loop v (FInf True, True))" "AggMin v = fst (min_loop v (FInf False, True))"
    using max_loop_snd[of v "FInf True" True] min_loop_snd[of v "FInf False" True]
    by (auto simp: AggMax_def AggMin_def split: prod.split)
  then show ?thesis
    using max_loop_fst[of "FInf True" v True] min_loop_fst[of "FInf False" v True] extreme_mem[OF assms] by simp
qed

lemma AggMax_AggMin_extreme_witness:
  "non_nan [FNum 2, FNaN, FNum 7, FNum (- 1)] \<noteq> [] \<and> AggMax [FNum 2, FNaN, FNum 7, FNum (- 1)] = FNum 7
   \<and> AggMin [FNum 2, FNaN, FNum 7, FNum (- 1)] = FNum (- 1)
   \<and> AggMax [FNum 2, FNaN, FNum 7, FNum (- 1)] \<in> set (non_nan [FNum 2, FNaN, FNum 7, FNum (- 1)])"
proof -
  have "non_nan [FNum 2, FNaN, FNum 7, FNum (- 1)] \<noteq> []" by code_simp
  moreover have "AggMax [FNum 2, FNaN, FNum 7, FNum (- 1)] = FNum 7" by code_simp
  moreover have "AggMin [FNum 2, FNaN, FNum 7, FNum (- 1)] = FNum (- 1)" by code_simp
  ultimately show ?thesis using AggMax_AggMin_extreme[of "[FNum 2, FNaN, FNum 7, FNum (- 1)]"] by blast
qed

lemma SummarizeValues_0: "SummarizeValues qs f vs 0 = (if vs = [] \<or> snd (summary qs f vs) = 0 then FNaN else fst (summary qs f vs))"
  using f32_ratio_not_less_0 by (auto simp: SummarizeValues_def zero_f64_def split: prod.split)

lemma find_rev_nan: "notNans vs = 0 \<Longrightarrow> find (\<lambda>x. \<not> isNaN x) (rev vs) = None"
  by (auto simp: find_None_iff notNans_def non_nan_def filter_empty_conv)

lemma hd_nan: "notNans vs = 0 \<Longrightarrow> vs \<noteq> [] \<Longrightarrow> hd vs = FNaN"
  by (cases vs) (auto simp: notNans_def non_nan_def isNaN_def split: if_splits)

lemma notNans_Nil [simp]: "notNans [] = 0"
  by (simp add: notNans_def non_nan_def)

lemma summary_values:
  "summary qs ''sum'' vs = sum_count vs (0, 0)" "summary qs ''total'' vs = sum_count vs (0, 0)"
  "summary qs ''avg'' vs = (case sum_count vs (0, 0) of (rv, n) \<Rightarrow> (if 0 < n then rv div f64_of_int (int n) else rv, n))"
  "summary qs ''average'' vs = (case sum_count vs (0, 0) of (rv, n) \<Rightarrow> (if 0 < n then rv div f64_of_int (int n) else rv, n))"
  "summary qs ''max'' vs = (fst (max_loop vs (FInf True, True)), notNans vs)"
  "summary qs ''min'' vs = (fst (min_loop vs (FInf False, True)), notNans vs)"
  "summary qs ''last'' vs = (CurrentValue vs, notNans vs)" "summary qs ''current'' vs = (CurrentValue vs, notNans vs)"
  "summary qs ''count'' vs = (f64_of_int (int (notNans vs)), notNans vs)"
  "summary qs ''first'' vs = (hd vs, notNans vs)"
  by (simp_all add: summary_def)

text \<open>
  the summaries used by \<open>summarize\<close> and friends agree with the aggregations of the
  consolidation table on these names: the same value on the same points, absent points and
  empty buckets included. (The names \<open>median\<close>, \<open>multiply\<close>, \<open>range\<close> and \<open>stddev\<close> are the same
  function in both places; \<open>diff\<close> and \<open>avg_zero\<close> differ, as the lemmas after this one show.)
\<close>

lemma SummarizeValues_agrees:
  "list_all (\<lambda>f. \<exists>g. map_of (ConsolidationToFunc qs) f = Some g \<and> SummarizeValues qs f vs 0 = g vs)
     [''sum'', ''total'', ''avg'', ''average'', ''max'', ''min'', ''last'', ''current'', ''count'', ''first'']"
proof -
  obtain s where s: "sum_count vs (0, 0) = (s, notNans vs)"
    using sum_count_snd[of vs 0 0] by (metis add_0 prod.collapse)
  obtain m where m: "max_loop vs (FInf True, True) = (m, notNans vs = 0)"
    using max_loop_snd[of vs "FInf True" True] by (metis prod.collapse)
  obtain l where l: "min_loop vs (FInf False, True) = (l, notNans vs = 0)"
    using min_loop_snd[of vs "FInf False" True] by (metis prod.collapse)
  show ?thesis
    using find_rev_nan[of vs] hd_nan[of vs]
    by (cases "vs = []")
      (auto simp: ConsolidationToFunc_def SummarizeValues_0 summary_values s m l AggSum_def AggMean_def AggMax_def
        AggMin_def AggCount_def AggFirst_def AggLast_def CurrentValue_def split: list.split)
qed

text \<open>
  Where they differ: \<open>diff\<close> counts only the values after the first, so a bucket with one value
  has none; \<open>avg_zero\<close> does not count the absent points as zero; the names \<open>maximum\<close> and
  \<open>minimum\<close> of the table are unknown to the summaries.
\<close>

lemma SummarizeValues_diff_single:
  "AggDiff [FNum 5] = FNum 5" "SummarizeValues qs ''diff'' [FNum 5] 0 = FNaN"
  by code_simp+

lemma SummarizeValues_avg_zero:
  "AggMeanZero [FNum 4, FNaN] = FNum 2" "SummarizeValues qs ''avg_zero'' [FNum 4, FNaN] 0 = FNum 4"
  by code_simp+

lemma SummarizeValues_maximum:
  "AggMax [FNum 4] = FNum 4" "SummarizeValues qs ''maximum'' [FNum 4] 0 = FNaN"
  by code_simp+

section \<open>The rank of a percentile\<close>

text \<open>The documented behaviour of \<open>quickselect\<close> on values that are comparable.\<close>

definition quickselect_ok :: "quickselect \<Rightarrow> bool" where
  "quickselect_ok qs \<longleftrightarrow>
     (\<forall>xs k. (\<forall>x\<in>set xs. \<not> isNaN x) \<longrightarrow> k \<le> length xs \<longrightarrow>
        mset (qs xs k) = mset xs \<and> (\<forall>x\<in>set (take k (qs xs k)). \<forall>y\<in>set (drop k (qs xs k)). x \<le> y))"

lemma top_two_fst:
  "\<not> isNaN t \<Longrightarrow> \<forall>v\<in>set vs. \<not> isNaN v \<Longrightarrow>
   (\<forall>v\<in>set (t # vs). v \<le> fst (top_two vs (t, u))) \<and> fst (top_two vs (t, u)) \<in> set (t # vs)"
proof (induction vs arbitrary: t u)
  case (Cons v vs)
  define t' u' where "t' = (if t < v then v else t)" and "u' = (if t < v then t else if u < v then v else u)"
  have "t \<le> t'" "v \<le> t'" "\<not> isNaN t'" "t' \<in> {t, v}"
    using Cons.prems not_less_f64[of t v] by (auto simp: t'_def less_imp_le_f64)
  moreover have "top_two (v # vs) (t, u) = top_two vs (t', u')" by (simp add: t'_def u'_def)
  ultimately show ?case using Cons.IH[of t' u'] Cons.prems le_f64_trans by auto
qed simp

lemma rank_of_top:
  assumes ok: "quickselect_ok qs" and nan: "\<forall>x\<in>set xs. \<not> isNaN x" and k: "0 < k" "k \<le> length xs"
    and x_def: "x = fst (top_two (take k (qs xs k)) (FInf True, u))"
  shows "x \<in> set xs \<and> length (filter (\<lambda>v. v < x) xs) < k \<and> k \<le> length (filter (\<lambda>v. v \<le> x) xs)"
proof -
  let ?a = "take k (qs xs k)" and ?b = "drop k (qs xs k)"
  have q: "mset (qs xs k) = mset xs" "\<And>a b. a \<in> set ?a \<Longrightarrow> b \<in> set ?b \<Longrightarrow> a \<le> b"
    using ok nan k by (auto simp: quickselect_ok_def)
  have len: "length (filter P xs) = length (filter P ?a) + length (filter P ?b)" for P
    by (metis q(1) append_take_drop_id filter_append length_append mset_filter size_mset)
  have "length (qs xs k) = length xs" using q(1) by (metis size_mset)
  then have la: "length ?a = k" using k by simp
  have set: "set ?a \<subseteq> set xs" using q(1) by (metis set_mset_mset set_take_subset)
  then have x: "\<forall>v\<in>set ?a. v \<le> x" "x \<in> set (FInf True # ?a)"
    using top_two_fst[of "FInf True" ?a u] nan by (auto simp: x_def)
  have "?a \<noteq> []" using la k(1) by auto
  then have mem: "x \<in> set ?a"
    using x infinite_extremes(1) by (cases ?a) auto
  have "length (filter (\<lambda>v. v < x) ?a) < k"
    using mem la by (metis less_f64_irrefl length_filter_less)
  moreover have "filter (\<lambda>v. v < x) ?b = []"
    using q(2)[OF mem] by (auto simp: filter_empty_conv less_eq_f64_def)
  moreover have "filter (\<lambda>v. v \<le> x) ?a = ?a" using x(1) by (simp add: filter_id_conv)
  ultimately show ?thesis using len la set mem by auto
qed

text \<open>
  a percentile without interpolation is a present value of the data with the rank the
  percentile asks for: fewer than \<open>\<lceil>k\<rceil> + 1\<close> values lie below it, and at least that many do not
  lie above it, where \<open>k\<close> is the fractional index of the percentile.
\<close>

lemma Percentile_rank:
  assumes "quickselect_ok qs" "2 \<le> notNans vs" "FNum 0 \<le> p" "p \<le> FNum 100"
    and "0 < percentile_length (notNans vs) p" "percentile_length (notNans vs) p \<le> notNans vs"
  shows "Percentile qs vs p False \<in> set (non_nan vs)
    \<and> length (filter (\<lambda>v. v < Percentile qs vs p False) (non_nan vs)) < percentile_length (notNans vs) p
    \<and> percentile_length (notNans vs) p \<le> length (filter (\<lambda>v. v \<le> Percentile qs vs p False) (non_nan vs))"
proof -
  have "\<forall>x\<in>set (non_nan vs). \<not> isNaN x" by (simp add: non_nan_def)
  moreover have "Percentile qs vs p False =
      fst (top_two (take (percentile_length (notNans vs) p) (qs (non_nan vs) (percentile_length (notNans vs) p)))
        (FInf True, FInf True))"
    using assms(2-4) by (auto simp: Percentile_def Let_def notNans_def less_eq_f64_def split: prod.split)
  ultimately show ?thesis
    using rank_of_top[OF assms(1), of "non_nan vs" "percentile_length (notNans vs) p" _ "FInf True"] assms(5,6)
    by (simp add: notNans_def)
qed

text \<open>Sorting is a quick select.\<close>

fun insert_f64 :: "f64 \<Rightarrow> f64 list \<Rightarrow> f64 list" where
  "insert_f64 x [] = [x]"
| "insert_f64 x (y # ys) = (if y < x then y # insert_f64 x ys else x # y # ys)"

definition sort_select :: quickselect where
  "sort_select xs k = foldr insert_f64 xs []"

lemma mset_insert_f64 [simp]: "mset (insert_f64 x ys) = add_mset x (mset ys)"
  by (induction ys) auto

lemma set_insert_f64 [simp]: "set (insert_f64 x ys) = insert x (set ys)"
  by (induction ys) auto

lemma sorted_insert_f64:
  "\<not> isNaN x \<Longrightarrow> \<forall>y\<in>set ys. \<not> isNaN y \<Longrightarrow> sorted_wrt (\<le>) ys \<Longrightarrow> sorted_wrt (\<le>) (insert_f64 x ys)"
proof (induction ys)
  case (Cons y ys)
  then show ?case
    using not_less_f64[of y x] le_f64_trans[of x y] by (auto simp: less_imp_le_f64)
qed simp

lemma sort_select_ok: "quickselect_ok sort_select"
proof -
  have m: "mset (foldr insert_f64 xs []) = mset xs" for xs by (induction xs) auto
  have s: "sorted_wrt (\<le>) (foldr insert_f64 xs [])" if "\<forall>x\<in>set xs. \<not> isNaN x" for xs
    using that
  proof (induction xs)
    case (Cons x xs)
    then have "\<forall>y\<in>set (foldr insert_f64 xs []). \<not> isNaN y" using m[of xs] by (metis set_mset_mset list.set_intros(2))
    with Cons show ?case by (simp add: sorted_insert_f64)
  qed simp
  show ?thesis
    unfolding quickselect_ok_def sort_select_def
    using m s by (metis append_take_drop_id sorted_wrt_append)
qed

lemma Percentile_rank_witness:
  "quickselect_ok sort_select \<and> Percentile sort_select [FNum 9, FNaN, FNum 1, FNum 5] (FNum 75) False = FNum 9
   \<and> length (filter (\<lambda>v. v < FNum 9) (non_nan [FNum 9, FNaN, FNum 1, FNum 5])) < 3"
proof -
  let ?vs = "[FNum 9, FNaN, FNum 1, FNum 5]"
  have "2 \<le> notNans ?vs" "FNum 0 \<le> FNum 75" "FNum 75 \<le> FNum 100" by code_simp+
  moreover have l: "percentile_length (notNans ?vs) (FNum 75) = 3" "notNans ?vs = 3" by code_simp+
  moreover have p: "Percentile sort_select ?vs (FNum 75) False = FNum 9" by code_simp
  ultimately show ?thesis using Percentile_rank[OF sort_select_ok, of ?vs "FNum 75"] sort_select_ok by simp
qed

end
