(* ===== verification/MetricData.thy ===== *)
theory MetricData
  imports Consolidations Tags
begin

text \<open>
  A series and its consolidation for output: \<open>MetricData\<close> of \<open>expr/types/types.go\<close>. The fields of
  the embedded protobuf message and of the struct are one record; the drawing options, which
  the operations only carry along, are left out. A nil \<open>aggregatedValues\<close> or
  \<open>AggregateFunction\<close> is \<open>None\<close>. Values are not shared between records here, so the copies that
  share their values with the original and those that do not are the same function.
\<close>

section \<open>Series\<close>

record MetricData =
  Name :: string
  PathExpression :: string
  MConsolidationFunc :: string
  StartTime :: int
  StopTime :: int
  StepTime :: int
  XFilesFactor :: f64
  HighPrecisionTimestamps :: bool
  Values :: "f64 list"
  AppliedFunctions :: "string list"
  RequestStartTime :: int
  RequestStopTime :: int
  ValuesPerPoint :: int
  aggregatedValues :: "f64 list option"
  MTags :: tag_map
  AggregateFunction :: "(f64 list \<Rightarrow> f64) option"

record config =
  NudgeStartTimeOnAggregation :: bool
  UseBucketsHighestTimestampOnAggregation :: bool

definition SetValuesPerPoint :: "int \<Rightarrow> MetricData \<Rightarrow> MetricData" where
  "SetValuesPerPoint v r = r\<lparr>ValuesPerPoint := v, aggregatedValues := None\<rparr>"

definition AggregatedTimeStep :: "MetricData \<Rightarrow> int" where
  "AggregatedTimeStep r =
     (if ValuesPerPoint r = 1 \<or> ValuesPerPoint r = 0 then StepTime r else StepTime r * ValuesPerPoint r)"

text \<open>A zero time step makes the remainder panic.\<close>

definition nudgePointsCount :: "config \<Rightarrow> MetricData \<Rightarrow> int go_result" where
  "nudgePointsCount C r =
     (if \<not> NudgeStartTimeOnAggregation C then Some 0
      else if int (length (Values r)) \<le> 2 * ValuesPerPoint r then Some 0
      else (let aggTimeStep = AggregatedTimeStep r
            in if aggTimeStep = 0 then Panic
               else (let dist = aggTimeStep - (StartTime r - StepTime r) smod aggTimeStep
                     in Some (if dist < aggTimeStep then dist sdiv StepTime r else 0))))"

definition AggregatedStartTime :: "config \<Rightarrow> MetricData \<Rightarrow> int go_result" where
  "AggregatedStartTime C r =
     map_option (\<lambda>n.
         let start = StartTime r + n * StepTime r
         in if UseBucketsHighestTimestampOnAggregation C
            then start + AggregatedTimeStep r - StepTime r else start)
       (nudgePointsCount C r)"

text \<open>The function is looked up by the lower-case name, with the average as the fallback.\<close>

definition GetAggregateFunction :: "go_env \<Rightarrow> quickselect \<Rightarrow> MetricData \<Rightarrow> (f64 list \<Rightarrow> f64) \<times> MetricData" where
  "GetAggregateFunction E qs r =
     (case AggregateFunction r of
        Some f \<Rightarrow> (f, r)
      | None \<Rightarrow>
          (let f = (case map_of (ConsolidationToFunc qs) (ToLower E (MConsolidationFunc r)) of
                      Some f \<Rightarrow> f | None \<Rightarrow> AvgValue)
           in (f, r\<lparr>AggregateFunction := Some f\<rparr>)))"

text \<open>The loop over full buckets, and the rest as a last, shorter bucket.\<close>

function bucket_loop :: "(f64 list \<Rightarrow> f64) \<Rightarrow> nat \<Rightarrow> f64 list \<Rightarrow> f64 list" where
  "bucket_loop f k v =
     (if 0 < k \<and> k \<le> length v then f (take k v) # bucket_loop f k (drop k v)
      else if v \<noteq> [] then [f v] else [])"
  by pat_completeness auto
termination
  by (relation "measure (\<lambda>(f, k, v). length v)") auto

declare bucket_loop.simps [simp del]

definition AggregateValues :: "go_env \<Rightarrow> quickselect \<Rightarrow> config \<Rightarrow> MetricData \<Rightarrow> MetricData go_result" where
  "AggregateValues E qs C r0 =
     (if ValuesPerPoint r0 = 1 \<or> ValuesPerPoint r0 = 0 then Some (r0\<lparr>aggregatedValues := Some (Values r0)\<rparr>)
      else (case GetAggregateFunction E qs r0 of (aggFunc, r) \<Rightarrow>
        if ValuesPerPoint r < 0 then Panic
        else (case nudgePointsCount C r of
                None \<Rightarrow> Panic
              | Some nudgeCount \<Rightarrow>
                  (case go_drop nudgeCount (Values r) of
                     None \<Rightarrow> Panic
                   | Some v \<Rightarrow>
                       Some (r\<lparr>aggregatedValues := Some (bucket_loop aggFunc (nat (ValuesPerPoint r)) v)\<rparr>)))))"

definition AggregatedValues :: "go_env \<Rightarrow> quickselect \<Rightarrow> config \<Rightarrow> MetricData \<Rightarrow> (f64 list \<times> MetricData) go_result" where
  "AggregatedValues E qs C r =
     (case aggregatedValues r of
        Some vs \<Rightarrow> Some (vs, r)
      | None \<Rightarrow> map_option (\<lambda>r'. (the (aggregatedValues r'), r')) (AggregateValues E qs C r))"

section \<open>Copies and setters\<close>

text \<open>The value a copy gets is what its operation reads, so the copies differ in the fields they set.\<close>

definition Copy :: "bool \<Rightarrow> MetricData \<Rightarrow> MetricData" where
  "Copy includeValues r =
     (if includeValues then r
      else r\<lparr>Values := [], aggregatedValues := None, AppliedFunctions := []\<rparr>)"

definition CopyLink :: "MetricData \<Rightarrow> MetricData" where
  "CopyLink r = r"

definition CopyName :: "string \<Rightarrow> MetricData \<Rightarrow> MetricData" where
  "CopyName name r = r\<lparr>Name := name, MTags := AList.update ''name'' name (MTags r)\<rparr>"

definition CopyNameWithDefault :: "string \<Rightarrow> string \<Rightarrow> MetricData \<Rightarrow> MetricData go_result" where
  "CopyNameWithDefault name0 defaultName r =
     (let name = (if name0 = [] then defaultName else name0)
      in map_option (\<lambda>n.
             let tags = ExtractTags n
             in r\<lparr>Name := name,
                  MTags := (if map_of tags ''name'' = None then AList.update ''name'' defaultName tags else tags)\<rparr>)
           (ExtractName name))"

definition CopyTag :: "string \<Rightarrow> tag_map \<Rightarrow> MetricData \<Rightarrow> MetricData" where
  "CopyTag name tags r = (if name = [] then CopyLink r else r\<lparr>Name := name, MTags := tags\<rparr>)"

definition CopyNameArg :: "string \<Rightarrow> string \<Rightarrow> tag_map \<Rightarrow> bool \<Rightarrow> MetricData \<Rightarrow> MetricData go_result" where
  "CopyNameArg name defaultName defaultTags extractTags r =
     (if name = [] then Some (CopyLink r)
      else map_option (\<lambda>nameStiped.
          r\<lparr>Name := name,
            MTags := (if HasPrefix nameStiped ''seriesByTag(''
                      then (if extractTags
                            then (case ExtractSeriesByTags nameStiped defaultName of None \<Rightarrow> [] | Some m \<Rightarrow> m)
                            else defaultTags)
                      else ExtractTags nameStiped)\<rparr>)
        (ExtractName name))"

definition CopyNameWithVal :: "string \<Rightarrow> MetricData \<Rightarrow> MetricData go_result" where
  "CopyNameWithVal name r =
     (if name = [] then Some (Copy True r)
      else map_option (\<lambda>n. r\<lparr>Name := name, MTags := ExtractTags n\<rparr>) (ExtractName name))"

definition SetConsolidationFunc :: "string \<Rightarrow> MetricData \<Rightarrow> MetricData" where
  "SetConsolidationFunc f r = r\<lparr>MConsolidationFunc := f\<rparr>"

definition SetXFilesFactor :: "f64 \<Rightarrow> MetricData \<Rightarrow> MetricData" where
  "SetXFilesFactor x r = r\<lparr>XFilesFactor := x\<rparr>"

definition AppendStopTime :: "int \<Rightarrow> MetricData \<Rightarrow> MetricData" where
  "AppendStopTime step r = r\<lparr>StopTime := StopTime r + step\<rparr>"

definition values_stop :: "MetricData \<Rightarrow> int" where
  "values_stop r = StartTime r + int (length (Values r)) * StepTime r"

definition FixStopTime :: "MetricData \<Rightarrow> MetricData" where
  "FixStopTime r = (if StopTime r < values_stop r then r\<lparr>StopTime := values_stop r\<rparr> else r)"

definition RecalcStopTime :: "MetricData \<Rightarrow> MetricData" where
  "RecalcStopTime r = (if StopTime r \<noteq> values_stop r then r\<lparr>StopTime := values_stop r\<rparr> else r)"

definition SetNameTag :: "string \<Rightarrow> MetricData \<Rightarrow> MetricData" where
  "SetNameTag name r = r\<lparr>MTags := AList.update ''name'' name (MTags r)\<rparr>"

text \<open>Reading a missing key of a Go map gives the empty string.\<close>

definition FixNameTag :: "MetricData \<Rightarrow> MetricData go_result" where
  "FixNameTag r =
     map_option (\<lambda>n. r\<lparr>MTags := AList.update ''name'' n (MTags r)\<rparr>)
       (ExtractName (case map_of (MTags r) ''name'' of None \<Rightarrow> [] | Some v \<Rightarrow> v))"

definition SetTag :: "string \<Rightarrow> string \<Rightarrow> MetricData \<Rightarrow> MetricData" where
  "SetTag key v r = r\<lparr>MTags := AList.update key v (MTags r)\<rparr>"

definition SetTags :: "tag_map \<Rightarrow> MetricData \<Rightarrow> MetricData" where
  "SetTags tags r = r\<lparr>MTags := tags\<rparr>"

definition SetPathExpression :: "string \<Rightarrow> MetricData \<Rightarrow> MetricData" where
  "SetPathExpression path r = r\<lparr>PathExpression := path\<rparr>"

definition makeMetricDataWithTags :: "string \<Rightarrow> f64 list \<Rightarrow> int \<Rightarrow> int \<Rightarrow> tag_map \<Rightarrow> MetricData" where
  "makeMetricDataWithTags name vs step start tags =
     \<lparr>Name = name, PathExpression = [], MConsolidationFunc = [], StartTime = start,
      StopTime = start + int (length vs) * step, StepTime = step, XFilesFactor = 0,
      HighPrecisionTimestamps = False, Values = vs, AppliedFunctions = [], RequestStartTime = 0,
      RequestStopTime = 0, ValuesPerPoint = 0, aggregatedValues = None, MTags = tags,
      AggregateFunction = None\<rparr>"

definition MakeMetricData :: "string \<Rightarrow> f64 list \<Rightarrow> int \<Rightarrow> int \<Rightarrow> MetricData go_result" where
  "MakeMetricData name vs step start =
     Option.bind (ExtractName name)
       (\<lambda>n. FixNameTag (makeMetricDataWithTags name vs step start (ExtractTags n)))"

section \<open>Consolidation to a number of points\<close>

definition json_range :: "MetricData list \<Rightarrow> int \<times> int" where
  "json_range results =
     foldl (\<lambda>(a, b) r. (min a (StartTime r), max b (StopTime r)))
       (StartTime (hd results), StopTime (hd results)) results"

definition consolidate_one :: "int \<Rightarrow> int \<Rightarrow> MetricData \<Rightarrow> MetricData" where
  "consolidate_one maxDataPoints timeRange r =
     (let numberOfDataPoints = ffloor (f64_of_int timeRange div f64_of_int (StepTime r))
      in if f64_of_int maxDataPoints < numberOfDataPoints
         then SetValuesPerPoint (int_of_f64 (fceil (numberOfDataPoints div f64_of_int maxDataPoints))) r
         else r)"

definition ConsolidateJSON :: "int \<Rightarrow> MetricData list \<Rightarrow> MetricData list" where
  "ConsolidateJSON maxDataPoints results =
     (if results = [] then []
      else (case json_range results of (startTime, endTime) \<Rightarrow>
              if endTime - startTime \<le> 0 then results
              else map (consolidate_one maxDataPoints (endTime - startTime)) results))"

definition CopyMetricDataSlice :: "MetricData list \<Rightarrow> MetricData list" where
  "CopyMetricDataSlice = map (Copy True)"

definition CopyMetricDataSliceWithName :: "MetricData list \<Rightarrow> string \<Rightarrow> MetricData list" where
  "CopyMetricDataSliceWithName as name = map (CopyName name) as"

definition CopyMetricDataSliceWithTags :: "MetricData list \<Rightarrow> string \<Rightarrow> tag_map \<Rightarrow> MetricData list" where
  "CopyMetricDataSliceWithTags as name tags = map (CopyTag name tags) as"

section \<open>Buckets\<close>

text \<open>The buckets of the loop: consecutive runs of \<open>k\<close> values and a shorter last one.\<close>

function chunks :: "nat \<Rightarrow> 'a list \<Rightarrow> 'a list list" where
  "chunks k v =
     (if 0 < k \<and> k \<le> length v then take k v # chunks k (drop k v)
      else if v \<noteq> [] then [v] else [])"
  by pat_completeness auto
termination
  by (relation "measure (\<lambda>(k, v). length v)") auto

declare chunks.simps [simp del]

lemma bucket_loop_chunks: "bucket_loop f k v = map f (chunks k v)"
proof (induction f k v rule: bucket_loop.induct)
  case (1 f k v)
  then show ?case by (subst bucket_loop.simps, subst chunks.simps) simp
qed

lemma concat_chunks: "concat (chunks k v) = v"
proof (induction k v rule: chunks.induct)
  case (1 k v)
  then show ?case by (subst chunks.simps) simp
qed

lemma chunks_size: "0 < k \<Longrightarrow> c \<in> set (chunks k v) \<Longrightarrow> c \<noteq> [] \<and> length c \<le> k"
proof (induction k v rule: chunks.induct)
  case (1 k v)
  then show ?case
    by (subst (asm) (2) chunks.simps) (auto split: if_splits)
qed

lemma length_chunks: "0 < k \<Longrightarrow> length (chunks k v) = (length v + k - 1) div k"
proof (induction k v rule: chunks.induct)
  case (1 k v)
  show ?case
  proof (cases "k \<le> length v")
    case True
    then have "length v + k - 1 = (length v - k + k - 1) + 1 * k" using 1(2) by simp
    then have "(length v + k - 1) div k = Suc ((length v - k + k - 1) div k)"
      using 1(2) by (simp only: div_mult_self1)
    then show ?thesis using True 1 by (subst chunks.simps) simp
  next
    case False
    then have "v \<noteq> [] \<Longrightarrow> (length v + k - 1) div k = 1"
      by (cases v) (auto simp: div_eq_dividend_iff not_le intro!: div_nat_eqI)
    with False 1(2) show ?thesis by (subst chunks.simps) auto
  qed
qed

lemma length_chunks_le: "0 < k \<Longrightarrow> length v \<le> k * m \<Longrightarrow> length (chunks k v) \<le> m"
proof -
  assume k: "0 < k" "length v \<le> k * m"
  then have "(length v + k - 1) div k < Suc m" by (subst div_less_iff_less_mult) (auto simp: algebra_simps)
  with k show ?thesis by (simp add: length_chunks)
qed

section \<open>Nudging\<close>

lemma smod_bound: "0 < (m :: int) \<Longrightarrow> a smod m < m \<and> - m < a smod m"
proof -
  assume m: "0 < m"
  have "0 \<le> \<bar>a\<bar> mod m" "\<bar>a\<bar> mod m < m" using m by simp_all
  with m show ?thesis by (auto simp: signed_modulo_int_def sgn_if)
qed

lemma nudge_range:
  assumes "0 < StepTime r" "1 < ValuesPerPoint r"
  shows "\<exists>n. nudgePointsCount C r = Some n \<and> 0 \<le> n \<and> n \<le> int (length (Values r)) \<and> n < ValuesPerPoint r"
proof -
  let ?k = "ValuesPerPoint r" and ?agg = "AggregatedTimeStep r"
  have agg: "?agg = StepTime r * ?k" "0 < ?agg" using assms by (simp_all add: AggregatedTimeStep_def)
  define dist where "dist = ?agg - (StartTime r - StepTime r) smod ?agg"
  have d: "0 < dist" using smod_bound[OF agg(2), of "StartTime r - StepTime r"] by (simp add: dist_def)
  have "0 \<le> dist sdiv StepTime r" "dist < ?agg \<Longrightarrow> dist sdiv StepTime r < ?k"
    using d assms agg(1) by (simp_all add: sdiv_nonneg pos_imp_zdiv_nonneg_iff div_less_int)
  then show ?thesis
    using assms agg(2) d by (auto simp: nudgePointsCount_def Let_def dist_def[symmetric])
qed

lemma nudge_AggregateFunction [simp]:
  "AggregatedTimeStep (r\<lparr>AggregateFunction := x\<rparr>) = AggregatedTimeStep r"
  "nudgePointsCount C (r\<lparr>AggregateFunction := x\<rparr>) = nudgePointsCount C r"
  by (simp_all add: AggregatedTimeStep_def nudgePointsCount_def Let_def)

lemma AggregateValues_eq:
  assumes "0 < StepTime r" "1 < ValuesPerPoint r"
  shows "\<exists>n r'. nudgePointsCount C r = Some n \<and> 0 \<le> n \<and> n \<le> int (length (Values r)) \<and> n < ValuesPerPoint r
    \<and> AggregateValues E qs C r = Some r'
    \<and> aggregatedValues r' =
        Some (map (fst (GetAggregateFunction E qs r)) (chunks (nat (ValuesPerPoint r)) (drop (nat n) (Values r))))"
proof -
  obtain n where n: "nudgePointsCount C r = Some n" "0 \<le> n" "n \<le> int (length (Values r))" "n < ValuesPerPoint r"
    using nudge_range[OF assms, of C] by blast
  obtain f r1 where f: "GetAggregateFunction E qs r = (f, r1)" by fastforce
  then have r1: "r1 = r\<lparr>AggregateFunction := Some f\<rparr>"
    by (auto simp: GetAggregateFunction_def Let_def split: option.splits)
  show ?thesis
    using n f assms
    by (simp add: AggregateValues_def r1 go_drop_def bucket_loop_chunks)
qed


definition sample_series :: "int \<Rightarrow> f64 list \<Rightarrow> MetricData" where
  "sample_series k vs = SetValuesPerPoint k (makeMetricDataWithTags ''a'' vs 60 120 [])"

lemma sample_series_simps [simp]:
  "StepTime (sample_series k vs) = 60" "ValuesPerPoint (sample_series k vs) = k"
  "StartTime (sample_series k vs) = 120" "Values (sample_series k vs) = vs"
  "StopTime (sample_series k vs) = 120 + int (length vs) * 60" "aggregatedValues (sample_series k vs) = None"
  by (simp_all add: sample_series_def SetValuesPerPoint_def makeMetricDataWithTags_def)


text \<open>
  with nudging on, the first aggregated bucket of a series whose start is a multiple of its
  step begins on the grid of aggregated buckets counted from the step, less than one bucket
  after the start, so that requests with different starts use the same buckets.
\<close>

lemma AggregatedStartTime_grid:
  assumes "NudgeStartTimeOnAggregation C" "\<not> UseBucketsHighestTimestampOnAggregation C"
    and "0 < StepTime r" "StepTime r dvd StartTime r" "StepTime r \<le> StartTime r"
    and "1 < ValuesPerPoint r" "2 * ValuesPerPoint r < int (length (Values r))"
  shows "\<exists>t. AggregatedStartTime C r = Some t \<and> (t - StepTime r) mod AggregatedTimeStep r = 0
    \<and> StartTime r \<le> t \<and> t < StartTime r + AggregatedTimeStep r"
proof -
  let ?s = "StepTime r" and ?agg = "AggregatedTimeStep r" and ?x = "StartTime r - StepTime r"
  have agg: "?agg = ?s * ValuesPerPoint r" "0 < ?agg" using assms by (simp_all add: AggregatedTimeStep_def)
  define m where "m = ?x mod ?agg"
  have m: "0 \<le> m" "m < ?agg" "?x smod ?agg = m" using agg(2) assms(5) by (simp_all add: m_def smod_nonneg)
  have "?s dvd m" unfolding m_def using assms(4) agg(1) by (simp add: dvd_mod_iff)
  then have "?s dvd ?agg - m" using agg(1) by simp
  then have d: "(?agg - m) div ?s * ?s = ?agg - m" by (rule dvd_div_mult_self)
  define n where "n = (if m = 0 then 0 else (?agg - m) div ?s)"
  have "nudgePointsCount C r = Some n"
    using assms agg(2) m by (auto simp: nudgePointsCount_def Let_def n_def sdiv_nonneg)
  then have t: "AggregatedStartTime C r = Some (StartTime r + n * ?s)"
    using assms(2) by (simp add: AggregatedStartTime_def)
  have "n * ?s = (if m = 0 then 0 else ?agg - m)" using d by (simp add: n_def)
  have "(?x + (if m = 0 then 0 else ?agg - m)) mod ?agg = 0"
  proof (cases "m = 0")
    case False
    have "?x - m = ?agg * (?x div ?agg)" unfolding m_def by (rule minus_mod_eq_mult_div)
    then have "?x + (?agg - m) = ?agg * (?x div ?agg + 1)" by (simp add: distrib_left)
    then show ?thesis using False by simp
  qed (simp add: m_def)
  then have "(StartTime r + n * ?s - ?s) mod ?agg = 0" using \<open>n * ?s = _\<close> by (simp add: algebra_simps)
  moreover have "0 \<le> n * ?s" "n * ?s < ?agg" using \<open>n * ?s = _\<close> m agg(2) by simp_all
  ultimately show ?thesis using t by auto
qed

lemma AggregatedStartTime_grid_witness:
  "\<exists>t. AggregatedStartTime \<lparr>NudgeStartTimeOnAggregation = True, UseBucketsHighestTimestampOnAggregation = False\<rparr>
      (sample_series 2 (replicate 5 (FNum 1))) = Some t \<and> (t - 60) mod 120 = 0 \<and> 120 \<le> t \<and> t < 240"
proof -
  have "2 * 2 < int (length (replicate 5 (FNum 1)))" by simp
  then show ?thesis
    using AggregatedStartTime_grid[of "\<lparr>NudgeStartTimeOnAggregation = True, UseBucketsHighestTimestampOnAggregation = False\<rparr>"
        "sample_series 2 (replicate 5 (FNum 1))"]
    by (auto simp: AggregatedTimeStep_def)
qed

section \<open>Consolidation to a number of points\<close>

lemma foldl_range:
  "(fst (foldl (\<lambda>(a, b) r. (min a (f r), max b (g r))) (x, y) rs) \<le> x \<and> y \<le> snd (foldl (\<lambda>(a, b) r. (min a (f r), max b (g r))) (x, y) rs))
   \<and> (\<forall>r\<in>set rs. fst (foldl (\<lambda>(a, b) r. (min a (f r), max b (g r))) (x, y) rs) \<le> f r
        \<and> g r \<le> snd (foldl (\<lambda>(a, b) r. (min a (f r), max b (g r))) (x, y) rs))" for x y :: int
proof (induction rs arbitrary: x y)
  case (Cons r rs)
  show ?case using Cons[of "min x (f r)" "max y (g r)"] by auto
qed simp

lemma json_range_covers:
  "r \<in> set results \<Longrightarrow> json_range results = (a, b) \<Longrightarrow> a \<le> StartTime r \<and> StopTime r \<le> b"
  using foldl_range[of StartTime StopTime "StartTime (hd results)" "StopTime (hd results)" results]
  by (auto simp: json_range_def)

lemma in_int64_small: "0 < j \<Longrightarrow> j \<le> 2 * n \<Longrightarrow> n < 2 ^ 53 \<Longrightarrow> in_int64 j"
  by (simp add: in_int64_def)

lemma consolidate_one_points:
  assumes "0 < StepTime r" "StepTime r < 2 ^ 53" "0 < T" "T < 2 ^ 52" "0 < M" "M < 2 ^ 53"
    and "int (length (Values r)) * StepTime r \<le> T" "ValuesPerPoint r = 0"
  defines "k \<equiv> ValuesPerPoint (consolidate_one M T r)"
  shows "0 \<le> k \<and> (if k \<le> 1 then int (length (Values r)) \<le> M else int (length (Values r)) \<le> k * M)"
proof -
  obtain q where q: "f64_of_int T div f64_of_int (StepTime r) = FNum q" "0 < q" "T div StepTime r \<le> \<lfloor>q\<rfloor>" "q \<le> of_int T * 2"
    using quotient_rounded[of T "StepTime r"] assms by auto
  define N where "N = \<lfloor>q\<rfloor>"
  have "int (length (Values r)) \<le> T div StepTime r"
    using assms(1) zdiv_mono1[OF assms(7,1)] by simp
  then have len: "int (length (Values r)) \<le> N" using q(3) by (simp add: N_def)
  have N: "0 \<le> N" "N < 2 ^ 53"
    using q(2,4) assms(4) by (simp_all add: N_def floor_less_iff)
  have fN: "f64_of_int N = FNum (of_int N)" "f64_of_int M = FNum (of_int M)"
    using N assms by (simp_all add: f64_of_int_exact)
  show ?thesis
  proof (cases "M < N")
    case False
    then have "k = 0" using q(1) assms(8) fN by (simp add: k_def consolidate_one_def N_def)
    then show ?thesis using len False by simp
  next
    case True
    obtain p where p: "f64_of_int N div f64_of_int M = FNum p" "0 < p" "N \<le> \<lceil>p\<rceil> * M" "p \<le> of_int N * 2"
      using quotient_rounded[of N M] True N assms by auto
    have c: "0 < \<lceil>p\<rceil>" "\<lceil>p\<rceil> \<le> 2 * N" using p(2,4) by (simp_all add: ceiling_le_iff)
    then have "in_int64 \<lceil>p\<rceil>" using N(2) by (rule in_int64_small)
    then have "int_of_f64 (fceil (FNum p)) = \<lceil>p\<rceil>"
      using p(2) c(1) by (simp add: int_of_f64_def Let_def)
    then have "k = \<lceil>p\<rceil>"
      using True q(1) fN p(1) by (simp add: k_def consolidate_one_def N_def SetValuesPerPoint_def)
    then have "N \<le> k * M" "0 < k" using p(3) c(1) by simp_all
    then show ?thesis using len True by (cases "k = 1") auto
  qed
qed

text \<open>
  C9: after \<open>ConsolidateJSON\<close> no series has more than \<open>maxDataPoints\<close> points, with or without
  nudging, although the number of values per point is computed in floating point: for series
  whose values lie within their time range and ranges below \<open>2 ^ 52\<close> seconds.
\<close>

theorem ConsolidateJSON_bound:
  assumes r: "r \<in> set results" and range: "json_range results = (a, b)" "b - a < 2 ^ 52"
    and step: "0 < StepTime r" "StepTime r < 2 ^ 53" and M: "0 < M" "M < 2 ^ 53"
    and vals: "Values r \<noteq> []" "values_stop r \<le> StopTime r" and fresh: "ValuesPerPoint r = 0" "aggregatedValues r = None"
  shows "\<exists>r'\<in>set (ConsolidateJSON M results). Name r' = Name r \<and>
    (\<exists>vs r''. AggregatedValues E qs C r' = Some (vs, r'') \<and> int (length vs) \<le> M)"
proof -
  let ?r = "consolidate_one M (b - a) r" and ?n = "int (length (Values r))"
  have cover: "a \<le> StartTime r" "StopTime r \<le> b" using json_range_covers[OF r range(1)] by simp_all
  then have T: "?n * StepTime r \<le> b - a" using vals(2) by (simp add: values_stop_def)
  moreover have "0 < ?n * StepTime r" using vals(1) step(1) by simp
  ultimately have pos: "0 < b - a" by linarith
  have mem: "?r \<in> set (ConsolidateJSON M results)"
    using r pos range(1) by (auto simp: ConsolidateJSON_def)
  have same: "Values ?r = Values r" "StepTime ?r = StepTime r" "Name ?r = Name r" "aggregatedValues ?r = None"
    using fresh by (simp_all add: consolidate_one_def SetValuesPerPoint_def Let_def)
  have k: "0 \<le> ValuesPerPoint ?r"
    "if ValuesPerPoint ?r \<le> 1 then ?n \<le> M else ?n \<le> ValuesPerPoint ?r * M"
    using consolidate_one_points[OF step pos range(2) M T fresh(1)] by simp_all
  have "\<exists>vs r''. AggregatedValues E qs C ?r = Some (vs, r'') \<and> int (length vs) \<le> M"
  proof (cases "ValuesPerPoint ?r \<le> 1")
    case True
    then have "ValuesPerPoint ?r = 0 \<or> ValuesPerPoint ?r = 1" using k(1) by auto
    then show ?thesis using True k(2) same by (auto simp: AggregatedValues_def AggregateValues_def)
  next
    case False
    obtain n r' where r': "AggregateValues E qs C ?r = Some r'"
      "aggregatedValues r' = Some (map (fst (GetAggregateFunction E qs ?r))
          (chunks (nat (ValuesPerPoint ?r)) (drop (nat n) (Values ?r))))"
      using AggregateValues_eq[of ?r C E qs] False same step by auto
    have "length (drop (nat n) (Values ?r)) \<le> nat (ValuesPerPoint ?r) * nat M"
      using k False same M by (simp add: nat_mult_distrib[symmetric] le_nat_iff)
    then have "int (length (chunks (nat (ValuesPerPoint ?r)) (drop (nat n) (Values ?r)))) \<le> M"
      using length_chunks_le[of "nat (ValuesPerPoint ?r)" _ "nat M"] False M by fastforce
    then show ?thesis using r' same by (simp add: AggregatedValues_def)
  qed
  then show ?thesis using mem same by auto
qed

theorem ConsolidateJSON_bound_witness:
  "\<exists>r'\<in>set (ConsolidateJSON 2 [sample_series 0 [FNum 1, FNum 2, FNum 3]]).
     \<exists>vs r''. AggregatedValues \<lparr>uni_letter = (\<lambda>_. False), uni_lower = id, range_tables = (\<lambda>_. True), fmt_float = (\<lambda>_. [])\<rparr>
       sort_select \<lparr>NudgeStartTimeOnAggregation = False, UseBucketsHighestTimestampOnAggregation = False\<rparr> r' = Some (vs, r'')
       \<and> int (length vs) \<le> 2"
proof -
  let ?r = "sample_series 0 [FNum 1, FNum 2, FNum 3]"
  have "?r \<in> set [?r]" "json_range [?r] = (120, 300)" "values_stop ?r \<le> StopTime ?r"
    by (simp_all add: json_range_def values_stop_def)
  then show ?thesis
    using ConsolidateJSON_bound[of ?r "[?r]" 120 300 2] by fastforce
qed

text \<open>
  The table of consolidations has the name \<open>rangeOf\<close>, but the lookup lower-cases the name first:
  a series with that consolidation is averaged.
\<close>

lemma rangeOf_unreachable:
  "MConsolidationFunc r = ''rangeOf'' \<Longrightarrow> AggregateFunction r = None \<Longrightarrow> fst (GetAggregateFunction E qs r) = AvgValue"
proof -
  have "ToLower E ''rangeOf'' = ''rangeof''" by code_simp
  moreover assume "MConsolidationFunc r = ''rangeOf''" "AggregateFunction r = None"
  ultimately show ?thesis by (simp add: GetAggregateFunction_def ConsolidationToFunc_def Let_def)
qed

end
