(* ===== verification/Calendar.thy ===== *)
theory Calendar
  imports Go_Strings
begin

text \<open>
  The part of Go's package \<open>time\<close> that \<open>StartAlignTo\<close> (\<open>pkg/parser/parser.go\<close>) uses: the date
  of a Unix time in UTC, in the proleptic Gregorian calendar, and back. Days are counted from
  1970-01-01. The uniqueness of the year of a day makes the conversion total.
\<close>

definition days_before_year :: "int \<Rightarrow> int" where
  "days_before_year y = 365 * (y - 1) + (y - 1) div 4 - (y - 1) div 100 + (y - 1) div 400 - 719162"

definition year_of_day :: "int \<Rightarrow> int" where
  "year_of_day d =
     (let y = d * 400 div 146097 + 1970
      in if days_before_year (y + 1) \<le> d then y + 1
         else if days_before_year y \<le> d then y else y - 1)"

definition leap_year :: "int \<Rightarrow> bool" where
  "leap_year y \<longleftrightarrow> y mod 4 = 0 \<and> (y mod 100 \<noteq> 0 \<or> y mod 400 = 0)"

definition month_lengths :: "int \<Rightarrow> int list" where
  "month_lengths y = [31, if leap_year y then 29 else 28, 31, 30, 31, 30, 31, 31, 30, 31, 30, 31]"

text \<open>The first day of the month a day of the year lies in, counted from the start of the year.\<close>

fun month_start :: "int list \<Rightarrow> int \<Rightarrow> int \<Rightarrow> int" where
  "month_start [] n acc = acc"
| "month_start (m # ms) n acc = (if n < acc + m then acc else month_start ms n (acc + m))"

lemma leap_arith:
  fixes m q4 q100 q400 :: int
  assumes "m = 4 * q4 + r4" "m = 100 * q100 + r100" "m = 400 * q400 + r400"
    "0 \<le> r4" "r4 < 4" "0 \<le> r100" "r100 < 100" "0 \<le> r400" "r400 < 400"
  shows "146097 * m - 699 \<le> 400 * (365 * m + q4 - q100 + q400)
    \<and> 400 * (365 * m + q4 - q100 + q400) \<le> 146097 * m + 396"
  using assms by auto

lemma days_before_year_bounds:
  "146097 * (y - 1970) - 506 \<le> 400 * days_before_year y
   \<and> 400 * days_before_year y \<le> 146097 * (y - 1970) + 589"
  using leap_arith[of "y - 1" "(y - 1) div 4" "(y - 1) mod 4" "(y - 1) div 100" "(y - 1) mod 100"
      "(y - 1) div 400" "(y - 1) mod 400"]
  by (simp add: days_before_year_def)

lemma year_of_day:
  "days_before_year (year_of_day d) \<le> d \<and> d < days_before_year (year_of_day d + 1)"
proof -
  define y where "y = d * 400 div 146097 + 1970"
  have m: "0 \<le> d * 400 mod 146097" "d * 400 mod 146097 < 146097" by simp_all
  have "146097 * (y - 1970) \<le> 400 * d" "400 * d < 146097 * (y - 1969)"
    using div_mult_mod_eq[of "d * 400" 146097] m unfolding y_def by (simp_all add: algebra_simps)
  then have "days_before_year (y - 1) \<le> d" "d < days_before_year (y + 2)"
    using days_before_year_bounds[of "y - 1"] days_before_year_bounds[of "y + 2"] by simp_all
  then show ?thesis
    unfolding year_of_day_def y_def[symmetric] Let_def by (auto simp: not_le add.commute)
qed

lemma month_start_le:
  "list_all (\<lambda>m. 0 \<le> m) ms \<Longrightarrow> acc \<le> n \<Longrightarrow> acc \<le> month_start ms n acc \<and> month_start ms n acc \<le> n"
proof (induction ms arbitrary: acc)
  case (Cons m ms)
  have "acc + m \<le> n \<Longrightarrow> acc + m \<le> month_start ms n (acc + m) \<and> month_start ms n (acc + m) \<le> n"
    using Cons by simp
  with Cons.prems show ?case by (cases "n < acc + m") simp_all
qed simp

section \<open>Truncations of a time\<close>

definition weekday :: "int \<Rightarrow> int" where
  "weekday d = (d + 4) mod 7"

definition start_of_year :: "int \<Rightarrow> int" where
  "start_of_year d = days_before_year (year_of_day d)"

definition start_of_month :: "int \<Rightarrow> int" where
  "start_of_month d =
     start_of_year d + month_start (month_lengths (year_of_day d)) (d - start_of_year d) 0"

lemma start_of_year_le: "start_of_year d \<le> d"
  using year_of_day by (simp add: start_of_year_def)

lemma start_of_month_le: "start_of_month d \<le> d"
  using month_start_le[of "month_lengths (year_of_day d)" 0 "d - start_of_year d"] start_of_year_le[of d]
  by (auto simp: start_of_month_def month_lengths_def)

text \<open>\<open>StartAlignTo\<close>: the unit is the alignment text without its leading digits.\<close>

definition StartAlignTo :: "int \<Rightarrow> string \<Rightarrow> int option" where
  "StartAlignTo start alignTo0 =
     (let alignTo = dropWhile is_digit alignTo0; day = start div 86400
      in if HasPrefix alignTo ''y'' then Some (86400 * start_of_year day)
         else if HasPrefix alignTo ''mon'' then Some (86400 * start_of_month day)
         else if HasPrefix alignTo ''w'' then
           (if \<not> is_digit (last alignTo) then None
            else (case Atoi [last alignTo] of
                    Inl _ \<Rightarrow> None
                  | Inr dayOfWeek \<Rightarrow>
                      (let n = weekday day - dayOfWeek
                       in Some (86400 * (day - (if n < 0 then n + 7 else n))))))
         else if HasPrefix alignTo ''d'' then Some (86400 * day)
         else if HasPrefix alignTo ''h'' then Some (start - start mod 3600)
         else if HasPrefix alignTo ''min'' then Some (start - start mod 60)
         else if HasPrefix alignTo ''s'' then Some start
         else None)"

lemma Atoi_digit: "is_digit c \<Longrightarrow> Atoi [c] = Inr (int (byte c) - 48)"
  using digit_not_sign[of c] by (simp add: Atoi_def strip_sign_def digit_val_def in_int64_def is_digit_def)

lemma week_digit: "is_digit c \<Longrightarrow> c \<notin> {CHR ''8'', CHR ''9''} \<Longrightarrow> byte c \<le> 55"
proof (rule ccontr)
  assume c: "is_digit c" "c \<notin> {CHR ''8'', CHR ''9''}" "\<not> byte c \<le> 55"
  then have "byte c = 56 \<or> byte c = 57" by (auto simp: is_digit_def)
  then have "c = char_of (56 :: nat) \<or> c = char_of (57 :: nat)"
    unfolding byte_def by (metis char_of_char)
  with c(2) show False by (simp add: char_of_def bit_0)
qed

text \<open>
  the aligned start never lies after the start, for every alignment but a week day above 7
  (see \<open>StartAlignTo_future\<close>), and what is left out is less than a year, a month, a week, a
  day, an hour, a minute or a second of the start.
\<close>

lemma StartAlignTo_le:
  assumes "StartAlignTo start a = Some t"
    and "HasPrefix (dropWhile is_digit a) ''w'' \<Longrightarrow> last a \<notin> {CHR ''8'', CHR ''9''}"
  shows "t \<le> start"
proof -
  let ?a = "dropWhile is_digit a" and ?d = "start div 86400"
  have "86400 * ?d \<le> start"
    using mult_div_mod_eq[of 86400 start] pos_mod_sign[of 86400 start] by linarith
  then have day: "86400 * x \<le> start" if "x \<le> ?d" for x
    using that by linarith
  have last: "last ?a = last a" if "HasPrefix ?a ''w''"
    using that by (metis HasPrefix_def dropWhile_eq_Nil_conv last_appendR list.size(3) takeWhile_dropWhile_id
        take_Nil not_Cons_self2)
  have week: "0 \<le> (if n < 0 then n + 7 else n)"
    if "n = weekday ?d - (int (byte (last ?a)) - 48)" "is_digit (last ?a)" "HasPrefix ?a ''w''" for n
  proof -
    have "0 \<le> weekday ?d" by (simp add: weekday_def)
    moreover have "byte (last ?a) \<le> 55" using that assms(2) last week_digit by auto
    ultimately show ?thesis using that(1) by simp
  qed
  show ?thesis
  proof (cases "HasPrefix ?a ''w'' \<and> \<not> HasPrefix ?a ''y'' \<and> \<not> HasPrefix ?a ''mon''")
    case True
    then have "is_digit (last ?a)" using assms(1) by (auto simp: StartAlignTo_def Let_def split: if_splits)
    with True assms(1) week[OF refl] show ?thesis
      by (auto simp: StartAlignTo_def Let_def Atoi_digit split: if_splits intro!: day)
  next
    case False
    have "start - start mod 3600 \<le> start" "start - start mod 60 \<le> start" by simp_all
    with False assms(1) show ?thesis
      by (auto simp: StartAlignTo_def Let_def split: if_splits intro!: day start_of_year_le start_of_month_le)
  qed
qed

lemma StartAlignTo_le_witness:
  "StartAlignTo 1700000000 ''2mon'' = Some 1698796800 \<and> (1698796800 :: int) \<le> 1700000000"
proof -
  have "StartAlignTo 1700000000 ''2mon'' = Some 1698796800" by code_simp
  moreover have "\<not> HasPrefix (dropWhile is_digit ''2mon'') ''w''" by code_simp
  ultimately show ?thesis using StartAlignTo_le by blast
qed

text \<open>
  A week day of 8 or 9 passes the check that it is a digit; on a Monday \<open>w9\<close> then aligns to the
  next midnight, after the start.
\<close>

lemma StartAlignTo_future: "StartAlignTo 1699837200 ''w9'' = Some 1699920000"
  by code_simp

end
