(* ===== verification/Metrics.thy ===== *)
theory Metrics
  imports Parser_Roundtrip Calendar
begin

text \<open>
  What an expression asks the backends for: \<open>expr.Metrics\<close> of \<open>pkg/parser/parser.go\<close>, and the
  expansion of user-defined templates (\<open>pkg/parser/define.go\<close>), which \<open>ParseExpr\<close> runs on the
  parsed expression. Times are Unix seconds; \<open>From\<close> and \<open>Until\<close> stay far from the ends of
  \<open>int64\<close>, so they are integers.
\<close>

section \<open>Metric requests\<close>

record MetricRequest =
  Metric :: string
  ConsolidationFunc :: string
  From :: int
  Until :: int

definition DefaultBootstrapInterval :: int where
  "DefaultBootstrapInterval = 604800"

definition shift_from :: "int \<Rightarrow> MetricRequest \<Rightarrow> MetricRequest" where
  "shift_from d r = r\<lparr>From := From r + d\<rparr>"

definition shift_both :: "int \<Rightarrow> MetricRequest \<Rightarrow> MetricRequest" where
  "shift_both d r = r\<lparr>From := From r + d, Until := Until r + d\<rparr>"

definition hitcount_start :: "int \<Rightarrow> int \<Rightarrow> int" where
  "hitcount_start interval start =
     (case find (\<lambda>v. interval \<ge> v) [86400, 3600, 60] of
        Some v \<Rightarrow> start - start smod v
      | None \<Rightarrow> start)"

text \<open>The requests of \<open>timeStack\<close>: each request once per shift in \<open>start..<end\<close>.\<close>

definition timeStack_requests :: "int \<Rightarrow> int \<Rightarrow> int \<Rightarrow> MetricRequest list \<Rightarrow> MetricRequest list" where
  "timeStack_requests offs start stop r =
     concat (map (\<lambda>v. map (\<lambda>i. \<lparr>Metric = Metric v, ConsolidationFunc = [],
         From = From v + i * offs, Until = Until v + i * offs\<rparr>) [start..stop - 1]) r)"

definition smartSummarize_align :: "expr \<Rightarrow> string option" where
  "smartSummarize_align e =
     (case NamedOrPosArg e ''alignTo'' 3 of
        Some arg \<Rightarrow>
          if IsBool arg then Some []
          else if \<not> IsString arg then None else Some (valStr arg)
      | None \<Rightarrow> Some [])"

definition realign :: "string \<Rightarrow> MetricRequest \<Rightarrow> MetricRequest option" where
  "realign alignTo r = map_option (\<lambda>t. r\<lparr>From := t\<rparr>) (StartAlignTo (From r) alignTo)"

definition moving_functions :: "string list" where
  "moving_functions = [''movingAverage'', ''movingMedian'', ''movingMin'', ''movingMax'', ''movingSum'',
     ''movingWindow'', ''exponentialMovingAverage'']"

text \<open>
  The switch on the function name: \<open>r\<close> are the requests of the positional arguments, \<open>ref\<close> those
  of the named argument \<open>referenceSeries\<close>. An error returns no requests at all.
\<close>

definition function_requests :: "go_env \<Rightarrow> expr \<Rightarrow> MetricRequest list \<Rightarrow> MetricRequest list \<Rightarrow> MetricRequest list" where
  "function_requests E e ref r =
     (let f = target e
      in if f = ''transformNull'' then r @ ref
         else if f = ''consolidateBy''
         then (case GetStringArg e 1 of
                 Inl _ \<Rightarrow> r
               | Inr function \<Rightarrow> map (\<lambda>q. q\<lparr>ConsolidationFunc := function\<rparr>) r)
         else if f = ''timeShift''
         then (case GetIntervalArg E e 1 (- 1) of Inl _ \<Rightarrow> [] | Inr offs \<Rightarrow> map (shift_both offs) r)
         else if f = ''timeStack''
         then (case (GetIntervalArg E e 1 (- 1), GetIntArg e 2, GetIntArg e 3) of
                 (Inr offs, Inr start, Inr stop) \<Rightarrow> timeStack_requests offs start stop r
               | _ \<Rightarrow> [])
         else if f = ''holtWintersForecast''
         then (case GetIntervalNamedOrPosArgDefault E e ''bootstrapInterval'' 1 1 DefaultBootstrapInterval of
                 Inl _ \<Rightarrow> [] | Inr bootstrapInterval \<Rightarrow> map (shift_from (- bootstrapInterval)) r)
         else if f = ''holtWintersConfidenceBands'' \<or> f = ''holtWintersConfidenceArea''
         then (case GetIntervalNamedOrPosArgDefault E e ''bootstrapInterval'' 2 1 DefaultBootstrapInterval of
                 Inl _ \<Rightarrow> [] | Inr bootstrapInterval \<Rightarrow> map (shift_from (- bootstrapInterval)) r)
         else if f = ''holtWintersAberration''
         then (case GetIntervalNamedOrPosArgDefault E e ''bootstrapInterval'' 2 1 DefaultBootstrapInterval of
                 Inl _ \<Rightarrow> []
               | Inr bootstrapInterval \<Rightarrow>
                   r @ map (\<lambda>q. \<lparr>Metric = Metric q, ConsolidationFunc = [],
                          From = From q - bootstrapInterval, Until = Until q\<rparr>) r)
         else if f \<in> set moving_functions
         then (if length (args e) < 2 then []
               else if etype (args e ! 1) \<noteq> EtString then r
               else (case GetIntervalArg E e 1 1 of Inl _ \<Rightarrow> [] | Inr offs \<Rightarrow> map (shift_from (- offs)) r))
         else if f = ''hitcount''
         then (if length (args e) < 2 then []
               else (case GetBoolNamedOrPosArgDefault e ''alignToInterval'' 2 False of
                       Inl _ \<Rightarrow> []
                     | Inr False \<Rightarrow> r
                     | Inr True \<Rightarrow>
                         (case GetIntervalArg E e 1 1 of
                            Inl _ \<Rightarrow> []
                          | Inr interval \<Rightarrow> map (\<lambda>q. q\<lparr>From := hitcount_start interval (From q)\<rparr>) r)))
         else if f = ''smartSummarize''
         then (if length (args e) < 2 then []
               else (case smartSummarize_align e of
                       None \<Rightarrow> []
                     | Some alignTo \<Rightarrow>
                         if alignTo = [] then r
                         else (case opt_map (realign alignTo) r of None \<Rightarrow> [] | Some r' \<Rightarrow> r')))
         else r)"

lemma args_size [termination_simp]: "a \<in> set (args e) \<Longrightarrow> size a < size e"
  by (cases e) (auto dest!: size_list_estimation'[OF _ order_refl, of a _ size])

lemma named_size [termination_simp]: "getNamedArg e k = Some a \<Longrightarrow> size a < size e"
proof -
  assume "getNamedArg e k = Some a"
  then have "(k, a) \<in> set (namedArgs e)"
    by (simp add: getNamedArg_def map_of_SomeD)
  then show ?thesis
    by (cases e) (auto dest!: size_list_estimation'[OF _ order_refl, of _ _ "size_prod (\<lambda>x. 0) size"])
qed

function Metrics :: "go_env \<Rightarrow> expr \<Rightarrow> int \<Rightarrow> int \<Rightarrow> MetricRequest list" where
  "Metrics E e start stop =
     (case etype e of
        EtName \<Rightarrow> [\<lparr>Metric = target e, ConsolidationFunc = [], From = start, Until = stop\<rparr>]
      | EtFunc \<Rightarrow>
          function_requests E e
            (case getNamedArg e ''referenceSeries'' of None \<Rightarrow> [] | Some a \<Rightarrow> Metrics E a start stop)
            (concat (map (\<lambda>a. Metrics E a start stop) (args e)))
      | _ \<Rightarrow> [])"
  by pat_completeness auto
termination
  by (relation "measure (\<lambda>(E, e, f, u). size e)") (auto intro: args_size named_size)

declare Metrics.simps [simp del]

section \<open>What is requested\<close>

text \<open>The series names an expression reads: its name leaves, those of \<open>referenceSeries\<close> included.\<close>

function leaf_names :: "expr \<Rightarrow> string set" where
  "leaf_names e =
     (case etype e of
        EtName \<Rightarrow> {target e}
      | EtFunc \<Rightarrow>
          (case getNamedArg e ''referenceSeries'' of None \<Rightarrow> {} | Some a \<Rightarrow> leaf_names a)
          \<union> \<Union> (set (map leaf_names (args e)))
      | _ \<Rightarrow> {})"
  by pat_completeness auto
termination
  by (relation "measure size") (auto intro: args_size named_size)

declare leaf_names.simps [simp del]

text \<open>No branch of the switch invents a metric.\<close>

definition names_in :: "string set \<Rightarrow> MetricRequest list \<Rightarrow> bool" where
  "names_in S r \<longleftrightarrow> (\<forall>q\<in>set r. Metric q \<in> S)"

lemma names_in_simps [simp]:
  "names_in S []" "names_in S (r @ r') = (names_in S r \<and> names_in S r')"
  "names_in S (concat rs) = (\<forall>r\<in>set rs. names_in S r)"
  by (auto simp: names_in_def)

lemma names_in_map: "(\<And>q. Metric (f q) = Metric q) \<Longrightarrow> names_in S (map f r) = names_in S r"
  by (simp add: names_in_def)

lemma names_in_shift [simp]:
  "names_in S (map (shift_from d) r) = names_in S r" "names_in S (map (shift_both d) r) = names_in S r"
  "names_in S (map (\<lambda>q. q\<lparr>ConsolidationFunc := c\<rparr>) r) = names_in S r"
  "names_in S (map (\<lambda>q. q\<lparr>From := g (From q)\<rparr>) r) = names_in S r"
  "names_in S (map (\<lambda>q. \<lparr>Metric = Metric q, ConsolidationFunc = c, From = From q - d, Until = Until q\<rparr>) r) = names_in S r"
  by (rule names_in_map, simp add: shift_from_def shift_both_def)+

lemma names_in_realign: "opt_map (realign a) r = Some r' \<Longrightarrow> names_in S r \<Longrightarrow> names_in S r'"
  by (induction r arbitrary: r') (auto simp: realign_def names_in_def split: option.splits)

lemma names_in_timeStack: "names_in S r \<Longrightarrow> names_in S (timeStack_requests offs a b r)"
  by (auto simp: timeStack_requests_def names_in_def)

lemma names_in_cases:
  "names_in S x \<Longrightarrow> names_in S y \<Longrightarrow> names_in S (if c then x else y)"
  "(\<And>l. names_in S (f l)) \<Longrightarrow> (\<And>v. names_in S (g v)) \<Longrightarrow> names_in S (case s of Inl l \<Rightarrow> f l | Inr v \<Rightarrow> g v)"
  "names_in S x \<Longrightarrow> (\<And>v. names_in S (h v)) \<Longrightarrow> names_in S (case t of None \<Rightarrow> x | Some v \<Rightarrow> h v)"
  "names_in S x \<Longrightarrow> names_in S y \<Longrightarrow> names_in S (case b of True \<Rightarrow> x | False \<Rightarrow> y)"
  by (auto split: sum.split option.split bool.split)

lemma names_in_realigned:
  "names_in S r \<Longrightarrow> names_in S (case opt_map (realign a) r of None \<Rightarrow> [] | Some r' \<Rightarrow> r')"
  by (auto split: option.split intro: names_in_realign)

lemma function_requests_names:
  assumes "names_in S r" "names_in S ref"
  shows "names_in S (function_requests E e ref r)"
  unfolding function_requests_def Let_def prod.case
  by (intro names_in_realigned names_in_cases names_in_timeStack) (simp_all add: assms)

lemma leaf_names_cases:
  "etype e = EtName \<Longrightarrow> leaf_names e = {target e}"
  "etype e = EtFunc \<Longrightarrow> a \<in> set (args e) \<Longrightarrow> leaf_names a \<subseteq> leaf_names e"
  "etype e = EtFunc \<Longrightarrow> getNamedArg e ''referenceSeries'' = Some a \<Longrightarrow> leaf_names a \<subseteq> leaf_names e"
  by (subst leaf_names.simps, auto)+

lemma Metrics_names_in: "names_in (leaf_names e) (Metrics E e start stop)"
proof (induction E e start stop rule: Metrics.induct)
  case (1 E e start stop)
  have mono: "names_in T r" if "names_in S r" "S \<subseteq> T" for S T r
    using that by (auto simp: names_in_def)
  show ?case
  proof (cases "etype e")
    case EtFunc
    have "names_in (leaf_names e) (concat (map (\<lambda>a. Metrics E a start stop) (args e)))"
      using 1(2)[OF EtFunc] leaf_names_cases(2)[OF EtFunc] mono by simp blast
    moreover have "names_in (leaf_names e)
        (case getNamedArg e ''referenceSeries'' of None \<Rightarrow> [] | Some a \<Rightarrow> Metrics E a start stop)"
      using 1(1)[OF EtFunc] leaf_names_cases(3)[OF EtFunc] mono by (auto split: option.split)
    ultimately show ?thesis
      using EtFunc function_requests_names by (subst Metrics.simps) simp
  qed (subst Metrics.simps, simp add: names_in_def leaf_names_cases)+
qed

text \<open>The functions with an arm of the switch.\<close>

definition special_functions :: "string list" where
  "special_functions = moving_functions @ [''transformNull'', ''consolidateBy'', ''timeShift'', ''timeStack'',
     ''holtWintersForecast'', ''holtWintersConfidenceBands'', ''holtWintersConfidenceArea'',
     ''holtWintersAberration'', ''hitcount'', ''smartSummarize'']"

text \<open>The name leaves from left to right, and expressions without special functions.\<close>

function leaves :: "expr \<Rightarrow> string list" where
  "leaves e =
     (case etype e of EtName \<Rightarrow> [target e] | EtFunc \<Rightarrow> concat (map leaves (args e)) | _ \<Rightarrow> [])"
  by pat_completeness auto
termination
  by (relation "measure size") (auto intro: args_size)

function ordinary :: "expr \<Rightarrow> bool" where
  "ordinary e =
     (etype e = EtFunc \<longrightarrow> target e \<notin> set special_functions \<and> list_all ordinary (args e))"
  by pat_completeness auto
termination
  by (relation "measure size") (auto intro: args_size)

declare leaves.simps [simp del] ordinary.simps [simp del]

lemma function_requests_ordinary:
  "target e \<notin> set special_functions \<Longrightarrow> function_requests E e ref r = r"
  unfolding special_functions_def function_requests_def Let_def
  by (simp only: set_append Un_iff set_simps insert_iff empty_iff de_Morgan_disj if_False simp_thms)

text \<open>
  an expression of ordinary functions asks for exactly its name leaves, from left to right,
  each over the whole requested range.
\<close>

lemma Metrics_ordinary:
  "ordinary e \<Longrightarrow>
   Metrics E e start stop =
     map (\<lambda>n. \<lparr>Metric = n, ConsolidationFunc = [], From = start, Until = stop\<rparr>) (leaves e)"
proof (induction E e start stop rule: Metrics.induct)
  case (1 E e start stop)
  show ?case
  proof (cases "etype e")
    case EtFunc
    then have o: "target e \<notin> set special_functions" "\<forall>a\<in>set (args e). ordinary a"
      using 1(3) by (subst (asm) ordinary.simps, simp add: list_all_iff)+
    then have "map (\<lambda>a. Metrics E a start stop) (args e) =
        map (\<lambda>a. map (\<lambda>n. \<lparr>Metric = n, ConsolidationFunc = [], From = start, Until = stop\<rparr>) (leaves a)) (args e)"
      using 1(2)[OF EtFunc] by simp
    then show ?thesis
      using EtFunc o(1)
      by (subst Metrics.simps, subst leaves.simps) (simp add: function_requests_ordinary map_concat comp_def cong: map_cong)
  qed (subst Metrics.simps, subst leaves.simps, simp)+
qed

lemma Metrics_ordinary_witness:
  "ordinary (NewExprTyped ''sumSeries'' [NewNameExpr ''a'', NewExprTyped ''scale'' [NewNameExpr ''b'']]) \<and>
   (\<forall>E. Metrics E (NewExprTyped ''sumSeries'' [NewNameExpr ''a'', NewExprTyped ''scale'' [NewNameExpr ''b'']]) 60 120 =
     [\<lparr>Metric = ''a'', ConsolidationFunc = [], From = 60, Until = 120\<rparr>,
      \<lparr>Metric = ''b'', ConsolidationFunc = [], From = 60, Until = 120\<rparr>])"
proof -
  let ?e = "NewExprTyped ''sumSeries'' [NewNameExpr ''a'', NewExprTyped ''scale'' [NewNameExpr ''b'']]"
  have "ordinary ?e" "leaves ?e = [''a'', ''b'']" by code_simp+
  then show ?thesis using Metrics_ordinary[of ?e] by simp
qed

text \<open>
  whatever the functions do to the time ranges, no request names a metric that is not a
  name leaf of the expression.
\<close>

lemma Metrics_no_foreign: "Metric ` set (Metrics E e start stop) \<subseteq> leaf_names e"
  using Metrics_names_in by (auto simp: names_in_def)

section \<open>Templates\<close>

text \<open>
  A template (package \<open>text/template\<close>, a parameter) takes the argument text, the printed
  positional arguments and the printed named arguments, and gives a text or fails. A template
  may name itself, so the expansion takes fuel: \<open>None\<close> means it has not ended.
\<close>

type_synonym templates = "string \<Rightarrow> (string \<Rightarrow> string list \<Rightarrow> (string \<times> string) list \<Rightarrow> string option) option"

datatype expand_error = ErrTemplate | ErrParse parser_error

definition expand_head :: "go_env \<Rightarrow> templates \<Rightarrow> expr \<Rightarrow> expand_error + expr" where
  "expand_head E tpl e =
     (if etype e = EtName \<or> etype e = EtFunc
      then (case tpl (target e) of
              None \<Rightarrow> Inr e
            | Some t \<Rightarrow>
                (case t (argString e) (map (ToString E) (args e)) (map (\<lambda>(k, v). (k, ToString E v)) (namedArgs e)) of
                   None \<Rightarrow> Inl ErrTemplate
                 | Some b \<Rightarrow> (case parse_inner E b of POk x _ \<Rightarrow> Inr x | PErr err _ \<Rightarrow> Inl (ErrParse err)
                               | _ \<Rightarrow> Inr e)))
      else Inr e)"

text \<open>The two loops over the arguments stop at the first error.\<close>

fun expand_each :: "('a \<Rightarrow> (expand_error + 'b) option) \<Rightarrow> 'a list \<Rightarrow> (expand_error + 'b list) option" where
  "expand_each f [] = Some (Inr [])"
| "expand_each f (x # xs) =
     (case f x of
        None \<Rightarrow> None
      | Some (Inl err) \<Rightarrow> Some (Inl err)
      | Some (Inr y) \<Rightarrow>
          (case expand_each f xs of
             None \<Rightarrow> None
           | Some (Inl err) \<Rightarrow> Some (Inl err)
           | Some (Inr ys) \<Rightarrow> Some (Inr (y # ys))))"

definition expand_named :: "(expr \<Rightarrow> (expand_error + expr) option) \<Rightarrow> string \<times> expr \<Rightarrow> (expand_error + string \<times> expr) option" where
  "expand_named f p = map_option (\<lambda>r. case r of Inl err \<Rightarrow> Inl err | Inr v \<Rightarrow> Inr (fst p, v)) (f (snd p))"

definition set_args :: "expr \<Rightarrow> expr list \<Rightarrow> (string \<times> expr) list \<Rightarrow> expr" where
  "set_args e as ns = Expr (target e) (etype e) (val e) (valStr e) as ns (argString e)"

primrec expandExpr :: "go_env \<Rightarrow> templates \<Rightarrow> nat \<Rightarrow> expr \<Rightarrow> (expand_error + expr) option" where
  "expandExpr E tpl 0 e = None"
| "expandExpr E tpl (Suc n) e =
     (case expand_head E tpl e of
        Inl err \<Rightarrow> Some (Inl err)
      | Inr x \<Rightarrow>
          (case expand_each (expandExpr E tpl n) (args x) of
             None \<Rightarrow> None
           | Some (Inl err) \<Rightarrow> Some (Inl err)
           | Some (Inr as) \<Rightarrow>
               (case expand_each (expand_named (expandExpr E tpl n)) (namedArgs x) of
                  None \<Rightarrow> None
                | Some (Inl err) \<Rightarrow> Some (Inl err)
                | Some (Inr ns) \<Rightarrow> Some (Inr (set_args x as ns)))))"

text \<open>\<open>ParseExpr\<close>: parse, then expand; the rest of the input is the parser's.\<close>

definition ParseExpr :: "go_env \<Rightarrow> templates \<Rightarrow> nat \<Rightarrow> string \<Rightarrow> (expand_error + expr \<times> string) option" where
  "ParseExpr E tpl n e =
     (case parse_inner E e of
        PErr err _ \<Rightarrow> Some (Inl (ErrParse err))
      | POk x rest \<Rightarrow>
          map_option (\<lambda>r. case r of Inl err \<Rightarrow> Inl err | Inr y \<Rightarrow> Inr (y, rest)) (expandExpr E tpl n x)
      | _ \<Rightarrow> None)"

lemma expand_each_id: "(\<And>x. x \<in> set xs \<Longrightarrow> f x = Some (Inr x)) \<Longrightarrow> expand_each f xs = Some (Inr xs)"
  by (induction xs) auto

lemma named_size_mem: "(k, a) \<in> set (namedArgs e) \<Longrightarrow> size a < size e"
  by (cases e) (auto dest!: size_list_estimation'[OF _ order_refl, of _ _ "size_prod (\<lambda>x. 0) size"])

lemma expandExpr_no_templates: "size e < n \<Longrightarrow> expandExpr E (\<lambda>_. None) n e = Some (Inr e)"
proof (induction n arbitrary: e)
  case (Suc n)
  have "expand_each (expandExpr E (\<lambda>_. None) n) (args e) = Some (Inr (args e))"
    using Suc args_size by (intro expand_each_id) fastforce
  moreover have "expand_each (expand_named (expandExpr E (\<lambda>_. None) n)) (namedArgs e) = Some (Inr (namedArgs e))"
    using Suc named_size_mem by (intro expand_each_id) (fastforce simp: expand_named_def)
  ultimately show ?case
    by (simp add: expand_head_def set_args_def)
qed simp

text \<open>
  without templates \<open>ParseExpr\<close> returns on every input, and what it returns is what the
  parser parsed.
\<close>

lemma ParseExpr_no_templates:
  "case parse_inner E e of
     POk x rest \<Rightarrow> ParseExpr E (\<lambda>_. None) (Suc (size x) + n) e = Some (Inr (x, rest))
   | PErr err rest \<Rightarrow> ParseExpr E (\<lambda>_. None) n e = Some (Inl (ErrParse err))
   | _ \<Rightarrow> False"
  using parse_inner_outcome[of e E] expandExpr_no_templates
  by (cases "parse_inner E e") (simp_all add: ParseExpr_def del: expandExpr.simps)

definition self_call :: templates where
  "self_call = (\<lambda>n. if n = ''f'' then Some (\<lambda>_ _ _. Some ''g(f())'') else None)"

lemma expand_self:
  "expand_head E self_call (to_expr E (ACall ''f'' [])) = Inr (to_expr E (ACall ''g'' [Pos (ACall ''f'' [])]))"
proof -
  have "ast_ok E (ACall ''g'' [Pos (ACall ''f'' [])])" by code_simp
  from parse_inner_render[OF this, of "[]"]
  have "parse_inner E ''g(f())'' = POk (to_expr E (ACall ''g'' [Pos (ACall ''f'' [])])) []"
    by (simp add: delim_def)
  then show ?thesis by (simp add: expand_head_def self_call_def call_expr_def)
qed

text \<open>
  a template whose text names the template never finishes expanding: nothing bounds the
  expansion, so in Go the recursion ends in a stack overflow.
\<close>

lemma expandExpr_self_call: "expandExpr E self_call n (to_expr E (ACall ''f'' [])) = None"
proof (induction n)
  case (Suc n)
  have "args (to_expr E (ACall ''g'' [Pos (ACall ''f'' [])])) = [to_expr E (ACall ''f'' [])]"
    by (simp add: call_expr_def)
  then show ?case using Suc expand_self[of E] by (simp del: to_expr.simps)
qed simp

end
