(* ===== verification/Series_Sort.thy ===== *)
theory Series_Sort
  imports MetricData Metrics "HOL-Library.Char_ord" "HOL-Library.List_Lexorder" "HOL-Library.Product_Lexorder"
begin

text \<open>
  The order of the fetched series, \<open>expr/sort.go\<close>: the series of a request with wildcards are
  sorted by the parts of their names that the wildcards stand for, where a brace list keeps the
  order in which it names its alternatives. \<open>sort.Stable\<close> is \<open>sort_key\<close>, which is stable, and the
  order on strings is that of Go, by bytes. The glob matching is \<open>filepath.Match\<close> of the standard
  library; since the code ignores its error, a malformed pattern is one that does not match.
\<close>

section \<open>Glob patterns\<close>

text \<open>\<open>getEsc\<close>: a possibly escaped rune of a character class.\<close>

definition getEsc :: "string \<Rightarrow> (nat \<times> string) option" where
  "getEsc chunk0 =
     (if chunk0 = [] \<or> hd chunk0 = CHR ''-'' \<or> hd chunk0 = CHR '']'' then None
      else (let chunk = (if hd chunk0 = CHR 0x5C then tl chunk0 else chunk0)
            in if chunk = [] then None
               else (case decode_rune chunk of (r, n) \<Rightarrow>
                       if (r = RuneError \<and> n = 1) \<or> drop n chunk = [] then None else Some (r, drop n chunk))))"

lemma getEsc_shorter: "getEsc s = Some (r, t) \<Longrightarrow> length t < length s"
  using decode_rune_shorter[of s] decode_rune_shorter[of "tl s"]
  by (cases s) (auto simp: getEsc_def Let_def split: if_splits prod.splits)

text \<open>The ranges of a class, up to its closing bracket: whether the rune is in one, and the rest.\<close>

function class_ranges :: "nat \<Rightarrow> bool \<Rightarrow> bool \<Rightarrow> string \<Rightarrow> (bool \<times> string) option" where
  "class_ranges r inside some chunk =
     (if chunk \<noteq> [] \<and> hd chunk = CHR '']'' \<and> some then Some (inside, tl chunk)
      else (case getEsc chunk of
              None \<Rightarrow> None
            | Some (lo, chunk1) \<Rightarrow>
                if hd chunk1 = CHR ''-''
                then (case getEsc (tl chunk1) of
                        None \<Rightarrow> None
                      | Some (hi, chunk2) \<Rightarrow> class_ranges r (inside \<or> lo \<le> r \<and> r \<le> hi) True chunk2)
                else class_ranges r (inside \<or> lo = r) True chunk1))"
  by pat_completeness auto
termination
  by (relation "measure (\<lambda>(r, i, s, c). length c)") (auto dest!: getEsc_shorter)

declare class_ranges.simps [simp del]

lemma class_ranges_shorter: "class_ranges r i b s = Some (m, t) \<Longrightarrow> length t < length s"
proof (induction r i b s arbitrary: m t rule: class_ranges.induct)
  case (1 r i b s)
  show ?case
  proof (cases "s \<noteq> [] \<and> hd s = CHR '']'' \<and> b")
    case True
    then show ?thesis using "1.prems" by (subst (asm) class_ranges.simps, cases s) auto
  next
    case False
    then obtain lo s1 where g: "getEsc s = Some (lo, s1)"
      using "1.prems" by (subst (asm) class_ranges.simps) (auto split: option.splits)
    show ?thesis
    proof (cases "hd s1 = CHR ''-''")
      case True
      then obtain hi s2 where h: "getEsc (tl s1) = Some (hi, s2)"
        "class_ranges r (i \<or> lo \<le> r \<and> r \<le> hi) True s2 = Some (m, t)"
        using "1.prems" False g by (subst (asm) class_ranges.simps) (auto split: option.splits)
      then have "length t < length s2" using "1.IH"(1)[OF _ g] False True by blast
      then show ?thesis using getEsc_shorter[OF g] getEsc_shorter[OF h(1)] by simp
    next
      case no: False
      then have "class_ranges r (i \<or> lo = r) True s1 = Some (m, t)"
        using "1.prems" False g by (subst (asm) class_ranges.simps) auto
      then have "length t < length s1" using "1.IH"(2)[OF _ g] False no by blast
      then show ?thesis using getEsc_shorter[OF g] by simp
    qed
  qed
qed

text \<open>\<open>matchChunk\<close>: the rest of the name after a part of the pattern without a star.\<close>

function matchChunk :: "string \<Rightarrow> string \<Rightarrow> string option" where
  "matchChunk chunk s =
     (if chunk = [] then Some s
      else if s = [] then None
      else if hd chunk = CHR ''[''
      then (let c1 = tl chunk; negated = (c1 \<noteq> [] \<and> hd c1 = CHR ''^'')
            in case decode_rune s of (r, n) \<Rightarrow>
                 (case class_ranges r False False (if negated then tl c1 else c1) of
                    None \<Rightarrow> None
                  | Some (m, rest) \<Rightarrow> if m = negated then None else matchChunk rest (drop n s)))
      else if hd chunk = CHR ''?''
      then (if hd s = CHR ''/'' then None else matchChunk (tl chunk) (drop (snd (decode_rune s)) s))
      else (let c1 = (if hd chunk = CHR 0x5C then tl chunk else chunk)
            in if c1 = [] \<or> hd c1 \<noteq> hd s then None else matchChunk (tl c1) (tl s)))"
  by pat_completeness auto
termination
proof (relation "measure (\<lambda>(c, s). length c)", goal_cases)
  case (2 chunk s x xa r n x2 m rest)
  then have "length rest < length (if xa then tl x else x)" by (auto dest!: class_ranges_shorter)
  with 2 show ?case by (cases chunk) (auto split: if_splits)
next
  case (4 chunk s x)
  then show ?case by (cases chunk) (auto split: if_splits)
qed auto

declare matchChunk.simps [simp del]

text \<open>\<open>scanChunk\<close>: whether the pattern starts with a star, the part up to the next star, the rest.\<close>

fun scan_len :: "bool \<Rightarrow> string \<Rightarrow> nat" where
  "scan_len inrange [] = 0"
| "scan_len inrange (c # cs) =
     (if c = CHR 0x5C then (case cs of [] \<Rightarrow> 1 | _ # cs' \<Rightarrow> 2 + scan_len inrange cs')
      else if c = CHR ''['' then Suc (scan_len True cs)
      else if c = CHR '']'' then Suc (scan_len False cs)
      else if c = CHR ''*'' \<and> \<not> inrange then 0
      else Suc (scan_len inrange cs))"

definition scanChunk :: "string \<Rightarrow> bool \<times> string \<times> string" where
  "scanChunk pattern =
     (let p = dropWhile (\<lambda>c. c = CHR ''*'') pattern; i = scan_len False p
      in (p \<noteq> pattern, take i p, drop i p))"

text \<open>The first position after which the part matches; the last part must use up the name.\<close>

fun star_find :: "string \<Rightarrow> bool \<Rightarrow> string \<Rightarrow> string option" where
  "star_find chunk lst [] = None"
| "star_find chunk lst (c # name) =
     (if c = CHR ''/'' then None
      else (case matchChunk chunk name of
              Some t \<Rightarrow> if lst \<and> t \<noteq> [] then star_find chunk lst name else Some t
            | None \<Rightarrow> star_find chunk lst name))"

lemma scanChunk_shorter: "pattern \<noteq> [] \<Longrightarrow> scanChunk pattern = (star, chunk, rest) \<Longrightarrow> length rest < length pattern"
proof -
  assume a: "pattern \<noteq> []" "scanChunk pattern = (star, chunk, rest)"
  define p where "p = dropWhile (\<lambda>c. c = CHR ''*'') pattern"
  have rest: "rest = drop (scan_len False p) p" using a(2) by (auto simp: scanChunk_def Let_def p_def)
  show ?thesis
  proof (cases "p = pattern")
    case True
    then obtain c cs where p: "p = c # cs" "c \<noteq> CHR ''*''"
      using a(1) hd_dropWhile[of "\<lambda>c. c = CHR ''*''" pattern] by (cases p) (auto simp: p_def)
    then have "0 < scan_len False p" by (simp split: list.split)
    then show ?thesis using True a(1) by (simp add: rest)
  next
    case False
    have "length p \<le> length pattern" unfolding p_def by (rule length_dropWhile_le)
    moreover have "length p \<noteq> length pattern"
      using False by (metis p_def append_eq_conv_conj drop_0 dropWhile_eq_drop append_same_eq takeWhile_dropWhile_id self_append_conv2 length_append add_cancel_left_left length_0_conv)
    ultimately show ?thesis by (simp add: rest)
  qed
qed

function filepath_Match :: "string \<Rightarrow> string \<Rightarrow> bool" where
  "filepath_Match pattern name =
     (if pattern = [] then name = []
      else (case scanChunk pattern of (star, chunk, rest) \<Rightarrow>
              if star \<and> chunk = [] then CHR ''/'' \<notin> set name
              else (case matchChunk chunk name of
                      Some t \<Rightarrow>
                        if t = [] \<or> rest \<noteq> [] then filepath_Match rest t
                        else if star
                        then (case star_find chunk (rest = []) name of None \<Rightarrow> False | Some t \<Rightarrow> filepath_Match rest t)
                        else False
                    | None \<Rightarrow>
                        if star
                        then (case star_find chunk (rest = []) name of None \<Rightarrow> False | Some t \<Rightarrow> filepath_Match rest t)
                        else False)))"
  by pat_completeness auto
termination
  by (relation "measure (\<lambda>(p, n). length p)") (auto dest: scanChunk_shorter[OF _ sym])

declare filepath_Match.simps [simp del]


section \<open>Sorting by a part of the name\<close>

definition getPart :: "MetricData \<Rightarrow> nat \<Rightarrow> string" where
  "getPart metric part =
     (let parts = Split1 (Name metric) (CHR ''.'')
      in if part \<ge> length parts then [] else parts ! part)"

text \<open>
  One pass over the series with their parts and marks: those whose part matches are taken in
  order and marked as used.
\<close>

fun alt_pass :: "string \<Rightarrow> (MetricData \<times> string \<times> bool) list \<Rightarrow> MetricData list \<times> (MetricData \<times> string \<times> bool) list" where
  "alt_pass glob [] = ([], [])"
| "alt_pass glob ((m, p, used) # src) =
     (case alt_pass glob src of (out, src') \<Rightarrow>
        if \<not> used \<and> filepath_Match glob p then (m # out, (m, p, True) # src')
        else (out, (m, p, used) # src'))"

fun alt_passes :: "string list \<Rightarrow> (MetricData \<times> string \<times> bool) list \<Rightarrow> MetricData list" where
  "alt_passes [] src = map fst (filter (\<lambda>(m, p, used). \<not> used) src)"
| "alt_passes (glob # globs) src = (case alt_pass glob src of (out, src') \<Rightarrow> out @ alt_passes globs src')"

text \<open>The globs of the alternatives, \<open>None\<close> when there is no brace list.\<close>

definition brace_globs :: "string \<Rightarrow> string list option" where
  "brace_globs pattern =
     (case (index_byte (CHR ''{'') pattern, index_byte (CHR ''}'') pattern) of
        (Some bStart, Some bEnd) \<Rightarrow>
          if bEnd \<le> bStart then None
          else Some (map (\<lambda>alternative. take bStart pattern @ alternative @ drop (bEnd + 1) pattern)
                 (Split1 (take (bEnd - (bStart + 1)) (drop (bStart + 1) pattern)) (CHR '','')))
      | _ \<Rightarrow> None)"

definition sortByBraces :: "MetricData list \<Rightarrow> nat \<Rightarrow> string \<Rightarrow> MetricData list" where
  "sortByBraces metrics part pattern =
     (case brace_globs pattern of
        None \<Rightarrow> metrics
      | Some globs \<Rightarrow> alt_passes globs (map (\<lambda>m. (m, getPart m part, False)) metrics))"

definition sort_segment :: "string list \<Rightarrow> nat \<Rightarrow> MetricData list \<Rightarrow> MetricData list" where
  "sort_segment parts i metrics =
     (let ms = (if ContainsAny (parts ! i) ''*?[{'' then sort_key (\<lambda>m. getPart m i) metrics else metrics)
      in if CHR ''{'' \<in> set (parts ! i) then sortByBraces ms i (parts ! i) else ms)"

definition SortMetrics :: "MetricRequest \<Rightarrow> MetricData list \<Rightarrow> MetricData list" where
  "SortMetrics mfetch metrics =
     (if \<not> ContainsAny (Metric mfetch) ''*?[{'' then metrics
      else (let parts = Split1 (Metric mfetch) (CHR ''.'')
            in fold (sort_segment parts) (rev [0..<length parts]) metrics))"

section \<open>The order it makes\<close>

text \<open>The first alternative that matches a part, and the keys of a series.\<close>

fun first_match :: "string list \<Rightarrow> string \<Rightarrow> nat" where
  "first_match [] p = 0"
| "first_match (g # gs) p = (if filepath_Match g p then 0 else Suc (first_match gs p))"

definition brace_key :: "string \<Rightarrow> string \<Rightarrow> nat" where
  "brace_key pattern p = (case brace_globs pattern of None \<Rightarrow> 0 | Some globs \<Rightarrow> first_match globs p)"

definition series_key :: "string list \<Rightarrow> MetricData \<Rightarrow> (nat \<times> string) list" where
  "series_key parts m =
     map (\<lambda>i. (brace_key (parts ! i) (getPart m i), getPart m i))
       (filter (\<lambda>i. ContainsAny (parts ! i) ''*?[{'') [0..<length parts])"

lemma sorted_groups:
  fixes f :: "'a \<Rightarrow> 'b :: linorder"
  assumes "sorted_wrt (\<lambda>x y. f x \<le> f y) zs" "\<And>k. sorted_wrt Q (filter (\<lambda>x. f x = k) zs)"
  shows "sorted_wrt (\<lambda>x y. f x < f y \<or> (f x = f y \<and> Q x y)) zs"
  using assms
proof (induction zs)
  case (Cons z zs)
  have "sorted_wrt Q (filter (\<lambda>x. f x = k) zs)" for k
    using Cons.prems(2)[of k] by (simp split: if_splits)
  moreover have "f z < f y \<or> (f z = f y \<and> Q z y)" if "y \<in> set zs" for y
    using Cons.prems(1) Cons.prems(2)[of "f z"] that by (auto simp: le_less)
  ultimately show ?case using Cons by simp
qed simp

lemma sort_key_twice:
  fixes f :: "'a \<Rightarrow> 'b :: linorder" and g :: "'a \<Rightarrow> 'c :: linorder" and h :: "'a \<Rightarrow> 'd :: linorder"
  assumes h: "\<And>x y. h x \<le> h y \<longleftrightarrow> f x < f y \<or> (f x = f y \<and> g x \<le> g y)"
  shows "sort_key f (sort_key g xs) = sort_key h xs"
proof -
  have eq: "h x = h y \<longleftrightarrow> f x = f y \<and> g x = g y" for x y
    by (auto simp: order.eq_iff[of "h x" "h y"] h)
  let ?zs = "sort_key f (sort_key g xs)"
  have "sort_key h xs = ?zs"
  proof (rule properties_for_sort_key)
    fix k
    have split: "filter (\<lambda>x. h k = h x) ys = filter (\<lambda>x. g x = g k) (filter (\<lambda>x. f x = f k) ys)"
        "filter (\<lambda>x. h k = h x) ys = filter (\<lambda>x. f x = f k) (filter (\<lambda>x. g x = g k) ys)" for ys
    proof -
      have "(\<lambda>x. h k = h x) = (\<lambda>x. f x = f k \<and> g x = g k)" 
        by (rule ext) (simp only: eq eq_commute[of "f k"] eq_commute[of "g k"])
      then show "filter (\<lambda>x. h k = h x) ys = filter (\<lambda>x. g x = g k) (filter (\<lambda>x. f x = f k) ys)"
        "filter (\<lambda>x. h k = h x) ys = filter (\<lambda>x. f x = f k) (filter (\<lambda>x. g x = g k) ys)"
        by (simp_all only: filter_filter) (simp add: conj_commute)
    qed
    have "filter (\<lambda>x. h k = h x) ?zs = filter (\<lambda>x. h k = h x) (sort_key g xs)"
      unfolding split(1) by (simp only: sort_key_stable)
    also have "\<dots> = filter (\<lambda>x. h k = h x) xs" unfolding split(2) by (simp only: sort_key_stable)
    finally show "filter (\<lambda>x. h k = h x) ?zs = filter (\<lambda>x. h k = h x) xs" .
  next
    have "sorted_wrt (\<lambda>x y. f x < f y \<or> (f x = f y \<and> g x \<le> g y)) ?zs"
    proof (rule sorted_groups)
      show "sorted_wrt (\<lambda>x y. f x \<le> f y) ?zs"
        using sorted_sort_key[of f "sort_key g xs"] by (simp add: sorted_map)
      show "sorted_wrt (\<lambda>x y. g x \<le> g y) (filter (\<lambda>x. f x = k) ?zs)" for k
        using sorted_sort_key[of g xs] by (simp only: sort_key_stable) (simp add: sorted_map sorted_wrt_filter)
    qed
    then show "sorted (map h ?zs)" by (simp add: sorted_map h)
  qed simp
  then show ?thesis by simp
qed

text \<open>The passes over the alternatives are a stable sort by the first alternative that matches.\<close>

lemma alt_pass_unused:
  "alt_pass g src = (map fst (filter (\<lambda>(m, p, u). \<not> u \<and> filepath_Match g p) src),
     map (\<lambda>(m, p, u). (m, p, u \<or> filepath_Match g p)) src)"
proof (induction g src rule: alt_pass.induct)
  case (2 g m p u src)
  then show ?case by (cases u; cases "filepath_Match g p") simp_all
qed simp

lemma insort_key_skip:
  "\<forall>y\<in>set ys. f y < f x \<Longrightarrow> insort_key f x (ys @ zs) = ys @ insort_key f x zs"
  by (induction ys) auto

lemma sort_key_first_group:
  fixes k :: "'a \<Rightarrow> nat"
  shows "sort_key (\<lambda>x. if P x then 0 else Suc (k x)) xs = filter P xs @ sort_key k (filter (\<lambda>x. \<not> P x) xs)"
proof (induction xs)
  case (Cons x xs)
  let ?f = "\<lambda>x. if P x then 0 else Suc (k x)"
  have suc: "insort_key ?f x ys = insort_key k x ys" if "\<forall>y\<in>set (x # ys). \<not> P y" for ys
    using that by (induction ys) auto
  show ?case
  proof (cases "P x")
    case True
    then show ?thesis using Cons by (simp add: insort_is_Cons)
  next
    case False
    then have "insort_key ?f x (filter P xs @ sort_key k (filter (\<lambda>x. \<not> P x) xs)) =
        filter P xs @ insort_key ?f x (sort_key k (filter (\<lambda>x. \<not> P x) xs))"
      by (intro insort_key_skip) simp
    then show ?thesis using Cons False by (simp add: suc)
  qed
qed simp

lemma alt_passes_sort:
  "alt_passes globs src = map fst (sort_key (\<lambda>(m, p, u). first_match globs p) (filter (\<lambda>(m, p, u). \<not> u) src))"
proof (induction globs arbitrary: src)
  case Nil
  have "(\<lambda>(m :: MetricData, p, u :: bool). first_match [] p) = (\<lambda>_. 0)" by auto
  then show ?case by (simp only: alt_passes.simps sort_key_const)
next
  case (Cons g gs)
  let ?new = "filter (\<lambda>(m, p, u). \<not> u) src"
  let ?P = "\<lambda>(m :: MetricData, p, u :: bool). filepath_Match g p" and ?k = "\<lambda>(m :: MetricData, p, u :: bool). first_match gs p"
  have key: "(\<lambda>(m :: MetricData, p, u :: bool). first_match (g # gs) p) = (\<lambda>x. if ?P x then 0 else Suc (?k x))"
    by auto
  have "filter (\<lambda>(m, p, u). \<not> u) (map (\<lambda>(m, p, u). (m, p, u \<or> filepath_Match g p)) src) = filter (\<lambda>x. \<not> ?P x) ?new"
    by (induction src) auto
  moreover have "filter (\<lambda>(m, p, u). \<not> u \<and> filepath_Match g p) src = filter ?P ?new"
    by (induction src) auto
  ultimately show ?case
    unfolding key sort_key_first_group by (simp add: alt_pass_unused Cons)
qed

lemma sort_key_map: "sort_key k (map f xs) = map f (sort_key (\<lambda>x. k (f x)) xs)"
proof (induction xs)
  case (Cons x xs)
  have "insort_key k (f x) (map f ys) = map f (insort_key (\<lambda>x. k (f x)) x ys)" for ys
    by (induction ys) auto
  then show ?case using Cons by simp
qed simp

lemma sortByBraces_sort: "sortByBraces ms part pattern = sort_key (\<lambda>m. brace_key pattern (getPart m part)) ms"
proof (cases "brace_globs pattern")
  case None
  then show ?thesis by (simp add: sortByBraces_def brace_key_def sort_key_const)
next
  case (Some globs)
  have "filter (\<lambda>(m, p, u). \<not> u) (map (\<lambda>m. (m, getPart m part, False)) ms) = map (\<lambda>m. (m, getPart m part, False)) ms"
    by (induction ms) auto
  then show ?thesis
    by (simp add: sortByBraces_def Some alt_passes_sort sort_key_map brace_key_def comp_def)
qed

lemma no_brace_key: "CHR ''{'' \<notin> set pattern \<Longrightarrow> brace_key pattern p = 0"
proof -
  have "CHR ''{'' \<notin> set s \<Longrightarrow> index_byte (CHR ''{'') s = None" for s
    by (induction s) auto
  then show "CHR ''{'' \<notin> set pattern \<Longrightarrow> brace_key pattern p = 0"
    by (simp add: brace_key_def brace_globs_def)
qed

text \<open>Sorting by one segment puts its key in front of those of the segments to its right.\<close>

lemma sort_segment_key:
  assumes g: "ContainsAny (parts ! i) ''*?[{''"
  shows "sort_segment parts i (sort_key k ms) =
    sort_key (\<lambda>m. (brace_key (parts ! i) (getPart m i), getPart m i) # k m) ms"
proof -
  let ?p = "\<lambda>m. getPart m i" and ?b = "\<lambda>m. brace_key (parts ! i) (getPart m i)"
  have 1: "sort_key ?p (sort_key k ms) = sort_key (\<lambda>m. (?p m, k m)) ms"
    by (rule sort_key_twice) (auto simp: less_eq_prod_def)
  have 2: "sort_key ?b (sort_key (\<lambda>m. (?p m, k m)) ms) = sort_key (\<lambda>m. (?b m, ?p m) # k m) ms"
    by (rule sort_key_twice) (auto simp: Cons_le_Cons less_eq_prod_def)
  show ?thesis
  proof (cases "CHR ''{'' \<in> set (parts ! i)")
    case True
    then show ?thesis using g by (simp add: sort_segment_def sortByBraces_sort 1 2)
  next
    case False
    have "sort_key ?b ms' = ms'" for ms' :: "MetricData list"
      using False by (simp add: no_brace_key sort_key_const)
    then show ?thesis using g False 1 2 by (simp add: sort_segment_def)
  qed
qed

lemma sort_segment_other: "\<not> ContainsAny (parts ! i) ''*?[{'' \<Longrightarrow> sort_segment parts i ms = ms"
  by (auto simp: sort_segment_def ContainsAny_def list_ex_iff)

lemma sort_segments:
  "fold (sort_segment parts) (rev is) ms =
     sort_key (\<lambda>m. map (\<lambda>i. (brace_key (parts ! i) (getPart m i), getPart m i))
       (filter (\<lambda>i. ContainsAny (parts ! i) ''*?[{'') is)) ms"
proof (induction "is")
  case Nil
  show ?case by (simp add: sort_key_const)
next
  case (Cons i "is")
  show ?case
  proof (cases "ContainsAny (parts ! i) ''*?[{''")
    case True
    then show ?thesis using Cons by (simp add: sort_segment_key)
  next
    case False
    then show ?thesis using Cons by (simp add: sort_segment_other)
  qed
qed

lemma Split1_subset: "p \<in> set (Split1 s c) \<Longrightarrow> set p \<subseteq> set s"
  by (induction s arbitrary: p) (auto split: if_splits list.splits, blast+)

text \<open>
  C39: the series of a request are stably sorted, and what they are sorted by: from left to right,
  for each part of the requested name that has a wildcard, the position of the first alternative
  of its brace list that the part of the series matches, and then that part itself. Without a
  wildcard the order stays as it was.
\<close>

theorem SortMetrics_sort:
  "SortMetrics req ms = sort_key (series_key (Split1 (Metric req) (CHR ''.''))) ms"
proof (cases "ContainsAny (Metric req) ''*?[{''")
  case True
  then show ?thesis
    using sort_segments[of "Split1 (Metric req) (CHR ''.'')" "[0..<length (Split1 (Metric req) (CHR ''.''))]" ms]
    by (simp add: SortMetrics_def Let_def series_key_def[abs_def])
next
  case False
  have "\<not> ContainsAny (Split1 (Metric req) (CHR ''.'') ! i) ''*?[{''"
    if "i < length (Split1 (Metric req) (CHR ''.''))" for i
    using False Split1_subset[OF nth_mem[OF that]] by (auto simp: ContainsAny_def list_ex_iff)
  then have "series_key (Split1 (Metric req) (CHR ''.'')) = (\<lambda>m. [])"
    by (intro ext) (simp add: series_key_def)
  then show ?thesis using False by (simp add: SortMetrics_def sort_key_const)
qed

text \<open>An example: the alternatives keep their order, the hosts within them are sorted.\<close>

lemma SortMetrics_example:
  "map Name (SortMetrics \<lparr>Metric = ''{web,db}*.cpu'', ConsolidationFunc = [], From = 0, Until = 60\<rparr>
     (map (\<lambda>n. makeMetricDataWithTags n [] 60 0 []) [''db1.cpu'', ''web2.cpu'', ''app.cpu'', ''web1.cpu''])) =
   [''web1.cpu'', ''web2.cpu'', ''db1.cpu'', ''app.cpu'']"
  by code_simp

end
