(* ===== verification/Align.thy ===== *)
theory Align
  imports MetricData
begin

text \<open>
  Alignment of series, \<open>expr/helper/align.go\<close>: a common step, a common start and a common number
  of values. The Go functions change the series of their argument in place; here they return the
  changed list, for series that are distinct objects. Times are Unix seconds and do not
  overflow; the product in \<open>go_LCM\<close> can, so it wraps. A division by zero, a negative slice length
  and an index out of range are panics.
\<close>

section \<open>Steps\<close>

function go_GCD :: "int \<Rightarrow> int \<Rightarrow> int" where
  "go_GCD a b = (if b = 0 then a else go_GCD b (a smod b))"
  by pat_completeness auto
termination
proof (relation "measure (\<lambda>(a, b). nat \<bar>b\<bar>)", goal_cases)
  case (2 a b)
  have "\<bar>a smod b\<bar> < \<bar>b\<bar>"
    using 2 by (simp add: signed_modulo_int_def abs_mult sgn_if)
  then show ?case by simp
qed simp

declare go_GCD.simps [simp del]

definition go_div :: "int \<Rightarrow> int \<Rightarrow> int go_result" where
  "go_div a b = (if b = 0 then Panic else Some (a sdiv b))"

definition go_LCM2 :: "int \<Rightarrow> int \<Rightarrow> int go_result" where
  "go_LCM2 a b = map_option (\<lambda>q. wrap64 (q * b)) (go_div a (go_GCD a b))"

text \<open>\<open>go_LCM(lcm, args[i])\<close> of the loop is the case of two arguments.\<close>

fun go_LCM_loop :: "int \<Rightarrow> int list \<Rightarrow> int go_result" where
  "go_LCM_loop l [] = Some l"
| "go_LCM_loop l (a # as) = (case go_LCM2 l a of None \<Rightarrow> Panic | Some l' \<Rightarrow> go_LCM_loop l' as)"

fun go_LCM :: "int list \<Rightarrow> int go_result" where
  "go_LCM [] = Some 0"
| "go_LCM [a] = Some a"
| "go_LCM (a # b # as) = (case go_LCM2 a b of None \<Rightarrow> Panic | Some l \<Rightarrow> go_LCM_loop l as)"

definition distinct_steps :: "MetricData list \<Rightarrow> int list" where
  "distinct_steps as = foldl (\<lambda>steps r. if StepTime r \<in> set steps then steps else steps @ [StepTime r]) [] as"

definition GetCommonStep :: "MetricData list \<Rightarrow> (int \<times> bool) go_result" where
  "GetCommonStep as =
     (let steps = distinct_steps as
      in if length steps = 1 then Some (hd steps, False)
         else map_option (\<lambda>l. (l, True)) (go_LCM steps))"

definition GetStepRange :: "MetricData list \<Rightarrow> (int \<times> int \<times> bool) go_result" where
  "GetStepRange as =
     (if as = [] then Panic
      else (let a = foldl (\<lambda>m r. if m > StepTime r then StepTime r else m) (StepTime (hd as)) as;
                b = foldl (\<lambda>m r. if m < StepTime r then StepTime r else m) (StepTime (hd as)) as
            in Some (a, b, a \<noteq> b)))"

section \<open>Scaling to a common step\<close>

definition genNaNs :: "int \<Rightarrow> f64 list go_result" where
  "genNaNs n = (if n < 0 then Panic else Some (replicate (nat n) FNaN))"

text \<open>The batch is absent when too few of its values are there, otherwise aggregated.\<close>

definition aggregateBatch :: "go_env \<Rightarrow> quickselect \<Rightarrow> f64 list \<Rightarrow> MetricData \<Rightarrow> f64 \<times> MetricData" where
  "aggregateBatch E qs vals arg =
     (if \<not> feq (XFilesFactor arg) 0 \<and> f32_ratio (notNans vals) (length vals) < XFilesFactor arg
      then (FNaN, arg)
      else (case GetAggregateFunction E qs arg of (f, arg') \<Rightarrow> (f vals, arg')))"

text \<open>The loop over the batches of \<open>k\<close> values; the length is a multiple of \<open>k\<close> when it is entered.\<close>

function batch_loop :: "go_env \<Rightarrow> quickselect \<Rightarrow> nat \<Rightarrow> f64 list \<Rightarrow> MetricData \<Rightarrow> (f64 list \<times> MetricData) go_result" where
  "batch_loop E qs k vs arg =
     (if vs = [] then Some ([], arg)
      else if k = 0 \<or> length vs < k then Panic
      else (case aggregateBatch E qs (take k vs) arg of (x, arg1) \<Rightarrow>
              map_option (\<lambda>(xs, arg2). (x # xs, arg2)) (batch_loop E qs k (drop k vs) arg1)))"
  by pat_completeness auto
termination
  by (relation "measure (\<lambda>(E, qs, k, vs, arg). length vs)") auto

declare batch_loop.simps [simp del]

definition prepend_nans :: "int \<Rightarrow> MetricData \<Rightarrow> MetricData go_result" where
  "prepend_nans minStart arg =
     (case go_div (StartTime arg - minStart) (StepTime arg) of
        None \<Rightarrow> Panic
      | Some valCnt \<Rightarrow> map_option (\<lambda>ns. arg\<lparr>Values := ns @ Values arg\<rparr>) (genNaNs valCnt))"

text \<open>The two arms of the first loop of \<open>ScaleToCommonStep\<close>.\<close>

definition scale_same :: "int \<Rightarrow> MetricData \<Rightarrow> MetricData go_result" where
  "scale_same minStart arg =
     map_option (\<lambda>a. a\<lparr>StartTime := minStart\<rparr>)
       (if minStart < StartTime arg then prepend_nans minStart arg else Some arg)"

definition scale_down :: "go_env \<Rightarrow> quickselect \<Rightarrow> int \<Rightarrow> int \<Rightarrow> MetricData \<Rightarrow> MetricData go_result" where
  "scale_down E qs commonStep minStart arg0 =
     (case go_div commonStep (StepTime arg0) of
        None \<Rightarrow> Panic
      | Some stepFactor \<Rightarrow>
          (case (if StartTime arg0 > minStart
                 then map_option (\<lambda>a. a\<lparr>StartTime := minStart\<rparr>) (prepend_nans minStart arg0) else Some arg0) of
             None \<Rightarrow> Panic
           | Some arg \<Rightarrow>
               (case go_div (int (length (Values arg)) - 1) stepFactor of
                  None \<Rightarrow> Panic
                | Some q \<Rightarrow>
                    (let newValsLen = 1 + q; newStop = StartTime arg + newValsLen * commonStep
                     in case (if int (length (Values arg)) \<noteq> stepFactor * newValsLen
                              then genNaNs (stepFactor * newValsLen - int (length (Values arg))) else Some []) of
                          None \<Rightarrow> Panic
                        | Some ns \<Rightarrow>
                            (let arg1 = arg\<lparr>Values := Values arg @ ns, StopTime := newStop\<rparr>
                             in map_option (\<lambda>(newVals, arg2). arg2\<lparr>StepTime := commonStep, Values := newVals\<rparr>)
                                  (batch_loop E qs (nat stepFactor) (Values arg1) arg1))))))"

definition max_vals :: "MetricData list \<Rightarrow> nat" where
  "max_vals as = foldl (\<lambda>m r. if length (Values r) > m then length (Values r) else m) 0 as"

text \<open>The second loop: fill up to the longest series and recompute the stop time.\<close>

definition fill_up :: "nat \<Rightarrow> MetricData \<Rightarrow> MetricData" where
  "fill_up n arg =
     RecalcStopTime (if n > length (Values arg)
       then arg\<lparr>Values := Values arg @ replicate (n - length (Values arg)) FNaN\<rparr> else arg)"

definition min_start :: "MetricData list \<Rightarrow> int" where
  "min_start as = foldl (\<lambda>m r. if m > StartTime r then StartTime r else m) (StartTime (hd as)) as"

definition scale_all :: "go_env \<Rightarrow> quickselect \<Rightarrow> MetricData list \<Rightarrow> int \<Rightarrow> MetricData list go_result" where
  "scale_all E qs as commonStep =
     (if commonStep = 0 then Panic
      else (let m = min_start as; minStart = m - m smod commonStep
            in map_option (\<lambda>as'. map (fill_up (max_vals as')) as')
                 (opt_map (\<lambda>arg. if StepTime arg = commonStep then scale_same minStart arg
                                 else scale_down E qs commonStep minStart arg) as)))"

definition ScaleToCommonStep :: "go_env \<Rightarrow> quickselect \<Rightarrow> MetricData list \<Rightarrow> int \<Rightarrow> MetricData list go_result" where
  "ScaleToCommonStep E qs as commonStep0 =
     (if commonStep0 < 0 \<or> as = [] then Some as
      else if commonStep0 \<noteq> 0 then scale_all E qs as commonStep0
      else Option.bind (GetCommonStep as) (\<lambda>(commonStep, _). scale_all E qs as commonStep))"

section \<open>Aligning start and stop\<close>

definition GetInterval :: "MetricData list \<Rightarrow> (MetricData list \<times> int \<times> int) go_result" where
  "GetInterval as =
     (if as = [] then Panic
      else (let as' = map FixStopTime as
            in Some (as', min_start as,
                 foldl (\<lambda>m r. if m < StopTime r then StopTime r else m) (StopTime (hd as)) as')))"

definition GetBuckets :: "int \<Rightarrow> int \<Rightarrow> int \<Rightarrow> int" where
  "GetBuckets start stop bucketSize =
     int_of_f64 (fceil (f64_of_int (stop - start) div f64_of_int bucketSize))"

definition AlignStartToInterval :: "int \<Rightarrow> int \<Rightarrow> int \<Rightarrow> int" where
  "AlignStartToInterval start stop bucketSize =
     (case find (\<lambda>v. bucketSize \<ge> v) [86400, 3600, 60] of
        Some v \<Rightarrow> start - start smod v
      | None \<Rightarrow> start)"

text \<open>
  \<open>Truncate\<close> rounds down to a multiple of the duration since the zero time, the first of
  January of year 1, and is the identity on a duration that is not positive.
\<close>

definition truncate_time :: "int \<Rightarrow> int \<Rightarrow> int" where
  "truncate_time t d = (if d \<le> 0 then t else t - (t + 62135596800) mod d)"

definition AlignToBucketSize :: "int \<Rightarrow> int \<Rightarrow> int \<Rightarrow> int \<times> int" where
  "AlignToBucketSize start stop bucketSize =
     (let newStop = truncate_time stop bucketSize
      in (truncate_time start bucketSize, if stop \<noteq> newStop then newStop + bucketSize else newStop))"

text \<open>The extrapolating loop of \<open>AlignSeries\<close> and \<open>ScaleSeries\<close>, from the time \<open>ts\<close> on.\<close>

function extrapolate_loop ::
  "MetricData \<Rightarrow> int \<Rightarrow> f64 \<Rightarrow> int \<Rightarrow> int \<Rightarrow> int \<Rightarrow> f64 \<Rightarrow> f64 \<Rightarrow> f64 list go_result" where
  "extrapolate_loop arg minStep ppi ts nextTs j v dv =
     (if minStep \<le> 0 then Panic
      else if StopTime arg \<le> ts then Some []
      else if ts > nextTs
      then (case (go_index (Values arg) (j + 1), go_index (Values arg) j) of
              (Some v1, Some v0) \<Rightarrow>
                map_option (Cons v)
                  (extrapolate_loop arg minStep ppi (ts + minStep) (nextTs + StepTime arg) (j + 1) v1 ((v0 - v1) div ppi))
            | _ \<Rightarrow> Panic)
      else map_option (Cons v) (extrapolate_loop arg minStep ppi (ts + minStep) nextTs j (v + dv) dv))"
  by pat_completeness auto
termination
  by (relation "measure (\<lambda>(arg, minStep, ppi, ts, nextTs, j, v, dv). nat (StopTime arg - ts))") auto

declare extrapolate_loop.simps [simp del]

definition extrapolate :: "int \<Rightarrow> MetricData \<Rightarrow> MetricData go_result" where
  "extrapolate minStep arg =
     (let valsCnt = int_of_f64 (fceil (f64_of_int (StopTime arg - StartTime arg) div f64_of_int minStep));
          ppi = f64_of_int (StartTime arg - (StartTime arg + StepTime arg)) div f64_of_int minStep
      in if valsCnt < 0 then Panic
         else (case (go_index (Values arg) 0, go_index (Values arg) 1) of
                 (Some v0, Some v1) \<Rightarrow>
                   (case extrapolate_loop arg minStep ppi (StartTime arg) (StartTime arg + StepTime arg) 0 v0 ((v0 - v1) div ppi) of
                      None \<Rightarrow> Panic
                    | Some vs \<Rightarrow>
                        if length vs > nat valsCnt then Panic
                        else Some (arg\<lparr>Values := vs @ replicate (nat valsCnt - length vs) 0, StepTime := minStep\<rparr>))
               | _ \<Rightarrow> Panic))"

definition extrapolate_all :: "MetricData list \<Rightarrow> MetricData list go_result" where
  "extrapolate_all as =
     (case GetStepRange as of
        None \<Rightarrow> Panic
      | Some (minStep, _, needScale) \<Rightarrow>
          if needScale
          then opt_map (\<lambda>arg. if StepTime arg > minStep then extrapolate minStep arg else Some arg) as
          else Some as)"

definition append_nans :: "int \<Rightarrow> MetricData \<Rightarrow> MetricData go_result" where
  "append_nans maxStop arg =
     (case go_div (maxStop - StopTime arg) (StepTime arg) of
        None \<Rightarrow> Panic
      | Some valCnt \<Rightarrow>
          map_option (\<lambda>ns. arg\<lparr>Values := Values arg @ ns, StopTime := maxStop\<rparr>) (genNaNs valCnt))"

definition align_one :: "int \<Rightarrow> int \<Rightarrow> MetricData \<Rightarrow> MetricData go_result" where
  "align_one minStart maxStop arg =
     Option.bind (if minStart < StartTime arg then prepend_nans minStart arg else Some arg) (\<lambda>a.
       let a1 = a\<lparr>StartTime := minStart\<rparr>
       in map_option RecalcStopTime (if maxStop > StopTime a1 then append_nans maxStop a1 else Some a1))"

definition AlignSeries :: "bool \<Rightarrow> MetricData list \<Rightarrow> MetricData list go_result" where
  "AlignSeries ExtrapolatePoints as =
     Option.bind (GetInterval as) (\<lambda>(as1, minStart, maxStop).
       Option.bind (if ExtrapolatePoints then extrapolate_all as1 else Some as1)
         (opt_map (align_one minStart maxStop)))"

definition scale_pad :: "int \<Rightarrow> int \<Rightarrow> MetricData \<Rightarrow> MetricData go_result" where
  "scale_pad minStart maxStop arg =
     Option.bind (if minStart < StartTime arg
         then map_option (\<lambda>a. a\<lparr>StartTime := minStart\<rparr>) (prepend_nans minStart arg) else Some arg)
       (\<lambda>a. if maxStop > StopTime a then append_nans maxStop a else Some a)"

definition ScaleSeries :: "go_env \<Rightarrow> quickselect \<Rightarrow> bool \<Rightarrow> MetricData list \<Rightarrow> MetricData list go_result" where
  "ScaleSeries E qs ExtrapolatePoints as =
     Option.bind (GetInterval as) (\<lambda>(as1, minStart, maxStop).
       Option.bind (if ExtrapolatePoints then map_option (\<lambda>xs. (xs, 0, False)) (extrapolate_all as1)
                    else map_option (\<lambda>(s, c). (as1, s, c)) (GetCommonStep as1))
         (\<lambda>(as2, commonStep, needScale).
            if needScale then ScaleToCommonStep E qs as2 commonStep
            else map_option (\<lambda>as3. map (fill_up (max_vals as3)) as3) (opt_map (scale_pad minStart maxStop) as2)))"

definition ConsolidateSeriesByStep ::
  "go_env \<Rightarrow> quickselect \<Rightarrow> MetricData \<Rightarrow> MetricData \<Rightarrow> (MetricData \<times> MetricData) go_result" where
  "ConsolidateSeriesByStep E qs numerator denominator =
     (case GetCommonStep [numerator, denominator] of
        None \<Rightarrow> Panic
      | Some (step, changed) \<Rightarrow>
          if changed \<or> length (Values numerator) \<noteq> length (Values denominator)
          then map_option (\<lambda>xs. (xs ! 0, xs ! 1))
                 (ScaleToCommonStep E qs (CopyMetricDataSlice [numerator, denominator]) step)
          else Some (numerator, denominator))"

definition Divmod :: "int \<Rightarrow> int \<Rightarrow> (int \<times> int) go_result" where
  "Divmod n d = (if d = 0 then Panic else Some (n sdiv d, n smod d))"

text \<open>The values of a map from requests to series, each list scaled to the step of all of them.\<close>

definition ScaleValuesToCommonStep ::
  "go_env \<Rightarrow> quickselect \<Rightarrow> ('k \<times> MetricData list) list \<Rightarrow> ('k \<times> MetricData list) list go_result" where
  "ScaleValuesToCommonStep E qs values =
     (case GetCommonStep (concat (map snd values)) of
        None \<Rightarrow> Panic
      | Some (commonStep, changed) \<Rightarrow>
          if \<not> changed then Some values
          else opt_map (\<lambda>(m, metrics). map_option (Pair m) (ScaleToCommonStep E qs metrics commonStep)) values)"

section \<open>The common step\<close>

lemma go_GCD_eq: "0 \<le> a \<Longrightarrow> 0 \<le> b \<Longrightarrow> go_GCD a b = gcd a b"
proof (induction a b rule: go_GCD.induct)
  case (1 a b)
  show ?case
  proof (cases "b = 0")
    case True
    with 1(2) show ?thesis by (subst go_GCD.simps) simp
  next
    case False
    then have "a smod b = a mod b" "0 \<le> a mod b" using 1(2,3) by (simp_all add: smod_nonneg)
    with 1 False show ?thesis by (subst go_GCD.simps) (simp add: gcd_red_int[symmetric])
  qed
qed

lemma lcm_div: "0 < a \<Longrightarrow> 0 < b \<Longrightarrow> a sdiv gcd a b * b = lcm a (b :: int)"
proof -
  assume ab: "0 < a" "0 < b"
  have "a sdiv gcd a b * b = a div gcd a b * b" using ab by (simp add: sdiv_nonneg)
  also have "\<dots> = a * b div gcd a b" by (simp add: div_mult_swap mult.commute)
  also have "\<dots> = lcm a b" using ab by (simp add: lcm_gcd pos_imp_zdiv_nonneg_iff)
  finally show ?thesis .
qed

lemma go_LCM2_eq:
  assumes "0 < a" "0 < b" "lcm a b < 2 ^ 63"
  shows "go_LCM2 a b = Some (lcm a b)"
proof -
  have "in_int64 (lcm a b)" using assms(3) lcm_ge_0_int[of a b] unfolding in_int64_def by linarith
  then show ?thesis
    using assms lcm_div[of a b] by (simp add: go_LCM2_def go_div_def go_GCD_eq)
qed

lemma foldl_lcm_ge: "0 < a \<Longrightarrow> \<forall>x\<in>set as. 0 < x \<Longrightarrow> a \<le> foldl lcm a as \<and> 0 < foldl lcm a (as :: int list)"
proof (induction as arbitrary: a)
  case (Cons x as)
  have "a \<le> lcm a x" "0 < lcm a x" using Cons.prems by (auto intro: zdvd_imp_le simp: lcm_pos_int)
  then show ?case using Cons.IH[of "lcm a x"] Cons.prems by auto
qed simp

lemma go_LCM_loop_eq:
  "0 < a \<Longrightarrow> \<forall>x\<in>set as. 0 < x \<Longrightarrow> foldl lcm a as < 2 ^ 63 \<Longrightarrow> go_LCM_loop a as = Some (foldl lcm a as)"
proof (induction as arbitrary: a)
  case (Cons x as)
  have "0 < lcm a x" using Cons.prems by (simp add: lcm_pos_int)
  moreover from this have "lcm a x < 2 ^ 63" using foldl_lcm_ge[of "lcm a x" as] Cons.prems by auto
  ultimately show ?case using Cons go_LCM2_eq[of a x] by simp
qed simp

lemma foldl_lcm: "0 < a \<Longrightarrow> \<forall>x\<in>set as. 0 < x \<Longrightarrow> foldl lcm a as = Lcm (set (a # as))" for a :: int
proof (induction as arbitrary: a)
  case (Cons x as)
  then show ?case
    using Cons.IH[of "lcm a x"] by (simp add: lcm.assoc lcm_pos_int)
qed simp

lemma go_LCM_eq:
  assumes "steps \<noteq> []" "\<forall>s\<in>set steps. 0 < s" "Lcm (set steps) < 2 ^ 63"
  shows "go_LCM steps = Some (Lcm (set steps))"
proof -
  obtain a as where s: "steps = a # as" using assms(1) by (cases steps) auto
  have L: "foldl lcm a as = Lcm (set steps)" using foldl_lcm[of a as] assms(2) by (simp add: s)
  show ?thesis
  proof (cases as)
    case Nil
    then show ?thesis using assms(2) by (simp add: s)
  next
    case (Cons b bs)
    then have "go_LCM_loop a as = Some (foldl lcm a as)"
      using assms(2,3) L by (intro go_LCM_loop_eq) (auto simp: s)
    then show ?thesis using Cons L by (simp add: s)
  qed
qed

text \<open>
  \<open>LCM\<close> is the least common multiple: of one or more positive steps whose least common
  multiple fits an \<open>int64\<close> it returns exactly that, without a panic.
\<close>

lemma LCM_is_lcm:
  assumes "steps \<noteq> []" "\<forall>s\<in>set steps. 0 < s" "Lcm (set steps) < 2 ^ 63"
  shows "go_LCM steps = Some (Lcm (set steps))"
  using assms by (rule go_LCM_eq)

lemma LCM_is_lcm_witness: "go_LCM [10, 60, 300, 7] = Some 2100 \<and> Lcm (set [10, 60, 300, 7 :: int]) = 2100"
proof -
  have "Lcm (set [10, 60, 300, 7 :: int]) = 2100" by code_simp
  moreover have "\<forall>s\<in>set [10, 60, 300, 7 :: int]. 0 < s" by simp
  ultimately show ?thesis using LCM_is_lcm[of "[10, 60, 300, 7]"] by simp
qed

lemma set_distinct_steps: "set (distinct_steps as) = StepTime ` set as"
proof -
  have "set (foldl (\<lambda>steps r. if StepTime r \<in> set steps then steps else steps @ [StepTime r]) acc as) =
      set acc \<union> StepTime ` set as" for acc
    by (induction as arbitrary: acc) auto
  then show ?thesis by (simp add: distinct_steps_def)
qed

lemma GetCommonStep_eq:
  assumes "as \<noteq> []" "\<forall>r\<in>set as. 0 < StepTime r" "Lcm (StepTime ` set as) < 2 ^ 63"
  shows "\<exists>changed. GetCommonStep as = Some (Lcm (StepTime ` set as), changed)"
proof (cases "length (distinct_steps as) = 1")
  case True
  then obtain s where s: "distinct_steps as = [s]" by (cases "distinct_steps as") auto
  then have "StepTime ` set as = {s}" using set_distinct_steps[of as] by simp
  moreover from this have "0 < s" using assms(1,2) by (metis imageE insertI1)
  ultimately show ?thesis using s by (auto simp: GetCommonStep_def)
next
  case False
  have "distinct_steps as \<noteq> []" using set_distinct_steps[of as] assms(1) by auto
  moreover have "\<forall>s\<in>set (distinct_steps as). 0 < s" using assms(2) by (simp add: set_distinct_steps)
  ultimately have "go_LCM (distinct_steps as) = Some (Lcm (StepTime ` set as))"
    using go_LCM_eq[of "distinct_steps as"] assms(3) by (simp add: set_distinct_steps)
  then show ?thesis using False by (auto simp: GetCommonStep_def)
qed

section \<open>Scaled series are aligned\<close>

lemma prepend_nans_ok:
  assumes "0 < StepTime r" "m \<le> StartTime r"
  shows "prepend_nans m r = Some (r\<lparr>Values := replicate (nat ((StartTime r - m) div StepTime r)) FNaN @ Values r\<rparr>)"
  using assms by (simp add: prepend_nans_def go_div_def genNaNs_def sdiv_nonneg pos_imp_zdiv_neg_iff)

end
