(* ===== verification/Align_Scale.thy ===== *)
theory Align_Scale
  imports Align
begin

text \<open>
  What \<open>ScaleToCommonStep\<close> and \<open>AlignSeries\<close> of \<open>expr/helper/align.go\<close> achieve: series of one
  step, one start and one length, and where the values of a series end up.
\<close>

section \<open>Batches\<close>

definition batch_value :: "go_env \<Rightarrow> quickselect \<Rightarrow> MetricData \<Rightarrow> f64 list \<Rightarrow> f64" where
  "batch_value E qs arg b = fst (aggregateBatch E qs b arg)"

text \<open>The first batch that is aggregated caches the function in the series.\<close>

abbreviation cached :: "go_env \<Rightarrow> quickselect \<Rightarrow> MetricData \<Rightarrow> MetricData" where
  "cached E qs arg \<equiv> snd (GetAggregateFunction E qs arg)"

lemma cached_cached [simp]: "cached E qs (cached E qs arg) = cached E qs arg"
  by (simp add: GetAggregateFunction_def Let_def split: option.split)

lemma batch_value_cached [simp]: "batch_value E qs (cached E qs arg) = batch_value E qs arg"
  by (rule ext) (simp add: batch_value_def aggregateBatch_def GetAggregateFunction_def Let_def split: option.split)

lemma cached_fields [simp]:
  "Name (cached E qs r) = Name r" "StartTime (cached E qs r) = StartTime r"
  "StopTime (cached E qs r) = StopTime r" "StepTime (cached E qs r) = StepTime r"
  by (simp_all add: GetAggregateFunction_def Let_def split: option.split)

lemma aggregateBatch_state: "snd (aggregateBatch E qs b arg) \<in> {arg, cached E qs arg}"
  by (simp add: aggregateBatch_def split: prod.split)

lemma batch_loop_ok:
  assumes "0 < k" "k dvd length vs"
  shows "\<exists>arg'\<in>{arg, cached E qs arg}. batch_loop E qs k vs arg = Some (map (batch_value E qs arg) (chunks k vs), arg')"
  using assms(2)
proof (induction vs arbitrary: arg rule: measure_induct_rule[of length])
  case (less vs)
  show ?case
  proof (cases "vs = []")
    case True
    then show ?thesis by (subst batch_loop.simps, subst chunks.simps) auto
  next
    case False
    have le: "k \<le> length vs" using less.prems False by (simp add: dvd_imp_le)
    define arg1 where "arg1 = snd (aggregateBatch E qs (take k vs) arg)"
    have ab: "aggregateBatch E qs (take k vs) arg = (batch_value E qs arg (take k vs), arg1)"
      by (simp add: batch_value_def arg1_def)
    have a1: "arg1 \<in> {arg, cached E qs arg}" unfolding arg1_def by (rule aggregateBatch_state)
    have "length (drop k vs) < length vs" "k dvd length (drop k vs)"
      using le assms(1) False less.prems by (simp_all add: dvd_minus_self)
    from less.IH[OF this, of arg1] obtain arg' where
      arg': "arg' \<in> {arg1, cached E qs arg1}"
      and bl: "batch_loop E qs k (drop k vs) arg1 = Some (map (batch_value E qs arg1) (chunks k (drop k vs)), arg')"
      by blast
    have "arg' \<in> {arg, cached E qs arg}" "batch_value E qs arg1 = batch_value E qs arg"
      using a1 arg' by auto
    moreover have "batch_loop E qs k vs arg = Some (batch_value E qs arg (take k vs) # map (batch_value E qs arg1) (chunks k (drop k vs)), arg')"
      using False le assms(1) ab bl by (subst batch_loop.simps) simp
    moreover have "chunks k vs = take k vs # chunks k (drop k vs)"
      using le assms(1) by (subst chunks.simps) simp
    ultimately show ?thesis by auto
  qed
qed

section \<open>One series\<close>

text \<open>
  The series scaled to step \<open>c\<close> and start \<open>m\<close>: absent points before its first value, then its
  values, in batches of \<open>c div step\<close> when the step is smaller, the last batch filled up with
  \<open>b\<close> absent points.
\<close>

definition lead_nans :: "int \<Rightarrow> MetricData \<Rightarrow> f64 list" where
  "lead_nans m r = replicate (nat ((StartTime r - m) div StepTime r)) FNaN"

definition scaled_values :: "go_env \<Rightarrow> quickselect \<Rightarrow> int \<Rightarrow> int \<Rightarrow> nat \<Rightarrow> MetricData \<Rightarrow> f64 list" where
  "scaled_values E qs c m b r =
     (if StepTime r = c then lead_nans m r @ Values r
      else map (batch_value E qs r)
             (chunks (nat (c div StepTime r)) (lead_nans m r @ Values r @ replicate b FNaN)))"

definition scaled_to :: "go_env \<Rightarrow> quickselect \<Rightarrow> int \<Rightarrow> int \<Rightarrow> MetricData \<Rightarrow> MetricData \<Rightarrow> bool" where
  "scaled_to E qs c m r r' \<longleftrightarrow>
     Name r' = Name r \<and> StepTime r' = c \<and> StartTime r' = m
     \<and> (\<exists>b\<le>nat (c div StepTime r). Values r' = scaled_values E qs c m b r)"

lemma scale_same_scaled:
  assumes "0 < StepTime r" "m \<le> StartTime r" "StepTime r = c"
  shows "\<exists>r'. scale_same m r = Some r' \<and> scaled_to E qs c m r r'"
proof -
  have "scale_same m r = Some (r\<lparr>Values := lead_nans m r @ Values r, StartTime := m\<rparr>)"
  proof (cases "m < StartTime r")
    case True
    then show ?thesis using assms by (simp add: scale_same_def prepend_nans_ok lead_nans_def)
  next
    case False
    then have "m = StartTime r" using assms by simp
    then show ?thesis by (simp add: scale_same_def lead_nans_def)
  qed
  then show ?thesis using assms(3) by (auto simp: scaled_to_def scaled_values_def)
qed

lemma round_up_batches:
  fixes n :: nat and f :: int
  assumes "1 < f"
  shows "\<exists>b. b \<le> nat f \<and> f * (1 + (int n - 1) sdiv f) - int n = int b \<and> nat f dvd n + b"
proof -
  define q where "q = 1 + (int n - 1) sdiv f"
  have q: "int n \<le> f * q \<and> f * q - int n \<le> f"
  proof (cases n)
    case 0
    have "(- 1 :: int) sdiv f = 0" using assms by (simp add: signed_divide_int_def sgn_if)
    then show ?thesis using 0 assms by (simp add: q_def)
  next
    case (Suc k)
    have "int n - 1 = int k" using Suc by simp
    moreover have "int k sdiv f = int k div f" using assms by (simp add: sdiv_nonneg)
    ultimately have q': "q = 1 + int k div f" by (simp add: q_def)
    have "f * (int k div f) = int k - int k mod f" by (simp add: minus_mod_eq_mult_div)
    moreover have "0 \<le> int k mod f" "int k mod f < f" using assms by simp_all
    ultimately show ?thesis unfolding q' distrib_left using Suc by linarith
  qed
  define b where "b = nat (f * q - int n)"
  have b: "int b = f * q - int n" using q by (simp add: b_def)
  then have "int (n + b) = f * q" by simp
  then have "f dvd int (n + b)" by (metis dvd_triv_left)
  then have "nat f dvd n + b" using assms by (simp add: nat_dvd_iff)
  moreover have "b \<le> nat f" using q by (simp add: b_def nat_mono)
  ultimately show ?thesis using b by (auto simp: q_def)
qed

lemma scale_down_scaled:
  assumes "0 < StepTime r" "m \<le> StartTime r" "StepTime r dvd c" "StepTime r \<noteq> c" "0 < c"
  shows "\<exists>r'. scale_down E qs c m r = Some r' \<and> scaled_to E qs c m r r'"
proof -
  define f where "f = c div StepTime r"
  have f: "1 < f"
  proof -
    have "c = StepTime r * f" using assms(3) by (simp add: f_def)
    then show ?thesis using assms by (cases "f \<le> 0"; cases "f = 1") (auto simp: zero_less_mult_iff)
  qed
  define a where "a = r\<lparr>Values := lead_nans m r @ Values r, StartTime := m\<rparr>"
  have a: "(if StartTime r > m then map_option (\<lambda>x. x\<lparr>StartTime := m\<rparr>) (prepend_nans m r) else Some r) = Some a"
    using assms(1,2) by (auto simp: a_def prepend_nans_ok lead_nans_def)
  obtain b where b: "b \<le> nat f" "f * (1 + (int (length (Values a)) - 1) sdiv f) - int (length (Values a)) = int b"
    "nat f dvd length (Values a) + b"
    using round_up_batches[OF f, of "length (Values a)"] by blast
  define st where "st = m + (1 + (int (length (Values a)) - 1) sdiv f) * c"
  define a1 where "a1 = a\<lparr>Values := Values a @ replicate b FNaN, StopTime := st\<rparr>"
  have "nat f dvd length (Values a1)" using b(3) by (simp add: a1_def)
  then obtain a2 where a2: "a2 \<in> {a1, cached E qs a1}"
    "batch_loop E qs (nat f) (Values a1) a1 = Some (map (batch_value E qs a1) (chunks (nat f) (Values a1)), a2)"
    using batch_loop_ok[of "nat f" "Values a1" a1 E qs] f by auto
  have bv: "batch_value E qs a1 = batch_value E qs r"
    by (rule ext) (simp add: batch_value_def aggregateBatch_def GetAggregateFunction_def a1_def a_def Let_def split: option.split)
  have ns: "(if int (length (Values a)) \<noteq> f * (1 + (int (length (Values a)) - 1) sdiv f)
             then genNaNs (f * (1 + (int (length (Values a)) - 1) sdiv f) - int (length (Values a))) else Some [])
           = Some (replicate b FNaN)"
    using b(2) by (auto simp: genNaNs_def)
  have sa: "StartTime a = m" by (simp add: a_def)
  have "go_div c (StepTime r) = Some f" using assms by (simp add: go_div_def sdiv_nonneg f_def)
  moreover have "go_div (int (length (Values a)) - 1) f = Some ((int (length (Values a)) - 1) sdiv f)"
    using f by (simp add: go_div_def)
  ultimately have "scale_down E qs c m r =
      Some (a2\<lparr>StepTime := c, Values := map (batch_value E qs r) (chunks (nat f) (Values a1))\<rparr>)"
    unfolding scale_down_def Let_def a
    using ns a2(2) bv sa by (simp add: a1_def[symmetric] st_def[symmetric])
  moreover have "scaled_to E qs c m r (a2\<lparr>StepTime := c, Values := map (batch_value E qs r) (chunks (nat f) (Values a1))\<rparr>)"
    using a2(1) assms(4) b(1)
    by (auto simp: scaled_to_def scaled_values_def a1_def a_def f_def intro!: exI[of _ b])
  ultimately show ?thesis by blast
qed

section \<open>All series\<close>

lemma foldl_least:
  fixes f :: "'r \<Rightarrow> 'k :: linorder"
  shows "foldl (\<lambda>m r. if m > f r then f r else m) s as \<le> s
    \<and> (\<forall>r\<in>set as. foldl (\<lambda>m r. if m > f r then f r else m) s as \<le> f r)"
proof (induction as arbitrary: s)
  case (Cons a as)
  define t where "t = (if s > f a then f a else s)"
  have t: "t \<le> s" "t \<le> f a" by (auto simp: t_def)
  have "foldl (\<lambda>m r. if m > f r then f r else m) s (a # as) = foldl (\<lambda>m r. if m > f r then f r else m) t as"
    by (simp add: t_def)
  moreover note conjunct1[OF Cons[of t]] conjunct2[OF Cons[of t]]
  ultimately show ?case using t by (simp only: set_simps ball_simps) (simp only: order_trans simp_thms)
qed simp

lemma foldl_greatest:
  fixes f :: "'r \<Rightarrow> 'k :: linorder"
  shows "s \<le> foldl (\<lambda>m r. if m < f r then f r else m) s as
    \<and> (\<forall>r\<in>set as. f r \<le> foldl (\<lambda>m r. if m < f r then f r else m) s as)"
proof (induction as arbitrary: s)
  case (Cons a as)
  define t where "t = (if s < f a then f a else s)"
  have t: "s \<le> t" "f a \<le> t" by (auto simp: t_def)
  have "foldl (\<lambda>m r. if m < f r then f r else m) s (a # as) = foldl (\<lambda>m r. if m < f r then f r else m) t as"
    by (simp add: t_def)
  moreover note conjunct1[OF Cons[of t]] conjunct2[OF Cons[of t]]
  ultimately show ?case using t by (simp only: set_simps ball_simps) (simp only: order_trans simp_thms)
qed simp

lemma min_start_le: "r \<in> set as \<Longrightarrow> min_start as \<le> StartTime r"
  using foldl_least[of StartTime "StartTime (hd as)" as] by (simp add: min_start_def)

lemma min_start_in: "as \<noteq> [] \<Longrightarrow> min_start as \<in> StartTime ` set as"
proof -
  have "foldl (\<lambda>m r. if m > StartTime r then StartTime r else m) s as \<in> insert s (StartTime ` set as)" for s
    by (induction as arbitrary: s) (auto split: if_splits)
  then have "min_start as \<in> insert (StartTime (hd as)) (StartTime ` set as)" unfolding min_start_def .
  then show "as \<noteq> [] \<Longrightarrow> min_start as \<in> StartTime ` set as" by auto
qed

lemma max_vals_ge: "r \<in> set as \<Longrightarrow> length (Values r) \<le> max_vals as"
  using foldl_greatest[of 0 "\<lambda>r. length (Values r)" as] by (simp add: max_vals_def)

lemma fill_up_fields:
  "Name (fill_up n r) = Name r" "StartTime (fill_up n r) = StartTime r" "StepTime (fill_up n r) = StepTime r"
  "Values (fill_up n r) = Values r @ replicate (n - length (Values r)) FNaN"
  "StopTime (fill_up n r) = StartTime r + int (length (Values (fill_up n r))) * StepTime r"
  by (simp_all add: fill_up_def RecalcStopTime_def values_stop_def)

lemma scale_all_scaled:
  assumes "as \<noteq> []" "0 < c" "\<forall>r\<in>set as. 0 < StepTime r \<and> StepTime r dvd c \<and> 0 \<le> StartTime r"
  defines "m \<equiv> min_start as - min_start as mod c"
  shows "\<exists>rs. scale_all E qs as c = Some (map (fill_up (max_vals rs)) rs) \<and> length rs = length as
      \<and> (\<forall>i<length as. scaled_to E qs c m (as ! i) (rs ! i))"
proof -
  let ?step = "\<lambda>r. if StepTime r = c then scale_same m r else scale_down E qs c m r"
  have pos: "0 \<le> min_start as" using min_start_in[OF assms(1)] assms(3) by auto
  then have mle: "m \<le> min_start as" using assms(2) by (simp add: m_def)
  have "\<exists>r'. ?step r = Some r' \<and> scaled_to E qs c m r r'" if "r \<in> set as" for r
  proof -
    have "m \<le> StartTime r" using mle min_start_le[OF that] by linarith
    then show ?thesis
      using that assms(2,3) scale_same_scaled[of r m c E qs] scale_down_scaled[of r m c E qs] by auto
  qed
  then obtain g where g: "\<And>r. r \<in> set as \<Longrightarrow> ?step r = Some (g r) \<and> scaled_to E qs c m r (g r)"
    by metis
  then have om: "opt_map ?step as = Some (map g as)" by (intro opt_map_Some) blast
  have sm: "min_start as - min_start as smod c = m" using pos assms(2) by (simp add: smod_nonneg m_def)
  have "scale_all E qs as c = Some (map (fill_up (max_vals (map g as))) (map g as))"
    using assms(2) unfolding scale_all_def Let_def sm om by simp
  then show ?thesis using g by (intro exI[of _ "map g as"]) simp
qed

text \<open>
  C10: Scaling to the common step aligns the series: for non-empty input with positive steps whose
  least common multiple \<open>c\<close> fits an \<open>int64\<close>, \<open>ScaleToCommonStep\<close> does not panic and gives every
  series the step \<open>c\<close>, the same start on the grid of \<open>c\<close>, the same number of values and the stop
  time that belongs to it. The values of each series are its own, after the absent points that
  stand for the time before its start, aggregated in batches where its step was smaller, and
  followed by absent points only.
\<close>

theorem ScaleToCommonStep_aligned:
  assumes "as \<noteq> []" "\<forall>r\<in>set as. 0 < StepTime r \<and> 0 \<le> StartTime r"
    and "Lcm (StepTime ` set as) < 2 ^ 63"
  defines "c \<equiv> Lcm (StepTime ` set as)"
  defines "m \<equiv> min_start as - min_start as mod c"
  shows "\<exists>rs n. ScaleToCommonStep E qs as 0 = Some rs \<and> length rs = length as \<and>
     (\<forall>i<length as. Name (rs ! i) = Name (as ! i) \<and> StepTime (rs ! i) = c \<and> StartTime (rs ! i) = m
        \<and> length (Values (rs ! i)) = n \<and> StopTime (rs ! i) = m + int n * c
        \<and> (\<exists>b k. b \<le> nat (c div StepTime (as ! i))
             \<and> Values (rs ! i) = scaled_values E qs c m b (as ! i) @ replicate k FNaN))"
proof -
  have c: "0 < c" "\<forall>r\<in>set as. 0 < StepTime r \<and> StepTime r dvd c \<and> 0 \<le> StartTime r"
  proof -
    have "c \<noteq> 0" unfolding c_def using assms(2) by (subst Lcm_0_iff) auto
    then show "0 < c" using Lcm_int_greater_eq_0[of "StepTime ` set as"] unfolding c_def by linarith
  qed (use assms(2) in \<open>auto simp: c_def dvd_Lcm\<close>)
  obtain changed where "GetCommonStep as = Some (c, changed)"
    using GetCommonStep_eq[of as] assms unfolding c_def by blast
  then have s: "ScaleToCommonStep E qs as 0 = scale_all E qs as c"
    using assms(1) by (simp add: ScaleToCommonStep_def)
  obtain rs where rs: "scale_all E qs as c = Some (map (fill_up (max_vals rs)) rs)" "length rs = length as"
    "\<forall>i<length as. scaled_to E qs c m (as ! i) (rs ! i)"
    using scale_all_scaled[OF assms(1) c] unfolding m_def by blast
  have len: "length (Values (fill_up (max_vals rs) (rs ! i))) = max_vals rs" if "i < length as" for i
    using max_vals_ge[of "rs ! i" rs] that rs(2) by (simp add: fill_up_fields)
  have "Name (fill_up (max_vals rs) (rs ! i)) = Name (as ! i)
      \<and> StepTime (fill_up (max_vals rs) (rs ! i)) = c \<and> StartTime (fill_up (max_vals rs) (rs ! i)) = m
      \<and> length (Values (fill_up (max_vals rs) (rs ! i))) = max_vals rs
      \<and> StopTime (fill_up (max_vals rs) (rs ! i)) = m + int (max_vals rs) * c
      \<and> (\<exists>b k. b \<le> nat (c div StepTime (as ! i))
           \<and> Values (fill_up (max_vals rs) (rs ! i)) = scaled_values E qs c m b (as ! i) @ replicate k FNaN)"
    if "i < length as" for i
    using rs(3)[rule_format, OF that] len[OF that] unfolding scaled_to_def
    by (auto simp: fill_up_fields)
  then show ?thesis
    unfolding s rs(1) using rs(2) by (intro exI[of _ "map (fill_up (max_vals rs)) rs"] exI[of _ "max_vals rs"]) simp
qed

theorem ScaleToCommonStep_aligned_witness:
  "\<forall>E qs. \<exists>rs n. ScaleToCommonStep E qs [makeMetricDataWithTags ''a'' [FNum 1, FNum 2, FNum 3] 20 40 [], makeMetricDataWithTags ''b'' [FNum 5] 30 90 []] 0 = Some rs
     \<and> (\<forall>i<2. StepTime (rs ! i) = 60 \<and> StartTime (rs ! i) = 0 \<and> length (Values (rs ! i)) = n \<and> StopTime (rs ! i) = int n * 60)"
proof -
  let ?as = "[makeMetricDataWithTags ''a'' [FNum 1, FNum 2, FNum 3] 20 40 [], makeMetricDataWithTags ''b'' [FNum 5] 30 90 []]"
  have L: "Lcm (StepTime ` set ?as) = 60"
  proof -
    have "gcd 20 (30 :: int) = 10" by (simp add: gcd_non_0_int)
    then show ?thesis by (simp add: makeMetricDataWithTags_def lcm_gcd)
  qed
  have m: "min_start ?as = 40" by (simp add: min_start_def makeMetricDataWithTags_def)
  have pos: "?as \<noteq> []" "\<forall>r\<in>set ?as. 0 < StepTime r \<and> 0 \<le> StartTime r" "Lcm (StepTime ` set ?as) < 2 ^ 63"
    unfolding L by (simp_all add: makeMetricDataWithTags_def)
  have len: "length ?as = 2" and z: "40 - 40 mod 60 = (0 :: int)" by simp_all
  show ?thesis
  proof (intro allI)
    fix E qs
    obtain rs n where "ScaleToCommonStep E qs ?as 0 = Some rs"
      "\<forall>i<2. StepTime (rs ! i) = 60 \<and> StartTime (rs ! i) = 0 \<and> length (Values (rs ! i)) = n \<and> StopTime (rs ! i) = 0 + int n * 60"
      using ScaleToCommonStep_aligned[OF pos, of E qs] unfolding L m len z by blast
    then show "\<exists>rs n. ScaleToCommonStep E qs ?as 0 = Some rs
        \<and> (\<forall>i<2. StepTime (rs ! i) = 60 \<and> StartTime (rs ! i) = 0 \<and> length (Values (rs ! i)) = n \<and> StopTime (rs ! i) = int n * 60)"
      by auto
  qed
qed

section \<open>Aligned series\<close>

definition trail_nans :: "int \<Rightarrow> MetricData \<Rightarrow> f64 list" where
  "trail_nans stop r = replicate (nat ((stop - values_stop r) div StepTime r)) FNaN"

lemma append_nans_ok:
  assumes "0 < StepTime r" "StopTime r \<le> stop"
  shows "append_nans stop r = Some (r\<lparr>Values := Values r @ replicate (nat ((stop - StopTime r) div StepTime r)) FNaN, StopTime := stop\<rparr>)"
  using assms by (simp add: append_nans_def go_div_def genNaNs_def sdiv_nonneg pos_imp_zdiv_neg_iff)

lemma align_one_ok:
  assumes "0 < StepTime r" "m \<le> StartTime r" "StopTime r \<le> stop" "StopTime r = values_stop r"
    and "StepTime r dvd StartTime r - m" "StepTime r dvd stop - StopTime r"
  shows "align_one m stop r = Some (r\<lparr>Values := lead_nans m r @ Values r @ trail_nans stop r, StartTime := m, StopTime := stop\<rparr>)"
proof -
  have p: "(if m < StartTime r then prepend_nans m r else Some r) = Some (r\<lparr>Values := lead_nans m r @ Values r\<rparr>)"
    using assms(1,2) by (auto simp: prepend_nans_ok lead_nans_def)
  define a where "a = r\<lparr>Values := lead_nans m r @ Values r, StartTime := m\<rparr>"
  have q: "(if stop > StopTime a then append_nans stop a else Some a) =
      Some (a\<lparr>Values := Values a @ trail_nans stop r, StopTime := stop\<rparr>)"
    using assms(1,3,4) by (auto simp: append_nans_ok trail_nans_def a_def)
  have "int (length (lead_nans m r)) * StepTime r = StartTime r - m"
    using assms(1,2,5) by (simp add: lead_nans_def pos_imp_zdiv_nonneg_iff)
  moreover have "int (length (trail_nans stop r)) * StepTime r = stop - values_stop r"
    using assms(1,3,4,6) by (simp add: trail_nans_def pos_imp_zdiv_nonneg_iff)
  ultimately have "values_stop (a\<lparr>Values := Values a @ trail_nans stop r, StopTime := stop\<rparr>) = stop"
    by (simp add: values_stop_def a_def distrib_right)
  then have "RecalcStopTime (a\<lparr>Values := Values a @ trail_nans stop r, StopTime := stop\<rparr>) =
      a\<lparr>Values := Values a @ trail_nans stop r, StopTime := stop\<rparr>"
    by (simp add: RecalcStopTime_def)
  then have "map_option RecalcStopTime (if stop > StopTime a then append_nans stop a else Some a) =
      Some (a\<lparr>Values := Values a @ trail_nans stop r, StopTime := stop\<rparr>)"
    unfolding q by simp
  moreover have "align_one m stop r = map_option RecalcStopTime (if stop > StopTime a then append_nans stop a else Some a)"
    unfolding align_one_def p Let_def a_def by simp
  ultimately have "align_one m stop r = Some (a\<lparr>Values := Values a @ trail_nans stop r, StopTime := stop\<rparr>)" by argo
  then show ?thesis by (simp add: a_def)
qed

definition max_stop :: "MetricData list \<Rightarrow> int" where
  "max_stop as = foldl (\<lambda>m r. if m < values_stop r then values_stop r else m) (values_stop (hd as)) as"

lemma max_stop_ge: "r \<in> set as \<Longrightarrow> values_stop r \<le> max_stop as"
  using foldl_greatest[of "values_stop (hd as)" values_stop as] by (simp add: max_stop_def)

lemma max_stop_in: "as \<noteq> [] \<Longrightarrow> max_stop as \<in> values_stop ` set as"
proof -
  have "foldl (\<lambda>m r. if m < values_stop r then values_stop r else m) s as \<in> insert s (values_stop ` set as)" for s
    by (induction as arbitrary: s) (auto split: if_splits)
  then have "max_stop as \<in> insert (values_stop (hd as)) (values_stop ` set as)" unfolding max_stop_def .
  then show "as \<noteq> [] \<Longrightarrow> max_stop as \<in> values_stop ` set as" by auto
qed

lemma GetInterval_max_stop:
  assumes "as \<noteq> []" "\<forall>r\<in>set as. StopTime r \<le> values_stop r"
  shows "GetInterval as = Some (map FixStopTime as, min_start as, max_stop as)"
proof -
  have st: "StopTime (FixStopTime r) = values_stop r" if "r \<in> set as" for r
    using assms(2) that by (auto simp: FixStopTime_def)
  obtain a l where as: "as = a # l" using assms(1) by (cases as) auto
  have "foldl (\<lambda>m r. if m < StopTime r then StopTime r else m) s (map FixStopTime bs) =
      foldl (\<lambda>m r. if m < values_stop r then values_stop r else m) s bs" if "set bs \<subseteq> set as" for s bs
    using that st by (induction bs arbitrary: s) auto
  from this[of l "values_stop a", unfolded as, OF set_subset_Cons] have "foldl (\<lambda>m r. if m < StopTime r then StopTime r else m) (StopTime a) (map FixStopTime as) = max_stop as"
    using st[of a] assms(2) by (auto simp: max_stop_def as)
  then show ?thesis by (simp add: GetInterval_def Let_def as)
qed

lemma grid_reach:
  assumes "as \<noteq> []" "\<forall>r\<in>set as. StepTime r = s" "\<forall>r\<in>set as. \<forall>r'\<in>set as. s dvd StartTime r - StartTime r'" "r \<in> set as"
  shows "s dvd StartTime r - min_start as" "s dvd max_stop as - values_stop r"
proof -
  obtain x y where x: "x \<in> set as" "min_start as = StartTime x" and y: "y \<in> set as" "max_stop as = values_stop y"
    using min_start_in[OF assms(1)] max_stop_in[OF assms(1)] by auto
  show "s dvd StartTime r - min_start as" using assms(3,4) x by simp
  have "max_stop as - values_stop r = (StartTime y - StartTime r) + (int (length (Values y)) - int (length (Values r))) * s"
    using assms(4) y assms(2) by (simp add: values_stop_def algebra_simps)
  then show "s dvd max_stop as - values_stop r" using assms(3,4) y(1) by simp
qed

lemma AlignSeries_map:
  assumes "as \<noteq> []" "0 < s" "\<forall>r\<in>set as. StepTime r = s \<and> StopTime r \<le> values_stop r"
    and "\<forall>r\<in>set as. \<forall>r'\<in>set as. s dvd StartTime r - StartTime r'"
  shows "AlignSeries False as = Some (map (\<lambda>r. r\<lparr>Values := lead_nans (min_start as) r @ Values r @ trail_nans (max_stop as) r,
    StartTime := min_start as, StopTime := max_stop as\<rparr>) as)"
proof -
  let ?g = "\<lambda>r. r\<lparr>Values := lead_nans (min_start as) r @ Values r @ trail_nans (max_stop as) r,
    StartTime := min_start as, StopTime := max_stop as\<rparr>"
  have ok: "align_one (min_start as) (max_stop as) (FixStopTime r) = Some (?g r)" if r: "r \<in> set as" for r
  proof -
    have f: "FixStopTime r = r\<lparr>StopTime := values_stop r\<rparr>" using assms(3) r by (auto simp: FixStopTime_def)
    show ?thesis
      unfolding f using assms(2,3) r grid_reach[OF assms(1) _ assms(4) r] min_start_le[OF r] max_stop_ge[OF r]
      by (subst align_one_ok) (simp_all add: values_stop_def lead_nans_def trail_nans_def)
  qed
  have "opt_map (align_one (min_start as) (max_stop as)) (map FixStopTime as) = Some (map ?g as)"
    using opt_map_Some[of as "\<lambda>r. align_one (min_start as) (max_stop as) (FixStopTime r)" ?g] ok
    by (simp add: opt_map_map)
  moreover have "GetInterval as = Some (map FixStopTime as, min_start as, max_stop as)"
    using GetInterval_max_stop assms(1,3) by blast
  ultimately show ?thesis by (simp add: AlignSeries_def)
qed

text \<open>
  \<open>AlignSeries\<close> without extrapolation keeps every value at its time: of series of one step on
  one grid it makes series that all reach from the least start to the greatest stop, and each
  is its own values between the absent points that stand for the time before and after it.
\<close>

lemma AlignSeries_pads:
  assumes "as \<noteq> []" "0 < s" "\<forall>r\<in>set as. StepTime r = s \<and> StopTime r \<le> values_stop r"
    and "\<forall>r\<in>set as. \<forall>r'\<in>set as. s dvd StartTime r - StartTime r'"
  shows "\<exists>rs. AlignSeries False as = Some rs \<and> length rs = length as \<and>
    (\<forall>i<length as. StepTime (rs ! i) = s \<and> StartTime (rs ! i) = min_start as \<and> StopTime (rs ! i) = max_stop as
       \<and> Values (rs ! i) = lead_nans (min_start as) (as ! i) @ Values (as ! i) @ trail_nans (max_stop as) (as ! i)
       \<and> int (length (Values (rs ! i))) * s = max_stop as - min_start as)"
proof -
  let ?g = "\<lambda>r. r\<lparr>Values := lead_nans (min_start as) r @ Values r @ trail_nans (max_stop as) r,
    StartTime := min_start as, StopTime := max_stop as\<rparr>"
  have "int (length (Values (?g r))) * s = max_stop as - min_start as" if r: "r \<in> set as" for r
  proof -
    note d = grid_reach[OF assms(1) _ assms(4) r]
    have "int (length (lead_nans (min_start as) r)) * s = StartTime r - min_start as"
      using assms(2,3) r d(1) min_start_le[OF r] by (simp add: lead_nans_def pos_imp_zdiv_nonneg_iff)
    moreover have "int (length (trail_nans (max_stop as) r)) * s = max_stop as - values_stop r"
      using assms(2,3) r d(2) max_stop_ge[OF r] by (simp add: trail_nans_def pos_imp_zdiv_nonneg_iff)
    ultimately show ?thesis using assms(3) r by (simp add: distrib_right) (simp add: values_stop_def)
  qed
  then show ?thesis using AlignSeries_map[OF assms] assms(3) by (intro exI[of _ "map ?g as"]) simp
qed

lemma AlignSeries_pads_witness:
  "\<exists>rs. AlignSeries False [makeMetricDataWithTags ''a'' [FNum 1, FNum 2] 10 20 [], makeMetricDataWithTags ''b'' [FNum 5] 10 60 []] = Some rs
     \<and> Values (rs ! 0) = [FNum 1, FNum 2, FNaN, FNaN, FNaN] \<and> Values (rs ! 1) = [FNaN, FNaN, FNaN, FNaN, FNum 5]"
proof -
  let ?as = "[makeMetricDataWithTags ''a'' [FNum 1, FNum 2] 10 20 [], makeMetricDataWithTags ''b'' [FNum 5] 10 60 []]"
  have a: "\<forall>r\<in>set ?as. StepTime r = 10 \<and> StopTime r \<le> values_stop r"
    by (simp add: makeMetricDataWithTags_def values_stop_def)
  have b: "\<forall>r\<in>set ?as. \<forall>r'\<in>set ?as. 10 dvd StartTime r - StartTime r'"
    by (simp add: makeMetricDataWithTags_def)
  have "min_start ?as = 20" "max_stop ?as = 70"
    by (simp_all add: min_start_def max_stop_def makeMetricDataWithTags_def values_stop_def)
  then show ?thesis
    using AlignSeries_pads[OF _ _ a b]
    by (auto simp: All_less_Suc makeMetricDataWithTags_def lead_nans_def trail_nans_def values_stop_def numeral_eq_Suc)
qed

end
