(* ===== verification/Helpers.thy ===== *)
theory Helpers
  imports Align_Scale Metrics Zipper_Errors
begin

text \<open>
  What the functions of \<open>expr/functions\<close> share: \<open>expr/helper/helper.go\<close>. A function runs on the map
  from requests to fetched series, which nested evaluations may extend, so it is a state
  transformer on that map that can fail with an error or panic. The evaluator a function is given
  is the interface \<open>interfaces.Evaluator\<close>, a record of its two methods.
\<close>

section \<open>Running a function\<close>

datatype eval_cause =
    ParserCause parser_error
  | UnknownFunction string
  | BackendCause merry_error
  | OtherCause string

text \<open>An error with its HTTP code and the functions it passed through, the outermost first.\<close>

datatype eval_error = EvalError (ev_cause: eval_cause) (ev_code: "int option") (ev_functions: "string list")

definition plain_error :: "eval_cause \<Rightarrow> eval_error" where
  "plain_error c = EvalError c None []"

text \<open>A map from requests to series as an association list; a missing key reads as no series.\<close>

type_synonym series_map = "(MetricRequest \<times> MetricData list) list"

type_synonym 'a ev = "series_map \<Rightarrow> ((eval_error + 'a) \<times> series_map) go_result"

definition ret :: "'a \<Rightarrow> 'a ev" where
  "ret x = (\<lambda>s. Some (Inr x, s))"

definition throw :: "eval_error \<Rightarrow> 'a ev" where
  "throw e = (\<lambda>s. Some (Inl e, s))"

definition ev_bind :: "'a ev \<Rightarrow> ('a \<Rightarrow> 'b ev) \<Rightarrow> 'b ev" where
  "ev_bind m f = (\<lambda>s. case m s of
       None \<Rightarrow> Panic
     | Some (Inl e, s') \<Rightarrow> Some (Inl e, s')
     | Some (Inr x, s') \<Rightarrow> f x s')"

text \<open>A step that can panic, a getter of the parser, and a computation on another map.\<close>

definition of_go :: "'a go_result \<Rightarrow> 'a ev" where
  "of_go r = (\<lambda>s. case r of None \<Rightarrow> Panic | Some x \<Rightarrow> Some (Inr x, s))"

definition of_parser :: "parser_error + 'a \<Rightarrow> 'a ev" where
  "of_parser r = (case r of Inl e \<Rightarrow> throw (plain_error (ParserCause e)) | Inr x \<Rightarrow> ret x)"

definition ev_on :: "series_map \<Rightarrow> 'a ev \<Rightarrow> 'a ev" where
  "ev_on m f = (\<lambda>s. case f m of None \<Rightarrow> Panic | Some (r, _) \<Rightarrow> Some (r, s))"

lemma ev_simps [simp]:
  "ev_bind (ret x) f = f x" "ev_bind (throw e) f = throw e"
  "of_go (Some x) = ret x" "of_parser (Inr x) = ret x"
  "of_parser (Inl pe) = throw (plain_error (ParserCause pe))"
  by (simp_all add: ev_bind_def ret_def throw_def of_go_def of_parser_def)

lemma ev_bind_assoc: "ev_bind (ev_bind m f) g = ev_bind m (\<lambda>x. ev_bind (f x) g)"
  by (rule ext) (auto simp: ev_bind_def split: option.splits sum.splits prod.splits)

text \<open>The evaluator: \<open>Fetch\<close> adds to the map it is given and returns the part the expressions need.\<close>

record evaluator =
  ev_Fetch :: "expr list \<Rightarrow> int \<Rightarrow> int \<Rightarrow> series_map ev"
  ev_Eval :: "expr \<Rightarrow> int \<Rightarrow> int \<Rightarrow> MetricData list ev"

section \<open>Arguments that are series\<close>

definition GetSeriesArg :: "evaluator \<Rightarrow> expr \<Rightarrow> int \<Rightarrow> int \<Rightarrow> MetricData list ev" where
  "GetSeriesArg ev arg start stop =
     (if \<not> IsName arg \<and> \<not> IsFunc arg then throw (plain_error (ParserCause ErrMissingTimeseries))
      else ev_Eval ev arg start stop)"

fun GetSeriesArgs :: "evaluator \<Rightarrow> expr list \<Rightarrow> int \<Rightarrow> int \<Rightarrow> MetricData list ev" where
  "GetSeriesArgs ev [] start stop = ret []"
| "GetSeriesArgs ev (arg # e) start stop =
     ev_bind (GetSeriesArg ev arg start stop)
       (\<lambda>a. ev_bind (GetSeriesArgs ev e start stop) (\<lambda>as. ret (a @ as)))"

definition RemoveEmptySeriesFromName :: "MetricData list \<Rightarrow> string" where
  "RemoveEmptySeriesFromName as = Join (map Name as) '',''"

text \<open>The series of all arguments, and the expression with its argument text rewritten.\<close>

definition GetSeriesArgsAndRemoveNonExisting :: "evaluator \<Rightarrow> expr \<Rightarrow> int \<Rightarrow> int \<Rightarrow> (MetricData list \<times> expr) ev" where
  "GetSeriesArgsAndRemoveNonExisting ev e start stop =
     ev_bind (GetSeriesArgs ev (args e) start stop)
       (\<lambda>as. ret (as, if length as < length (args e) then set_argString (RemoveEmptySeriesFromName as) e else e))"

text \<open>\<open>e.Arg(n)\<close> panics when there are too few arguments.\<close>

definition Arg :: "expr \<Rightarrow> nat \<Rightarrow> expr ev" where
  "Arg e n = of_go (go_index (args e) (int n))"

definition ForEachSeriesDo1 :: "evaluator \<Rightarrow> expr \<Rightarrow> int \<Rightarrow> int \<Rightarrow> (MetricData \<Rightarrow> MetricData) \<Rightarrow> MetricData list ev" where
  "ForEachSeriesDo1 ev e start stop function =
     ev_bind (Arg e 0) (\<lambda>a0. ev_bind (GetSeriesArg ev a0 start stop) (\<lambda>as. ret (map function as)))"

text \<open>The function gets the series and a copy with a new name and as many zeros as values.\<close>

definition ForEachSeriesDo ::
  "evaluator \<Rightarrow> expr \<Rightarrow> int \<Rightarrow> int \<Rightarrow> (MetricData \<Rightarrow> MetricData \<Rightarrow> MetricData) \<Rightarrow> MetricData list ev" where
  "ForEachSeriesDo ev e start stop function =
     ev_bind (Arg e 0) (\<lambda>a0. ev_bind (GetSeriesArg ev a0 start stop) (\<lambda>as.
       ret (map (\<lambda>a. function a ((CopyName (target e @ ''('' @ Name a @ '')'') a)\<lparr>Values := replicate (length (Values a)) 0\<rparr>)) as)))"

section \<open>Tags and keys\<close>

definition tag_value :: "tag_map \<Rightarrow> string \<Rightarrow> string" where
  "tag_value m k = (case map_of m k of None \<Rightarrow> [] | Some v \<Rightarrow> v)"

definition AggKey :: "MetricData \<Rightarrow> NodeOrTag list \<Rightarrow> string go_result" where
  "AggKey arg nodesOrTags =
     map_option (\<lambda>name.
         let nodes = Split1 name (CHR ''.'');
             matched = concat (map (\<lambda>nt. case nt of
                 TagValue t \<Rightarrow> [tag_value (MTags arg) t]
               | NodeValue f0 \<Rightarrow>
                   (let f = (if f0 < 0 then f0 + int (length nodes) else f0)
                    in if f \<ge> int (length nodes) \<or> f < 0 then [] else [nodes ! nat f])) nodesOrTags)
         in if matched \<noteq> [] then Join matched ''.'' else [])
       (ExtractNameTag (Name arg))"

definition Contains :: "int list \<Rightarrow> int \<Rightarrow> bool" where
  "Contains a i \<longleftrightarrow> list_ex (\<lambda>aa. aa = i) a"

definition CopyTags :: "MetricData \<Rightarrow> tag_map" where
  "CopyTags series = MTags series"

definition GetCommonTags :: "MetricData list \<Rightarrow> tag_map" where
  "GetCommonTags series =
     (if series = [] then []
      else foldl (\<lambda>commonTags serie. filter (\<lambda>(k, v). tag_value (MTags serie) k = v) commonTags)
             (CopyTags (hd series)) series)"

section \<open>Numbers\<close>

text \<open>\<open>math.Pow10\<close> multiplies or divides two entries of its tables.\<close>

definition Pow10 :: "int \<Rightarrow> f64" where
  "Pow10 n =
     (let tab = (\<lambda>k. round64 False (pow10 k))
      in if 0 \<le> n \<and> n \<le> 308 then tab (n div 32 * 32) * tab (n mod 32)
         else if - 323 \<le> n \<and> n \<le> 0 then tab (- ((- n) div 32 * 32)) div tab ((- n) mod 32)
         else if 0 < n then FInf False else 0)"

fun RoundToEven :: "f64 \<Rightarrow> f64" where
  "RoundToEven (FNum q) = (if round_half_even q = 0 then mk_zero (q < 0) else FNum (of_int (round_half_even q)))"
| "RoundToEven x = x"

definition SafeRound :: "f64 \<Rightarrow> int \<Rightarrow> f64" where
  "SafeRound x precision =
     (if isNaN x then x
      else (let roundTo = Pow10 precision in RoundToEven (x * roundTo) div roundTo))"

definition helper_XFilesFactor :: "int \<Rightarrow> int \<Rightarrow> f64 \<Rightarrow> bool" where
  "helper_XFilesFactor nonNull n xff \<longleftrightarrow>
     \<not> (nonNull < 0 \<or> n \<le> 0) \<and> xff \<le> f64_of_int nonNull div f64_of_int n"

definition XFilesFactorValues :: "f64 list \<Rightarrow> f64 \<Rightarrow> bool" where
  "XFilesFactorValues values xff \<longleftrightarrow>
     isNaN xff \<or> feq xff 0 \<or> helper_XFilesFactor (int (notNans values)) (int (length values)) xff"

definition UnitSystems :: "string \<Rightarrow> (string \<times> int) list" where
  "UnitSystems s =
     (if s = ''binary''
      then [(''Pi'', 1125899906842624), (''Ti'', 1099511627776), (''Gi'', 1073741824), (''Mi'', 1048576), (''Ki'', 1024)]
      else if s = ''si''
      then [(''P'', 1000000000000000), (''T'', 1000000000000), (''G'', 1000000000), (''M'', 1000000), (''K'', 1000)]
      else [])"

definition floatEpsilon :: f64 where
  "floatEpsilon = round64 False (pow10 (- 11))"

definition snap :: "f64 \<Rightarrow> f64 \<Rightarrow> f64" where
  "snap v x = (if x - ffloor x < floatEpsilon \<and> FNum 1 < v then ffloor x else x)"

definition FormatUnits :: "f64 \<Rightarrow> string \<Rightarrow> f64 \<times> string" where
  "FormatUnits v system =
     (case find (\<lambda>(p, sz). f64_of_int sz \<le> \<bar>v\<bar>) (UnitSystems system) of
        Some (p, sz) \<Rightarrow> (snap v (v div f64_of_int sz), p)
      | None \<Rightarrow> (snap v v, []))"

section \<open>Aggregation across series\<close>

definition column :: "MetricData list \<Rightarrow> nat \<Rightarrow> f64 list go_result" where
  "column as i = opt_map (\<lambda>a. go_index (Values a) (int i)) as"

definition aggregate_point :: "(f64 list \<Rightarrow> f64) \<Rightarrow> f64 \<Rightarrow> f64 list \<Rightarrow> f64" where
  "aggregate_point function xff values =
     (if 0 \<le> xff \<and> \<not> XFilesFactorValues values xff then FNaN else function values)"

definition AggregateSeries ::
  "go_env \<Rightarrow> quickselect \<Rightarrow> bool \<Rightarrow> expr \<Rightarrow> MetricData list \<Rightarrow> (f64 list \<Rightarrow> f64) \<Rightarrow> f64 \<Rightarrow> bool \<Rightarrow> MetricData list go_result" where
  "AggregateSeries E qs ExtrapolatePoints e as function xff extractTagsFromArgs =
     (if as = [] then Some as
      else Option.bind (ScaleSeries E qs ExtrapolatePoints as) (\<lambda>as1.
           Option.bind (CopyNameArg (target e @ ''('' @ argString e @ '')'') (target e) (GetCommonTags as1)
               extractTagsFromArgs (hd as1)) (\<lambda>r.
             map_option (\<lambda>vs.
                 [r\<lparr>MTags := (if map_of (MTags r) ''name'' = None then AList.update ''name'' (Name r) (MTags r) else MTags r),
                    Values := vs\<rparr>])
               (opt_map (\<lambda>i. map_option (aggregate_point function xff) (column as1 i)) [0..<length (Values (hd as1))]))))"

text \<open>Series of one step on one grid, each with a stop time that its values reach.\<close>

definition one_grid :: "int \<Rightarrow> MetricData list \<Rightarrow> bool" where
  "one_grid s as \<longleftrightarrow>
     as \<noteq> [] \<and> 0 < s \<and> (\<forall>r\<in>set as. StepTime r = s \<and> StopTime r \<le> values_stop r)
     \<and> (\<forall>r\<in>set as. \<forall>r'\<in>set as. s dvd StartTime r - StartTime r')"

definition padded :: "int \<Rightarrow> int \<Rightarrow> MetricData \<Rightarrow> MetricData" where
  "padded m stop r = r\<lparr>Values := lead_nans m r @ Values r @ trail_nans stop r, StartTime := m, StopTime := stop\<rparr>"

lemma padded_simps [simp]:
  "StepTime (padded m stop r) = StepTime r" "StartTime (padded m stop r) = m" "StopTime (padded m stop r) = stop"
  "Name (padded m stop r) = Name r" "MTags (padded m stop r) = MTags r"
  by (simp_all add: padded_def)

lemma one_grid_dvd:
  assumes "one_grid s as" "r \<in> set as"
  shows "s dvd StartTime r - min_start as" "s dvd max_stop as - values_stop r"
  using assms grid_reach[of as s r] by (auto simp: one_grid_def)

lemma padded_lengths:
  assumes "one_grid s as" "r \<in> set as"
  shows "int (length (lead_nans (min_start as) r)) * s = StartTime r - min_start as"
    and "int (length (trail_nans (max_stop as) r)) * s = max_stop as - values_stop r"
    and "int (length (Values (padded (min_start as) (max_stop as) r))) * s = max_stop as - min_start as"
proof -
  have s: "0 < s" "StepTime r = s" using assms by (auto simp: one_grid_def)
  show a: "int (length (lead_nans (min_start as) r)) * s = StartTime r - min_start as"
    using s one_grid_dvd(1)[OF assms] min_start_le[OF assms(2)] by (simp add: lead_nans_def pos_imp_zdiv_nonneg_iff)
  show b: "int (length (trail_nans (max_stop as) r)) * s = max_stop as - values_stop r"
    using s one_grid_dvd(2)[OF assms] max_stop_ge[OF assms(2)] by (simp add: trail_nans_def pos_imp_zdiv_nonneg_iff)
  show "int (length (Values (padded (min_start as) (max_stop as) r))) * s = max_stop as - min_start as"
    using a b s(2) by (simp add: padded_def distrib_right) (simp add: values_stop_def)
qed

lemma distinct_steps_one: "as \<noteq> [] \<Longrightarrow> \<forall>r\<in>set as. StepTime r = s \<Longrightarrow> distinct_steps as = [s]"
proof -
  have "foldl (\<lambda>steps r. if StepTime r \<in> set steps then steps else steps @ [StepTime r]) [s] bs = [s]"
    if "\<forall>r\<in>set bs. StepTime r = s" for bs
    using that by (induction bs) auto
  then show "as \<noteq> [] \<Longrightarrow> \<forall>r\<in>set as. StepTime r = s \<Longrightarrow> distinct_steps as = [s]"
    by (cases as) (auto simp: distinct_steps_def)
qed

lemma scale_pad_padded:
  assumes g: "one_grid s as" and r: "r \<in> set as"
  shows "scale_pad (min_start as) (max_stop as) (FixStopTime r) = Some (padded (min_start as) (max_stop as) r)"
proof -
  have s: "0 < StepTime r" "StopTime r \<le> values_stop r" using g r by (auto simp: one_grid_def)
  have f: "FixStopTime r = r\<lparr>StopTime := values_stop r\<rparr>" using s by (auto simp: FixStopTime_def)
  let ?m = "min_start as" and ?M = "max_stop as"
  define a where "a = r\<lparr>Values := lead_nans ?m r @ Values r, StartTime := ?m, StopTime := values_stop r\<rparr>"
  have p: "(if ?m < StartTime (FixStopTime r) then map_option (\<lambda>a. a\<lparr>StartTime := ?m\<rparr>) (prepend_nans ?m (FixStopTime r))
      else Some (FixStopTime r)) = Some a"
    using s(1) min_start_le[OF r] by (auto simp: f a_def prepend_nans_ok lead_nans_def)
  have "(if ?M > StopTime a then append_nans ?M a else Some a) = Some (padded ?m ?M r)"
    using s(1) max_stop_ge[OF r] by (auto simp: a_def padded_def append_nans_ok trail_nans_def)
  then show ?thesis unfolding scale_pad_def p by simp
qed

lemma AlignSeries_padded:
  "one_grid s as \<Longrightarrow> AlignSeries False as = Some (map (padded (min_start as) (max_stop as)) as)"
  using AlignSeries_map[of as s] by (simp add: one_grid_def padded_def)

lemma ScaleSeries_padded:
  assumes g: "one_grid s as"
  shows "ScaleSeries E qs False as = Some (map (padded (min_start as) (max_stop as)) as)"
proof -
  let ?p = "padded (min_start as) (max_stop as)"
  have s: "as \<noteq> []" "0 < s" "\<forall>r\<in>set as. StepTime r = s" "\<forall>r\<in>set as. StopTime r \<le> values_stop r"
    using g by (auto simp: one_grid_def)
  have iv: "GetInterval as = Some (map FixStopTime as, min_start as, max_stop as)"
    by (rule GetInterval_max_stop[OF s(1,4)])
  have "distinct_steps (map FixStopTime as) = [s]"
    using s by (intro distinct_steps_one) (auto simp: FixStopTime_def)
  then have cs: "GetCommonStep (map FixStopTime as) = Some (s, False)"
    by (simp add: GetCommonStep_def)
  have om: "opt_map (scale_pad (min_start as) (max_stop as)) (map FixStopTime as) = Some (map ?p as)"
    unfolding opt_map_map by (rule opt_map_Some) (rule scale_pad_padded[OF g])
  have "fill_up (max_vals (map ?p as)) (?p r) = ?p r" if r: "r \<in> set as" for r
  proof -
    have len: "length (Values (?p x)) = nat ((max_stop as - min_start as) div s)" if "x \<in> set as" for x
      using padded_lengths(3)[OF g that] s(2) by (metis nat_int nonzero_mult_div_cancel_right less_irrefl)
    have "max_vals (map ?p as) \<in> insert 0 (length ` Values ` ?p ` set as)"
    proof -
      have "foldl (\<lambda>m r. if length (Values r) > m then length (Values r) else m) n bs \<in> insert n (length ` Values ` set bs)" for n bs
        by (induction bs arbitrary: n) (auto split: if_splits)
      then show ?thesis unfolding max_vals_def by (metis set_map)
    qed
    then have "max_vals (map ?p as) \<le> length (Values (?p r))" using len r by auto
    moreover have "StopTime (?p r) = values_stop (?p r)"
      using padded_lengths(3)[OF g r] s(3) r by (simp add: values_stop_def)
    ultimately show ?thesis by (simp add: fill_up_def RecalcStopTime_def)
  qed
  then have "map (fill_up (max_vals (map ?p as))) (map ?p as) = map ?p as" by simp
  then show ?thesis
    unfolding ScaleSeries_def iv by (simp only: bind.simps prod.case if_False option.map cs om)
qed

text \<open>The value of a series at a time of its grid, absent outside its range.\<close>

definition value_at :: "MetricData \<Rightarrow> int \<Rightarrow> f64" where
  "value_at r t =
     (let i = (t - StartTime r) div StepTime r
      in if StartTime r \<le> t \<and> i < int (length (Values r)) then Values r ! nat i else FNaN)"

lemma value_at_index:
  assumes "0 < StepTime r" "i < length (Values r)"
  shows "value_at r (StartTime r + int i * StepTime r) = Values r ! i"
  using assms by (simp add: value_at_def)

text \<open>Padding changes no value.\<close>

lemma value_at_padded:
  assumes g: "one_grid s as" and r: "r \<in> set as"
  shows "value_at (padded (min_start as) (max_stop as) r) (min_start as + int i * s) = value_at r (min_start as + int i * s)"
proof -
  define m where "m = length (lead_nans (min_start as) r)"
  have s: "0 < s" "StepTime r = s" using g r by (auto simp: one_grid_def)
  have st: "StartTime r = min_start as + int m * s" using padded_lengths(1)[OF g r] by (simp add: m_def)
  have d: "(min_start as + int i * s - StartTime r) div s = int i - int m"
    using s(1) by (simp add: st flip: left_diff_distrib)
  have lead: "lead_nans (min_start as) r = replicate m FNaN"
    unfolding m_def lead_nans_def by simp
  obtain k where trail: "trail_nans (max_stop as) r = replicate k FNaN" unfolding trail_nans_def by blast
  show ?thesis
  proof (cases "m \<le> i")
    case True
    then obtain j where j: "i = m + j" using le_Suc_ex by blast
    have "(replicate m FNaN @ Values r @ replicate k FNaN) ! (m + j) = (if j < length (Values r) then Values r ! j else FNaN)"
      if "j < length (Values r) + k"
      using that by (simp add: nth_append)
    moreover have "StartTime r \<le> min_start as + int i * s" using s by (simp add: st j)
    ultimately show ?thesis using s d by (auto simp: value_at_def padded_def lead trail j Let_def nat_int_add)
  next
    case False
    then have "\<not> StartTime r \<le> min_start as + int i * s" using s by (simp add: st)
    then show ?thesis using False s by (simp add: value_at_def padded_def lead trail nth_append)
  qed
qed

lemma column_padded:
  assumes g: "one_grid s as" and as: "a \<in> set as" and i: "i < length (Values (padded (min_start as) (max_stop as) a))"
  shows "column (map (padded (min_start as) (max_stop as)) as) i = Some (map (\<lambda>x. value_at x (min_start as + int i * s)) as)"
proof -
  let ?p = "padded (min_start as) (max_stop as)"
  have s: "0 < s" "\<forall>r\<in>set as. StepTime r = s" using g by (auto simp: one_grid_def)
  have "go_index (Values (?p x)) (int i) = Some (value_at x (min_start as + int i * s))" if x: "x \<in> set as" for x
  proof -
    have "length (Values (?p x)) = length (Values (?p a))"
      using padded_lengths(3)[OF g x] padded_lengths(3)[OF g as] s(1) by (metis mult_right_cancel less_irrefl of_nat_eq_iff)
    then show ?thesis
      using value_at_padded[OF g x, of i] value_at_index[of "?p x" i] i s x by (simp add: go_index_def)
  qed
  then show ?thesis by (simp add: column_def opt_map_map opt_map_Some)
qed

text \<open>
  C38: aggregating series of one step works time by time: at every time of the common range the
  aggregate is the function applied to the values the series have at that time, those that do not
  reach it counting as absent, and it is absent where too few values are present for the
  factor. The result has the step of the series and reaches from their least start to their
  greatest stop.
\<close>

theorem AggregateSeries_at:
  assumes g: "one_grid s as"
    and name: "ExtractName (target e @ ''('' @ argString e @ '')'') \<noteq> None"
  shows "\<exists>r. AggregateSeries E qs False e as f xff extract = Some [r]
     \<and> StepTime r = s \<and> StartTime r = min_start as \<and> StopTime r = max_stop as
     \<and> int (length (Values r)) * s = max_stop as - min_start as
     \<and> (\<forall>i<length (Values r). value_at r (min_start as + int i * s)
          = aggregate_point f xff (map (\<lambda>a. value_at a (min_start as + int i * s)) as))"
proof -
  let ?p = "padded (min_start as) (max_stop as)"
  have s: "as \<noteq> []" "0 < s" "\<forall>r\<in>set as. StepTime r = s" using g by (auto simp: one_grid_def)
  then obtain a bs where as: "as = a # bs" by (cases as) auto
  define n where "n = length (Values (?p a))"
  obtain r where r: "CopyNameArg (target e @ ''('' @ argString e @ '')'') (target e) (GetCommonTags (map ?p as)) extract (?p a) = Some r"
    and rf: "StepTime r = s" "StartTime r = min_start as" "StopTime r = max_stop as"
    using name s(3) as by (auto simp: CopyNameArg_def)
  have col: "column (map ?p as) i = Some (map (\<lambda>x. value_at x (min_start as + int i * s)) as)" if "i < n" for i
    using column_padded[OF g, of a i] that as by (simp add: n_def)
  let ?v = "\<lambda>i. aggregate_point f xff (map (\<lambda>x. value_at x (min_start as + int i * s)) as)"
  have vs: "opt_map (\<lambda>i. map_option (aggregate_point f xff) (column (map ?p as) i)) [0..<n] = Some (map ?v [0..<n])"
    by (rule opt_map_Some) (simp add: col)
  define r' where "r' = r\<lparr>MTags := (if map_of (MTags r) ''name'' = None then AList.update ''name'' (Name r) (MTags r) else MTags r),
      Values := map ?v [0..<n]\<rparr>"
  have "AggregateSeries E qs False e as f xff extract = Some [r']"
    using s(1) ScaleSeries_padded[OF g, of E qs] r vs n_def
    by (simp add: AggregateSeries_def as r'_def)
  moreover have "int n * s = max_stop as - min_start as"
    using padded_lengths(3)[OF g, of a] as by (simp add: n_def)
  moreover have "value_at r' (min_start as + int i * s) = ?v i" if "i < n" for i
    using value_at_index[of r' i] that s(2) rf by (simp add: r'_def)
  ultimately show ?thesis using rf by (intro exI[of _ r']) (simp add: r'_def)
qed

theorem AggregateSeries_at_witness:
  "\<forall>E qs. \<exists>r. AggregateSeries E qs False (Expr ''sumSeries'' EtFunc (FNum 0) [] [] [] ''a,b'')
      [makeMetricDataWithTags ''a'' [FNum 1, FNum 2] 10 20 [], makeMetricDataWithTags ''b'' [FNum 5, FNum 7] 10 30 []]
      AggSum (- 1) False = Some [r]
    \<and> length (Values r) = 3 \<and> value_at r 20 = FNum 1 \<and> value_at r 30 = FNum 7 \<and> value_at r 40 = FNum 7"
proof (intro allI)
  fix E qs
  let ?as = "[makeMetricDataWithTags ''a'' [FNum 1, FNum 2] 10 20 [], makeMetricDataWithTags ''b'' [FNum 5, FNum 7] 10 30 []]"
  let ?e = "Expr ''sumSeries'' EtFunc (FNum 0) [] [] [] ''a,b''"
  have g: "one_grid 10 ?as"
    by (simp add: one_grid_def makeMetricDataWithTags_def values_stop_def)
  have n: "ExtractName (target ?e @ ''('' @ argString ?e @ '')'') \<noteq> None" by code_simp
  have m: "min_start ?as = 20" "max_stop ?as = 50"
    by (simp_all add: min_start_def max_stop_def makeMetricDataWithTags_def values_stop_def)
  obtain r where r: "AggregateSeries E qs False ?e ?as AggSum (- 1) False = Some [r]" "int (length (Values r)) * 10 = 30"
    "\<forall>i<length (Values r). value_at r (20 + int i * 10) = aggregate_point AggSum (- 1) (map (\<lambda>a. value_at a (20 + int i * 10)) ?as)"
    using AggregateSeries_at[OF g n, of E qs AggSum "- 1" False] unfolding m by auto
  have l: "length (Values r) = 3" using r(2) by simp
  show "\<exists>r. AggregateSeries E qs False ?e ?as AggSum (- 1) False = Some [r]
    \<and> length (Values r) = 3 \<and> value_at r 20 = FNum 1 \<and> value_at r 30 = FNum 7 \<and> value_at r 40 = FNum 7"
    using r(1) l r(3)[rule_format, of 0] r(3)[rule_format, of 1] r(3)[rule_format, of 2]
    by (simp add: aggregate_point_def value_at_def makeMetricDataWithTags_def AggSum_def zero_f64_def one_f64_def plus_f64_def less_eq_f64_def)
qed

end
