(* ===== verification/Windowed.thy ===== *)
theory Windowed
  imports Consolidations
begin

text \<open>
  The ring buffer of the moving functions, \<open>expr/types/windowed.go\<close>: a slice of fixed length, the
  position of the oldest value, and running statistics. It is refined against a queue of the
  last \<open>n\<close> values; the statistics are related to the contents of the queue.
\<close>

section \<open>The ring buffer\<close>

record windowed =
  wData :: "f64 list"
  w_head :: nat
  w_length :: nat
  w_sum :: f64
  w_sumsq :: f64
  w_nans :: int

definition Reset :: "windowed \<Rightarrow> windowed" where
  "Reset w = w\<lparr>w_length := 0, w_head := 0, w_sum := 0, w_sumsq := 0, w_nans := 0,
     wData := replicate (length (wData w)) 0\<rparr>"

definition Push :: "windowed \<Rightarrow> f64 \<Rightarrow> windowed" where
  "Push w n =
     (if wData w = [] then w
      else (let old = wData w ! w_head w;
                hd1 = Suc (w_head w);
                w1 = w\<lparr>w_length := Suc (w_length w), wData := (wData w)[w_head w := n],
                       w_head := (if hd1 \<ge> length (wData w) then 0 else hd1)\<rparr>;
                w2 = (if \<not> isNaN old
                      then w1\<lparr>w_sum := w_sum w1 - old, w_sumsq := w_sumsq w1 - old * old\<rparr>
                      else w1\<lparr>w_nans := w_nans w1 - 1\<rparr>)
            in if \<not> isNaN n
               then w2\<lparr>w_sum := w_sum w2 + n, w_sumsq := w_sumsq w2 + n * n\<rparr>
               else w2\<lparr>w_nans := w_nans w2 + 1\<rparr>))"

definition Len :: "windowed \<Rightarrow> int" where
  "Len w =
     (if w_length w < length (wData w) then int (w_length w) - w_nans w
      else int (length (wData w)) - w_nans w)"

definition Stdev :: "windowed \<Rightarrow> f64" where
  "Stdev w =
     (if Len w = 0 then 0
      else fsqrt (f64_of_int (Len w) * w_sumsq w - w_sum w * w_sum w) div f64_of_int (Len w))"

definition SumSQ :: "windowed \<Rightarrow> f64" where
  "SumSQ w = w_sumsq w"

definition Sum :: "windowed \<Rightarrow> f64" where
  "Sum w = w_sum w"

definition Multiply :: "windowed \<Rightarrow> f64" where
  "Multiply w = foldl (\<lambda>rv f. if \<not> isNaN rv then rv * f else rv) (FNum 1) (wData w)"

definition Mean :: "windowed \<Rightarrow> f64" where
  "Mean w = w_sum w div f64_of_int (Len w)"

definition MeanZero :: "windowed \<Rightarrow> f64" where
  "MeanZero w = w_sum w div f64_of_int (int (length (wData w)))"

definition Median :: "quickselect \<Rightarrow> windowed \<Rightarrow> f64" where
  "Median qs w = Percentile qs (wData w) (FNum 50) True"

definition WMax :: "windowed \<Rightarrow> f64" where
  "WMax w = foldl (\<lambda>rv f. if isNaN rv \<or> rv < f then f else rv) FNaN (wData w)"

definition WMin :: "windowed \<Rightarrow> f64" where
  "WMin w = foldl (\<lambda>rv f. if isNaN rv \<or> f < rv then f else rv) FNaN (wData w)"

definition Count :: "windowed \<Rightarrow> f64" where
  "Count w = f64_of_int (Len w)"

text \<open>\<open>Diff\<close> and \<open>Last\<close> index the slice: they panic on an empty one.\<close>

definition Diff :: "windowed \<Rightarrow> f64 go_result" where
  "Diff w =
     map_option (\<lambda>rv. foldl (\<lambda>rv (i, f). if \<not> isNaN f \<and> i \<noteq> w_head w then rv - f else rv) rv
         (enumerate 0 (wData w)))
       (go_index (wData w) (int (w_head w)))"

definition Range :: "windowed \<Rightarrow> f64" where
  "Range w = (case range_loop (wData w) (FInf True, FInf False) of (vMax, vMin) \<Rightarrow> vMax - vMin)"

definition Last :: "windowed \<Rightarrow> f64 go_result" where
  "Last w =
     go_index (wData w) (if w_head w = 0 then int (length (wData w)) - 1 else int (w_head w) - 1)"

definition IsNonNull :: "windowed \<Rightarrow> bool" where
  "IsNonNull w \<longleftrightarrow> int (length (wData w)) \<noteq> w_nans w"

section \<open>The queue it implements\<close>

text \<open>
  What a moving function relies on: a window of fixed length from which each push drops the
  oldest value and appends the newest.
\<close>

locale sliding_window =
  fixes inv :: "'w \<Rightarrow> bool" and contents :: "'w \<Rightarrow> 'a list" and push :: "'w \<Rightarrow> 'a \<Rightarrow> 'w"
  assumes contents_nonempty: "inv w \<Longrightarrow> contents w \<noteq> []"
    and inv_push: "inv w \<Longrightarrow> inv (push w x)"
    and contents_push: "inv w \<Longrightarrow> contents (push w x) = tl (contents w) @ [x]"
begin

lemma inv_pushes: "inv w \<Longrightarrow> inv (foldl push w xs)"
  by (induction xs arbitrary: w) (auto simp: inv_push)

lemma length_pushes: "inv w \<Longrightarrow> length (contents (foldl push w xs)) = length (contents w)"
proof (induction xs arbitrary: w)
  case (Cons x xs)
  have "length (contents (push w x)) = length (contents w)"
    using Cons.prems contents_nonempty[of w] by (simp add: contents_push)
  then show ?case using Cons inv_push by simp
qed simp

lemma contents_pushes: "inv w \<Longrightarrow> contents (foldl push w xs) = drop (length xs) (contents w @ xs)"
proof (induction xs arbitrary: w)
  case (Cons x xs)
  then obtain c cs where "contents w = c # cs" using contents_nonempty[of w] by (cases "contents w") auto
  with Cons show ?case by (simp add: contents_push inv_push del: drop_append)
qed simp

text \<open>Once as many values as the window holds were pushed, the window is the last of them.\<close>

lemma contents_last:
  assumes "inv w" "length (contents w) \<le> length xs"
  shows "contents (foldl push w xs) = drop (length xs - length (contents w)) xs"
  using assms by (simp add: contents_pushes)

end

definition w_contents :: "windowed \<Rightarrow> f64 list" where
  "w_contents w = drop (w_head w) (wData w) @ take (w_head w) (wData w)"

definition w_inv :: "windowed \<Rightarrow> bool" where
  "w_inv w \<longleftrightarrow> w_head w < length (wData w) \<and> w_nans w = int (length (filter isNaN (wData w)))"

lemma Push_shape:
  assumes "w_inv w"
  shows "wData (Push w n) = (wData w)[w_head w := n]"
    "w_head (Push w n) = (if Suc (w_head w) \<ge> length (wData w) then 0 else Suc (w_head w))"
    "w_length (Push w n) = Suc (w_length w)"
    "w_nans (Push w n) = w_nans w - (if isNaN (wData w ! w_head w) then 1 else 0) + (if isNaN n then 1 else 0)"
  using assms by (auto simp: w_inv_def Push_def Let_def)

lemma w_inv_Push: "w_inv w \<Longrightarrow> w_inv (Push w n)"
  using Push_shape[of w n] length_filter_update[of "w_head w" "wData w" isNaN n]
  by (auto simp: w_inv_def split: if_splits)

lemma contents_Push: "w_inv w \<Longrightarrow> w_contents (Push w n) = tl (w_contents w) @ [n]"
proof -
  assume w: "w_inv w"
  then have h: "w_head w < length (wData w)" by (simp add: w_inv_def)
  define xs i where "xs = wData w" and "i = w_head w"
  have i: "i < length xs" using h by (simp add: xs_def i_def)
  have tl: "tl (drop i xs @ take i xs) = drop (Suc i) xs @ take i xs"
    using i by (metis Cons_nth_drop_Suc append_Cons list.sel(3))
  show ?thesis
  proof (cases "Suc i \<ge> length xs")
    case True
    with i have "i = length xs - 1" "xs \<noteq> []" by auto
    then show ?thesis
      using True tl Push_shape[OF w, of n]
      by (simp add: w_contents_def xs_def[symmetric] i_def[symmetric] take_update_cancel list_update_append)
        (metis True append_take_drop_id i drop_all list_update_id upd_conv_take_nth_drop append_self_conv2)
  next
    case False
    then show ?thesis
      using tl Push_shape[OF w, of n] i
      by (simp add: w_contents_def xs_def[symmetric] i_def[symmetric] take_Suc_conv_app_nth)
  qed
qed

interpretation ring: sliding_window w_inv w_contents Push
  by unfold_locales (auto simp: w_inv_Push contents_Push, auto simp: w_contents_def w_inv_def)

lemma Reset_inv: "wData w \<noteq> [] \<Longrightarrow> w_inv (Reset w)"
  by (simp add: w_inv_def Reset_def zero_f64_def)

lemma Reset_contents: "w_contents (Reset w) = replicate (length (wData w)) 0"
  by (simp add: w_contents_def Reset_def)

text \<open>
  C6: after a reset and any number of pushes the buffer holds, from its oldest to its newest
  cell, the last values pushed, preceded by the zeros of the reset while it is not full.
\<close>

theorem window_contents:
  assumes "wData w \<noteq> []"
  shows "w_contents (foldl Push (Reset w) xs) = drop (length xs) (replicate (length (wData w)) 0 @ xs)"
  using ring.contents_pushes[OF Reset_inv[OF assms], of xs] by (simp add: Reset_contents)

definition empty_window :: "nat \<Rightarrow> windowed" where
  "empty_window n = \<lparr>wData = replicate n 0, w_head = 0, w_length = 0, w_sum = 0, w_sumsq = 0, w_nans = 0\<rparr>"

theorem window_contents_witness:
  "wData (empty_window 3) \<noteq> [] \<and>
   w_contents (foldl Push (Reset (empty_window 3)) [FNum 1, FNaN, FNum 2, FNum 3]) = [FNaN, FNum 2, FNum 3]"
proof -
  have "wData (empty_window 3) \<noteq> []" by (simp add: empty_window_def)
  from window_contents[OF this, of "[FNum 1, FNaN, FNum 2, FNum 3]"] this
  show ?thesis by (simp add: empty_window_def eval_nat_numeral)
qed

section \<open>The statistics\<close>

lemma w_length_pushes: "w_inv w \<Longrightarrow> w_length (foldl Push w xs) = w_length w + length xs"
  by (induction xs arbitrary: w) (simp_all add: Push_shape w_inv_Push)

lemma length_wData_pushes: "w_inv w \<Longrightarrow> length (wData (foldl Push w xs)) = length (wData w)"
  by (induction xs arbitrary: w) (simp_all add: Push_shape w_inv_Push)

lemma nans_contents: "w_inv w \<Longrightarrow> w_nans w = int (length (filter isNaN (w_contents w)))"
proof -
  assume "w_inv w"
  have "filter isNaN (wData w) = filter isNaN (take (w_head w) (wData w)) @ filter isNaN (drop (w_head w) (wData w))"
    by (metis append_take_drop_id filter_append)
  with \<open>w_inv w\<close> show ?thesis by (simp add: w_inv_def w_contents_def)
qed

lemma length_nan_partition: "length (filter isNaN xs) + notNans xs = length xs"
  unfolding notNans_def non_nan_def by (rule sum_length_filter_compl)

text \<open>
  \<open>Len\<close> counts the present values among the last ones pushed, at most as many as the
  window holds, also while the window is filling up.
\<close>

lemma window_Len:
  assumes "wData w \<noteq> []"
  shows "Len (foldl Push (Reset w) xs) = int (notNans (drop (length xs - length (wData w)) xs))"
proof -
  let ?w = "foldl Push (Reset w) xs" and ?n = "length (wData w)"
  have inv: "w_inv ?w" and l: "w_length ?w = length xs" "length (wData ?w) = ?n"
    using ring.inv_pushes[OF Reset_inv[OF assms], of xs] w_length_pushes[OF Reset_inv[OF assms], of xs]
      length_wData_pushes[OF Reset_inv[OF assms], of xs] by (simp_all add: Reset_def)
  have c: "w_contents ?w = replicate (?n - length xs) 0 @ drop (length xs - ?n) xs"
    using ring.contents_pushes[OF Reset_inv[OF assms], of xs] by (simp add: Reset_contents)
  have "w_nans ?w = int (length (filter isNaN (drop (length xs - ?n) xs)))"
    using nans_contents[OF inv] by (simp add: c zero_f64_def)
  then show ?thesis
    using length_nan_partition[of "drop (length xs - ?n) xs"] by (auto simp: Len_def l)
qed

lemma window_Len_witness:
  "wData (empty_window 3) \<noteq> [] \<and> Len (foldl Push (Reset (empty_window 3)) [FNaN, FNum 2]) = 1"
proof -
  have "wData (empty_window 3) \<noteq> []" by (simp add: empty_window_def)
  from window_Len[OF this, of "[FNaN, FNum 2]"] this
  show ?thesis by (simp add: empty_window_def notNans_def non_nan_def)
qed

text \<open>Integral values of bounded size, on which the running sum is exact.\<close>

fun int_value :: "f64 \<Rightarrow> int" where
  "int_value (FNum q) = \<lfloor>q\<rfloor>"
| "int_value _ = 0"

definition integral :: "int \<Rightarrow> f64 \<Rightarrow> bool" where
  "integral B v \<longleftrightarrow> v = FNaN \<or> (v = FNum (of_int (int_value v)) \<and> \<bar>int_value v\<bar> \<le> B)"

lemma plus_exact: "\<bar>a + b\<bar> \<le> 2 ^ 53 \<Longrightarrow> FNum (of_int a) + FNum (of_int b) = FNum (of_int (a + b))"
  using f64_of_int_exact[of "a + b"] by (simp add: plus_f64_def f64_of_int_def)

lemma minus_exact: "\<bar>a - b\<bar> \<le> 2 ^ 53 \<Longrightarrow> FNum (of_int a) - FNum (of_int b) = FNum (of_int (a - b))"
  using f64_of_int_exact[of "a - b"]
  by (auto simp: minus_f64_def plus_f64_def f64_of_int_def)

lemma sum_list_update:
  fixes f :: "'a \<Rightarrow> int"
  shows "i < length xs \<Longrightarrow> sum_list (map f (xs[i := x])) = sum_list (map f xs) - f (xs ! i) + f x"
  by (induction xs arbitrary: i) (auto split: nat.splits)

lemma sum_list_bound:
  "\<forall>v\<in>set xs. \<bar>f v\<bar> \<le> B \<Longrightarrow> \<bar>sum_list (map f xs)\<bar> \<le> int (length xs) * (B :: int)"
  by (induction xs) (auto simp: algebra_simps)

definition sum_exact :: "int \<Rightarrow> windowed \<Rightarrow> bool" where
  "sum_exact B w \<longleftrightarrow> list_all (integral B) (wData w) \<and> w_sum w = FNum (of_int (sum_list (map int_value (wData w))))"

lemma w_sum_Push:
  "w_inv w \<Longrightarrow> w_sum (Push w n) =
     (let s = (if isNaN (wData w ! w_head w) then w_sum w else w_sum w - wData w ! w_head w)
      in if isNaN n then s else s + n)"
  by (auto simp: w_inv_def Push_def Let_def)

lemma integral_cases: "integral B v \<Longrightarrow> (isNaN v \<and> int_value v = 0) \<or> (\<not> isNaN v \<and> v = FNum (of_int (int_value v)) \<and> \<bar>int_value v\<bar> \<le> B)"
  by (cases v) (auto simp: integral_def)

lemma integral_bound: "integral B v \<Longrightarrow> 0 \<le> B \<Longrightarrow> \<bar>int_value v\<bar> \<le> B"
  by (auto simp: integral_def)

lemma sum_exact_Push:
  assumes w: "w_inv w" and ex: "sum_exact B w" and n: "integral B n"
    and B: "0 \<le> B" "(int (length (wData w)) + 2) * B \<le> 2 ^ 53"
  shows "sum_exact B (Push w n)"
proof -
  let ?S = "sum_list (map int_value (wData w))" and ?old = "wData w ! w_head w"
  have h: "w_head w < length (wData w)" using w by (simp add: w_inv_def)
  have old: "integral B ?old" using ex h by (simp add: sum_exact_def list_all_length)
  have "\<bar>?S\<bar> \<le> int (length (wData w)) * B"
    using ex B(1) integral_bound by (intro sum_list_bound) (auto simp: sum_exact_def list_all_iff)
  then have bound: "\<bar>?S - int_value ?old\<bar> \<le> 2 ^ 53" "\<bar>?S - int_value ?old + int_value n\<bar> \<le> 2 ^ 53"
    using integral_bound[OF old B(1)] integral_bound[OF n B(1)] B(2) by (simp_all add: algebra_simps)
  have s: "w_sum w = FNum (of_int ?S)" using ex by (simp add: sum_exact_def)
  have "(if isNaN ?old then w_sum w else w_sum w - ?old) = FNum (of_int (?S - int_value ?old))"
    using integral_cases[OF old] minus_exact[OF bound(1)] by (metis s diff_zero)
  moreover have "(if isNaN n then FNum (of_int (?S - int_value ?old)) else FNum (of_int (?S - int_value ?old)) + n) =
      FNum (of_int (?S - int_value ?old + int_value n))"
    using integral_cases[OF n] plus_exact[OF bound(2)] by (metis add.right_neutral)
  ultimately have "w_sum (Push w n) = FNum (of_int (?S - int_value ?old + int_value n))"
    by (simp only: w_sum_Push[OF w] Let_def)
  moreover have "list_all (integral B) ((wData w)[w_head w := n])"
    using ex n by (auto simp: sum_exact_def list_all_iff dest: set_update_subset_insert[THEN subsetD])
  ultimately show ?thesis
    using sum_list_update[OF h, of int_value n] by (simp add: sum_exact_def Push_shape[OF w])
qed

lemma sum_exact_pushes:
  "w_inv w \<Longrightarrow> sum_exact B w \<Longrightarrow> list_all (integral B) xs \<Longrightarrow> 0 \<le> B \<Longrightarrow>
   (int (length (wData w)) + 2) * B \<le> 2 ^ 53 \<Longrightarrow> sum_exact B (foldl Push w xs)"
  by (induction xs arbitrary: w) (simp_all add: sum_exact_Push w_inv_Push Push_shape)

lemma sum_contents: "sum_list (map f (w_contents w)) = sum_list (map f (wData w))" for f :: "f64 \<Rightarrow> int"
proof -
  have "sum_list (map f (wData w)) = sum_list (map f (take (w_head w) (wData w) @ drop (w_head w) (wData w)))"
    by simp
  then show ?thesis by (simp add: w_contents_def del: append_take_drop_id)
qed

text \<open>
  the running sum does not drift on integral values: as long as the values are integers of
  size at most \<open>B\<close> with \<open>(n + 2) * B \<le> 2 ^ 53\<close> for a window of \<open>n\<close> cells, the sum is exactly the sum
  of the present values in the window, however many values have passed through it.
\<close>

lemma window_sum_exact:
  assumes "wData w \<noteq> []" "list_all (integral B) xs" "0 \<le> B" "(int (length (wData w)) + 2) * B \<le> 2 ^ 53"
  shows "Sum (foldl Push (Reset w) xs) =
    FNum (of_int (sum_list (map int_value (drop (length xs - length (wData w)) xs))))"
proof -
  let ?w = "foldl Push (Reset w) xs" and ?n = "length (wData w)"
  have z: "integral B 0" using assms(3) by (simp add: integral_def zero_f64_def)
  have "sum_exact B (Reset w)"
    using z by (simp add: sum_exact_def Reset_def list_all_iff sum_list_replicate zero_f64_def)
  then have "sum_exact B ?w"
    using assms Reset_inv by (intro sum_exact_pushes) (simp_all add: Reset_def)
  moreover have "w_contents ?w = replicate (?n - length xs) 0 @ drop (length xs - ?n) xs"
    using ring.contents_pushes[OF Reset_inv[OF assms(1)], of xs] by (simp add: Reset_contents)
  ultimately show ?thesis
    using sum_contents[of int_value ?w] by (simp add: Sum_def sum_exact_def sum_list_replicate zero_f64_def)
qed

lemma window_sum_exact_witness:
  "list_all (integral 100) [FNum 1, FNaN, FNum 2, FNum (- 30)] \<and>
   Sum (foldl Push (Reset (empty_window 2)) [FNum 1, FNaN, FNum 2, FNum (- 30)]) = FNum (- 28)"
proof -
  have i: "list_all (integral 100) [FNum 1, FNaN, FNum 2, FNum (- 30)]" by code_simp
  have "wData (empty_window 2) \<noteq> []" "(int (length (wData (empty_window 2))) + 2) * 100 \<le> 2 ^ 53"
    by (simp_all add: empty_window_def)
  from window_sum_exact[OF this(1) i _ this(2)] i show ?thesis by (simp add: empty_window_def)
qed

end
