(* ===== verification/Moving.thy ===== *)
theory Moving
  imports Helpers Windowed
begin

text \<open>
  The moving functions, \<open>expr/functions/moving/function.go\<close>: \<open>movingAverage\<close>, \<open>movingMin\<close>,
  \<open>movingMax\<close>, \<open>movingSum\<close> and \<open>movingWindow\<close>. They fetch the points before the start that the
  first window needs, and run the ring buffer of \<open>Windowed\<close> over each series.
\<close>

section \<open>One series\<close>

text \<open>The statistic a window is asked for; a name the switch does not know leaves the zero of the result.\<close>

definition window_stat :: "quickselect \<Rightarrow> string \<Rightarrow> windowed \<Rightarrow> f64 go_result" where
  "window_stat qs cons w =
     (if cons = ''average'' \<or> cons = ''avg'' then Some (Mean w)
      else if cons = ''avg_zero'' then Some (MeanZero w)
      else if cons = ''sum'' then Some (Sum w)
      else if cons = ''min'' then Some (WMin w)
      else if cons = ''max'' then Some (WMax w)
      else if cons = ''multiply'' then Some (Multiply w)
      else if cons = ''range'' then Some (Range w)
      else if cons = ''diff'' then Diff w
      else if cons = ''stddev'' then Some (Stdev w)
      else if cons = ''count'' then Some (Count w)
      else if cons = ''last'' then Last w
      else if cons = ''median'' then Some (Median qs w)
      else Some 0)"

definition moving_point :: "quickselect \<Rightarrow> string \<Rightarrow> f64 \<Rightarrow> windowed \<Rightarrow> f64 go_result" where
  "moving_point qs cons xff w =
     (if IsNonNull w \<and> XFilesFactorValues (wData w) xff then window_stat qs cons w else Some FNaN)"

text \<open>The loop over the values from index \<open>i\<close> on; a result is written once the window is full.\<close>

fun moving_loop :: "quickselect \<Rightarrow> string \<Rightarrow> f64 \<Rightarrow> nat \<Rightarrow> windowed \<Rightarrow> nat \<Rightarrow> f64 list \<Rightarrow> f64 list go_result" where
  "moving_loop qs cons xff n w i [] = Some []"
| "moving_loop qs cons xff n w i (v # vs) =
     (let w1 = Push w v
      in if i < n then moving_loop qs cons xff n w1 (Suc i) vs
         else (case moving_point qs cons xff w1 of
                 None \<Rightarrow> Panic
               | Some x \<Rightarrow> map_option (Cons x) (moving_loop qs cons xff n w1 (Suc i) vs)))"

definition moving_series ::
  "quickselect \<Rightarrow> bool \<Rightarrow> string \<Rightarrow> string \<Rightarrow> f64 \<Rightarrow> string \<Rightarrow> int \<Rightarrow> int \<Rightarrow> MetricData \<Rightarrow> MetricData go_result" where
  "moving_series qs ReturnNaNsIfStepMismatch f cons xff argstr preview windowPoints a =
     (let r = (CopyLink a)\<lparr>Name := f @ ''('' @ Name a @ '','' @ argstr @ '')'', MTags := AList.update f argstr (MTags a)\<rparr>
      in if windowPoints = 0
         then Some (r\<lparr>Values := (if ReturnNaNsIfStepMismatch then replicate (length (Values a)) FNaN else Values a),
                  StartTime := StartTime r + preview, StopTime := StopTime r + preview\<rparr>)
         else if windowPoints < 0 then Panic
         else (let n = nat windowPoints; sz = length (Values a) - n
               in map_option (\<lambda>vs. r\<lparr>Values := vs, StartTime := StartTime a + preview,
                      StopTime := StartTime a + preview + int sz * StepTime r\<rparr>)
                    (moving_loop qs cons xff n (empty_window n) 1 (tl (Values a)))))"

text \<open>The points of a window given as an interval depend on the step of the series.\<close>

definition moving_one ::
  "quickselect \<Rightarrow> bool \<Rightarrow> expr \<Rightarrow> string \<Rightarrow> f64 \<Rightarrow> string \<Rightarrow> int \<Rightarrow> int \<Rightarrow> MetricData \<Rightarrow> MetricData go_result" where
  "moving_one qs cfg e cons xff argstr preview n a =
     Option.bind (if etype (args e ! 1) = EtString then go_div preview (StepTime a) else Some n)
       (\<lambda>windowPoints. moving_series qs cfg (target e) cons xff argstr preview windowPoints a)"

section \<open>The function\<close>

definition max_step :: "MetricData list \<Rightarrow> int" where
  "max_step as = foldl (\<lambda>m a. if StepTime a > m then StepTime a else m) 0 as"

text \<open>The consolidation and the factor: \<open>movingWindow\<close> takes both as arguments.\<close>

definition moving_cons :: "go_env \<Rightarrow> expr \<Rightarrow> f64 \<Rightarrow> (string \<times> f64) ev" where
  "moving_cons E e xff0 =
     (if target e = ''movingWindow''
      then ev_bind (of_parser (GetStringArgDefault e 2 ''average'')) (\<lambda>cons.
           if length (args e) = 4
           then ev_bind (of_parser (GetFloatArgDefault E e 3 xff0)) (\<lambda>x. ret (cons, x))
           else ret (cons, 0))
      else (let cons = (if target e = ''movingAverage'' then ''average'' else if target e = ''movingSum'' then ''sum''
                        else if target e = ''movingMin'' then ''min'' else if target e = ''movingMax'' then ''max''
                        else if target e = ''movingMedian'' then ''median'' else [])
            in if length (args e) = 3
               then ev_bind (of_parser (GetFloatArgDefault E e 2 xff0)) (\<lambda>x. ret (cons, x))
               else ret (cons, 0)))"

text \<open>The size of the window: the text of the argument, the time before the start, and the points.\<close>

definition moving_finish ::
  "go_env \<Rightarrow> quickselect \<Rightarrow> bool \<Rightarrow> expr \<Rightarrow> string \<Rightarrow> int \<Rightarrow> int \<Rightarrow> MetricData list \<Rightarrow> MetricData list ev" where
  "moving_finish E qs cfg e argstr preview n adjustedArgs =
     (if adjustedArgs = [] then ret []
      else ev_bind (moving_cons E e (XFilesFactor (hd adjustedArgs))) (\<lambda>(cons, xff).
           of_go (opt_map (moving_one qs cfg e cons xff argstr preview n) adjustedArgs)))"

definition moving_Do :: "go_env \<Rightarrow> quickselect \<Rightarrow> bool \<Rightarrow> evaluator \<Rightarrow> expr \<Rightarrow> int \<Rightarrow> int \<Rightarrow> MetricData list ev" where
  "moving_Do E qs cfg ev e start stop =
     (if length (args e) < 2 then throw (plain_error (ParserCause ErrMissingArgument))
      else if etype (args e ! 1) = EtConst
      then ev_bind (of_parser (GetIntArg e 1)) (\<lambda>n.
           ev_bind (GetSeriesArg ev (args e ! 0) start stop) (\<lambda>arg.
             if arg = [] then ret arg
             else (let preview = max_step arg * n; adjustedStart = start - preview
                   in if adjustedStart \<noteq> start
                      then ev_bind (ev_Fetch ev [args e ! 0] adjustedStart stop) (\<lambda>targetValues.
                           ev_bind (ev_on targetValues (GetSeriesArg ev (args e ! 0) adjustedStart stop))
                             (moving_finish E qs cfg e (FormatInt n) preview n))
                      else ev_bind (GetSeriesArg ev (args e ! 0) adjustedStart stop)
                             (moving_finish E qs cfg e (FormatInt n) preview n))))
      else if etype (args e ! 1) = EtString
      then ev_bind (of_parser (GetIntervalArg E e 1 1)) (\<lambda>n32.
           ev_bind (GetSeriesArg ev (args e ! 0) (start - \<bar>n32\<bar>) stop)
             (moving_finish E qs cfg e ([CHR 0x27] @ valStr (args e ! 1) @ [CHR 0x27]) \<bar>n32\<bar> 0))
      else throw (plain_error (ParserCause ErrBadType)))"

section \<open>What a moving function computes\<close>

lemma empty_window_inv: "0 < n \<Longrightarrow> w_inv (empty_window n)"
  by (simp add: w_inv_def empty_window_def zero_f64_def)

lemma empty_window_contents: "w_contents (empty_window n) = replicate n 0" "wData (empty_window n) = replicate n 0"
  by (simp_all add: w_contents_def empty_window_def)

text \<open>The window after \<open>i\<close> pushes, and the loop as a list of its points.\<close>

definition window_after :: "nat \<Rightarrow> f64 list \<Rightarrow> nat \<Rightarrow> windowed" where
  "window_after n vs i = foldl Push (empty_window n) (take i vs)"

lemma window_after_full:
  assumes "0 < n" "n \<le> i" "i \<le> length vs"
  shows "w_inv (window_after n vs i)" "w_contents (window_after n vs i) = take n (drop (i - n) vs)"
    "length (wData (window_after n vs i)) = n"
proof -
  note inv = empty_window_inv[OF assms(1)]
  show "w_inv (window_after n vs i)" unfolding window_after_def by (rule ring.inv_pushes[OF inv])
  have "w_contents (window_after n vs i) = drop (length (take i vs) - n) (take i vs)"
    unfolding window_after_def
    using ring.contents_last[OF inv, of "take i vs"] assms by (simp add: empty_window_contents)
  then show "w_contents (window_after n vs i) = take n (drop (i - n) vs)"
    using assms by (simp add: drop_take)
  show "length (wData (window_after n vs i)) = n"
    unfolding window_after_def using length_wData_pushes[OF inv, of "take i vs"] by (simp add: empty_window_contents)
qed

lemma moving_loop_points:
  assumes "\<And>j. k \<le> j \<Longrightarrow> j \<le> length vs \<Longrightarrow> n \<le> j \<Longrightarrow> moving_point qs cons xff (window_after n vs j) = Some (g j)"
    and "0 < k" "k \<le> Suc (length vs)"
  shows "moving_loop qs cons xff n (window_after n vs (k - 1)) k (drop (k - 1) vs) = Some (map g [max k n..<Suc (length vs)])"
  using assms
proof (induction "Suc (length vs) - k" arbitrary: k)
  case 0
  then show ?case by simp
next
  case (Suc d)
  then have k: "k \<le> length vs" by simp
  have d: "drop (k - 1) vs = vs ! (k - 1) # drop k vs"
    using k Suc.prems(2) by (metis Cons_nth_drop_Suc Suc_diff_1 Suc_le_lessD)
  have "take k vs = take (k - 1) vs @ [vs ! (k - 1)]"
    using k Suc.prems(2) by (metis Suc_diff_1 Suc_le_lessD take_Suc_conv_app_nth)
  then have w: "Push (window_after n vs (k - 1)) (vs ! (k - 1)) = window_after n vs k"
    by (simp add: window_after_def)
  have IH: "moving_loop qs cons xff n (window_after n vs k) (Suc k) (drop k vs) = Some (map g [max (Suc k) n..<Suc (length vs)])"
    using Suc.hyps(1)[of "Suc k"] Suc.hyps(2) Suc.prems k by auto
  show ?case
  proof (cases "k < n")
    case True
    then have "max k n = n" "max (Suc k) n = n" by simp_all
    then show ?thesis using IH True unfolding d moving_loop.simps w Let_def by (simp only: if_True)
  next
    case False
    then have "[max k n..<Suc (length vs)] = k # [max (Suc k) n..<Suc (length vs)]"
      using k by (simp add: max_def upt_rec)
    then show ?thesis
      using IH False Suc.prems(1)[of k] k unfolding d moving_loop.simps w Let_def by simp
  qed
qed

text \<open>
  What a statistic means on the values of a window. Sums and averages are exact when the values
  of the series are integers of bounded size.
\<close>

definition stat_value :: "bool \<Rightarrow> string \<Rightarrow> f64 list \<Rightarrow> f64 \<Rightarrow> bool" where
  "stat_value exact cons ws x \<longleftrightarrow>
     (cons = ''max'' \<longrightarrow> x \<in> set ws \<and> (\<forall>v\<in>set ws. \<not> isNaN v \<longrightarrow> v \<le> x)) \<and>
     (cons = ''min'' \<longrightarrow> x \<in> set ws \<and> (\<forall>v\<in>set ws. \<not> isNaN v \<longrightarrow> x \<le> v)) \<and>
     (cons = ''count'' \<longrightarrow> x = f64_of_int (int (notNans ws))) \<and>
     (cons = ''last'' \<longrightarrow> x = last ws) \<and>
     (cons = ''sum'' \<and> exact \<longrightarrow> x = FNum (of_int (sum_list (map int_value ws)))) \<and>
     (cons = ''average'' \<and> exact \<longrightarrow>
        x = FNum (of_int (sum_list (map int_value ws))) div f64_of_int (int (notNans ws)))"

lemma mset_contents: "mset (w_contents w) = mset (wData w)"
proof -
  have "mset (wData w) = mset (take (w_head w) (wData w)) + mset (drop (w_head w) (wData w))"
    by (metis append_take_drop_id mset_append)
  then show ?thesis by (simp add: w_contents_def)
qed

lemma notNans_mset: "mset xs = mset ys \<Longrightarrow> notNans xs = notNans ys"
  unfolding notNans_def non_nan_def by (metis mset_filter size_mset)

text \<open>The extremes of the buffer do not depend on where its oldest value is.\<close>

lemma extreme_loop:
  fixes lt le :: "f64 \<Rightarrow> f64 \<Rightarrow> bool"
  assumes lt: "\<And>a b. lt a b \<Longrightarrow> \<not> isNaN b \<and> le a b"
    and nlt: "\<And>a b. \<not> isNaN a \<Longrightarrow> \<not> isNaN b \<Longrightarrow> \<not> lt a b \<Longrightarrow> le b a"
    and refl: "\<And>a. \<not> isNaN a \<Longrightarrow> le a a" and trans: "\<And>a b c. le a b \<Longrightarrow> le b c \<Longrightarrow> le a c"
  shows "foldl (\<lambda>rv f. if isNaN rv \<or> lt rv f then f else rv) rv xs \<in> insert rv (set xs)
    \<and> (\<forall>v\<in>insert rv (set xs). \<not> isNaN v \<longrightarrow> le v (foldl (\<lambda>rv f. if isNaN rv \<or> lt rv f then f else rv) rv xs))"
proof (induction xs arbitrary: rv)
  case Nil
  then show ?case using refl by simp
next
  case (Cons x xs)
  define y where "y = (if isNaN rv \<or> lt rv x then x else rv)"
  define m where "m = foldl (\<lambda>rv f. if isNaN rv \<or> lt rv f then f else rv) y xs"
  have m: "foldl (\<lambda>rv f. if isNaN rv \<or> lt rv f then f else rv) rv (x # xs) = m" by (simp add: m_def y_def)
  have IH: "m \<in> insert y (set xs)" "\<forall>v\<in>insert y (set xs). \<not> isNaN v \<longrightarrow> le v m"
    using Cons[of y] by (simp_all add: m_def)
  have "le v m" if "v = x \<or> v = rv" "\<not> isNaN v" for v
  proof -
    have "\<not> isNaN y" "le v y" using that lt nlt refl by (auto simp: y_def)
    then show ?thesis using IH(2) trans by blast
  qed
  moreover have "y = x \<or> y = rv" by (simp add: y_def)
  ultimately show ?case unfolding m using IH by auto
qed

lemma WMax_greatest:
  assumes "\<exists>v\<in>set (wData w). \<not> isNaN v"
  shows "WMax w \<in> set (wData w) \<and> (\<forall>v\<in>set (wData w). \<not> isNaN v \<longrightarrow> v \<le> WMax w)"
proof -
  have loop: "WMax w \<in> insert FNaN (set (wData w)) \<and> (\<forall>v\<in>insert FNaN (set (wData w)). \<not> isNaN v \<longrightarrow> v \<le> WMax w)"
    unfolding WMax_def
    by (rule extreme_loop) (auto intro: less_imp_le_f64 le_f64_trans dest: less_f64_isNaN simp: not_less_f64)
  then have "\<not> isNaN (WMax w)" using assms le_f64_isNaN by blast
  then have "WMax w \<noteq> FNaN" by auto
  then show ?thesis using loop by blast
qed

lemma WMin_least:
  assumes "\<exists>v\<in>set (wData w). \<not> isNaN v"
  shows "WMin w \<in> set (wData w) \<and> (\<forall>v\<in>set (wData w). \<not> isNaN v \<longrightarrow> WMin w \<le> v)"
proof -
  have loop: "WMin w \<in> insert FNaN (set (wData w)) \<and> (\<forall>v\<in>insert FNaN (set (wData w)). \<not> isNaN v \<longrightarrow> WMin w \<le> v)"
    unfolding WMin_def
    by (rule extreme_loop) (auto intro: less_imp_le_f64 le_f64_trans dest: less_f64_isNaN simp: not_less_f64)
  then have "\<not> isNaN (WMin w)" using assms le_f64_isNaN by blast
  then have "WMin w \<noteq> FNaN" by auto
  then show ?thesis using loop by blast
qed

lemma window_stat_value:
  assumes w: "w_inv w" and c: "w_contents w = ws" and x: "window_stat qs cons w = Some x"
    and len: "length ws \<le> w_length w" and some: "notNans ws \<noteq> 0"
    and sum: "exact \<Longrightarrow> w_sum w = FNum (of_int (sum_list (map int_value ws)))"
  shows "stat_value exact cons ws x"
proof -
  have ms: "mset ws = mset (wData w)" using mset_contents[of w] c by simp
  have set: "set ws = set (wData w)" using ms by (metis set_mset_mset)
  have lw: "length (wData w) = length ws" using ms by (metis size_mset)
  have ne: "ws \<noteq> []" "\<exists>v\<in>set ws. \<not> isNaN v"
    using some by (auto simp: notNans_def non_nan_def filter_empty_conv)
  have L: "Len w = int (notNans ws)"
    using nans_contents[OF w] length_nan_partition[of ws] len lw by (auto simp: Len_def c)
  have mx: "WMax w \<in> set ws \<and> (\<forall>v\<in>set ws. \<not> isNaN v \<longrightarrow> v \<le> WMax w)"
    using WMax_greatest ne(2) unfolding set by blast
  have mn: "WMin w \<in> set ws \<and> (\<forall>v\<in>set ws. \<not> isNaN v \<longrightarrow> WMin w \<le> v)"
    using WMin_least ne(2) unfolding set by blast
  have la: "Last w = Some (last ws)"
  proof -
    have h: "w_head w < length (wData w)" using w by (simp add: w_inv_def)
    have n1: "nat (int (length ws) - 1) = length ws - Suc 0" using ne(1) by (cases ws) auto
    show ?thesis
    proof (cases "w_head w = 0")
      case True
      then show ?thesis using h ne(1) c by (simp add: Last_def go_index_def w_contents_def last_conv_nth n1)
    next
      case False
      then have "last ws = wData w ! (w_head w - 1)"
        using h c by (auto simp: w_contents_def last_append last_conv_nth)
      then show ?thesis using False h by (simp add: Last_def go_index_def nat_diff_distrib)
    qed
  qed
  show ?thesis
    using x mx mn la L sum
    by (auto simp: stat_value_def window_stat_def Count_def Sum_def Mean_def)
qed

lemma window_stat_Some: "w_inv w \<Longrightarrow> \<exists>x. window_stat qs cons w = Some x"
proof -
  assume "w_inv w"
  then have h: "w_head w < length (wData w)" by (simp add: w_inv_def)
  then have "\<exists>x. Diff w = Some x" "\<exists>x. Last w = Some x"
    by (auto simp: Diff_def Last_def go_index_def)
  then show ?thesis by (simp add: window_stat_def)
qed

text \<open>What is asked of the point of a window, and that the loop computes such a point.\<close>

definition good_point :: "bool \<Rightarrow> string \<Rightarrow> f64 \<Rightarrow> f64 list \<Rightarrow> f64 \<Rightarrow> bool" where
  "good_point ex cons xff ws x \<longleftrightarrow>
     (if notNans ws \<noteq> 0 \<and> XFilesFactorValues ws xff then stat_value ex cons ws x else x = FNaN)"

lemma moving_point_good:
  assumes n: "0 < n" and B: "0 \<le> B" "(int n + 2) * B \<le> 2 ^ 53" and j: "n \<le> j" "j \<le> length vs"
  shows "\<exists>x. moving_point qs cons xff (window_after n vs j) = Some x
    \<and> good_point (list_all (integral B) vs) cons xff (take n (drop (j - n) vs)) x"
proof -
  define w where "w = window_after n vs j"
  define ws where "ws = take n (drop (j - n) vs)"
  have w: "w_inv w" "w_contents w = ws" "length (wData w) = n"
    unfolding w_def ws_def by (rule window_after_full[OF n j])+
  have ms: "mset ws = mset (wData w)" using mset_contents[of w] w(2) by simp
  have lw: "length ws = n" using j by (simp add: ws_def)
  have "w_nans w = int (length (filter isNaN ws))" using nans_contents[OF w(1)] w(2) by simp
  then have nn: "IsNonNull w \<longleftrightarrow> notNans ws \<noteq> 0"
    unfolding IsNonNull_def w(3) using length_nan_partition[of ws] lw by linarith
  have xf: "XFilesFactorValues (wData w) xff \<longleftrightarrow> XFilesFactorValues ws xff"
    using notNans_mset[OF ms] lw w(3) by (simp add: XFilesFactorValues_def)
  have ln: "n \<le> w_length w"
    using w_length_pushes[OF empty_window_inv[OF n], of "take j vs"] j by (simp add: w_def window_after_def)
  have sum: "w_sum w = FNum (of_int (sum_list (map int_value ws)))" if ex: "list_all (integral B) vs"
  proof -
    have "sum_exact B (empty_window n)"
      using B(1) by (simp add: sum_exact_def empty_window_def list_all_iff integral_def zero_f64_def sum_list_replicate)
    moreover have "list_all (integral B) (take j vs)" using ex by (auto simp: list_all_iff dest: in_set_takeD)
    ultimately have "sum_exact B w"
      unfolding w_def window_after_def using empty_window_inv[OF n] B
      by (intro sum_exact_pushes) (simp_all add: empty_window_contents)
    then show ?thesis using sum_contents[of int_value w] w(2) by (simp add: sum_exact_def)
  qed
  show ?thesis
  proof (cases "notNans ws \<noteq> 0 \<and> XFilesFactorValues ws xff")
    case True
    then obtain x where x: "window_stat qs cons w = Some x" using window_stat_Some[OF w(1)] by blast
    have "stat_value (list_all (integral B) vs) cons ws x"
      using window_stat_value[OF w(1,2) x] ln lw True sum by blast
    then show ?thesis using True x nn xf by (simp add: moving_point_def good_point_def w_def[symmetric] ws_def[symmetric])
  next
    case False
    then show ?thesis using nn xf by (auto simp: moving_point_def good_point_def w_def[symmetric] ws_def[symmetric])
  qed
qed



text \<open>A negative number of points makes a slice of negative length, which panics.\<close>

lemma moving_negative: "moving_series qs cfg f cons xff argstr preview (- 1) a = Panic"
  by (simp add: moving_series_def)

text \<open>A statistic the switch does not know gives zeros instead of an error.\<close>

lemma moving_unknown:
  "moving_series qs cfg ''movingWindow'' ''total'' 0 ''1'' 10 1 (makeMetricDataWithTags ''a'' [FNum 9, FNum 7, FNum 8] 10 0 [])
     = Some ((makeMetricDataWithTags ''movingWindow(a,1)'' [FNum 0, FNum 0] 10 10 [(''movingWindow'', ''1'')]))"
  by (simp add: moving_series_def makeMetricDataWithTags_def CopyLink_def empty_window_def Push_def moving_point_def
      IsNonNull_def XFilesFactorValues_def feq_iff zero_f64_def window_stat_def Let_def)

end
