(* ===== verification/Metric_Heap.thy ===== *)
theory Metric_Heap
  imports Helpers "HOL-Library.Product_Lexorder"
begin

text \<open>
  The heap of series values, \<open>expr/types/metricheap.go\<close>, with the operations of \<open>container/heap\<close>
  that run on it, and the functions that pick the highest or lowest series with it,
  \<open>expr/functions/highestLowest\<close>. A heap is the slice of its elements.
\<close>

section \<open>The heap\<close>

record MetricHeapElement =
  Idx :: nat
  Val :: f64

type_synonym metric_heap = "MetricHeapElement list"

definition heap_Less :: "metric_heap \<Rightarrow> nat \<Rightarrow> nat \<Rightarrow> bool" where
  "heap_Less m i j \<longleftrightarrow> Val (m ! i) < Val (m ! j)"

definition heap_Swap :: "'a list \<Rightarrow> nat \<Rightarrow> nat \<Rightarrow> 'a list" where
  "heap_Swap m i j = m[i := m ! j, j := m ! i]"

text \<open>The sifting loops of \<open>container/heap\<close>; \<open>heap_down\<close> also returns where the element ended up.\<close>

function heap_up :: "metric_heap \<Rightarrow> nat \<Rightarrow> metric_heap" where
  "heap_up h j =
     (if j = 0 \<or> \<not> heap_Less h j ((j - 1) div 2) then h
      else heap_up (heap_Swap h ((j - 1) div 2) j) ((j - 1) div 2))"
  by pat_completeness auto
termination
  by (relation "measure snd") auto

function heap_down :: "metric_heap \<Rightarrow> nat \<Rightarrow> nat \<Rightarrow> metric_heap \<times> nat" where
  "heap_down h i n =
     (let j1 = 2 * i + 1
      in if n \<le> j1 then (h, i)
         else (let j = (if j1 + 1 < n \<and> heap_Less h (j1 + 1) j1 then j1 + 1 else j1)
               in if \<not> heap_Less h j i then (h, i) else heap_down (heap_Swap h i j) j n))"
  by pat_completeness auto
termination
  by (relation "measure (\<lambda>(h, i, n). n - i)") (auto split: if_splits)

declare heap_up.simps [simp del] heap_down.simps [simp del]

definition heap_Push :: "metric_heap \<Rightarrow> MetricHeapElement \<Rightarrow> metric_heap" where
  "heap_Push h x = heap_up (h @ [x]) (length h)"

text \<open>\<open>Pop\<close> of an empty heap swaps the elements 0 and -1, which panics.\<close>

definition heap_Pop :: "metric_heap \<Rightarrow> (MetricHeapElement \<times> metric_heap) go_result" where
  "heap_Pop h =
     (if h = [] then Panic
      else (let n = length h - 1; h1 = fst (heap_down (heap_Swap h 0 n) 0 n) in Some (h1 ! n, take n h1)))"

definition heap_Fix :: "metric_heap \<Rightarrow> nat \<Rightarrow> metric_heap" where
  "heap_Fix h i = (case heap_down h i (length h) of (h1, i1) \<Rightarrow> if i < i1 then h1 else heap_up h1 i)"

section \<open>The order on present values\<close>

text \<open>Present values are compared like these pairs; the two zeros are the same.\<close>

fun f64_rank :: "f64 \<Rightarrow> int \<times> rat" where
  "f64_rank (FInf s) = (if s then - 1 else 1, 0)"
| "f64_rank (FNum q) = (0, q)"
| "f64_rank FNegZero = (0, 0)"
| "f64_rank FNaN = (0, 0)"

lemma less_f64_rank: "\<not> isNaN x \<Longrightarrow> \<not> isNaN y \<Longrightarrow> x < y \<longleftrightarrow> f64_rank x < f64_rank y"
  by (cases x; cases y) (auto simp: less_prod_def)

definition elem_key :: "MetricHeapElement \<Rightarrow> int \<times> rat" where
  "elem_key x = f64_rank (Val x)"

definition present :: "metric_heap \<Rightarrow> bool" where
  "present h \<longleftrightarrow> (\<forall>x\<in>set h. \<not> isNaN (Val x))"

lemma heap_Less_key:
  "present h \<Longrightarrow> i < length h \<Longrightarrow> j < length h \<Longrightarrow> heap_Less h i j \<longleftrightarrow> elem_key (h ! i) < elem_key (h ! j)"
  by (simp add: heap_Less_def elem_key_def present_def less_f64_rank)

lemma mset_heap_Swap [simp]: "i < length h \<Longrightarrow> j < length h \<Longrightarrow> mset (heap_Swap h i j) = mset h"
  unfolding heap_Swap_def by (rule mset_swap)

lemma length_heap_Swap [simp]: "length (heap_Swap h i j) = length h"
  by (simp add: heap_Swap_def)

lemma nth_heap_Swap:
  "i < length h \<Longrightarrow> j < length h \<Longrightarrow> k < length h \<Longrightarrow>
     heap_Swap h i j ! k = (if k = j then h ! i else if k = i then h ! j else h ! k)"
  by (auto simp: heap_Swap_def nth_list_update)

lemma present_mset: "mset h = mset h' \<Longrightarrow> present h = present h'"
  by (metis mset_eq_setD present_def)

section \<open>The heap invariant\<close>

text \<open>No element among the first \<open>n\<close> is below its parent.\<close>

definition heap_upto :: "nat \<Rightarrow> metric_heap \<Rightarrow> bool" where
  "heap_upto n h \<longleftrightarrow> (\<forall>c<n. 0 < c \<longrightarrow> elem_key (h ! ((c - 1) div 2)) \<le> elem_key (h ! c))"

text \<open>The heap while an element moves up from \<open>j\<close>, and while one moves down from \<open>i\<close>.\<close>

definition up_inv :: "metric_heap \<Rightarrow> nat \<Rightarrow> bool" where
  "up_inv h j \<longleftrightarrow>
     (\<forall>c<length h. 0 < c \<and> c \<noteq> j \<longrightarrow> elem_key (h ! ((c - 1) div 2)) \<le> elem_key (h ! c))
     \<and> (\<forall>c<length h. 0 < c \<and> (c - 1) div 2 = j \<and> 0 < j \<longrightarrow> elem_key (h ! ((j - 1) div 2)) \<le> elem_key (h ! c))"

definition down_inv :: "nat \<Rightarrow> metric_heap \<Rightarrow> nat \<Rightarrow> bool" where
  "down_inv n h i \<longleftrightarrow>
     (\<forall>c<n. 0 < c \<and> (c - 1) div 2 \<noteq> i \<longrightarrow> elem_key (h ! ((c - 1) div 2)) \<le> elem_key (h ! c))
     \<and> (\<forall>c<n. 0 < c \<and> (c - 1) div 2 = i \<and> 0 < i \<longrightarrow> elem_key (h ! ((i - 1) div 2)) \<le> elem_key (h ! c))"

lemma parent_less: "0 < c \<Longrightarrow> (c - 1) div 2 < (c :: nat)"
  by linarith

lemma children: "(c - 1) div 2 = i \<Longrightarrow> 0 < c \<Longrightarrow> c = 2 * i + 1 \<or> c = 2 * i + (2 :: nat)"
  by linarith

lemma up_inv_step:
  assumes inv: "up_inv h j" and j: "0 < j" "j < length h"
    and lt: "elem_key (h ! j) < elem_key (h ! ((j - 1) div 2))"
  shows "up_inv (heap_Swap h ((j - 1) div 2) j) ((j - 1) div 2)"
proof -
  define p where "p = (j - 1) div 2"
  have p: "p < j" "p < length h" using parent_less[OF j(1)] j(2) by (simp_all add: p_def)
  let ?h = "heap_Swap h p j"
  have nth: "?h ! k = (if k = j then h ! p else if k = p then h ! j else h ! k)" if "k < length h" for k
    using nth_heap_Swap[OF p(2) j(2) that] by simp
  have le: "elem_key (h ! ((c - 1) div 2)) \<le> elem_key (h ! c)" if "c < length h" "0 < c" "c \<noteq> j" for c
    using inv that by (simp add: up_inv_def)
  have gp: "elem_key (h ! p) \<le> elem_key (h ! c)" if "c < length h" "0 < c" "(c - 1) div 2 = j" for c
    using inv that j(1) by (simp add: up_inv_def p_def)
  have 1: "elem_key (?h ! ((c - 1) div 2)) \<le> elem_key (?h ! c)" if c: "c < length h" "0 < c" "c \<noteq> p" for c
  proof -
    have pc: "(c - 1) div 2 < length h" "(c - 1) div 2 < c" using c parent_less[OF c(2)] by simp_all
    consider "c = j" | "(c - 1) div 2 = j" "c \<noteq> j" | "(c - 1) div 2 = p" "c \<noteq> j"
      | "(c - 1) div 2 \<noteq> p" "(c - 1) div 2 \<noteq> j" "c \<noteq> j" by blast
    then show ?thesis
    proof cases
      case 1
      then have "(c - 1) div 2 = p" by (simp add: p_def)
      then show ?thesis using 1 lt[folded p_def] nth[OF pc(1)] nth[OF c(1)] p by simp
    next
      case 2
      then show ?thesis using gp[OF c(1,2)] nth[OF pc(1)] nth[OF c(1)] c by simp
    next
      case 3
      then have "elem_key (h ! p) \<le> elem_key (h ! c)" using le[OF c(1,2)] by simp
      then have "elem_key (h ! j) \<le> elem_key (h ! c)" using lt[folded p_def] by simp
      then show ?thesis using 3 nth[OF pc(1)] nth[OF c(1)] c p by simp
    next
      case 4
      then show ?thesis using le[OF c(1,2)] nth[OF pc(1)] nth[OF c(1)] c by simp
    qed
  qed
  have 2: "elem_key (?h ! ((p - 1) div 2)) \<le> elem_key (?h ! c)"
    if c: "c < length h" "0 < c" "(c - 1) div 2 = p" "0 < p" for c
  proof -
    have pp: "(p - 1) div 2 < p" "(p - 1) div 2 < length h" using parent_less[OF c(4)] p by simp_all
    have a: "elem_key (h ! ((p - 1) div 2)) \<le> elem_key (h ! p)" using le[OF p(2) c(4)] p by simp
    show ?thesis
    proof (cases "c = j")
      case True
      then show ?thesis using a nth[OF pp(2)] nth[OF c(1)] pp p by simp
    next
      case False
      have "elem_key (h ! p) \<le> elem_key (h ! c)" using le[OF c(1,2) False] c(3) by simp
      then show ?thesis using a False c pp p nth[OF pp(2)] nth[OF c(1)] parent_less[OF c(2)] by simp
    qed
  qed
  show ?thesis using 1 2 unfolding p_def[symmetric] up_inv_def by (auto simp: p_def)
qed

lemma heap_up_heap:
  "up_inv h j \<Longrightarrow> present h \<Longrightarrow> j < length h \<Longrightarrow> heap_upto (length h) (heap_up h j) \<and> mset (heap_up h j) = mset h"
proof (induction h j rule: heap_up.induct)
  case (1 h j)
  let ?p = "(j - 1) div 2"
  show ?case
  proof (cases "j = 0 \<or> \<not> heap_Less h j ?p")
    case True
    have "elem_key (h ! ((c - 1) div 2)) \<le> elem_key (h ! c)" if c: "c < length h" "0 < c" for c
    proof (cases "c = j")
      case True
      then show ?thesis
        using \<open>j = 0 \<or> _\<close> c heap_Less_key[OF "1.prems"(2), of j ?p] parent_less[of j] by auto
    next
      case False
      then show ?thesis using "1.prems"(1) c by (simp add: up_inv_def)
    qed
    then show ?thesis using True by (subst (1 2) heap_up.simps) (simp add: heap_upto_def)
  next
    case False
    have p: "?p < length h" using "1.prems"(3) parent_less[of j] False by auto
    then have lt: "elem_key (h ! j) < elem_key (h ! ?p)"
      using False heap_Less_key[OF "1.prems"(2,3)] by auto
    let ?h = "heap_Swap h ?p j"
    have "heap_upto (length ?h) (heap_up ?h ?p) \<and> mset (heap_up ?h ?p) = mset ?h"
    proof (rule "1.IH"[OF False])
      show "up_inv ?h ?p" using up_inv_step[OF "1.prems"(1) _ "1.prems"(3) lt] False by simp
      show "present ?h" using "1.prems"(2,3) p present_mset[of ?h h] by simp
      show "?p < length ?h" using p by simp
    qed
    then show ?thesis using False p "1.prems"(3) by (subst (1 2) heap_up.simps) simp
  qed
qed

lemma down_inv_step:
  assumes inv: "down_inv n h i" and n: "n \<le> length h" and j: "j < n" "0 < j" "(j - 1) div 2 = i"
    and lt: "elem_key (h ! j) < elem_key (h ! i)"
    and least: "\<And>c. c < n \<Longrightarrow> 0 < c \<Longrightarrow> (c - 1) div 2 = i \<Longrightarrow> elem_key (h ! j) \<le> elem_key (h ! c)"
  shows "down_inv n (heap_Swap h i j) j"
proof -
  have i: "i < j" "i < length h" "j < length h" using parent_less[OF j(2)] j n by simp_all
  let ?h = "heap_Swap h i j"
  have nth: "?h ! k = (if k = j then h ! i else if k = i then h ! j else h ! k)" if "k < n" for k
    using nth_heap_Swap[OF i(2,3)] that n by simp
  have le: "elem_key (h ! ((c - 1) div 2)) \<le> elem_key (h ! c)" if "c < n" "0 < c" "(c - 1) div 2 \<noteq> i" for c
    using inv that by (simp add: down_inv_def)
  have 1: "elem_key (?h ! ((c - 1) div 2)) \<le> elem_key (?h ! c)" if c: "c < n" "0 < c" "(c - 1) div 2 \<noteq> j" for c
  proof -
    have pc: "(c - 1) div 2 < n" "(c - 1) div 2 < c" using c parent_less[OF c(2)] by simp_all
    consider "c = j" | "(c - 1) div 2 = i" "c \<noteq> j" | "c = i" "(c - 1) div 2 \<noteq> i" | "(c - 1) div 2 \<noteq> i" "c \<noteq> i" "c \<noteq> j"
      by blast
    then show ?thesis
    proof cases
      case 1
      then have "(c - 1) div 2 = i" using j(3) by simp
      then show ?thesis using 1 lt nth[OF pc(1)] nth[OF c(1)] i by simp
    next
      case 2
      then show ?thesis using least[OF c(1,2)] nth[OF pc(1)] nth[OF c(1)] c pc i by simp
    next
      case 3
      then have "elem_key (h ! ((i - 1) div 2)) \<le> elem_key (h ! j)"
        using inv j c by (simp add: down_inv_def)
      then show ?thesis using 3 nth[OF pc(1)] nth[OF c(1)] c i pc by simp
    next
      case 4
      then show ?thesis using le[OF c(1,2)] nth[OF pc(1)] nth[OF c(1)] c by simp
    qed
  qed
  have 2: "elem_key (?h ! ((j - 1) div 2)) \<le> elem_key (?h ! c)"
    if c: "c < n" "0 < c" "(c - 1) div 2 = j" for c
  proof -
    have "elem_key (h ! j) \<le> elem_key (h ! c)" using le[OF c(1,2)] c(3) i by simp
    moreover have "c \<noteq> j" "c \<noteq> i" using parent_less[OF c(2)] c(3) i by simp_all
    moreover have "i < n" using i j by simp
    ultimately show ?thesis using nth[OF c(1)] nth[of i] i j(3) by simp
  qed
  show ?thesis using 1 2 unfolding down_inv_def by blast
qed

lemma heap_down_heap:
  "down_inv n h i \<Longrightarrow> present h \<Longrightarrow> n \<le> length h \<Longrightarrow> i < length h \<Longrightarrow> heap_down h i n = (h1, i1) \<Longrightarrow>
     heap_upto n h1 \<and> mset h1 = mset h \<and> (\<forall>k\<ge>n. k \<noteq> i \<longrightarrow> h1 ! k = h ! k) \<and> i \<le> i1 \<and> (i1 = i \<longrightarrow> h1 = h)"
proof (induction h i n rule: heap_down.induct)
  case (1 h i n)
  let ?l = "2 * i + 1"
  show ?case
  proof (cases "n \<le> ?l")
    case True
    then have "h1 = h" "i1 = i" using "1.prems"(5) by (subst (asm) heap_down.simps, simp)+
    moreover have "(c - 1) div 2 \<noteq> i" if "c < n" "0 < c" for c using that True by linarith
    ultimately show ?thesis using "1.prems"(1) by (auto simp: heap_upto_def down_inv_def)
  next
    case False
    define j where "j = (if ?l + 1 < n \<and> heap_Less h (?l + 1) ?l then ?l + 1 else ?l)"
    have j: "j < n" "0 < j" "(j - 1) div 2 = i" "i < j" using False by (auto simp: j_def)
    have child: "c = ?l \<or> c = ?l + 1" if "0 < c" "(c - 1) div 2 = i" for c
      using children[OF that(2,1)] by simp
    have least: "elem_key (h ! j) \<le> elem_key (h ! c)" if "c < n" "0 < c" "(c - 1) div 2 = i" for c
    proof -
      have key: "heap_Less h (?l + 1) ?l \<longleftrightarrow> elem_key (h ! (?l + 1)) < elem_key (h ! ?l)" if "?l + 1 < n"
        using "1.prems"(2,3) that by (intro heap_Less_key) simp_all
      show ?thesis using child[OF that(2,3)] that(1) key by (auto simp: j_def not_less)
    qed
    have jl: "j < length h" using j "1.prems"(3) by simp
    have unf: "heap_down h i n = (if \<not> heap_Less h j i then (h, i) else heap_down (heap_Swap h i j) j n)"
      using False by (subst heap_down.simps) (simp only: j_def Let_def if_False)
    show ?thesis
    proof (cases "heap_Less h j i")
      case False
      then have r: "h1 = h" "i1 = i" using "1.prems"(5) unf by simp_all
      have "elem_key (h ! i) \<le> elem_key (h ! j)"
        using False heap_Less_key[OF "1.prems"(2) jl "1.prems"(4)] by (simp add: not_less)
      then have "elem_key (h ! ((c - 1) div 2)) \<le> elem_key (h ! c)" if "c < n" "0 < c" for c
        using that least[OF that] "1.prems"(1) by (cases "(c - 1) div 2 = i") (auto simp: down_inv_def)
      then show ?thesis by (simp add: r heap_upto_def)
    next
      case True
      have lt: "elem_key (h ! j) < elem_key (h ! i)"
        using True heap_Less_key[OF "1.prems"(2) jl "1.prems"(4)] by simp
      let ?h = "heap_Swap h i j"
      have ms: "mset ?h = mset h" using "1.prems"(4) jl by simp
      have "heap_upto n h1 \<and> mset h1 = mset ?h \<and> (\<forall>k\<ge>n. k \<noteq> j \<longrightarrow> h1 ! k = ?h ! k) \<and> j \<le> i1 \<and> (i1 = j \<longrightarrow> h1 = ?h)"
      proof (rule "1.IH"[OF refl \<open>\<not> n \<le> ?l\<close> j_def])
        show "\<not> \<not> heap_Less h j i" using True by simp
        show "down_inv n ?h j" by (rule down_inv_step[OF "1.prems"(1,3) j(1,2,3) lt least])
        show "present ?h" using "1.prems"(2) present_mset[OF ms] by simp
        show "heap_down ?h j n = (h1, i1)" using "1.prems"(5) unf True by simp
      qed (use "1.prems"(3) jl in simp_all)
      moreover have "?h ! k = h ! k" if "n \<le> k" "k \<noteq> i" for k using that j by (simp add: heap_Swap_def)
      ultimately show ?thesis using ms j by auto
    qed
  qed
qed

section \<open>The priority queue it implements\<close>

text \<open>
  What the functions rely on: a collection whose \<open>pop\<close> takes out an element with the least key,
  and fails on the empty collection.
\<close>

locale priority_queue =
  fixes key :: "'a \<Rightarrow> 'k :: linorder" and inv :: "'q \<Rightarrow> bool" and elems :: "'q \<Rightarrow> 'a multiset"
    and pop :: "'q \<Rightarrow> ('a \<times> 'q) option"
  assumes pop_empty: "inv q \<Longrightarrow> elems q = {#} \<Longrightarrow> pop q = None"
    and pop_least: "inv q \<Longrightarrow> elems q \<noteq> {#} \<Longrightarrow>
      \<exists>x q'. pop q = Some (x, q') \<and> inv q' \<and> elems q = add_mset x (elems q') \<and> (\<forall>y\<in>#elems q'. key x \<le> key y)"

text \<open>\<open>n\<close> elements taken out one after the other.\<close>

fun pops :: "('q \<Rightarrow> ('a \<times> 'q) option) \<Rightarrow> nat \<Rightarrow> 'q \<Rightarrow> 'a list option" where
  "pops pop 0 q = Some []"
| "pops pop (Suc n) q =
     (case pop q of None \<Rightarrow> None | Some (x, q') \<Rightarrow> map_option (Cons x) (pops pop n q'))"

context priority_queue begin

lemma pops_sorted:
  assumes "inv q" "n \<le> size (elems q)"
  shows "\<exists>xs others. pops pop n q = Some xs \<and> length xs = n \<and> elems q = mset xs + others
    \<and> sorted (map key xs) \<and> (\<forall>x\<in>set xs. \<forall>y\<in>#others. key x \<le> key y)"
  using assms
proof (induction n arbitrary: q)
  case (Suc n)
  then have "elems q \<noteq> {#}" by auto
  from pop_least[OF Suc.prems(1) this] obtain x q' where x: "pop q = Some (x, q')" "inv q'"
    "elems q = add_mset x (elems q')" "\<forall>y\<in>#elems q'. key x \<le> key y" by blast
  have "n \<le> size (elems q')" using Suc.prems(2) x(3) by simp
  from Suc.IH[OF x(2) this] obtain xs others where xs: "pops pop n q' = Some xs" "length xs = n"
    "elems q' = mset xs + others" "sorted (map key xs)" "\<forall>x\<in>set xs. \<forall>y\<in>#others. key x \<le> key y" by blast
  then show ?case using x by (intro exI[of _ "x # xs"] exI[of _ others]) auto
qed auto

lemma pops_too_many:
  assumes "inv q" "size (elems q) < n"
  shows "pops pop n q = None"
  using assms
proof (induction n arbitrary: q)
  case (Suc n)
  show ?case
  proof (cases "elems q = {#}")
    case True
    then show ?thesis using pop_empty[OF Suc.prems(1)] by simp
  next
    case False
    from pop_least[OF Suc.prems(1) this] obtain x q' where x: "pop q = Some (x, q')" "inv q'"
      "elems q = add_mset x (elems q')" by blast
    then show ?thesis using Suc.IH[OF x(2)] Suc.prems(2) by simp
  qed
qed simp

end

definition heap_inv :: "metric_heap \<Rightarrow> bool" where
  "heap_inv h \<longleftrightarrow> heap_upto (length h) h \<and> present h"

lemma heap_root_least:
  assumes "heap_upto (length h) h" "i < length h"
  shows "elem_key (h ! 0) \<le> elem_key (h ! i)"
  using assms(2)
proof (induction i rule: less_induct)
  case (less i)
  show ?case
  proof (cases "i = 0")
    case False
    then have "elem_key (h ! 0) \<le> elem_key (h ! ((i - 1) div 2))"
      using less.IH[of "(i - 1) div 2"] less.prems parent_less[of i] by simp
    also have "\<dots> \<le> elem_key (h ! i)" using assms(1) less.prems False by (simp add: heap_upto_def)
    finally show ?thesis .
  qed simp
qed

lemma heap_Pop_least:
  assumes "heap_inv h" "mset h \<noteq> {#}"
  shows "\<exists>x h'. heap_Pop h = Some (x, h') \<and> heap_inv h' \<and> mset h = add_mset x (mset h')
    \<and> (\<forall>y\<in>#mset h'. elem_key x \<le> elem_key y)"
proof -
  define n where "n = length h - 1"
  have h: "h \<noteq> []" "heap_upto (length h) h" "present h" using assms by (auto simp: heap_inv_def)
  have n: "0 < length h" "n < length h" "length h = Suc n" using h(1) by (simp_all add: n_def)
  define hs where "hs = heap_Swap h 0 n"
  have ms: "mset hs = mset h" "length hs = Suc n" using n by (simp_all add: hs_def)
  have nth: "hs ! k = (if k = n then h ! 0 else if k = 0 then h ! n else h ! k)" if "k \<le> n" for k
    using nth_heap_Swap[OF n(1,2), of k] n(3) that by (simp add: hs_def)
  obtain h1 i1 where d: "heap_down hs 0 n = (h1, i1)" by (cases "heap_down hs 0 n")
  have "down_inv n hs 0"
    unfolding down_inv_def
  proof (intro conjI allI impI)
    fix c assume c: "c < n" "0 < c \<and> (c - 1) div 2 \<noteq> 0"
    then have "(c - 1) div 2 \<le> n" "(c - 1) div 2 < n" using parent_less[of c] by simp_all
    then show "elem_key (hs ! ((c - 1) div 2)) \<le> elem_key (hs ! c)"
      using h(2) c n(3) nth[of c] nth[of "(c - 1) div 2"] by (simp add: heap_upto_def)
  qed simp
  moreover have "present hs" using h(3) present_mset[OF ms(1)] by simp
  ultimately have r: "heap_upto n h1" "mset h1 = mset hs" "\<forall>k\<ge>n. k \<noteq> 0 \<longrightarrow> h1 ! k = hs ! k" "i1 = 0 \<longrightarrow> h1 = hs"
    using heap_down_heap[OF _ _ _ _ d] ms(2) by auto
  have len: "length h1 = Suc n" using r(2) ms(2) by (metis size_mset)
  have h1n: "h1 ! n = h ! 0"
  proof (cases "n = 0")
    case True
    then have "heap_down hs 0 n = (hs, 0)" by (subst heap_down.simps) simp
    then show ?thesis using d True nth[of 0] by simp
  next
    case False
    then show ?thesis using r(3) nth[of n] by simp
  qed
  have split: "h1 = take n h1 @ [h ! 0]" using len h1n by (metis lessI take_Suc_conv_app_nth take_all_iff order_refl)
  have m: "mset h = add_mset (h ! 0) (mset (take n h1))"
    using r(2) ms(1) split by (metis add_mset_add_single mset.simps mset_append)
  have "heap_upto n (take n h1)" using r(1) by (auto simp: heap_upto_def)
  then have "heap_inv (take n h1)"
    using len h(3) m by (auto simp: heap_inv_def present_def simp flip: set_mset_mset)
  moreover have "heap_Pop h = Some (h ! 0, take n h1)"
    using h(1) d unfolding heap_Pop_def Let_def n_def[symmetric] hs_def[symmetric] by (simp add: h1n)
  moreover have "elem_key (h ! 0) \<le> elem_key y" if "y \<in># mset (take n h1)" for y
  proof -
    have "y \<in> set h" using that m by (metis insertCI set_mset_add_mset_insert set_mset_mset)
    then show ?thesis using heap_root_least[OF h(2)] by (auto simp: in_set_conv_nth)
  qed
  ultimately show ?thesis using m by blast
qed

interpretation heap_queue: priority_queue elem_key heap_inv mset heap_Pop
proof
  show "heap_Pop q = None" if "heap_inv q" "mset q = {#}" for q
    using that by (simp add: heap_Pop_def)
  show "\<exists>x q'. heap_Pop q = Some (x, q') \<and> heap_inv q' \<and> mset q = add_mset x (mset q') \<and> (\<forall>y\<in>#mset q'. elem_key x \<le> elem_key y)"
    if "heap_inv q" "mset q \<noteq> {#}" for q
    by (rule heap_Pop_least[OF that])
qed

lemma heap_Push_inv:
  assumes "heap_inv h" "\<not> isNaN (Val x)"
  shows "heap_inv (heap_Push h x) \<and> mset (heap_Push h x) = add_mset x (mset h)"
proof -
  have "up_inv (h @ [x]) (length h)"
    unfolding up_inv_def
  proof (intro conjI allI impI)
    fix c assume "c < length (h @ [x])" "0 < c \<and> c \<noteq> length h"
    then have c: "c < length h" "0 < c" by simp_all
    then show "elem_key ((h @ [x]) ! ((c - 1) div 2)) \<le> elem_key ((h @ [x]) ! c)"
      using assms(1) parent_less[of c] by (simp add: nth_append heap_inv_def heap_upto_def)
  next
    fix c assume "c < length (h @ [x])" "0 < c \<and> (c - 1) div 2 = length h \<and> 0 < length h"
    then show "elem_key ((h @ [x]) ! ((length h - 1) div 2)) \<le> elem_key ((h @ [x]) ! c)"
      using parent_less[of c] by simp
  qed
  moreover have p: "present (h @ [x])" using assms by (auto simp: heap_inv_def present_def)
  ultimately have "heap_upto (length (h @ [x])) (heap_Push h x)" and m: "mset (heap_Push h x) = mset (h @ [x])"
    using heap_up_heap[of "h @ [x]" "length h"] by (simp_all add: heap_Push_def)
  moreover have "length (heap_Push h x) = length (h @ [x])" using m by (metis size_mset)
  ultimately show ?thesis using p present_mset[OF m] by (simp add: heap_inv_def)
qed

text \<open>Replacing the least element and calling \<open>Fix\<close>.\<close>

lemma heap_Fix_inv:
  assumes "heap_inv h" "h \<noteq> []" "\<not> isNaN (Val x)"
  shows "heap_inv (heap_Fix (h[0 := x]) 0) \<and> mset (heap_Fix (h[0 := x]) 0) = add_mset x (mset h - {#h ! 0#})"
proof -
  let ?h = "h[0 := x]"
  obtain h1 i1 where d: "heap_down ?h 0 (length ?h) = (h1, i1)" by (cases "heap_down ?h 0 (length ?h)")
  have "down_inv (length ?h) ?h 0"
    unfolding down_inv_def
  proof (intro conjI allI impI)
    fix c assume c: "c < length ?h" "0 < c \<and> (c - 1) div 2 \<noteq> 0"
    then show "elem_key (?h ! ((c - 1) div 2)) \<le> elem_key (?h ! c)"
      using assms(1) by (simp add: heap_inv_def heap_upto_def)
  qed simp
  moreover have p: "present ?h" using assms set_update_subset_insert[of h 0 x] by (auto simp: heap_inv_def present_def)
  ultimately have r: "heap_upto (length ?h) h1" "mset h1 = mset ?h" "i1 = 0 \<longrightarrow> h1 = ?h"
    using heap_down_heap[OF _ p _ _ d] assms(2) by auto
  have "heap_Fix ?h 0 = h1" using d r(3) by (subst heap_Fix_def) (auto simp: heap_up.simps)
  moreover have "length h1 = length ?h" using r(2) by (metis size_mset)
  moreover have "mset ?h = add_mset x (mset h - {#h ! 0#})" using assms(2) by (simp add: mset_update)
  ultimately show ?thesis using r p present_mset[OF r(2)] by (simp add: heap_inv_def)
qed

section \<open>The highest and the lowest series\<close>

text \<open>One step of the loop that keeps the \<open>n\<close> highest values in the heap, least first.\<close>

definition highest_step :: "nat \<Rightarrow> metric_heap \<Rightarrow> MetricHeapElement \<Rightarrow> metric_heap" where
  "highest_step n mh x =
     (if isNaN (Val x) then mh
      else if length mh < n then heap_Push mh x
      else if Val (mh ! 0) < Val x then heap_Fix (mh[0 := x]) 0
      else mh)"

definition candidates :: "(f64 list \<Rightarrow> f64) \<Rightarrow> MetricData list \<Rightarrow> MetricHeapElement list" where
  "candidates compute arg = map (\<lambda>(i, a). \<lparr>Idx = i, Val = compute (Values a)\<rparr>) (enumerate 0 arg)"

text \<open>The results are written from the end while the heap is emptied, so the highest comes first.\<close>

definition select_highest :: "nat \<Rightarrow> (f64 list \<Rightarrow> f64) \<Rightarrow> MetricData list \<Rightarrow> MetricData list go_result" where
  "select_highest n compute arg =
     (let mh = foldl (highest_step n) [] (candidates compute arg)
      in map_option (\<lambda>vs. map (\<lambda>v. arg ! Idx v) (rev vs)) (pops heap_Pop (length mh) mh))"

definition select_lowest :: "nat \<Rightarrow> (f64 list \<Rightarrow> f64) \<Rightarrow> MetricData list \<Rightarrow> MetricData list go_result" where
  "select_lowest n compute arg =
     map_option (map (\<lambda>v. arg ! Idx v)) (pops heap_Pop n (foldl heap_Push [] (candidates compute arg)))"

text \<open>The heap holds the highest of the present values seen so far.\<close>

lemma highest_loop:
  assumes "0 < n"
  shows "heap_inv (foldl (highest_step n) [] xs) \<and>
    (\<exists>others. mset (filter (\<lambda>x. \<not> isNaN (Val x)) xs) = mset (foldl (highest_step n) [] xs) + others
       \<and> (others \<noteq> {#} \<longrightarrow> length (foldl (highest_step n) [] xs) = n) \<and> length (foldl (highest_step n) [] xs) \<le> n
       \<and> (\<forall>x\<in>set (foldl (highest_step n) [] xs). \<forall>y\<in>#others. elem_key y \<le> elem_key x))"
proof (induction xs rule: rev_induct)
  case Nil
  show ?case by (simp add: heap_inv_def heap_upto_def present_def)
next
  case (snoc x xs)
  define mh where "mh = foldl (highest_step n) [] xs"
  from snoc.IH obtain others where IH: "heap_inv mh"
    "mset (filter (\<lambda>x. \<not> isNaN (Val x)) xs) = mset mh + others" "others \<noteq> {#} \<longrightarrow> length mh = n" "length mh \<le> n"
    "\<forall>x\<in>set mh. \<forall>y\<in>#others. elem_key y \<le> elem_key x"
    unfolding mh_def by blast
  have step: "foldl (highest_step n) [] (xs @ [x]) = highest_step n mh x" by (simp add: mh_def)
  consider "isNaN (Val x)" | "\<not> isNaN (Val x)" "length mh < n"
    | "\<not> isNaN (Val x)" "length mh = n" "Val (mh ! 0) < Val x" | "\<not> isNaN (Val x)" "length mh = n" "\<not> Val (mh ! 0) < Val x"
    using IH(4) by linarith
  then show ?case
  proof cases
    case 1
    then have "highest_step n mh x = mh" by (simp add: highest_step_def)
    then show ?thesis using 1 IH unfolding step by auto
  next
    case 2
    then have e: "highest_step n mh x = heap_Push mh x" by (simp add: highest_step_def)
    have p: "heap_inv (heap_Push mh x)" "mset (heap_Push mh x) = add_mset x (mset mh)"
      using heap_Push_inv[OF IH(1) 2(1)] by auto
    have "others = {#}" using IH(3) 2(2) by auto
    moreover have "length (heap_Push mh x) = Suc (length mh)" using p(2) by (metis size_mset size_add_mset)
    ultimately show ?thesis using 2 IH(2) p unfolding step e by (intro conjI exI[of _ "{#}"]) simp_all
  next
    case 3
    have ne: "mh \<noteq> []" using 3(2) assms by auto
    have e: "highest_step n mh x = heap_Fix (mh[0 := x]) 0" using 3 by (simp add: highest_step_def)
    let ?m = "heap_Fix (mh[0 := x]) 0"
    have p: "heap_inv ?m" "mset ?m = add_mset x (mset mh - {#mh ! 0#})"
      using heap_Fix_inv[OF IH(1) ne 3(1)] by auto
    have r: "mset mh = add_mset (mh ! 0) (mset mh - {#mh ! 0#})" using ne by simp
    have "\<not> isNaN (Val (mh ! 0))" using IH(1) ne by (simp add: heap_inv_def present_def)
    then have kx: "elem_key (mh ! 0) < elem_key x" using 3 by (simp add: elem_key_def less_f64_rank)
    have least: "elem_key (mh ! 0) \<le> elem_key y" if "y \<in> set mh" for y
      using heap_root_least[of mh] IH(1) that by (auto simp: heap_inv_def in_set_conv_nth)
    have "length ?m = n" using p(2) r 3(2) by (metis size_mset size_add_mset)
    moreover have "mset (filter (\<lambda>x. \<not> isNaN (Val x)) (xs @ [x])) = mset ?m + add_mset (mh ! 0) others"
    proof -
      have "mset (filter (\<lambda>x. \<not> isNaN (Val x)) (xs @ [x])) = add_mset x (mset mh + others)"
        using 3(1) IH(2) by simp
      also have "\<dots> = add_mset x (add_mset (mh ! 0) (mset mh - {#mh ! 0#}) + others)" using r by argo
      also have "\<dots> = mset ?m + add_mset (mh ! 0) others" by (simp add: p(2))
      finally show ?thesis .
    qed
    moreover have "elem_key y \<le> elem_key z" if "z \<in> set ?m" "y \<in># add_mset (mh ! 0) others" for y z
    proof -
      have z: "z = x \<or> z \<in> set mh"
        using that(1) p(2) by (metis in_diffD insert_iff set_mset_add_mset_insert set_mset_mset)
      have "elem_key y \<le> elem_key (mh ! 0)" using that(2) IH(5) ne by auto
      then show ?thesis using z kx least by (metis less_imp_le order_trans)
    qed
    ultimately show ?thesis
      using p(1) 3 unfolding step e by (intro conjI exI[of _ "add_mset (mh ! 0) others"]) auto
  next
    case 4
    have ne: "mh \<noteq> []" using 4(2) assms by auto
    have e: "highest_step n mh x = mh" using 4 by (simp add: highest_step_def)
    have "\<not> isNaN (Val (mh ! 0))" using IH(1) ne by (simp add: heap_inv_def present_def)
    then have kx: "elem_key x \<le> elem_key (mh ! 0)" using 4 by (simp add: elem_key_def less_f64_rank not_less)
    have "elem_key (mh ! 0) \<le> elem_key y" if "y \<in> set mh" for y
      using heap_root_least[of mh] IH(1) that by (auto simp: heap_inv_def in_set_conv_nth)
    then have "elem_key x \<le> elem_key y" if "y \<in> set mh" for y using kx that by (meson order_trans)
    then show ?thesis using IH 4 unfolding step e by (intro conjI exI[of _ "add_mset x others"]) auto
  qed
qed

lemma key_le_Val:
  "\<not> isNaN (Val x) \<Longrightarrow> \<not> isNaN (Val y) \<Longrightarrow> elem_key x \<le> elem_key y \<Longrightarrow> Val x \<le> Val y"
  by (simp add: less_eq_f64_def less_f64_rank elem_key_def not_less)

lemma sorted_Val:
  "sorted (map elem_key vs) \<Longrightarrow> \<forall>v\<in>set vs. \<not> isNaN (Val v) \<Longrightarrow> sorted_wrt (\<lambda>x y. Val x \<le> Val y) vs"
  by (induction vs) (auto intro: key_le_Val)

text \<open>
  C40: picking the \<open>n\<close> highest series: of the series whose value is present the result has the \<open>n\<close> with
  the highest values, all of them when there are no more, each series at most once, in descending
  order; no series left out has a higher value than one that is picked.
\<close>

theorem select_highest_best:
  fixes compute arg
  assumes "0 < n"
  defines "have_value \<equiv> filter (\<lambda>v. \<not> isNaN (Val v)) (candidates compute arg)"
  shows "\<exists>vs others. select_highest n compute arg = Some (map (\<lambda>v. arg ! Idx v) vs)
     \<and> mset have_value = mset vs + others \<and> length vs = min n (length have_value)
     \<and> sorted_wrt (\<lambda>x y. Val y \<le> Val x) vs \<and> (\<forall>x\<in>set vs. \<forall>y\<in>#others. Val y \<le> Val x)"
proof -
  define mh where "mh = foldl (highest_step n) [] (candidates compute arg)"
  obtain others where H: "heap_inv mh" "mset have_value = mset mh + others"
    "others \<noteq> {#} \<longrightarrow> length mh = n" "length mh \<le> n" "\<forall>x\<in>set mh. \<forall>y\<in>#others. elem_key y \<le> elem_key x"
    using highest_loop[OF assms(1), of "candidates compute arg"] unfolding mh_def have_value_def by blast
  obtain vs rest where V: "pops heap_Pop (length mh) mh = Some vs" "length vs = length mh"
    "mset mh = mset vs + rest" "sorted (map elem_key vs)"
    using heap_queue.pops_sorted[OF H(1), of "length mh"] by auto
  have "size rest = 0" using V(2,3) by (metis add_cancel_left_right size_mset size_union)
  then have mv: "mset mh = mset vs" using V(3) by simp
  have nn: "\<not> isNaN (Val x)" if "x \<in># mset vs + others" for x
  proof -
    have "x \<in># mset have_value" using that H(2) mv by simp
    then show ?thesis by (simp add: have_value_def)
  qed
  have "length have_value = length vs + size others"
    using H(2) mv by (metis size_mset size_union)
  then have len: "length vs = min n (length have_value)"
    using H(3,4) V(2) by (cases "others = {#}") auto
  have "sorted_wrt (\<lambda>x y. Val x \<le> Val y) vs" using nn by (intro sorted_Val[OF V(4)]) simp
  then have "sorted_wrt (\<lambda>x y. Val y \<le> Val x) (rev vs)" by (simp add: sorted_wrt_rev)
  moreover have "Val y \<le> Val x" if "x \<in> set (rev vs)" "y \<in># others" for x y
    using that H(5) nn mv by (intro key_le_Val) (auto dest: mset_eq_setD)
  moreover have "select_highest n compute arg = Some (map (\<lambda>v. arg ! Idx v) (rev vs))"
    by (simp add: select_highest_def Let_def mh_def[symmetric] V(1))
  ultimately show ?thesis using H(2) mv len by (intro exI[of _ "rev vs"] exI[of _ others]) simp
qed

theorem select_highest_best_witness:
  "\<exists>vs. select_highest 2 AggMax (map (\<lambda>(n, v). makeMetricDataWithTags n [v] 60 0 [])
       [(''a'', FNum 3), (''b'', FNaN), (''c'', FNum 9), (''d'', FNum 4)]) = Some vs \<and> length vs = 2"
proof -
  let ?arg = "map (\<lambda>(n, v). makeMetricDataWithTags n [v] 60 0 []) [(''a'', FNum 3), (''b'', FNaN), (''c'', FNum 9), (''d'', FNum 4)]"
  have l: "length (filter (\<lambda>v. \<not> isNaN (Val v)) (candidates AggMax ?arg)) = 3" by code_simp
  have "(0 :: nat) < 2" by simp
  from select_highest_best[OF this, of AggMax ?arg] show ?thesis unfolding l by auto
qed

lemma foldl_heap_Push:
  "\<forall>x\<in>set xs. \<not> isNaN (Val x) \<Longrightarrow> heap_inv h \<Longrightarrow>
     heap_inv (foldl heap_Push h xs) \<and> mset (foldl heap_Push h xs) = mset h + mset xs"
  by (induction xs arbitrary: h) (auto simp: heap_Push_inv)

lemma heap_of_candidates:
  assumes "\<forall>a\<in>set arg. \<not> isNaN (compute (Values a))"
  shows "heap_inv (foldl heap_Push [] (candidates compute arg))
    \<and> mset (foldl heap_Push [] (candidates compute arg)) = mset (candidates compute arg)"
proof -
  have "\<forall>x\<in>set (candidates compute arg). \<not> isNaN (Val x)"
    using assms by (auto simp: candidates_def in_set_enumerate_eq)
  then show ?thesis
    using foldl_heap_Push[of "candidates compute arg" "[]"] by (simp add: heap_inv_def heap_upto_def present_def)
qed

lemma length_candidates [simp]: "length (candidates compute arg) = length arg"
  by (simp add: candidates_def)

lemma select_lowest_few:
  assumes "\<forall>a\<in>set arg. \<not> isNaN (compute (Values a))" "length arg < n"
  shows "select_lowest n compute arg = Panic"
proof -
  have H: "heap_inv (foldl heap_Push [] (candidates compute arg))"
    "mset (foldl heap_Push [] (candidates compute arg)) = mset (candidates compute arg)"
    using heap_of_candidates[OF assms(1)] by blast+
  then have "size (mset (foldl heap_Push [] (candidates compute arg))) < n" using assms(2) by simp
  then show ?thesis using heap_queue.pops_too_many[OF H(1)] by (simp add: select_lowest_def)
qed

text \<open>
  picking the \<open>n\<close> lowest series, when every series has a value: with at least \<open>n\<close> series the
  result is the \<open>n\<close> with the lowest values in ascending order, and with fewer series the heap is
  emptied once too often and the code panics.
\<close>

lemma select_lowest_best:
  assumes "\<forall>a\<in>set arg. \<not> isNaN (compute (Values a))"
  shows "if n \<le> length arg
    then \<exists>vs others. select_lowest n compute arg = Some (map (\<lambda>v. arg ! Idx v) vs)
       \<and> mset (candidates compute arg) = mset vs + others \<and> length vs = n
       \<and> sorted_wrt (\<lambda>x y. Val x \<le> Val y) vs \<and> (\<forall>x\<in>set vs. \<forall>y\<in>#others. Val x \<le> Val y)
    else select_lowest n compute arg = Panic"
proof -
  define mh where "mh = foldl heap_Push [] (candidates compute arg)"
  have H: "heap_inv mh" "mset mh = mset (candidates compute arg)"
    using heap_of_candidates[of arg compute] assms unfolding mh_def by blast+
  have nn: "\<not> isNaN (Val x)" if "x \<in># mset mh" for x
    using H(1) that by (simp add: heap_inv_def present_def)
  have size: "size (mset mh) = length arg" using H(2) by simp
  show ?thesis
  proof (cases "n \<le> length arg")
    case True
    obtain vs rest where V: "pops heap_Pop n mh = Some vs" "length vs = n" "mset mh = mset vs + rest"
      "sorted (map elem_key vs)" "\<forall>x\<in>set vs. \<forall>y\<in>#rest. elem_key x \<le> elem_key y"
      using heap_queue.pops_sorted[OF H(1), of n] True size by auto
    have "sorted_wrt (\<lambda>x y. Val x \<le> Val y) vs" using nn V(3) by (intro sorted_Val[OF V(4)]) simp
    moreover have "Val x \<le> Val y" if "x \<in> set vs" "y \<in># rest" for x y
      using that V(3,5) nn by (intro key_le_Val) auto
    ultimately show ?thesis
      using True V H(2) by (simp add: select_lowest_def mh_def[symmetric]) blast
  next
    case False
    then show ?thesis using select_lowest_few[OF assms, of n] by simp
  qed
qed

lemma select_lowest_best_witness:
  "select_lowest 2 AggMax [makeMetricDataWithTags ''a'' [FNum 3] 60 0 []] = Panic"
  using select_lowest_best[of "[makeMetricDataWithTags ''a'' [FNum 3] 60 0 []]" AggMax 2]
  by (simp add: makeMetricDataWithTags_def AggMax_def)

text \<open>The function itself: which count and which consolidation, and the early returns.\<close>

definition highest_args :: "quickselect \<Rightarrow> expr \<Rightarrow> int \<Rightarrow> (int \<times> (f64 list \<Rightarrow> f64)) ev" where
  "highest_args qs e n =
     (let t = target e
      in if t = ''highest'' \<or> t = ''lowest''
         then ev_bind
           (if length (args e) = 2
            then (case GetIntArg e 1 of
                    Inr n1 \<Rightarrow> ret (n1, ''average'')
                  | Inl _ \<Rightarrow> ev_bind (of_parser (GetStringArgDefault e 1 ''average'')) (\<lambda>c. ret (1, c)))
            else if length (args e) = 3
            then ev_bind (of_parser (GetIntArg e 1)) (\<lambda>n1.
                 ev_bind (of_parser (GetStringArgDefault e 2 ''average'')) (\<lambda>c. ret (n1, c)))
            else ret (n, ''average''))
           (\<lambda>(n1, c). case map_of (ConsolidationToFunc qs) c of
               None \<Rightarrow> throw (plain_error (OtherCause (''unsupported consolidation function '' @ c)))
             | Some compute \<Rightarrow> ret (n1, compute))
         else if t = ''highestMax'' \<or> t = ''lowestMax'' then ret (n, MaxValue)
         else if t = ''highestAverage'' \<or> t = ''lowestAverage'' then ret (n, AvgValue)
         else if t = ''highestCurrent'' \<or> t = ''lowestCurrent'' then ret (n, CurrentValue)
         else if t = ''highestMin'' \<or> t = ''lowestMin'' then ret (n, MinValue)
         else throw (plain_error (OtherCause (''unsupported function '' @ t))))"

definition highest_Do :: "quickselect \<Rightarrow> evaluator \<Rightarrow> expr \<Rightarrow> int \<Rightarrow> int \<Rightarrow> MetricData list ev" where
  "highest_Do qs ev e start stop =
     ev_bind (Arg e 0) (\<lambda>a0.
     ev_bind (GetSeriesArg ev a0 start stop) (\<lambda>arg.
     ev_bind (if 1 < length (args e) \<and> target e \<noteq> ''highest'' \<and> target e \<noteq> ''lowest''
              then of_parser (GetIntArg e 1) else ret 1) (\<lambda>n0.
       if int (length arg) < n0 then ret arg
       else ev_bind (highest_args qs e n0) (\<lambda>(n, compute).
         if n \<le> 0 then ret []
         else of_go (if HasPrefix (target e) ''highest'' then select_highest (nat n) compute arg
                     else select_lowest (nat n) compute arg)))))"

text \<open>
  The check for more series than asked for is done before \<open>lowest\<close> reads its count: a count above
  the number of series panics, while \<open>lowestMax\<close> and its relatives return all series.
\<close>

lemma lowest_panics:
  assumes "e = Expr ''lowest'' EtFunc v w [Expr x EtName v1 w1 as1 ns1 s1, Expr t EtConst (f64_of_int (int n)) w2 as2 ns2 s2] ns s"
    and "ev_Eval ev (Expr x EtName v1 w1 as1 ns1 s1) start stop m = Some (Inr arg, m')"
    and "\<forall>a\<in>set arg. \<not> isNaN (AggMean (Values a))" "arg \<noteq> []" "length arg < n" "n \<le> 2 ^ 53"
  shows "highest_Do qs ev e start stop m = Panic"
proof -
  have c: "int_of_f64 (f64_of_int (int n)) = int n"
    using assms(6) by (simp add: f64_of_int_exact int_of_f64_def in_int64_def)
  have n: "GetIntArg e 1 = Inr (int n)"
    by (simp add: assms(1) GetIntArg_def req_arg_def doGetIntArg_def c)
  have ha: "highest_args qs e 1 = ret (int n, AggMean)"
    using n by (simp add: highest_args_def assms(1) ConsolidationToFunc_def Let_def)
  have "select_lowest n AggMean arg = Panic"
    using assms(3,5) by (rule select_lowest_few)
  moreover have "\<not> HasPrefix ''lowest'' ''highest''" by code_simp
  ultimately show ?thesis
    using assms(2,4,5) ha unfolding highest_Do_def
    by (simp add: assms(1) Arg_def go_index_def GetSeriesArg_def IsName_def ev_bind_def ret_def of_go_def)
qed

end
