(* ===== verification/Summarize.thy ===== *)
theory Summarize
  imports Helpers
begin

text \<open>
  The functions that aggregate a series over buckets of time: \<open>summarize\<close> and \<open>smartSummarize\<close>
  of \<open>expr/functions\<close>. A loop that adds a point for every bucket ends only if the
  bucket size is positive; one that does not end uses up the memory and is a panic here.
\<close>

section \<open>Summaries by bucket\<close>

text \<open>\<open>(t - start + step - 1) / step\<close>, the index of the first value at or after the time \<open>t\<close>.\<close>

definition index_from :: "MetricData \<Rightarrow> int \<Rightarrow> int go_result" where
  "index_from arg t = go_div (t - StartTime arg + StepTime arg - 1) (StepTime arg)"

definition value_slice :: "MetricData \<Rightarrow> int \<Rightarrow> int \<Rightarrow> f64 list go_result" where
  "value_slice arg a b =
     (if 0 \<le> a \<and> a \<le> b \<and> b \<le> int (length (Values arg))
      then Some (take (nat (b - a)) (drop (nat a) (Values arg))) else Panic)"

definition bucket_end :: "MetricData \<Rightarrow> int \<Rightarrow> int go_result" where
  "bucket_end arg upper =
     map_option (\<lambda>b. if b > int (length (Values arg)) then int (length (Values arg)) else b) (index_from arg upper)"

text \<open>
  The loop of \<open>summarize\<close> from the bucket at \<open>ts\<close> on: the points and the time it ends at. When all
  values are used up it adds one absent point and stops.
\<close>

partial_function (option) summarize_loop ::
  "quickselect \<Rightarrow> string \<Rightarrow> MetricData \<Rightarrow> int \<Rightarrow> int \<Rightarrow> int \<Rightarrow> int \<Rightarrow> (f64 list \<times> int) option" where
  "summarize_loop qs f arg bucketSize newStop ts bucketStart =
     (if \<not> ts < newStop then Some ([], ts)
      else Option.bind (if ts \<ge> StartTime arg then index_from arg ts else Some bucketStart) (\<lambda>bs.
        if ts \<ge> StartTime arg \<and> bs > int (length (Values arg)) then Some ([FNaN], ts + bucketSize)
        else Option.bind (bucket_end arg (ts + bucketSize)) (\<lambda>be.
             Option.bind (value_slice arg bs be) (\<lambda>vs.
             Option.bind (summarize_loop qs f arg bucketSize newStop (ts + bucketSize) bs) (\<lambda>(rvs, t).
               Some (SummarizeValues qs f vs (XFilesFactor arg) # rvs, t))))))"

partial_function (option) smart_loop ::
  "quickselect \<Rightarrow> string \<Rightarrow> MetricData \<Rightarrow> int \<Rightarrow> int \<Rightarrow> (f64 list \<times> int) option" where
  "smart_loop qs f arg bucketSize ts =
     (if \<not> ts < StopTime arg then Some ([], ts)
      else Option.bind (index_from arg ts) (\<lambda>bs.
           Option.bind (bucket_end arg (ts + bucketSize)) (\<lambda>be.
           Option.bind (value_slice arg bs be) (\<lambda>vs.
           Option.bind (smart_loop qs f arg bucketSize (ts + bucketSize)) (\<lambda>(rvs, t).
             Some (SummarizeValues qs f vs (XFilesFactor arg) # rvs, t))))))"

definition show_bool :: "bool \<Rightarrow> string" where
  "show_bool b = (if b then ''true'' else ''false'')"

definition quoted :: "string \<Rightarrow> string" where
  "quoted s = [CHR 0x27] @ s @ [CHR 0x27]"

definition summarize_one ::
  "quickselect \<Rightarrow> string \<Rightarrow> int \<Rightarrow> int \<Rightarrow> int \<Rightarrow> string \<Rightarrow> string \<Rightarrow> MetricData \<Rightarrow> MetricData go_result" where
  "summarize_one qs f bucketSize newStart newStop name sizeStr arg =
     map_option (\<lambda>(vs, ts).
         (makeMetricDataWithTags name vs bucketSize newStart
            (AList.update ''summarizeFunction'' f (AList.update ''summarize'' sizeStr (CopyTags arg))))
         \<lparr>StopTime := ts, XFilesFactor := XFilesFactor arg, PathExpression := name,
          MConsolidationFunc := MConsolidationFunc arg\<rparr>)
       (summarize_loop qs f arg bucketSize newStop newStart 0)"

definition invalid_consolidation :: "string \<Rightarrow> eval_error" where
  "invalid_consolidation f = plain_error (OtherCause (''invalid consolidation '' @ f))"

definition summarize_Do :: "go_env \<Rightarrow> quickselect \<Rightarrow> evaluator \<Rightarrow> expr \<Rightarrow> int \<Rightarrow> int \<Rightarrow> MetricData list ev" where
  "summarize_Do E qs ev e start stop =
     ev_bind (Arg e 0) (\<lambda>a0.
     ev_bind (GetSeriesArg ev a0 start stop) (\<lambda>as.
       if as = [] then ret []
       else ev_bind (of_parser (GetIntervalArg E e 1 1)) (\<lambda>bucketSize.
            ev_bind (of_parser (GetStringNamedOrPosArgDefault e ''func'' 2 ''sum'')) (\<lambda>f.
              if \<not> CheckValidConsolidationFunc qs f then throw (invalid_consolidation f)
              else ev_bind (of_parser (GetBoolNamedOrPosArgDefault e ''alignToFrom'' 3 False)) (\<lambda>alignToFrom.
                let funcOk = (getNamedArg e ''func'' \<noteq> None \<or> 2 < length (args e));
                    alignOk = (getNamedArg e ''alignToFrom'' \<noteq> None \<or> 3 < length (args e));
                    (newStart, newStop) =
                      (if alignToFrom then (StartTime (hd as), StopTime (hd as))
                       else (case AlignToBucketSize (StartTime (hd as)) (StopTime (hd as)) bucketSize of
                               (a, b) \<Rightarrow> (a, b + bucketSize)));
                    name = (\<lambda>arg. ''summarize('' @ Name arg @ '','' @ quoted (valStr (args e ! 1))
                      @ (if funcOk \<or> alignOk then '','' @ quoted f else [])
                      @ (if alignOk then '','' @ show_bool alignToFrom else []) @ '')'')
                in of_go (opt_map (\<lambda>arg. summarize_one qs f bucketSize newStart newStop (name arg)
                            (valStr (args e ! 1)) arg) as))))))"

definition getAlignTo :: "expr \<Rightarrow> parser_error + string" where
  "getAlignTo e =
     (case NamedOrPosArg e ''alignTo'' 3 of
        None \<Rightarrow> Inr []
      | Some a \<Rightarrow> if IsBool a then Inr [] else if \<not> IsString a then Inl ErrBadType else Inr (valStr a))"

definition smart_one ::
  "quickselect \<Rightarrow> string \<Rightarrow> int \<Rightarrow> string \<Rightarrow> MetricData \<Rightarrow> MetricData go_result" where
  "smart_one qs f bucketSize name arg =
     map_option (\<lambda>(vs, ts).
         (makeMetricDataWithTags name vs bucketSize (StartTime arg)
            (AList.update ''smartSummarizeFunction'' f
              (AList.update ''smartSummarize'' (FormatInt bucketSize) (CopyTags arg))))
         \<lparr>StopTime := ts, MConsolidationFunc := MConsolidationFunc arg\<rparr>)
       (smart_loop qs f arg bucketSize (StartTime arg))"

definition smartSummarize_Do :: "go_env \<Rightarrow> quickselect \<Rightarrow> evaluator \<Rightarrow> expr \<Rightarrow> int \<Rightarrow> int \<Rightarrow> MetricData list ev" where
  "smartSummarize_Do E qs ev e start stop =
     (if length (args e) < 2 then throw (plain_error (ParserCause ErrMissingArgument))
      else ev_bind (of_parser (getAlignTo e)) (\<lambda>alignTo.
           ev_bind (if alignTo = [] then ret start
                    else (case StartAlignTo start alignTo of
                            None \<Rightarrow> throw (plain_error (ParserCause ErrInvalidInterval)) | Some t \<Rightarrow> ret t)) (\<lambda>start1.
           ev_bind (GetSeriesArg ev (args e ! 0) start1 stop) (\<lambda>as.
             if as = [] then ret []
             else ev_bind (of_parser (GetIntervalArg E e 1 1)) (\<lambda>bucketSize.
               if bucketSize \<le> 0 then throw (plain_error (ParserCause ErrInvalidInterval))
               else ev_bind (of_parser (GetStringNamedOrPosArgDefault e ''func'' 2 ''sum'')) (\<lambda>f.
                 if \<not> CheckValidConsolidationFunc qs f then throw (invalid_consolidation f)
                 else of_go (opt_map (\<lambda>arg. smart_one qs f bucketSize
                        (''smartSummarize('' @ Name arg @ '','' @ quoted (valStr (args e ! 1)) @ '','' @ quoted f
                         @ (if alignTo = [] then [] else '','' @ quoted alignTo) @ '')'') arg) as)))))))"

section \<open>The values of a bucket\<close>

text \<open>The values of a series whose times lie in \<open>lo..<hi\<close>.\<close>

definition bucket_values :: "MetricData \<Rightarrow> int \<Rightarrow> int \<Rightarrow> f64 list" where
  "bucket_values arg lo hi =
     map (\<lambda>i. Values arg ! i)
       (filter (\<lambda>i. lo \<le> StartTime arg + int i * StepTime arg \<and> StartTime arg + int i * StepTime arg < hi)
          [0..<length (Values arg)])"

lemma div_less_iff:
  assumes s: "0 < s"
  shows "a div s < k \<longleftrightarrow> a < s * (k :: int)"
proof
  assume "a div s < k"
  then have "s * (a div s) \<le> s * (k - 1)" using s by (intro mult_left_mono) simp_all
  moreover have "s * (k - 1) = s * k - s" by (simp add: right_diff_distrib)
  moreover have "a = s * (a div s) + a mod s" "a mod s < s" using s by simp_all
  ultimately show "a < s * k" by linarith
qed (rule div_less_int[OF s])

lemma ceil_div_le:
  assumes s: "0 < s"
  shows "d \<le> i * s \<longleftrightarrow> (d + s - 1) div s \<le> (i :: int)"
proof -
  have "s * (i + 1) = i * s + s" by (simp add: algebra_simps)
  then have "d + s - 1 < s * (i + 1) \<longleftrightarrow> d \<le> i * s" by linarith
  moreover have "(d + s - 1) div s < i + 1 \<longleftrightarrow> (d + s - 1) div s \<le> i" by linarith
  ultimately show ?thesis using div_less_iff[OF s, of "d + s - 1" "i + 1"] by blast
qed

lemma filter_range: "filter (\<lambda>i. a \<le> int i \<and> int i < b) [0..<n] = [nat a..<min n (nat b)]"
proof (induction n)
  case (Suc n)
  then show ?case by (cases "nat a \<le> n"; cases "nat b \<le> n") (auto simp: min_def)
qed simp

lemma map_nth_range: "b \<le> length xs \<Longrightarrow> map (\<lambda>i. xs ! i) [a..<b] = take (b - a) (drop a xs)"
  by (rule nth_equalityI) auto

lemma bucket_values_slice:
  assumes s: "0 < StepTime arg"
  shows "bucket_values arg lo hi =
    take (min (length (Values arg)) (nat ((hi - StartTime arg + StepTime arg - 1) div StepTime arg))
          - nat ((lo - StartTime arg + StepTime arg - 1) div StepTime arg))
      (drop (nat ((lo - StartTime arg + StepTime arg - 1) div StepTime arg)) (Values arg))"
proof -
  have "lo \<le> StartTime arg + int i * StepTime arg \<and> StartTime arg + int i * StepTime arg < hi
      \<longleftrightarrow> (lo - StartTime arg + StepTime arg - 1) div StepTime arg \<le> int i
        \<and> int i < (hi - StartTime arg + StepTime arg - 1) div StepTime arg" for i
    using ceil_div_le[OF s, of "lo - StartTime arg" "int i"] ceil_div_le[OF s, of "hi - StartTime arg" "int i"] by linarith
  then show ?thesis unfolding bucket_values_def filter_range by (simp add: map_nth_range filter_range)
qed

lemma ceil_mono: "0 < s \<Longrightarrow> lo \<le> hi \<Longrightarrow> (lo - x + s - 1) div s \<le> (hi - x + s - 1) div (s :: int)"
  by (intro zdiv_mono1) simp_all

lemma index_from_ceil:
  "0 < StepTime arg \<Longrightarrow> StartTime arg \<le> t \<Longrightarrow>
     index_from arg t = Some ((t - StartTime arg + StepTime arg - 1) div StepTime arg)"
  by (simp add: index_from_def go_div_def sdiv_nonneg)

text \<open>Up to almost two steps before the start the truncating division still gives zero.\<close>

lemma index_from_early:
  assumes "0 < StepTime arg" "t < StartTime arg"
  shows "if StartTime arg \<le> t + 2 * StepTime arg - 2 then index_from arg t = Some 0
    else \<exists>b<0. index_from arg t = Some b"
proof -
  let ?s = "StepTime arg" and ?x = "t - StartTime arg + StepTime arg - 1"
  have i: "index_from arg t = Some (?x sdiv ?s)" using assms(1) by (simp add: index_from_def go_div_def)
  show ?thesis
  proof (cases "0 \<le> ?x")
    case True
    then have "?x div ?s = 0" using assms by (intro div_pos_pos_trivial) simp_all
    then show ?thesis using True assms i by (simp add: sdiv_nonneg)
  next
    case False
    then have e: "?x sdiv ?s = - ((- ?x) div ?s)"
      using assms(1) by (simp add: signed_divide_int_def sgn_if)
    show ?thesis
    proof (cases "StartTime arg \<le> t + 2 * ?s - 2")
      case True
      then have "(- ?x) div ?s = 0" using False by (intro div_pos_pos_trivial) simp_all
      then show ?thesis using True i e by simp
    next
      case no: False
      then have "?s \<le> - ?x" by simp
      then have "0 < (- ?x) div ?s" using assms(1) by (simp add: pos_imp_zdiv_pos_iff)
      then show ?thesis using no i e by simp
    qed
  qed
qed

text \<open>The slice a bucket is given is the values in it, for a bucket that starts before the series as well.\<close>

lemma bucket_slice:
  assumes s: "0 < StepTime arg" and b: "0 < b" and r: "StartTime arg \<le> ts + b + 2 * StepTime arg - 2"
    and bs: "if StartTime arg \<le> ts then bs = (ts - StartTime arg + StepTime arg - 1) div StepTime arg \<and> bs \<le> int (length (Values arg))
             else bs = 0"
  shows "\<exists>be. bucket_end arg (ts + b) = Some be \<and> value_slice arg bs be = Some (bucket_values arg ts (ts + b))"
proof -
  let ?s = "StepTime arg" and ?n = "length (Values arg)"
  let ?lo = "(ts - StartTime arg + ?s - 1) div ?s" and ?hi = "(ts + b - StartTime arg + ?s - 1) div ?s"
  have mono: "?lo \<le> ?hi" using b by (intro ceil_mono s) simp
  have lo: "ts < StartTime arg \<Longrightarrow> nat ?lo = 0"
    using ceil_div_le[OF s, of "ts - StartTime arg" 0] by simp
  have bs': "bs = int (nat ?lo)" "0 \<le> bs"
  proof -
    have "0 \<le> ?lo" if "StartTime arg \<le> ts" using that s by (intro pos_imp_zdiv_nonneg_iff[THEN iffD2]) simp_all
    then show "bs = int (nat ?lo)" "0 \<le> bs" using bs lo by (auto split: if_splits)
  qed
  show ?thesis
  proof (cases "StartTime arg \<le> ts + b")
    case True
    then have e: "bucket_end arg (ts + b) = Some (if ?hi > int ?n then int ?n else ?hi)"
      using index_from_ceil[OF s True] by (simp add: bucket_end_def)
    have hi: "0 \<le> ?hi" using True s by (intro pos_imp_zdiv_nonneg_iff[THEN iffD2]) simp_all
    have "bs \<le> (if ?hi > int ?n then int ?n else ?hi)"
      using bs mono hi by (auto split: if_splits)
    then have "value_slice arg bs (if ?hi > int ?n then int ?n else ?hi) = Some (bucket_values arg ts (ts + b))"
      using bs' hi by (auto simp: value_slice_def bucket_values_slice[OF s] min_def nat_diff_distrib)
    then show ?thesis using e by blast
  next
    case False
    then have z: "index_from arg (ts + b) = Some 0"
      using index_from_early[OF s, of "ts + b"] r by simp
    have "?hi \<le> 0" using False ceil_div_le[OF s, of "ts + b - StartTime arg" 0] by simp
    then have "bucket_values arg ts (ts + b) = []" by (simp add: bucket_values_slice[OF s])
    moreover have "bs = 0" using bs False b by (simp split: if_splits)
    ultimately show ?thesis using z by (simp add: bucket_end_def value_slice_def)
  qed
qed

section \<open>What the loops add up to\<close>

text \<open>The points of \<open>K\<close> buckets of size \<open>b\<close> from the time \<open>t\<close> on.\<close>

definition bucket_points :: "quickselect \<Rightarrow> string \<Rightarrow> MetricData \<Rightarrow> int \<Rightarrow> int \<Rightarrow> nat \<Rightarrow> f64 list" where
  "bucket_points qs f arg b t K =
     map (\<lambda>k. SummarizeValues qs f (bucket_values arg (t + int k * b) (t + int (Suc k) * b)) (XFilesFactor arg)) [0..<K]"

lemma bucket_points_Suc:
  "bucket_points qs f arg b t (Suc K) =
     SummarizeValues qs f (bucket_values arg t (t + b)) (XFilesFactor arg) # bucket_points qs f arg b (t + b) K"
proof -
  have "[0..<Suc K] = 0 # map Suc [0..<K]" by (simp only: upt_rec[of 0 "Suc K"] map_Suc_upt) simp
  then show ?thesis by (simp add: bucket_points_def algebra_simps del: upt_Suc)
qed

lemma SummarizeValues_none [simp]: "SummarizeValues qs f [] xff = FNaN"
  by (simp add: SummarizeValues_def)

lemma bucket_values_late: "0 < StepTime arg \<Longrightarrow> values_stop arg \<le> lo \<Longrightarrow> bucket_values arg lo hi = []"
proof -
  assume a: "0 < StepTime arg" "values_stop arg \<le> lo"
  have "\<not> lo \<le> StartTime arg + int i * StepTime arg" if "i < length (Values arg)" for i
  proof -
    have "int i * StepTime arg < int (length (Values arg)) * StepTime arg" using that a(1) by simp
    then show ?thesis using a(2) by (simp add: values_stop_def)
  qed
  then show ?thesis by (simp add: bucket_values_def)
qed

lemma summarize_loop_buckets:
  assumes s: "0 < StepTime arg" and b: "0 < b"
  shows "StartTime arg \<le> ts + b + 2 * StepTime arg - 2 \<Longrightarrow> (ts < StartTime arg \<Longrightarrow> bs = 0) \<Longrightarrow>
    \<exists>K. summarize_loop qs f arg b newStop ts bs = Some (bucket_points qs f arg b ts K, ts + int K * b)
      \<and> (newStop \<le> ts + int K * b \<or> values_stop arg \<le> ts + int K * b) \<and> (K = 0 \<or> ts + int K * b < newStop + b)"
proof (induction "nat (newStop - ts)" arbitrary: ts bs rule: less_induct)
  case less
  let ?n = "int (length (Values arg))" and ?lo = "(ts - StartTime arg + StepTime arg - 1) div StepTime arg"
  show ?case
  proof (cases "ts < newStop")
    case False
    then show ?thesis by (intro exI[of _ 0]) (simp add: summarize_loop.simps bucket_points_def)
  next
    case True
    define bs' where "bs' = (if StartTime arg \<le> ts then ?lo else bs)"
    have ix: "(if ts \<ge> StartTime arg then index_from arg ts else Some bs) = Some bs'"
      using index_from_ceil[OF s] by (simp add: bs'_def)
    show ?thesis
    proof (cases "StartTime arg \<le> ts \<and> bs' > ?n")
      case late: True
      then have "?n < ?lo" by (auto simp: bs'_def)
      then have "\<not> ts - StartTime arg \<le> ?n * StepTime arg" using ceil_div_le[OF s, of "ts - StartTime arg" ?n] by linarith
      then have vs: "values_stop arg \<le> ts" by (simp add: values_stop_def)
      have "summarize_loop qs f arg b newStop ts bs = Some ([FNaN], ts + b)"
        using True ix late by (subst summarize_loop.simps) simp
      moreover have "bucket_points qs f arg b ts 1 = [FNaN]"
        using bucket_values_late[OF s vs] by (simp add: bucket_points_def)
      ultimately show ?thesis using vs b True by (intro exI[of _ 1]) simp
    next
      case False
      have "if StartTime arg \<le> ts then bs' = ?lo \<and> bs' \<le> ?n else bs' = 0"
        using False less.prems(2) by (auto simp: bs'_def)
      from bucket_slice[OF s b less.prems(1) this] obtain be
        where be: "bucket_end arg (ts + b) = Some be" "value_slice arg bs' be = Some (bucket_values arg ts (ts + b))" by blast
      have "nat (newStop - (ts + b)) < nat (newStop - ts)" using True b by simp
      from less.hyps[OF this, of bs'] obtain K where
        K: "summarize_loop qs f arg b newStop (ts + b) bs' = Some (bucket_points qs f arg b (ts + b) K, ts + b + int K * b)"
        "newStop \<le> ts + b + int K * b \<or> values_stop arg \<le> ts + b + int K * b" "K = 0 \<or> ts + b + int K * b < newStop + b"
        using less.prems b by (force simp: bs'_def)
      have "summarize_loop qs f arg b newStop ts bs = Some (bucket_points qs f arg b ts (Suc K), ts + b + int K * b)"
        using True ix False be K(1)
        by (subst summarize_loop.simps, simp only: bucket_points_Suc) (simp only: ix bind.simps prod.case simp_thms if_False split: if_splits)
      then show ?thesis using K(2,3) True b by (intro exI[of _ "Suc K"]) (auto simp: algebra_simps)
    qed
  qed
qed

text \<open>
  C37: with a positive bucket size every point of \<open>summarize\<close> is the summary of the values whose
  times lie in its bucket; the buckets lie side by side from the new start on and reach the new
  stop, or at least the end of the series. The one exception is a series that starts so much
  later than the new start that the end of the first bucket is a negative index: then the slice
  expression panics.
\<close>

theorem summarize_buckets:
  assumes s: "0 < StepTime arg" and b: "0 < b" and t: "newStart < newStop"
  shows "if StartTime arg \<le> newStart + b + 2 * StepTime arg - 2
    then \<exists>r K. summarize_one qs f b newStart newStop name sizeStr arg = Some r
       \<and> Values r = bucket_points qs f arg b newStart K
       \<and> StartTime r = newStart \<and> StepTime r = b \<and> StopTime r = newStart + int K * b
       \<and> (newStop \<le> StopTime r \<or> values_stop arg \<le> StopTime r) \<and> StopTime r < newStop + b
    else summarize_one qs f b newStart newStop name sizeStr arg = Panic"
proof (cases "StartTime arg \<le> newStart + b + 2 * StepTime arg - 2")
  case True
  obtain K where K: "summarize_loop qs f arg b newStop newStart 0 = Some (bucket_points qs f arg b newStart K, newStart + int K * b)"
    "newStop \<le> newStart + int K * b \<or> values_stop arg \<le> newStart + int K * b" "K = 0 \<or> newStart + int K * b < newStop + b"
    using summarize_loop_buckets[OF s b True, of 0 qs f newStop] by blast
  define r where "r = (makeMetricDataWithTags name (bucket_points qs f arg b newStart K) b newStart
      (AList.update ''summarizeFunction'' f (AList.update ''summarize'' sizeStr (CopyTags arg))))
      \<lparr>StopTime := newStart + int K * b, XFilesFactor := XFilesFactor arg, PathExpression := name,
       MConsolidationFunc := MConsolidationFunc arg\<rparr>"
  have "summarize_one qs f b newStart newStop name sizeStr arg = Some r"
    by (simp add: summarize_one_def K(1) r_def)
  moreover have "Values r = bucket_points qs f arg b newStart K \<and> StartTime r = newStart \<and> StepTime r = b
      \<and> StopTime r = newStart + int K * b" by (simp add: r_def makeMetricDataWithTags_def)
  moreover have "newStart + int K * b < newStop + b" using K(3) t b by auto
  ultimately show ?thesis using K(2) unfolding if_P[OF True] by (intro exI[of _ r] exI[of _ K]) simp
next
  case False
  then have early: "newStart < StartTime arg" "newStart + b < StartTime arg" using s b by simp_all
  obtain be where be: "be < 0" "index_from arg (newStart + b) = Some be"
    using index_from_early[OF s early(2)] False by auto
  then have "bucket_end arg (newStart + b) = Some be" by (simp add: bucket_end_def)
  moreover have "value_slice arg 0 be = Panic" using be(1) by (simp add: value_slice_def)
  ultimately have "summarize_loop qs f arg b newStop newStart 0 = None"
    using t early by (subst summarize_loop.simps) simp
  then show ?thesis using False by (simp add: summarize_one_def)
qed

theorem summarize_buckets_witness:
  "\<forall>qs. \<exists>r K. summarize_one qs ''sum'' 20 0 60 ''n'' ''20s'' (makeMetricDataWithTags ''a'' [FNum 1, FNum 2, FNum 4] 10 10 []) = Some r
     \<and> Values r = bucket_points qs ''sum'' (makeMetricDataWithTags ''a'' [FNum 1, FNum 2, FNum 4] 10 10 []) 20 0 K
     \<and> 40 \<le> StopTime r"
proof
  fix qs
  let ?a = "makeMetricDataWithTags ''a'' [FNum 1, FNum 2, FNum 4] 10 10 []"
  have a: "0 < StepTime ?a" "StartTime ?a \<le> 0 + 20 + 2 * StepTime ?a - 2" "values_stop ?a = 40"
    by (simp_all add: makeMetricDataWithTags_def values_stop_def)
  have n: "(0 :: int) < 20" "(0 :: int) < 60" by simp_all
  show "\<exists>r K. summarize_one qs ''sum'' 20 0 60 ''n'' ''20s'' ?a = Some r
     \<and> Values r = bucket_points qs ''sum'' ?a 20 0 K \<and> 40 \<le> StopTime r"
    using summarize_buckets[OF a(1) n, of qs "''sum''" "''n''" "''20s''"] a(2) unfolding a(3) by auto
qed

text \<open>With the bucket size 0, which \<open>summarize\<close> accepts, the loop never ends.\<close>

lemma summarize_zero:
  assumes s: "0 < StepTime arg" and t: "StartTime arg < newStop"
  shows "summarize_loop qs f arg 0 newStop (StartTime arg) 0 = None"
proof -
  let ?P = "\<lambda>(q :: quickselect) (g :: string) a b ns ts (bs :: int) (y :: f64 list \<times> int).
      \<not> (b = 0 \<and> ts = StartTime a \<and> 0 < StepTime a \<and> ts < ns)"
  have "?P q g a b ns ts bs y" if "summarize_loop q g a b ns ts bs = Some y" for q g a b ns ts bs y
  proof (rule summarize_loop.raw_induct[of ?P, OF _ that])
    fix loop q g a b ns ts bs y
    assume IH: "\<And>q g a b ns ts bs y. loop q g a b ns ts bs = Some y \<Longrightarrow> ?P q g a b ns ts bs y"
      and body: "(if \<not> ts < ns then Some ([], ts)
        else Option.bind (if StartTime a \<le> ts then index_from a ts else Some bs) (\<lambda>bs.
          if StartTime a \<le> ts \<and> int (length (Values a)) < bs then Some ([FNaN], ts + b)
          else Option.bind (bucket_end a (ts + b)) (\<lambda>be. Option.bind (value_slice a bs be) (\<lambda>vs.
            Option.bind (loop q g a b ns (ts + b) bs) (\<lambda>(rvs, t).
              Some (SummarizeValues q g vs (XFilesFactor a) # rvs, t)))))) = Some y"
    show "?P q g a b ns ts bs y"
    proof
      assume z: "b = 0 \<and> ts = StartTime a \<and> 0 < StepTime a \<and> ts < ns"
      then have "index_from a ts = Some 0" using index_from_ceil[of a ts] by (simp add: div_pos_pos_trivial)
      then obtain y' where "loop q g a b ns (ts + b) 0 = Some y'"
        using body z by (auto simp: bind_eq_Some_conv)
      from IH[OF this] z show False by simp
    qed
  qed
  then show ?thesis using assms by (cases "summarize_loop qs f arg 0 newStop (StartTime arg) 0") blast+
qed

lemma smart_loop_buckets:
  assumes s: "0 < StepTime arg" and b: "0 < b"
  shows "StartTime arg \<le> ts \<Longrightarrow> StopTime arg \<le> values_stop arg \<Longrightarrow>
    \<exists>K. smart_loop qs f arg b ts = Some (bucket_points qs f arg b ts K, ts + int K * b)
      \<and> StopTime arg \<le> ts + int K * b \<and> (K = 0 \<or> ts + int K * b < StopTime arg + b)"
proof (induction "nat (StopTime arg - ts)" arbitrary: ts rule: less_induct)
  case less
  let ?n = "int (length (Values arg))" and ?lo = "(ts - StartTime arg + StepTime arg - 1) div StepTime arg"
  show ?case
  proof (cases "ts < StopTime arg")
    case False
    then show ?thesis by (intro exI[of _ 0]) (simp add: smart_loop.simps bucket_points_def)
  next
    case True
    have ix: "index_from arg ts = Some ?lo" by (rule index_from_ceil[OF s less.prems(1)])
    have "ts - StartTime arg \<le> ?n * StepTime arg" using True less.prems(2) by (simp add: values_stop_def)
    then have "?lo \<le> ?n" using ceil_div_le[OF s] by blast
    then obtain be where be: "bucket_end arg (ts + b) = Some be" "value_slice arg ?lo be = Some (bucket_values arg ts (ts + b))"
      using bucket_slice[OF s b, of ts ?lo] less.prems(1) s b by auto
    have "nat (StopTime arg - (ts + b)) < nat (StopTime arg - ts)" using True b by simp
    from less.hyps[OF this] obtain K where
      K: "smart_loop qs f arg b (ts + b) = Some (bucket_points qs f arg b (ts + b) K, ts + b + int K * b)"
      "StopTime arg \<le> ts + b + int K * b" "K = 0 \<or> ts + b + int K * b < StopTime arg + b"
      using less.prems b by force
    have "smart_loop qs f arg b ts = Some (bucket_points qs f arg b ts (Suc K), ts + b + int K * b)"
      using True ix be K(1) by (subst smart_loop.simps) (simp add: bucket_points_Suc)
    then show ?thesis using K(2,3) True b by (intro exI[of _ "Suc K"]) (auto simp: algebra_simps)
  qed
qed

text \<open>
  \<open>smartSummarize\<close> of a series whose stop its values reach gives the same points as \<open>summarize\<close>
  with buckets from the start of the series, up to the first bucket that ends at or after the
  stop.
\<close>

lemma smartSummarize_agrees:
  assumes s: "0 < StepTime arg" and b: "0 < b" and t: "StartTime arg < StopTime arg" "StopTime arg = values_stop arg"
  shows "\<exists>r r'. smart_one qs f b name arg = Some r
     \<and> summarize_one qs f b (StartTime arg) (StopTime arg) name' sizeStr arg = Some r'
     \<and> Values r = Values r' \<and> StartTime r = StartTime r' \<and> StopTime r = StopTime r' \<and> StepTime r = StepTime r'"
proof -
  obtain K where K: "smart_loop qs f arg b (StartTime arg) = Some (bucket_points qs f arg b (StartTime arg) K, StartTime arg + int K * b)"
    "StopTime arg \<le> StartTime arg + int K * b" "K = 0 \<or> StartTime arg + int K * b < StopTime arg + b"
    using smart_loop_buckets[OF s b order_refl, of qs f] t(2) by auto
  obtain L where L: "summarize_loop qs f arg b (StopTime arg) (StartTime arg) 0 =
      Some (bucket_points qs f arg b (StartTime arg) L, StartTime arg + int L * b)"
    "StopTime arg \<le> StartTime arg + int L * b" "L = 0 \<or> StartTime arg + int L * b < StopTime arg + b"
    using summarize_loop_buckets[OF s b, of "StartTime arg" 0 qs f "StopTime arg"] s b t(2) by auto
  have "K \<noteq> 0" "L \<noteq> 0" using K(2) L(2) t(1) by (auto intro!: Nat.gr0I)
  then have "int K * b < (int L + 1) * b" "int L * b < (int K + 1) * b"
    using K(2,3) L(2,3) by (simp_all add: distrib_right)
  then have "K = L" using b by simp
  then show ?thesis
    using K(1) L(1) by (simp add: smart_one_def summarize_one_def makeMetricDataWithTags_def)
qed

lemma smartSummarize_agrees_witness:
  "\<forall>qs. \<exists>r. smart_one qs ''max'' 20 ''n'' (makeMetricDataWithTags ''a'' [FNum 1, FNum 2, FNum 4] 10 10 []) = Some r"
proof
  fix qs
  let ?a = "makeMetricDataWithTags ''a'' [FNum 1, FNum 2, FNum 4] 10 10 []"
  have a: "0 < StepTime ?a" "StartTime ?a < StopTime ?a" "StopTime ?a = values_stop ?a"
    by (simp_all add: makeMetricDataWithTags_def values_stop_def)
  have "(0 :: int) < 20" by simp
  from smartSummarize_agrees[OF a(1) this a(2,3)]
  show "\<exists>r. smart_one qs ''max'' 20 ''n'' ?a = Some r" by blast
qed

end
