(* ===== verification/Evaluator.thy ===== *)
theory Evaluator
  imports Helpers Moving Metric_Heap Summarize
begin

text \<open>
  The evaluation of expressions, \<open>expr/expr.go\<close>: \<open>Fetch\<close> collects what the expressions need and
  asks the zipper once for what is not in the map yet, and \<open>Eval\<close> runs the functions over it. The
  functions, the rewriting functions and the zipper are fields of a configuration. \<open>Eval\<close> calls
  itself through the functions and through rewritten targets, so it takes fuel.

  A result that is a slice of the map is a value of its own here. \<open>FetchAndEvalExp\<close> sorts the
  slices of the map in place after the evaluation; the order it makes is that of \<open>Series_Sort\<close>.
\<close>

section \<open>Configuration\<close>

record fetch_request =
  fr_Name :: string
  fr_PathExpression :: string
  fr_StartTime :: int
  fr_StopTime :: int
  fr_MaxDataPoints :: int
  fr_FilterFunctions :: "(string \<times> string list) list"

type_synonym go_function = "evaluator \<Rightarrow> expr \<Rightarrow> int \<Rightarrow> int \<Rightarrow> MetricData list ev"
type_synonym rewrite_function = "evaluator \<Rightarrow> expr \<Rightarrow> int \<Rightarrow> int \<Rightarrow> (bool \<times> string list) ev"

record eval_conf =
  ec_env :: go_env
  ec_quickselect :: quickselect
  ec_templates :: templates
  ec_depth :: nat
  ec_Enter :: "merry_error option"
  ec_Render :: "fetch_request list \<Rightarrow> MetricData list \<times> merry_error option"
  ec_ScaleToCommonStep :: bool
  ec_passFunctionsToBackend :: bool
  ec_maxDataPoints :: int
  ec_Functions :: "string \<Rightarrow> go_function option"
  ec_RewriteFunctions :: "string \<Rightarrow> rewrite_function option"

definition ValidAggregateFunctions :: "string list" where
  "ValidAggregateFunctions = [''average'', ''avg'', ''max'', ''min'', ''sum'', ''first'', ''last'']"

section \<open>Fetch\<close>

text \<open>
  What the loop over the requests keeps: the requests to send, the last request per name, the
  keys of \<open>targetValues\<close>, and whether a \<open>fallbackSeries\<close> was seen.
\<close>

record fetch_state =
  fs_multi :: "fetch_request list"
  fs_cache :: "(string \<times> MetricRequest) list"
  fs_target :: "MetricRequest list"
  fs_fallback :: bool

definition plain_request :: "MetricRequest \<Rightarrow> MetricRequest" where
  "plain_request m = m\<lparr>ConsolidationFunc := []\<rparr>"

definition add_key :: "MetricRequest \<Rightarrow> MetricRequest list \<Rightarrow> MetricRequest list" where
  "add_key k ks = (if k \<in> set ks then ks else ks @ [k])"

definition make_request :: "eval_conf \<Rightarrow> MetricRequest \<Rightarrow> fetch_request" where
  "make_request C m =
     \<lparr>fr_Name = Metric m, fr_PathExpression = Metric m, fr_StartTime = From m, fr_StopTime = Until m,
      fr_MaxDataPoints = ec_maxDataPoints C,
      fr_FilterFunctions =
        (if ec_passFunctionsToBackend C \<and> ConsolidationFunc m \<noteq> []
         then [(''consolidateBy'', [ConsolidationFunc m])] else [])\<rparr>"

definition fetch_one :: "eval_conf \<Rightarrow> series_map \<Rightarrow> expr \<Rightarrow> MetricRequest \<Rightarrow> fetch_state \<Rightarrow> eval_error + fetch_state" where
  "fetch_one C values ex m st0 =
     (if ec_passFunctionsToBackend C \<and> ConsolidationFunc m \<noteq> [] \<and> ConsolidationFunc m \<notin> set ValidAggregateFunctions
      then Inl (plain_error (ParserCause ErrInvalidArg))
      else (let r = plain_request m;
                st = (if target ex = ''fallbackSeries'' then st0\<lparr>fs_fallback := True\<rparr> else st0)
            in Inr (if (case map_of (fs_cache st) (Metric m) of None \<Rightarrow> False | Some c \<Rightarrow> From c = From r \<and> Until c = Until r)
                    then st
                    else if map_of values r \<noteq> None then st\<lparr>fs_target := add_key r (fs_target st)\<rparr>
                    else if r \<in> set (fs_target st) then st
                    else st\<lparr>fs_cache := AList.update (Metric m) r (fs_cache st), fs_target := add_key r (fs_target st),
                           fs_multi := fs_multi st @ [make_request C m]\<rparr>)))"

fun fetch_plan_loop :: "eval_conf \<Rightarrow> series_map \<Rightarrow> (expr \<times> MetricRequest) list \<Rightarrow> fetch_state \<Rightarrow> eval_error + fetch_state" where
  "fetch_plan_loop C values [] st = Inr st"
| "fetch_plan_loop C values ((ex, m) # ps) st =
     (case fetch_one C values ex m st of Inl e \<Rightarrow> Inl e | Inr st' \<Rightarrow> fetch_plan_loop C values ps st')"

definition needed :: "eval_conf \<Rightarrow> expr list \<Rightarrow> int \<Rightarrow> int \<Rightarrow> (expr \<times> MetricRequest) list" where
  "needed C exprs start stop = concat (map (\<lambda>ex. map (Pair ex) (Metrics (ec_env C) ex start stop)) exprs)"

definition fetch_plan :: "eval_conf \<Rightarrow> series_map \<Rightarrow> expr list \<Rightarrow> int \<Rightarrow> int \<Rightarrow> eval_error + fetch_state" where
  "fetch_plan C values exprs start stop =
     fetch_plan_loop C values (needed C exprs start stop)
       \<lparr>fs_multi = [], fs_cache = [], fs_target = [], fs_fallback = False\<rparr>"

definition series_of :: "series_map \<Rightarrow> MetricRequest \<Rightarrow> MetricData list" where
  "series_of values k = (case map_of values k of None \<Rightarrow> [] | Some ms \<Rightarrow> ms)"

text \<open>A returned series is filed under the request of its path, at the times it says it was asked for.\<close>

definition answer_key :: "(string \<times> MetricRequest) list \<Rightarrow> MetricData \<Rightarrow> MetricRequest" where
  "answer_key cache metric =
     (let r = (case map_of cache (PathExpression metric) of
                 None \<Rightarrow> \<lparr>Metric = [], ConsolidationFunc = [], From = 0, Until = 0\<rparr> | Some r \<Rightarrow> r)
      in if RequestStartTime metric \<noteq> 0 \<and> RequestStopTime metric \<noteq> 0
         then r\<lparr>From := RequestStartTime metric, Until := RequestStopTime metric\<rparr> else r)"

definition store_metric :: "(string \<times> MetricRequest) list \<Rightarrow> series_map \<Rightarrow> MetricData \<Rightarrow> series_map" where
  "store_metric cache values metric =
     (let k = answer_key cache metric in AList.update k (series_of values k @ [metric]) values)"

definition Fetch_expr :: "eval_conf \<Rightarrow> expr list \<Rightarrow> int \<Rightarrow> int \<Rightarrow> series_map ev" where
  "Fetch_expr C exprs start stop = (\<lambda>values.
     case ec_Enter C of
       Some err \<Rightarrow> Some (Inl (plain_error (BackendCause err)), values)
     | None \<Rightarrow>
         (case fetch_plan C values exprs start stop of
            Inl e \<Rightarrow> Some (Inl e, values)
          | Inr st \<Rightarrow>
              (case (if fs_multi st = [] then ([], None) else ec_Render C (fs_multi st)) of (metrics, err) \<Rightarrow>
                 if (case err of None \<Rightarrow> False | Some e \<Rightarrow> 400 \<le> HTTPCode e) \<and> \<not> fs_fallback st
                 then Some (Inl (plain_error (BackendCause (the err))), values)
                 else (let values' = foldl (store_metric (fs_cache st)) values metrics;
                           tv = map (\<lambda>k. (k, series_of values' k)) (fs_target st)
                       in if ec_ScaleToCommonStep C
                          then map_option (\<lambda>tv'. (Inr tv', values'))
                                 (ScaleValuesToCommonStep (ec_env C) (ec_quickselect C) tv)
                          else Some (Inr tv, values')))))"

section \<open>Eval\<close>

text \<open>The errors that are the caller's fault get the code 400.\<close>

definition bad_request :: "parser_error \<Rightarrow> bool" where
  "bad_request e \<longleftrightarrow> e \<in> {ErrMissingExpr, ErrMissingComma, ErrMissingQuote, ErrUnexpectedCharacter, ErrBadType,
     ErrMissingArgument, ErrMissingTimeseries, ErrMissingValues, ErrUnknownTimeUnits, ErrInvalidArg}"

definition in_function :: "string \<Rightarrow> eval_error \<Rightarrow> eval_error" where
  "in_function f err =
     (case err of EvalError c code fs \<Rightarrow>
        EvalError c (case c of ParserCause e \<Rightarrow> if bad_request e then Some 400 else code | _ \<Rightarrow> code) (f # fs))"

definition const_series :: "go_env \<Rightarrow> expr \<Rightarrow> int \<Rightarrow> int \<Rightarrow> MetricData" where
  "const_series E e start stop =
     (makeMetricDataWithTags (ToString E e) [val e] (stop - start) start [(''name'', ToString E e)])\<lparr>StopTime := stop\<rparr>"

definition EvalExpr :: "eval_conf \<Rightarrow> evaluator \<Rightarrow> expr \<Rightarrow> int \<Rightarrow> int \<Rightarrow> MetricData list ev" where
  "EvalExpr C ev e start stop =
     (if IsName e
      then (\<lambda>values. Some (Inr (series_of values \<lparr>Metric = target e, ConsolidationFunc = [], From = start, Until = stop\<rparr>), values))
      else if IsConst e then ret [const_series (ec_env C) e start stop]
      else if args e = [] then throw (EvalError (ParserCause ErrMissingArgument) (Some 400) [])
      else (case ec_Functions C (target e) of
              None \<Rightarrow> throw (EvalError (UnknownFunction (target e)) (Some 400) [])
            | Some f \<Rightarrow> (\<lambda>values.
                case f ev e start stop values of
                  None \<Rightarrow> Panic
                | Some (Inl err, values') \<Rightarrow> Some (Inl (in_function (target e) err), values')
                | Some (Inr v, values') \<Rightarrow> Some (Inr v, values'))))"

definition RewriteExpr :: "eval_conf \<Rightarrow> evaluator \<Rightarrow> expr \<Rightarrow> int \<Rightarrow> int \<Rightarrow> (bool \<times> string list) ev" where
  "RewriteExpr C ev e start stop =
     (if IsFunc e
      then (case ec_RewriteFunctions C (target e) of Some f \<Rightarrow> f ev e start stop | None \<Rightarrow> ret (False, []))
      else ret (False, []))"

definition parse_target :: "eval_conf \<Rightarrow> string \<Rightarrow> expr ev" where
  "parse_target C t =
     (case ParseExpr (ec_env C) (ec_templates C) (ec_depth C) t of
        None \<Rightarrow> of_go None
      | Some (Inl (ErrParse pe)) \<Rightarrow> throw (plain_error (ParserCause pe))
      | Some (Inl _) \<Rightarrow> throw (plain_error (OtherCause ''template''))
      | Some (Inr (ex, _)) \<Rightarrow> ret ex)"

fun eval_targets :: "eval_conf \<Rightarrow> evaluator \<Rightarrow> int \<Rightarrow> int \<Rightarrow> string list \<Rightarrow> MetricData list ev" where
  "eval_targets C ev start stop [] = ret []"
| "eval_targets C ev start stop (t # ts) =
     ev_bind (parse_target C t) (\<lambda>ex.
     ev_bind (ev_Fetch ev [ex] start stop) (\<lambda>targetValues.
     ev_bind (ev_on targetValues (ev_Eval ev ex start stop)) (\<lambda>result.
     ev_bind (eval_targets C ev start stop ts) (\<lambda>results. ret (result @ results)))))"

primrec Eval :: "eval_conf \<Rightarrow> nat \<Rightarrow> expr \<Rightarrow> int \<Rightarrow> int \<Rightarrow> MetricData list ev" where
  "Eval C 0 e start stop = (\<lambda>values. None)"
| "Eval C (Suc n) e start stop =
     ev_bind (RewriteExpr C \<lparr>ev_Fetch = Fetch_expr C, ev_Eval = Eval C n\<rparr> e start stop) (\<lambda>(rewritten, targets).
       if rewritten then eval_targets C \<lparr>ev_Fetch = Fetch_expr C, ev_Eval = Eval C n\<rparr> start stop targets
       else EvalExpr C \<lparr>ev_Fetch = Fetch_expr C, ev_Eval = Eval C n\<rparr> e start stop)"

definition evaluator_at :: "eval_conf \<Rightarrow> nat \<Rightarrow> evaluator" where
  "evaluator_at C n = \<lparr>ev_Fetch = Fetch_expr C, ev_Eval = Eval C n\<rparr>"

section \<open>What is fetched\<close>

definition request_key :: "fetch_request \<Rightarrow> MetricRequest" where
  "request_key r = \<lparr>Metric = fr_Name r, ConsolidationFunc = [], From = fr_StartTime r, Until = fr_StopTime r\<rparr>"

definition needed_keys :: "eval_conf \<Rightarrow> expr list \<Rightarrow> int \<Rightarrow> int \<Rightarrow> MetricRequest set" where
  "needed_keys C exprs start stop = plain_request ` set (map snd (needed C exprs start stop))"

lemma request_key_make: "request_key (make_request C m) = plain_request m"
  by (cases m) (simp add: request_key_def make_request_def plain_request_def)

text \<open>The invariant of the loop, where \<open>K\<close> are the keys of the requests seen so far.\<close>

definition plan_inv :: "series_map \<Rightarrow> MetricRequest set \<Rightarrow> fetch_state \<Rightarrow> bool" where
  "plan_inv values K st \<longleftrightarrow>
     distinct (fs_target st) \<and> set (fs_target st) = K
     \<and> distinct (map request_key (fs_multi st))
     \<and> request_key ` set (fs_multi st) = {k\<in>K. map_of values k = None}
     \<and> (\<forall>n c. map_of (fs_cache st) n = Some c \<longrightarrow> Metric c = n \<and> ConsolidationFunc c = [] \<and> c \<in> K)
     \<and> (\<forall>r\<in>set (fs_multi st). map_of (fs_cache st) (fr_Name r) \<noteq> None)"

lemma plan_inv_fallback [simp]: "plan_inv values K (st\<lparr>fs_fallback := b\<rparr>) = plan_inv values K st"
  by (simp add: plan_inv_def)

lemma fetch_one_inv:
  assumes inv: "plan_inv values K st0" and one: "fetch_one C values ex m st0 = Inr st'"
  shows "plan_inv values (insert (plain_request m) K) st'"
proof -
  define r where "r = plain_request m"
  define st where "st = (if target ex = ''fallbackSeries'' then st0\<lparr>fs_fallback := True\<rparr> else st0)"
  have I: "plan_inv values K st" using inv by (simp add: st_def)
  have rm: "Metric r = Metric m" "ConsolidationFunc r = []" by (simp_all add: r_def plain_request_def)
  let ?hit = "case map_of (fs_cache st) (Metric m) of None \<Rightarrow> False | Some c \<Rightarrow> From c = From r \<and> Until c = Until r"
  let ?new = "st\<lparr>fs_cache := AList.update (Metric m) r (fs_cache st), fs_target := add_key r (fs_target st),
      fs_multi := fs_multi st @ [make_request C m]\<rparr>"
  have st': "st' = (if ?hit then st
      else if map_of values r \<noteq> None then st\<lparr>fs_target := add_key r (fs_target st)\<rparr>
      else if r \<in> set (fs_target st) then st else ?new)"
    using one unfolding fetch_one_def Let_def st_def[symmetric] r_def[symmetric] by (simp split: if_splits)
  consider (hit) "?hit" | (known) "\<not> ?hit" "map_of values r \<noteq> None"
    | (seen) "\<not> ?hit" "map_of values r = None" "r \<in> set (fs_target st)"
    | (new) "\<not> ?hit" "map_of values r = None" "r \<notin> set (fs_target st)" by blast
  then have "plan_inv values (insert r K) st'"
  proof cases
    case hit
    then obtain c where c: "map_of (fs_cache st) (Metric m) = Some c" "From c = From r" "Until c = Until r"
      by (auto split: option.splits)
    then have "Metric c = Metric m" "ConsolidationFunc c = []" "c \<in> K" using I by (auto simp: plan_inv_def)
    then have "c = r" using c rm by simp
    then have "insert r K = K" using \<open>c \<in> K\<close> by blast
    then show ?thesis using I hit st' by simp
  next
    case known
    then have e: "st' = st\<lparr>fs_target := add_key r (fs_target st)\<rparr>" using st' by simp
    have "{k \<in> insert r K. map_of values k = None} = {k \<in> K. map_of values k = None}" using known(2) by auto
    then show ?thesis using I unfolding e by (auto simp: plan_inv_def add_key_def)
  next
    case seen
    then have "st' = st" using st' by simp
    moreover have "insert r K = K" using seen(3) I by (auto simp: plan_inv_def)
    ultimately show ?thesis using I by simp
  next
    case new
    then have e: "st' = ?new" using st' by simp
    have k: "request_key (make_request C m) = r" by (simp add: request_key_make r_def)
    have rK: "r \<notin> K" using new(3) I by (simp add: plan_inv_def)
    then have "r \<notin> request_key ` set (fs_multi st)" using I by (auto simp: plan_inv_def)
    moreover have "{x \<in> insert r K. map_of values x = None} = insert r {x \<in> K. map_of values x = None}"
      using new(2) by auto
    ultimately show ?thesis
      using I rK rm k unfolding e plan_inv_def
      by (auto simp: add_key_def update_conv make_request_def)
  qed
  then show ?thesis by (simp add: r_def)
qed

lemma fetch_plan_loop_inv:
  "plan_inv values K st \<Longrightarrow> fetch_plan_loop C values ps st = Inr st' \<Longrightarrow>
     plan_inv values (K \<union> plain_request ` snd ` set ps) st'"
proof (induction ps arbitrary: K st)
  case (Cons p ps)
  obtain ex m where p: "p = (ex, m)" by (cases p)
  with Cons.prems obtain st1 where st1: "fetch_one C values ex m st = Inr st1" "fetch_plan_loop C values ps st1 = Inr st'"
    by (auto split: sum.splits)
  from Cons.IH[OF fetch_one_inv[OF Cons.prems(1) st1(1)] st1(2)]
  show ?case by (simp add: p)
qed simp

lemma fetch_plan_inv:
  "fetch_plan C values exprs start stop = Inr st \<Longrightarrow> plan_inv values (needed_keys C exprs start stop) st"
  using fetch_plan_loop_inv[of "values" "{}" "\<lparr>fs_multi = [], fs_cache = [], fs_target = [], fs_fallback = False\<rparr>" C "needed C exprs start stop" st]
  by (simp add: fetch_plan_def plan_inv_def needed_keys_def image_image)

text \<open>
  C22: \<open>Fetch\<close> sends each request once and only what is missing: the requests it makes are exactly
  those the expressions need at their times and that the map does not have yet, none of them
  twice, and the result has an entry for everything the expressions need.
\<close>

theorem Fetch_requests_once:
  assumes "fetch_plan C values exprs start stop = Inr st"
  shows "distinct (map request_key (fs_multi st))
    \<and> request_key ` set (fs_multi st) = {k\<in>needed_keys C exprs start stop. map_of values k = None}
    \<and> distinct (fs_target st) \<and> set (fs_target st) = needed_keys C exprs start stop"
  using fetch_plan_inv[OF assms] by (simp add: plan_inv_def)

lemma fetch_plan_ok: "\<not> ec_passFunctionsToBackend C \<Longrightarrow> \<exists>st. fetch_plan C values exprs start stop = Inr st"
proof -
  assume c: "\<not> ec_passFunctionsToBackend C"
  have "\<exists>st'. fetch_plan_loop C values ps st = Inr st'" for ps st
  proof (induction ps arbitrary: st)
    case (Cons p ps)
    obtain ex m where p: "p = (ex, m)" by (cases p)
    obtain st1 where "fetch_one C values ex m st = Inr st1" using c by (simp add: fetch_one_def Let_def)
    then show ?case using Cons by (simp add: p)
  qed simp
  then show ?thesis by (simp add: fetch_plan_def)
qed

text \<open>A configuration for the examples: no limiter, no functions, a zipper that is given.\<close>

definition example_conf :: "go_env \<Rightarrow> quickselect \<Rightarrow> (fetch_request list \<Rightarrow> MetricData list \<times> merry_error option) \<Rightarrow> eval_conf" where
  "example_conf E qs zipper =
     \<lparr>ec_env = E, ec_quickselect = qs, ec_templates = (\<lambda>_. None), ec_depth = 9, ec_Enter = None, ec_Render = zipper,
      ec_ScaleToCommonStep = False, ec_passFunctionsToBackend = False, ec_maxDataPoints = 0,
      ec_Functions = (\<lambda>_. None), ec_RewriteFunctions = (\<lambda>_. None)\<rparr>"

lemma example_conf_pass: "\<not> ec_passFunctionsToBackend (example_conf E qs zipper)"
  by (simp add: example_conf_def)

theorem Fetch_requests_once_witness:
  "\<forall>E qs zipper. \<exists>st. fetch_plan (example_conf E qs zipper) [] [NewNameExpr ''a'', NewNameExpr ''a''] 0 60 = Inr st
     \<and> set (fs_target st) = {\<lparr>Metric = ''a'', ConsolidationFunc = [], From = 0, Until = 60\<rparr>}"
proof (intro allI)
  fix E qs zipper
  let ?C = "example_conf E qs zipper" and ?k = "\<lparr>Metric = ''a'', ConsolidationFunc = [], From = 0, Until = 60\<rparr>"
  have n: "needed ?C [NewNameExpr ''a'', NewNameExpr ''a''] 0 60 = [(NewNameExpr ''a'', ?k), (NewNameExpr ''a'', ?k)]"
    by (simp add: needed_def Metrics.simps NewNameExpr_def)
  obtain st where st: "fetch_plan ?C [] [NewNameExpr ''a'', NewNameExpr ''a''] 0 60 = Inr st"
    using fetch_plan_ok[of ?C] by (meson example_conf_pass)
  have "needed_keys ?C [NewNameExpr ''a'', NewNameExpr ''a''] 0 60 = {?k}"
    unfolding needed_keys_def n by (simp add: plain_request_def)
  then show "\<exists>st. fetch_plan ?C [] [NewNameExpr ''a'', NewNameExpr ''a''] 0 60 = Inr st \<and> set (fs_target st) = {?k}"
    using st Fetch_requests_once[OF st] by auto
qed

text \<open>The series a zipper returns for a request carry its path and its times.\<close>

definition metric_key :: "MetricData \<Rightarrow> MetricRequest" where
  "metric_key x = \<lparr>Metric = PathExpression x, ConsolidationFunc = [], From = RequestStartTime x, Until = RequestStopTime x\<rparr>"

definition answers :: "fetch_request list \<Rightarrow> MetricData list \<Rightarrow> bool" where
  "answers rs metrics \<longleftrightarrow>
     (\<forall>x\<in>set metrics. metric_key x \<in> request_key ` set rs \<and> RequestStartTime x \<noteq> 0 \<and> RequestStopTime x \<noteq> 0)"

lemma series_of_update: "series_of (AList.update k v m) k' = (if k = k' then v else series_of m k')"
  by (simp add: series_of_def update_conv')

lemma store_metrics:
  "series_of (foldl (store_metric cache) values metrics) k =
     series_of values k @ filter (\<lambda>x. answer_key cache x = k) metrics"
  by (induction metrics arbitrary: "values") (simp_all add: store_metric_def Let_def series_of_update)

lemma answer_key_honest:
  assumes "plan_inv values K st" "answers (fs_multi st) metrics" "x \<in> set metrics"
  shows "answer_key (fs_cache st) x = metric_key x"
proof -
  obtain r where r: "r \<in> set (fs_multi st)" "metric_key x = request_key r"
    using assms(2,3) by (auto simp: answers_def)
  then have "fr_Name r = PathExpression x" by (simp add: metric_key_def request_key_def)
  then obtain c where "map_of (fs_cache st) (PathExpression x) = Some c" "Metric c = PathExpression x" "ConsolidationFunc c = []"
    using assms(1) r(1) by (auto simp: plan_inv_def)
  then show ?thesis using assms(2,3) by (simp add: answer_key_def answers_def metric_key_def)
qed


definition example_zipper :: "fetch_request list \<Rightarrow> MetricData list \<times> merry_error option" where
  "example_zipper rs =
     (concat (map (\<lambda>r. if fr_StartTime r \<noteq> 0 \<and> fr_StopTime r \<noteq> 0
         then [(makeMetricDataWithTags (fr_Name r) [FNum 1] 60 (fr_StartTime r) [])
            \<lparr>PathExpression := fr_Name r, RequestStartTime := fr_StartTime r, RequestStopTime := fr_StopTime r\<rparr>] else []) rs), None)"

lemma example_zipper_answers: "answers rs (fst (example_zipper rs)) \<and> snd (example_zipper rs) = None"
  by (auto simp: example_zipper_def answers_def metric_key_def request_key_def split: if_splits)


section \<open>Evaluation ends\<close>

text \<open>
  A function is local when it uses the evaluator only to fetch and to evaluate its own
  arguments, and total when it does not panic as long as these do not.
\<close>

definition sub_exprs :: "expr \<Rightarrow> expr set" where
  "sub_exprs e = set (args e) \<union> snd ` set (namedArgs e)"

definition local_function :: "go_function \<Rightarrow> bool" where
  "local_function f \<longleftrightarrow>
     (\<forall>(ev :: evaluator) ev' e. ev_Fetch ev = ev_Fetch ev' \<and> (\<forall>a\<in>sub_exprs e. ev_Eval ev a = ev_Eval ev' a) \<longrightarrow> f ev e = f ev' e)"

definition total_function :: "go_function \<Rightarrow> bool" where
  "total_function f \<longleftrightarrow>
     (\<forall>ev e start stop values.
        (\<forall>es t u s. ev_Fetch ev es t u s \<noteq> None) \<and> (\<forall>a\<in>sub_exprs e. \<forall>t u s. ev_Eval ev a t u s \<noteq> None)
        \<longrightarrow> f ev e start stop values \<noteq> None)"

lemma sub_exprs_size: "a \<in> sub_exprs e \<Longrightarrow> size a < size e"
  using args_size named_size_mem by (auto simp: sub_exprs_def)

lemma EvalExpr_cong:
  fixes ev ev' :: evaluator
  assumes "\<And>name f. ec_Functions C name = Some f \<Longrightarrow> local_function f"
    and "ev_Fetch ev = ev_Fetch ev'" "\<forall>a\<in>sub_exprs e. ev_Eval ev a = ev_Eval ev' a"
  shows "EvalExpr C ev e = EvalExpr C ev' e"
proof (intro ext)
  fix start stop "values"
  show "EvalExpr C ev e start stop values = EvalExpr C ev' e start stop values"
  proof (cases "ec_Functions C (target e)")
    case (Some f)
    then have "f ev e = f ev' e" using assms(1)[OF Some] assms(2,3) unfolding local_function_def by blast
    then show ?thesis unfolding EvalExpr_def Some by simp
  qed (simp add: EvalExpr_def)
qed

lemma Eval_no_rewrite:
  assumes "\<And>name. ec_RewriteFunctions C name = None"
  shows "Eval C (Suc n) e start stop = EvalExpr C (evaluator_at C n) e start stop"
  using assms by (simp add: RewriteExpr_def evaluator_at_def)

lemma Eval_fuel:
  assumes "\<And>name f. ec_Functions C name = Some f \<Longrightarrow> local_function f"
    and "\<And>name. ec_RewriteFunctions C name = None"
  shows "size e < n \<Longrightarrow> size e < m \<Longrightarrow> Eval C n e = Eval C m e"
proof (induction "size e" arbitrary: e n m rule: less_induct)
  case less
  obtain n' m' where nm: "n = Suc n'" "m = Suc m'" using less.prems by (cases n; cases m) auto
  have "Eval C n' a = Eval C m' a" if "a \<in> sub_exprs e" for a
  proof -
    have a: "size a < size e" using that by (rule sub_exprs_size)
    then have "size a < n'" "size a < m'" using less.prems nm by simp_all
    then show ?thesis by (rule less.hyps[OF a])
  qed
  then have "EvalExpr C (evaluator_at C n') e = EvalExpr C (evaluator_at C m') e"
    by (intro EvalExpr_cong assms(1)) (simp_all add: evaluator_at_def)
  then show ?case unfolding nm by (intro ext) (simp only: Eval_no_rewrite[OF assms(2)])
qed

lemma EvalExpr_returns:
  assumes "\<And>f. ec_Functions C (target e) = Some f \<Longrightarrow> f ev e start stop values \<noteq> None"
  shows "EvalExpr C ev e start stop values \<noteq> None"
proof (cases "ec_Functions C (target e)")
  case None
  then show ?thesis by (simp add: EvalExpr_def ret_def throw_def)
next
  case (Some f)
  then have "f ev e start stop values \<noteq> None" by (rule assms)
  then obtain r values' where r: "f ev e start stop values = Some (r, values')" by (cases "f ev e start stop values") auto
  show ?thesis unfolding EvalExpr_def Some using r by (cases r) (simp_all add: ret_def throw_def)
qed

lemma Fetch_expr_returns: "\<not> ec_ScaleToCommonStep C \<Longrightarrow> Fetch_expr C exprs start stop values \<noteq> None"
  by (simp add: Fetch_expr_def Let_def split: option.split sum.split prod.split)


text \<open>A function of one series argument that returns it, for the example.\<close>

definition identity_Do :: go_function where
  "identity_Do ev e start stop = (\<lambda>values. if args e = [] then Some (Inr [], values) else ev_Eval ev (args e ! 0) start stop values)"

lemma identity_local: "local_function identity_Do" "total_function identity_Do"
proof -
  have mem: "args e ! 0 \<in> sub_exprs e" if "args e \<noteq> []" for e
    using that nth_mem[of 0 "args e"] by (simp add: sub_exprs_def)
  show "local_function identity_Do"
    unfolding local_function_def identity_Do_def using mem by (intro allI impI ext) simp
  show "total_function identity_Do"
    unfolding total_function_def identity_Do_def using mem by (intro allI impI) simp
qed


section \<open>The modelled functions are local\<close>

lemma GetSeriesArg_cong:
  fixes ev ev' :: evaluator
  shows "ev_Eval ev a = ev_Eval ev' a \<Longrightarrow> GetSeriesArg ev a = GetSeriesArg ev' a"
  by (intro ext) (simp add: GetSeriesArg_def)

lemma Arg_bind: "ev_bind (Arg e n) f s = (if n < length (args e) then f (args e ! n) s else Panic)"
  by (simp add: Arg_def go_index_def of_go_def ev_bind_def)

lemma Arg_bind_cong:
  assumes "\<And>a. a \<in> set (args e) \<Longrightarrow> f a = g a"
  shows "ev_bind (Arg e n) f s = ev_bind (Arg e n) g s"
proof (cases "n < length (args e)")
  case True
  then have "f (args e ! n) = g (args e ! n)" by (intro assms nth_mem)
  then show ?thesis by (simp add: Arg_bind)
qed (simp add: Arg_bind)

lemma local_highest: "local_function (highest_Do qs)"
  unfolding local_function_def
proof (intro allI impI)
  fix ev ev' :: evaluator and e assume a: "ev_Fetch ev = ev_Fetch ev' \<and> (\<forall>a\<in>sub_exprs e. ev_Eval ev a = ev_Eval ev' a)"
  have "GetSeriesArg ev x = GetSeriesArg ev' x" if "x \<in> set (args e)" for x
    using a that by (intro GetSeriesArg_cong) (simp add: sub_exprs_def)
  then show "highest_Do qs ev e = highest_Do qs ev' e"
    unfolding highest_Do_def by (intro ext Arg_bind_cong) simp
qed

lemma local_summarize: "local_function (summarize_Do E qs)"
  unfolding local_function_def
proof (intro allI impI)
  fix ev ev' :: evaluator and e assume a: "ev_Fetch ev = ev_Fetch ev' \<and> (\<forall>a\<in>sub_exprs e. ev_Eval ev a = ev_Eval ev' a)"
  have "GetSeriesArg ev x = GetSeriesArg ev' x" if "x \<in> set (args e)" for x
    using a that by (intro GetSeriesArg_cong) (simp add: sub_exprs_def)
  then show "summarize_Do E qs ev e = summarize_Do E qs ev' e"
    unfolding summarize_Do_def by (intro ext Arg_bind_cong) simp
qed

lemma local_moving: "local_function (moving_Do E qs cfg)"
  unfolding local_function_def
proof (intro allI impI)
  fix ev ev' :: evaluator and e assume a: "ev_Fetch ev = ev_Fetch ev' \<and> (\<forall>a\<in>sub_exprs e. ev_Eval ev a = ev_Eval ev' a)"
  show "moving_Do E qs cfg ev e = moving_Do E qs cfg ev' e"
  proof (cases "length (args e) < 2")
    case True
    then show ?thesis by (intro ext) (simp add: moving_Do_def)
  next
    case False
    then have "0 < length (args e)" by linarith
    then have "args e ! 0 \<in> sub_exprs e" unfolding sub_exprs_def using nth_mem by blast
    then have "GetSeriesArg ev (args e ! 0) = GetSeriesArg ev' (args e ! 0)"
      using a by (intro GetSeriesArg_cong) blast
    moreover have "ev_Fetch ev = ev_Fetch ev'" using a by blast
    ultimately show ?thesis by (intro ext) (simp only: moving_Do_def)
  qed
qed

lemma local_smartSummarize: "local_function (smartSummarize_Do E qs)"
  unfolding local_function_def
proof (intro allI impI)
  fix ev ev' :: evaluator and e assume a: "ev_Fetch ev = ev_Fetch ev' \<and> (\<forall>a\<in>sub_exprs e. ev_Eval ev a = ev_Eval ev' a)"
  show "smartSummarize_Do E qs ev e = smartSummarize_Do E qs ev' e"
  proof (cases "length (args e) < 2")
    case True
    then show ?thesis by (intro ext) (simp add: smartSummarize_Do_def)
  next
    case False
    then have "0 < length (args e)" by linarith
    then have "args e ! 0 \<in> sub_exprs e" unfolding sub_exprs_def using nth_mem by blast
    then have "GetSeriesArg ev (args e ! 0) = GetSeriesArg ev' (args e ! 0)"
      using a by (intro GetSeriesArg_cong) blast
    then show ?thesis by (intro ext) (simp only: smartSummarize_Do_def)
  qed
qed

section \<open>A moving function over an interval\<close>

text \<open>\<open>f(name,'interval')\<close> with one of the moving functions.\<close>

definition interval_call :: "string \<Rightarrow> string \<Rightarrow> string \<Rightarrow> expr" where
  "interval_call f n iv = Expr f EtFunc (FNum 0) [] [NewNameExpr n, NewValueExpr iv] [] (n @ '','' @ iv)"

lemma Eval_name:
  "Eval C (Suc n) (NewNameExpr name) start stop values =
     Some (Inr (series_of values \<lparr>Metric = name, ConsolidationFunc = [], From = start, Until = stop\<rparr>), values)"
  by (simp add: RewriteExpr_def EvalExpr_def NewNameExpr_def IsName_def IsFunc_def ret_def ev_bind_def)

lemma Metrics_leaf:
  "Metrics E (NewNameExpr n) start stop = [\<lparr>Metric = n, ConsolidationFunc = [], From = start, Until = stop\<rparr>]"
  "Metrics E (NewValueExpr w) start stop = []"
  by (subst Metrics.simps, simp add: NewNameExpr_def NewValueExpr_def)+

lemma function_requests_moving:
  assumes "target e \<in> set moving_functions" "2 \<le> length (args e)" "etype (args e ! 1) = EtString"
    "GetIntervalArg E e 1 1 = Inr offs"
  shows "function_requests E e ref r = map (shift_from (- offs)) r"
proof -
  have "target e \<notin> set [''transformNull'', ''consolidateBy'', ''timeShift'', ''timeStack'', ''holtWintersForecast'',
      ''holtWintersConfidenceBands'', ''holtWintersConfidenceArea'', ''holtWintersAberration'']"
    using assms(1) unfolding moving_functions_def by fastforce
  then show ?thesis using assms unfolding function_requests_def by (simp add: Let_def)
qed

text \<open>
  a moving function over an interval reads the series that starts the absolute length of the
  interval before the window, while \<open>Metrics\<close> asks for the one shifted by the signed length: the
  series it reads was fetched for the call exactly when the interval is not negative.
\<close>

lemma moving_interval_fetched:
  assumes "f \<in> set moving_functions" "IntervalString E iv 1 = Inr offs"
  shows "moving_Do E qs cfg (evaluator_at C (Suc n)) (interval_call f name iv) start stop values =
           moving_finish E qs cfg (interval_call f name iv) ([CHR 0x27] @ iv @ [CHR 0x27]) \<bar>offs\<bar> 0
             (series_of values \<lparr>Metric = name, ConsolidationFunc = [], From = start - \<bar>offs\<bar>, Until = stop\<rparr>) values
    \<and> (\<lparr>Metric = name, ConsolidationFunc = [], From = start - \<bar>offs\<bar>, Until = stop\<rparr>
          \<in> set (Metrics E (interval_call f name iv) start stop) \<longleftrightarrow> 0 \<le> offs)"
proof
  have i: "GetIntervalArg E (interval_call f name iv) 1 1 = Inr offs"
    using assms(2) by (simp add: GetIntervalArg_def req_arg_def interval_call_def NewValueExpr_def)
  have a: "args (interval_call f name iv) = [NewNameExpr name, NewValueExpr iv]"
    "etype (interval_call f name iv) = EtFunc" "target (interval_call f name iv) = f"
    "namedArgs (interval_call f name iv) = []"
    by (simp_all add: interval_call_def)
  show "moving_Do E qs cfg (evaluator_at C (Suc n)) (interval_call f name iv) start stop values =
           moving_finish E qs cfg (interval_call f name iv) ([CHR 0x27] @ iv @ [CHR 0x27]) \<bar>offs\<bar> 0
             (series_of values \<lparr>Metric = name, ConsolidationFunc = [], From = start - \<bar>offs\<bar>, Until = stop\<rparr>) values"
    unfolding moving_Do_def a i
    by (simp add: NewValueExpr_def of_parser_def ev_bind_def ret_def GetSeriesArg_def evaluator_at_def
        Eval_name[unfolded NewNameExpr_def] NewNameExpr_def IsName_def del: Eval.simps)
  have "Metrics E (interval_call f name iv) start stop =
      function_requests E (interval_call f name iv) [] [\<lparr>Metric = name, ConsolidationFunc = [], From = start, Until = stop\<rparr>]"
    by (subst Metrics.simps) (simp add: a Metrics_leaf getNamedArg_def)
  also have "\<dots> = [\<lparr>Metric = name, ConsolidationFunc = [], From = start - offs, Until = stop\<rparr>]"
    using assms(1) i a by (simp add: function_requests_moving NewValueExpr_def shift_from_def)
  finally have "Metrics E (interval_call f name iv) start stop =
      [\<lparr>Metric = name, ConsolidationFunc = [], From = start - offs, Until = stop\<rparr>]" .
  then show "(\<lparr>Metric = name, ConsolidationFunc = [], From = start - \<bar>offs\<bar>, Until = stop\<rparr>
          \<in> set (Metrics E (interval_call f name iv) start stop)) = (0 \<le> offs)" by auto
qed

lemma hour_before: "IntervalString E ''-1h'' 1 = Inr (- 3600)"
  by code_simp

lemma moving_interval_fetched_witness:
  "\<forall>E. \<lparr>Metric = ''a'', ConsolidationFunc = [], From = 120, Until = 7200\<rparr>
     \<notin> set (Metrics E (interval_call ''movingMin'' ''a'' ''-1h'') 3720 7200)"
proof
  fix E
  have "''movingMin'' \<in> set moving_functions" by (simp add: moving_functions_def)
  from moving_interval_fetched[OF this hour_before, of E _ _ _ 0 "''a''" 3720 7200 "[]"]
  show "\<lparr>Metric = ''a'', ConsolidationFunc = [], From = 120, Until = 7200\<rparr>
     \<notin> set (Metrics E (interval_call ''movingMin'' ''a'' ''-1h'') 3720 7200)" by simp
qed

end
