(* ===== verification/Dates.thy ===== *)
theory Dates
  imports Calendar Interval
begin

text \<open>
  \<open>date/date.go\<close>: the \<open>from\<close> and \<open>until\<close> of a request as Unix times, in the at-time grammar of
  graphite-web. A time zone is what \<open>time.Location\<close> is to the program: for a Unix time the offset
  in force, and the interval of Unix times it is in force for. The clock is the argument \<open>now\<close>.
\<close>

section \<open>Civil dates\<close>

text \<open>A value or its default.\<close>

definition the_default :: "'a \<Rightarrow> 'a option \<Rightarrow> 'a" where
  "the_default d x = (case x of Some y \<Rightarrow> y | None \<Rightarrow> d)"

text \<open>The month and the day of a day of the year, both counted from one.\<close>

fun month_day :: "int list \<Rightarrow> int \<Rightarrow> int \<Rightarrow> int \<times> int" where
  "month_day [] m n = (m, n + 1)"
| "month_day (l # ls) m n = (if n < l then (m, n + 1) else month_day ls (m + 1) (n - l))"

definition civil_of_day :: "int \<Rightarrow> int \<times> int \<times> int" where
  "civil_of_day d = (year_of_day d, month_day (month_lengths (year_of_day d)) 1 (d - start_of_year d))"

definition day_of_civil :: "int \<Rightarrow> int \<Rightarrow> int \<Rightarrow> int" where
  "day_of_civil y m d = days_before_year y + sum_list (take (nat (m - 1)) (month_lengths y)) + (d - 1)"

definition days_in :: "int \<Rightarrow> int \<Rightarrow> int" where
  "days_in y m = month_lengths y ! nat (m - 1)"

section \<open>Time zones\<close>

record zone_span =
  z_offset :: int
  z_start :: int
  z_end :: int

type_synonym location = "int \<Rightarrow> zone_span"

text \<open>\<open>t.In(tz).Date()\<close>, as a day number.\<close>

definition local_day :: "location \<Rightarrow> int \<Rightarrow> int" where
  "local_day tz t = (t + z_offset (tz t)) div 86400"

text \<open>
  \<open>time.Date\<close> of a local time, given in seconds since 1970 as if it were UTC: taken as a Unix time
  it gives a first offset; if the time that leads to is not in the span of this offset, the
  offset in force then is used.
\<close>

definition time_Date :: "location \<Rightarrow> int \<Rightarrow> int" where
  "time_Date tz unix =
     (let z = tz unix; utc = unix - z_offset z
      in if z_offset z = 0 then unix
         else if utc < z_start z \<or> z_end z \<le> utc then unix - z_offset (tz utc)
         else utc)"

section \<open>Parsing of dates\<close>

text \<open>\<open>time.ParseInLocation\<close> for the layouts of \<open>TimeFormats\<close>: the pieces it reads.\<close>

definition time_atoi :: "string \<Rightarrow> int option" where
  "time_atoi s =
     (case strip_sign s of (neg, ds) \<Rightarrow>
        if ds = [] then Some 0 else map_option (\<lambda>n. if neg then - n else n) (dec_val 0 ds))"

definition getnum :: "bool \<Rightarrow> string \<Rightarrow> (int \<times> string) option" where
  "getnum fixed s =
     (case s of
        [] \<Rightarrow> None
      | a # s1 \<Rightarrow>
          if \<not> is_digit a then None
          else (case s1 of
                  b # s2 \<Rightarrow> if is_digit b then Some (10 * digit_val a + digit_val b, s2)
                            else if fixed then None else Some (digit_val a, s1)
                | [] \<Rightarrow> if fixed then None else Some (digit_val a, s1)))"

definition long_year :: "string \<Rightarrow> (int \<times> string) option" where
  "long_year s =
     (if length s < 4 \<or> \<not> is_digit (hd s) then None
      else map_option (\<lambda>y. (y, drop 4 s)) (time_atoi (take 4 s)))"

definition short_year :: "string \<Rightarrow> (int \<times> string) option" where
  "short_year s =
     (if length s < 2 then None
      else map_option (\<lambda>y. (if y \<ge> 69 then y + 1900 else y + 2000, drop 2 s)) (time_atoi (take 2 s)))"

definition get_month :: "string \<Rightarrow> (int \<times> string) option" where
  "get_month s = (case getnum True s of
       Some (m, r) \<Rightarrow> if m \<le> 0 \<or> 12 < m then None else Some (m, r) | None \<Rightarrow> None)"

definition skip_slash :: "string \<Rightarrow> string option" where
  "skip_slash s = (case s of c # r \<Rightarrow> if c = CHR ''/'' then Some r else None | [] \<Rightarrow> None)"

text \<open>The checks once a layout is read: no text is left, and the month has such a day.\<close>

definition finish_date :: "int \<Rightarrow> int \<Rightarrow> int \<Rightarrow> string \<Rightarrow> int option" where
  "finish_date y m d rest =
     (if rest \<noteq> [] \<or> d < 1 \<or> days_in y m < d then None else Some (day_of_civil y m d))"

definition parse_ymd :: "string \<Rightarrow> int option" where
  "parse_ymd s =
     Option.bind (long_year s) (\<lambda>(y, s1).
     Option.bind (get_month s1) (\<lambda>(m, s2).
     Option.bind (getnum True s2) (\<lambda>(d, s3). finish_date y m d s3)))"

definition parse_mdy :: "(string \<Rightarrow> (int \<times> string) option) \<Rightarrow> string \<Rightarrow> int option" where
  "parse_mdy year s =
     Option.bind (get_month s) (\<lambda>(m, s1).
     Option.bind (skip_slash s1) (\<lambda>s2.
     Option.bind (getnum True s2) (\<lambda>(d, s3).
     Option.bind (skip_slash s3) (\<lambda>s4.
     Option.bind (year s4) (\<lambda>(y, s5). finish_date y m d s5)))))"

text \<open>The first layout of \<open>TimeFormats\<close> that reads the text, as a day.\<close>

definition parse_day :: "string \<Rightarrow> int option" where
  "parse_day s =
     (case parse_ymd s of
        Some d \<Rightarrow> Some d
      | None \<Rightarrow> (case parse_mdy short_year s of Some d \<Rightarrow> Some d | None \<Rightarrow> parse_mdy long_year s))"

section \<open>The code\<close>

definition parseTime :: "string \<Rightarrow> (int \<times> int) option" where
  "parseTime s =
     (if s = ''midnight'' then Some (0, 0)
      else if s = ''noon'' then Some (12, 0)
      else if s = ''teatime'' then Some (16, 0)
      else (case Split1 s (CHR '':'') of
              [h, m] \<Rightarrow> (case (Atoi h, Atoi m) of (Inr hour, Inr minute) \<Rightarrow> Some (hour, minute) | _ \<Rightarrow> None)
            | _ \<Rightarrow> None))"

text \<open>\<open>strings.Fields\<close>: the maximal runs without white space.\<close>

fun fields_loop :: "string \<Rightarrow> string \<Rightarrow> string list" where
  "fields_loop w [] = (if w = [] then [] else [w])"
| "fields_loop w (c # cs) =
     (if is_space (byte c) then (if w = [] then fields_loop [] cs else w # fields_loop [] cs)
      else fields_loop (w @ [c]) cs)"

record date_env =
  de_go :: go_env
  de_Fields :: "string \<Rightarrow> string list"
  de_LoadLocation :: "string \<Rightarrow> location option"
  de_now :: int

text \<open>Strings with bytes from 128 on are split at Unicode white space, by the parameter.\<close>

definition Fields :: "date_env \<Rightarrow> string \<Rightarrow> string list" where
  "Fields D s = (if list_all is_ascii s then fields_loop [] s else de_Fields D s)"

fun replace_first :: "char \<Rightarrow> char \<Rightarrow> string \<Rightarrow> string" where
  "replace_first a b [] = []"
| "replace_first a b (c # cs) = (if c = a then b # cs else c # replace_first a b cs)"

text \<open>
  The day a date names: today, a neighbour of it at the same time of the day, or a date written
  in one of the layouts; in each case the day the time found lies in.
\<close>

definition named_day :: "date_env \<Rightarrow> location \<Rightarrow> string \<Rightarrow> int option" where
  "named_day D tz ds =
     (let lt = de_now D + z_offset (tz (de_now D))
      in if ds = ''today'' then Some (local_day tz (de_now D))
         else if ds = ''yesterday'' then Some (local_day tz (time_Date tz (lt - 86400)))
         else if ds = ''tomorrow'' then Some (local_day tz (time_Date tz (lt + 86400)))
         else map_option (\<lambda>d. local_day tz (time_Date tz (86400 * d))) (parse_day ds))"

definition parseTimeReference :: "date_env \<Rightarrow> location \<Rightarrow> string \<Rightarrow> int option" where
  "parseTimeReference D tz s0 =
     (if s0 = ''now'' then Some (de_now D)
      else if s0 \<in> set [''midnight'', ''noon'', ''teatime'']
      then (let (hh, mm) = the_default (0, 0) (parseTime s0)
            in Some (time_Date tz (86400 * local_day tz (de_now D) + 3600 * hh + 60 * mm)))
      else (case (Atoi s0, length s0 = 8) of
              (Inr n, False) \<Rightarrow> Some n
            | _ \<Rightarrow>
                (let s = replace_first (CHR ''_'') (CHR '' '') s0; split = Fields D s
                 in if 2 < length split then None
                    else (let (ts, ds) = (case split of [a] \<Rightarrow> ([], s) | [a, b] \<Rightarrow> (a, b) | _ \<Rightarrow> ([], []))
                          in Option.bind (named_day D tz ds) (\<lambda>day.
                             let (hh, mm) = (if ts = [] then (0, 0) else the_default (0, 0) (parseTime ts))
                             in Some (time_Date tz (86400 * day + 3600 * hh + 60 * mm)))))))"

text \<open>The position of the first sign after the first character.\<close>

fun sign_at :: "nat \<Rightarrow> string \<Rightarrow> nat option" where
  "sign_at i [] = None"
| "sign_at i (c # cs) = (if 1 \<le> i \<and> (c = CHR ''+'' \<or> c = CHR ''-'') then Some i else sign_at (i + 1) cs)"

text \<open>Every error of the code is \<open>None\<close>: the only caller replaces it by a default.\<close>

definition ParseAtTime :: "date_env \<Rightarrow> string \<Rightarrow> string \<Rightarrow> location \<Rightarrow> int option" where
  "ParseAtTime D s0 qtz defaultTimeZone =
     (if s0 = [] then None
      else (let s = ToLower (de_go D) s0;
                tz = (if qtz = [] then defaultTimeZone else the_default defaultTimeZone (de_LoadLocation D qtz))
            in if hd s = CHR ''-'' \<or> hd s = CHR ''+''
               then (case IntervalString (de_go D) s (- 1) of
                       Inl _ \<Rightarrow> None | Inr offset \<Rightarrow> Some (de_now D + offset))
               else (case sign_at 0 s of
                       None \<Rightarrow> parseTimeReference D tz s
                     | Some i \<Rightarrow>
                         (case parseTimeReference D tz (take i s) of
                            None \<Rightarrow> parseTimeReference D tz s
                          | Some refEpoch \<Rightarrow>
                              (case IntervalString (de_go D) (drop i s) 1 of
                                 Inl _ \<Rightarrow> None | Inr offset \<Rightarrow> Some (refEpoch + offset))))))"

definition DateParamToEpoch :: "date_env \<Rightarrow> string \<Rightarrow> string \<Rightarrow> int \<Rightarrow> location \<Rightarrow> int" where
  "DateParamToEpoch D s qtz d defaultTimeZone = the_default d (ParseAtTime D s qtz defaultTimeZone)"

section \<open>Dates and days\<close>

lemma div_pred:
  fixes y n :: int
  assumes "0 < n"
  shows "(y - 1) div n = y div n - (if y mod n = 0 then 1 else 0)"
proof -
  have y: "y = n * (y div n) + y mod n" by simp
  have r: "0 \<le> y mod n" "y mod n < n" using assms by simp_all
  show ?thesis
  proof (cases "y mod n = 0")
    case True
    then have "y - 1 = n * (y div n - 1) + (n - 1)" using y by (simp add: algebra_simps)
    then show ?thesis using True assms by (simp add: int_div_pos_eq[of _ _ "y div n - 1" "n - 1"])
  next
    case False
    then have "y - 1 = n * (y div n) + (y mod n - 1)" using y by simp
    then show ?thesis using False r by (simp add: int_div_pos_eq[of _ _ "y div n" "y mod n - 1"])
  qed
qed

lemma year_length_arith:
  fixes y a b c a' b' c' :: int
  assumes "a' = a - i4" "b' = b - i100" "c' = c - i400"
  shows "365 * y + a - b + c - 719162 - (365 * (y - 1) + a' - b' + c' - 719162) = 365 + i4 - i100 + i400"
  using assms by simp

lemma leap_count:
  assumes "P100 \<Longrightarrow> P4" "P400 \<Longrightarrow> P100"
  shows "365 + (if P4 then 1 else 0) - (if P100 then 1 else 0) + (if P400 then 1 else 0)
    = 365 + (if P4 \<and> (\<not> P100 \<or> P400) then 1 else (0 :: int))"
proof (cases P100)
  case True
  then have P4 by (rule assms(1))
  with True show ?thesis by simp
next
  case False
  then have "\<not> P400" using assms(2) by blast
  with False show ?thesis by simp
qed

lemma sum_month_lengths: "sum_list (month_lengths y) = days_before_year (y + 1) - days_before_year y"
proof -
  have "y mod 100 mod 4 = y mod 4" "y mod 400 mod 100 = y mod 100" by (rule mod_mod_cancel, simp)+
  then have m: "y mod 100 = 0 \<Longrightarrow> y mod 4 = 0" "y mod 400 = 0 \<Longrightarrow> y mod 100 = 0" by (metis mod_0)+
  have p: "(y - 1) div n = y div n - (if y mod n = 0 then 1 else 0)" if "0 < n" for n
    using that by (rule div_pred)
  have "days_before_year (y + 1) - days_before_year y = 365 + (if leap_year y then 1 else 0)"
    unfolding days_before_year_def leap_year_def add_diff_cancel_right'
      year_length_arith[OF p p p, OF zero_less_numeral zero_less_numeral zero_less_numeral]
    by (rule leap_count[OF m])
  then show ?thesis by (simp add: month_lengths_def)
qed

lemma month_day_sum:
  "0 \<le> n \<Longrightarrow> n < sum_list ls \<Longrightarrow>
   \<exists>k<length ls. month_day ls m n = (m + int k, n - sum_list (take k ls) + 1)
     \<and> sum_list (take k ls) \<le> n \<and> n < sum_list (take k ls) + ls ! k"
proof (induction ls arbitrary: m n)
  case (Cons l ls)
  show ?case
  proof (cases "n < l")
    case True
    then show ?thesis using Cons.prems by (intro exI[of _ 0]) simp
  next
    case False
    then obtain k where k: "k < length ls" "month_day ls (m + 1) (n - l) = (m + 1 + int k, n - l - sum_list (take k ls) + 1)"
      "sum_list (take k ls) \<le> n - l" "n - l < sum_list (take k ls) + ls ! k"
      using Cons.IH[of "n - l" "m + 1"] Cons.prems by auto
    then show ?thesis using False by (intro exI[of _ "Suc k"]) simp
  qed
qed simp

lemma civil_of_day_valid:
  assumes "civil_of_day k = (y, m, d)"
  shows "1 \<le> m \<and> m \<le> 12 \<and> 1 \<le> d \<and> d \<le> days_in y m \<and> day_of_civil y m d = k"
proof -
  have y: "y = year_of_day k" and md: "month_day (month_lengths y) 1 (k - start_of_year k) = (m, d)"
    using assms by (auto simp: civil_of_day_def)
  have r: "0 \<le> k - start_of_year k" "k - start_of_year k < sum_list (month_lengths y)"
    using year_of_day[of k] by (simp_all add: sum_month_lengths start_of_year_def y)
  obtain j where j: "j < 12" "m = 1 + int j" "d = k - start_of_year k - sum_list (take j (month_lengths y)) + 1"
    "sum_list (take j (month_lengths y)) \<le> k - start_of_year k"
    "k - start_of_year k < sum_list (take j (month_lengths y)) + month_lengths y ! j"
    using month_day_sum[OF r, of 1] md by (auto simp: month_lengths_def)
  then show ?thesis
    by (simp add: days_in_def day_of_civil_def start_of_year_def y)
qed

section \<open>A written date\<close>

text \<open>Two digits, and the date in the first layout.\<close>

definition two_digits :: "int \<Rightarrow> string" where
  "two_digits n = [digit_char (n div 10), digit_char (n mod 10)]"

definition date_text :: "int \<times> int \<times> int \<Rightarrow> string" where
  "date_text c = (case c of (y, m, d) \<Rightarrow> two_digits (y div 100) @ two_digits (y mod 100) @ two_digits m @ two_digits d)"

lemma two_digits_digits: "0 \<le> n \<Longrightarrow> n < 100 \<Longrightarrow> list_all is_digit (two_digits n)"
  by (simp add: two_digits_def is_digit_digit_char)

lemma getnum_two_digits: "0 \<le> n \<Longrightarrow> n < 100 \<Longrightarrow> getnum b (two_digits n @ s) = Some (n, s)"
  by (simp add: getnum_def two_digits_def is_digit_digit_char digit_val_digit_char)

lemma long_year_text:
  assumes "0 \<le> y" "y < 10000"
  shows "long_year (two_digits (y div 100) @ two_digits (y mod 100) @ s) = Some (y, s)"
proof -
  have r: "0 \<le> y div 100" "y div 100 < 100" "0 \<le> y mod 100" "y mod 100 < 100" using assms by auto
  then have d: "list_all is_digit (two_digits (y div 100) @ two_digits (y mod 100))"
    by (simp add: two_digits_digits)
  have q: "0 \<le> y div 100 div 10" "y div 100 div 10 < 10" "0 \<le> y mod 100 div 10" "y mod 100 div 10 < 10"
    using r by auto
  have "dec_val 0 (two_digits (y div 100) @ two_digits (y mod 100)) = Some y"
    using q assms
    by (simp add: two_digits_def is_digit_digit_char digit_val_digit_char)
  then have "time_atoi (two_digits (y div 100) @ two_digits (y mod 100)) = Some y"
    using strip_sign_digits[OF d] by (simp add: time_atoi_def two_digits_def)
  moreover have "is_digit (hd (two_digits (y div 100)))" using d by (simp add: two_digits_def)
  ultimately show ?thesis by (simp add: long_year_def two_digits_def)
qed

lemma days_in_le: "1 \<le> m \<Longrightarrow> m \<le> 12 \<Longrightarrow> days_in y m \<le> 31"
proof -
  assume "1 \<le> m" "m \<le> 12"
  then have "nat (m - 1) < 12" by linarith
  then have "nat (m - 1) < length (month_lengths y)" by (simp add: month_lengths_def)
  then have "days_in y m \<in> set (month_lengths y)" unfolding days_in_def by (rule nth_mem)
  then show ?thesis by (auto simp: month_lengths_def split: if_splits)
qed

lemma parse_day_text:
  assumes "civil_of_day k = (y, m, d)" "0 \<le> y" "y < 10000"
  shows "parse_day (date_text (civil_of_day k)) = Some k"
proof -
  note v = civil_of_day_valid[OF assms(1)]
  have "days_in y m \<le> 31" using v days_in_le by blast
  then have n: "getnum True (two_digits m @ s) = Some (m, s)" "getnum True (two_digits d @ s) = Some (d, s)" for s
    using v by (simp_all add: getnum_two_digits)
  have "parse_ymd (date_text (y, m, d)) = finish_date y m d []"
    using v n(1)[of "two_digits d"] n(2)[of "[]"] long_year_text[OF assms(2,3), of "two_digits m @ two_digits d"]
    by (simp add: date_text_def parse_ymd_def get_month_def)
  then have "parse_ymd (date_text (y, m, d)) = Some k" using v by (simp add: finish_date_def)
  then show ?thesis by (simp add: parse_day_def assms(1))
qed

section \<open>A written time\<close>

text \<open>\<open>HH:MM_YYYYMMDD\<close> of a local time.\<close>

definition clock_text :: "int \<Rightarrow> string" where
  "clock_text l = two_digits (l mod 86400 div 3600) @ [CHR '':''] @ two_digits (l mod 3600 div 60)"

definition time_text :: "int \<Rightarrow> string" where
  "time_text l = clock_text l @ [CHR ''_''] @ date_text (civil_of_day (l div 86400))"

text \<open>A local time that is not next to a change of the offset.\<close>

definition settled :: "location \<Rightarrow> int \<Rightarrow> bool" where
  "settled tz l \<longleftrightarrow> (let z = tz l; u = l - z_offset z in z_start z \<le> u \<and> u < z_end z \<and> tz u = z)"

lemma time_Date_settled: "settled tz l \<Longrightarrow> time_Date tz l = l - z_offset (tz l) \<and> local_day tz (time_Date tz l) = l div 86400"
  by (auto simp: settled_def time_Date_def local_day_def Let_def)

text \<open>The characters of a written time.\<close>

definition time_char :: "char \<Rightarrow> bool" where
  "time_char c \<longleftrightarrow> is_digit c \<or> c = CHR '':'' \<or> c = CHR ''_''"

lemma time_char_plain: "time_char c \<Longrightarrow> is_ascii c \<and> lower_byte c = c \<and> c \<noteq> CHR ''+'' \<and> c \<noteq> CHR ''-'' \<and> \<not> is_space (byte c)"
  by (auto simp: time_char_def is_ascii_def lower_byte_def is_digit_def byte_def is_space_def)

lemma sign_at_none: "list_all time_char s \<Longrightarrow> sign_at i s = None"
  using time_char_plain by (induction s arbitrary: i) auto

lemma map_lower_time: "list_all time_char s \<Longrightarrow> ToLower E s = s"
proof -
  assume "list_all time_char s"
  then have "list_all is_ascii s" "map lower_byte s = s"
    using time_char_plain by (auto simp: list_all_iff intro!: map_idI)
  then show ?thesis by (simp add: ToLower_def)
qed

lemma fields_word: "list_all time_char s \<Longrightarrow> fields_loop w (s @ rest) = fields_loop (w @ s) rest"
  using time_char_plain by (induction s arbitrary: w) auto

lemma digits_time_chars: "list_all is_digit s \<Longrightarrow> list_all time_char s"
  by (auto simp: list_all_iff time_char_def)

lemma clock_ranges:
  "0 \<le> l mod 86400 div 3600" "l mod 86400 div 3600 < 100" "0 \<le> l mod 3600 div 60" "l mod 3600 div 60 < (100 :: int)"
  using pos_mod_bound[of 86400 l] pos_mod_sign[of 86400 l] pos_mod_bound[of 3600 l] pos_mod_sign[of 3600 l] by auto

lemma clock_sum: "86400 * (l div 86400) + 3600 * (l mod 86400 div 3600) + 60 * (l mod 3600 div 60) = l - l mod (60 :: int)"
proof -
  have "l mod 86400 mod 3600 = l mod 3600" "l mod 3600 mod 60 = l mod 60" by (rule mod_mod_cancel, simp)+
  then show ?thesis
    using mult_div_mod_eq[of 86400 l] mult_div_mod_eq[of 3600 "l mod 86400"] mult_div_mod_eq[of 60 "l mod 3600"] by linarith
qed

lemma date_text_digits:
  assumes "civil_of_day k = (y, m, d)" "0 \<le> y" "y < 10000"
  shows "list_all is_digit (date_text (civil_of_day k))" "length (date_text (civil_of_day k)) = 8"
proof -
  note v = civil_of_day_valid[OF assms(1)]
  have "d < 100" using v days_in_le[of m y] by linarith
  then show "list_all is_digit (date_text (civil_of_day k))"
    using v assms by (simp add: date_text_def two_digits_digits)
  show "length (date_text (civil_of_day k)) = 8" by (simp add: date_text_def assms(1) two_digits_def)
qed

lemma Atoi_two_digits: "0 \<le> n \<Longrightarrow> n < 100 \<Longrightarrow> Atoi (two_digits n) = Inr n"
  using strip_sign_digits[OF two_digits_digits[of n]]
  by (simp add: Atoi_def two_digits_def is_digit_digit_char digit_val_digit_char in_int64_def)

lemma digit_not_colon: "list_all is_digit s \<Longrightarrow> CHR '':'' \<notin> set s \<and> CHR ''_'' \<notin> set s"
  by (auto simp: list_all_iff is_digit_def byte_def)

lemma dec_val_bad: "\<not> list_all is_digit s \<Longrightarrow> dec_val n s = None"
  by (induction s arbitrary: n) auto

lemma parseTime_clock: "parseTime (clock_text l) = Some (l mod 86400 div 3600, l mod 3600 div 60)"
proof -
  note r = clock_ranges[of l]
  have d: "list_all is_digit (two_digits (l mod 86400 div 3600))" "list_all is_digit (two_digits (l mod 3600 div 60))"
    using r by (simp_all add: two_digits_digits)
  have "is_digit (hd (clock_text l))" using d by (simp add: clock_text_def two_digits_def)
  then have "clock_text l \<notin> {''midnight'', ''noon'', ''teatime''}" by (auto simp: is_digit_def byte_def)
  moreover have "Split1 (clock_text l) (CHR '':'') = [two_digits (l mod 86400 div 3600), two_digits (l mod 3600 div 60)]"
    using digit_not_colon[OF d(1)] digit_not_colon[OF d(2)] by (simp add: clock_text_def Split1_append Split1_single)
  ultimately show ?thesis using r by (simp add: parseTime_def Atoi_two_digits)
qed

lemma named_day_text:
  assumes "civil_of_day k = (y, m, d)" "0 \<le> y" "y < 10000" "settled tz (86400 * k)"
  shows "named_day D tz (date_text (civil_of_day k)) = Some k"
proof -
  have "is_digit (hd (date_text (civil_of_day k)))"
    using date_text_digits[OF assms(1-3)] by (cases "date_text (civil_of_day k)") auto
  then have "date_text (civil_of_day k) \<notin> {''today'', ''yesterday'', ''tomorrow''}" by (auto simp: is_digit_def byte_def)
  then show ?thesis
    using parse_day_text[OF assms(1-3)] time_Date_settled[OF assms(4), THEN conjunct2] by (simp add: named_day_def Let_def)
qed


definition utc :: location where
  "utc = (\<lambda>_. \<lparr>z_offset = 0, z_start = - (2 ^ 63), z_end = 2 ^ 63\<rparr>)"


section \<open>A reference with an offset\<close>

lemma sign_at_first:
  assumes "list_all (\<lambda>c. c \<noteq> CHR ''+'' \<and> c \<noteq> CHR ''-'') ref" "sg = CHR ''+'' \<or> sg = CHR ''-''" "1 \<le> i + length ref"
  shows "sign_at i (ref @ sg # off) = Some (i + length ref)"
  using assms by (induction ref arbitrary: i) auto

text \<open>
  a reference followed by a signed interval is the time of the reference shifted by the
  interval, whatever the zone; when the interval is not valid the default is used.
\<close>

lemma DateParamToEpoch_offset:
  assumes "ref \<noteq> []" "list_all (\<lambda>c. is_ascii c \<and> lower_byte c = c \<and> c \<noteq> CHR ''+'' \<and> c \<noteq> CHR ''-'') ref"
    and "list_all (\<lambda>c. is_ascii c \<and> lower_byte c = c) off" "sg = CHR ''+'' \<or> sg = CHR ''-''"
    and "parseTimeReference D tz ref = Some t"
  shows "DateParamToEpoch D (ref @ sg # off) [] dflt tz =
    (case IntervalString (de_go D) (sg # off) 1 of Inl _ \<Rightarrow> dflt | Inr n \<Rightarrow> t + n)"
proof -
  have sg: "is_ascii sg" "lower_byte sg = sg" using assms(4) by (auto simp: is_ascii_def lower_byte_def byte_def)
  have "list_all is_ascii (ref @ sg # off)" "map lower_byte (ref @ sg # off) = ref @ sg # off"
    using assms(2,3) sg by (auto simp: list_all_iff intro!: map_idI)
  then have low: "ToLower (de_go D) (ref @ sg # off) = ref @ sg # off" unfolding ToLower_def by simp
  have "1 \<le> 0 + length ref" using assms(1) by (cases ref) auto
  then have at: "sign_at 0 (ref @ sg # off) = Some (length ref)"
    using sign_at_first[of ref sg 0 off] assms(2,4) by (simp add: list_all_iff)
  obtain c cs where "ref = c # cs" "c \<noteq> CHR ''+''" "c \<noteq> CHR ''-''" using assms(1,2) by (cases ref) auto
  then show ?thesis
    using at low assms(5) by (simp add: DateParamToEpoch_def ParseAtTime_def the_default_def Let_def split: sum.split)
qed

lemma DateParamToEpoch_offset_witness:
  "\<forall>D dflt. DateParamToEpoch D ''now-1h'' [] dflt utc = de_now D - 3600"
proof (intro allI)
  fix D dflt
  have "parseTimeReference D utc ''now'' = Some (de_now D)" by (simp add: parseTimeReference_def)
  moreover have "IntervalString (de_go D) ''-1h'' 1 = Inr (- 3600)" by code_simp
  moreover have "list_all (\<lambda>c. is_ascii c \<and> lower_byte c = c \<and> c \<noteq> CHR ''+'' \<and> c \<noteq> CHR ''-'') ''now''"
    "list_all (\<lambda>c. is_ascii c \<and> lower_byte c = c) ''1h''" by code_simp+
  ultimately show "DateParamToEpoch D ''now-1h'' [] dflt utc = de_now D - 3600"
    using DateParamToEpoch_offset[of "''now''" "''1h''" "CHR ''-''" D utc "de_now D" dflt] by simp
qed

end
