(* ===== verification/Encoders.thy ===== *)
theory Encoders
  imports MetricData Dates "HOL-Library.Char_ord" "HOL-Library.List_Lexorder"
begin

text \<open>
  The output formats of \<open>expr/types/types.go\<close>: \<open>MarshalRaw\<close>, \<open>MarshalCSV\<close> and \<open>MarshalJSON\<close> write
  their bytes themselves, \<open>MarshalProtobufV2\<close> and \<open>MarshalPickle\<close> fill the data for an encoder
  that is not part of the program. The text \<open>strconv\<close> gives a float in the format \<open>'f'\<close> with the
  least number of digits is the parameter \<open>fmtF\<close>.
\<close>

section \<open>Raw and CSV\<close>

definition raw_value :: "(f64 \<Rightarrow> string) \<Rightarrow> f64 \<Rightarrow> string" where
  "raw_value fmtF v = (if isNaN v then ''None'' else fmtF v)"

definition raw_series :: "(f64 \<Rightarrow> string) \<Rightarrow> MetricData \<Rightarrow> string" where
  "raw_series fmtF r =
     Name r @ '','' @ FormatInt (StartTime r) @ '','' @ FormatInt (StopTime r) @ '','' @ FormatInt (StepTime r) @ ''|''
     @ Join (map (raw_value fmtF) (Values r)) '','' @ [CHR 0x0A]"

definition MarshalRaw :: "(f64 \<Rightarrow> string) \<Rightarrow> MetricData list \<Rightarrow> string" where
  "MarshalRaw fmtF results = concat (map (raw_series fmtF) results)"

definition appendInt2 :: "int \<Rightarrow> string" where
  "appendInt2 n = (if 9 < n then FormatInt n else CHR ''0'' # FormatInt n)"

definition csv_time :: "int \<Rightarrow> string" where
  "csv_time t =
     (case civil_of_day (t div 86400) of (y, m, d) \<Rightarrow>
        FormatInt y @ ''-'' @ appendInt2 m @ ''-'' @ appendInt2 d @ '' ''
        @ appendInt2 (t mod 86400 div 3600) @ '':'' @ appendInt2 (t mod 3600 div 60) @ '':'' @ appendInt2 (t mod 60))"

definition csv_line :: "(f64 \<Rightarrow> string) \<Rightarrow> string \<Rightarrow> int \<Rightarrow> f64 \<Rightarrow> string" where
  "csv_line fmtF name t v =
     [CHR 0x22] @ name @ [CHR 0x22, CHR '',''] @ csv_time t @ '','' @ (if isNaN v then [] else fmtF v) @ [CHR 0x0A]"

fun csv_lines :: "(f64 \<Rightarrow> string) \<Rightarrow> string \<Rightarrow> int \<Rightarrow> int \<Rightarrow> f64 list \<Rightarrow> string" where
  "csv_lines fmtF name step t [] = []"
| "csv_lines fmtF name step t (v # vs) = csv_line fmtF name t v @ csv_lines fmtF name step (t + step) vs"

definition MarshalCSV :: "(f64 \<Rightarrow> string) \<Rightarrow> MetricData list \<Rightarrow> string" where
  "MarshalCSV fmtF results =
     (if results = [] then ''[]''
      else concat (map (\<lambda>r. csv_lines fmtF (Name r) (StepTime r) (StartTime r) (Values r)) results))"

section \<open>JSON\<close>

text \<open>\<open>strconv.AppendQuoteToASCII\<close>: the escapes of Go, not those of JSON.\<close>

definition hex_digit :: "nat \<Rightarrow> char" where
  "hex_digit n = (''0123456789abcdef'' ! n)"

fun hex_text :: "nat \<Rightarrow> nat \<Rightarrow> string" where
  "hex_text 0 n = []"
| "hex_text (Suc w) n = hex_text w (n div 16) @ [hex_digit (n mod 16)]"

definition escaped_rune :: "nat \<Rightarrow> string" where
  "escaped_rune r =
     (if r = 34 \<or> r = 92 then [CHR 0x5C, char_of r]
      else if 32 \<le> r \<and> r < 127 then [char_of r]
      else if r = 7 then [CHR 0x5C, CHR ''a''] else if r = 8 then [CHR 0x5C, CHR ''b'']
      else if r = 12 then [CHR 0x5C, CHR ''f''] else if r = 10 then [CHR 0x5C, CHR ''n'']
      else if r = 13 then [CHR 0x5C, CHR ''r''] else if r = 9 then [CHR 0x5C, CHR ''t'']
      else if r = 11 then [CHR 0x5C, CHR ''v'']
      else if r < 32 \<or> r = 127 then [CHR 0x5C, CHR ''x''] @ hex_text 2 r
      else if r < 65536 then [CHR 0x5C, CHR ''u''] @ hex_text 4 r
      else [CHR 0x5C, CHR ''U''] @ hex_text 8 r)"

function quoted_body :: "string \<Rightarrow> string" where
  "quoted_body s =
     (if s = [] then []
      else (case decode_rune s of (r, width) \<Rightarrow>
        (if width = 1 \<and> r = RuneError then [CHR 0x5C, CHR ''x''] @ hex_text 2 (byte (hd s)) else escaped_rune r)
        @ quoted_body (drop width s)))"
  by pat_completeness auto
termination
  by (relation "measure length") (auto simp: go_len)

declare quoted_body.simps [simp del]

definition AppendQuoteToASCII :: "string \<Rightarrow> string" where
  "AppendQuoteToASCII s = [CHR 0x22] @ quoted_body s @ [CHR 0x22]"

text \<open>The data points from the time \<open>t\<close> on; absent points are left out on request.\<close>

definition json_point :: "(f64 \<Rightarrow> string) \<Rightarrow> int \<Rightarrow> f64 \<Rightarrow> string" where
  "json_point fmtF t v = ''['' @ (if isNaN v \<or> isInf v then ''null'' else fmtF v) @ '','' @ FormatInt t @ '']''"

fun json_points :: "(f64 \<Rightarrow> string) \<Rightarrow> bool \<Rightarrow> int \<Rightarrow> int \<Rightarrow> f64 list \<Rightarrow> string list" where
  "json_points fmtF noNullPoints step t [] = []"
| "json_points fmtF noNullPoints step t (v # vs) =
     (if noNullPoints \<and> isNaN v then [] else [json_point fmtF t v])
     @ json_points fmtF noNullPoints step (t + step) vs"

definition json_tags :: "tag_map \<Rightarrow> string" where
  "json_tags tags =
     Join (map (\<lambda>k. AppendQuoteToASCII k @ '':'' @ AppendQuoteToASCII (the (map_of tags k)))
       (sort (remdups (map fst tags)))) '',''"

definition json_series ::
  "(f64 \<Rightarrow> string) \<Rightarrow> go_env \<Rightarrow> quickselect \<Rightarrow> config \<Rightarrow> int \<Rightarrow> bool \<Rightarrow> MetricData \<Rightarrow> string go_result" where
  "json_series fmtF E qs C factor noNullPoints r =
     Option.bind (AggregatedStartTime C r) (\<lambda>start.
       map_option (\<lambda>(vs, r').
         ''{'' @ [CHR 0x22] @ ''target'' @ [CHR 0x22] @ '':'' @ AppendQuoteToASCII (Name r)
         @ '','' @ [CHR 0x22] @ ''datapoints'' @ [CHR 0x22] @ '':[''
         @ Join (json_points fmtF noNullPoints (AggregatedTimeStep r * factor) (start * factor) vs) '',''
         @ ''],'' @ [CHR 0x22] @ ''tags'' @ [CHR 0x22] @ '':{'' @ json_tags (MTags r) @ ''}}'')
       (AggregatedValues E qs C r))"

definition MarshalJSON ::
  "(f64 \<Rightarrow> string) \<Rightarrow> go_env \<Rightarrow> quickselect \<Rightarrow> config \<Rightarrow> MetricData list \<Rightarrow> int \<Rightarrow> bool \<Rightarrow> string go_result" where
  "MarshalJSON fmtF E qs C results factor noNullPoints =
     (if results = [] then Some ''[]''
      else map_option (\<lambda>ss. ''['' @ Join ss '','' @ '']'')
             (opt_map (json_series fmtF E qs C factor noNullPoints) results))"

section \<open>Data for other encoders\<close>

text \<open>The message of protobuf version 2 has 32-bit times and marks absent values.\<close>

record pb2_response =
  pb2_Name :: string
  pb2_StartTime :: int
  pb2_StopTime :: int
  pb2_StepTime :: int
  pb2_Values :: "f64 list"
  pb2_IsAbsent :: "bool list"

definition pb2_of :: "MetricData \<Rightarrow> pb2_response" where
  "pb2_of r =
     \<lparr>pb2_Name = Name r, pb2_StartTime = wrap32 (StartTime r), pb2_StopTime = wrap32 (StopTime r),
      pb2_StepTime = wrap32 (StepTime r), pb2_Values = map (\<lambda>v. if isNaN v then 0 else v) (Values r),
      pb2_IsAbsent = map isNaN (Values r)\<rparr>"

definition MarshalProtobufV2 :: "(pb2_response list \<Rightarrow> 'e + string) \<Rightarrow> MetricData list \<Rightarrow> 'e + string" where
  "MarshalProtobufV2 marshal results = marshal (map pb2_of results)"

text \<open>What a reader of the message makes of it.\<close>

definition pb2_values :: "pb2_response \<Rightarrow> f64 list" where
  "pb2_values m = map (\<lambda>(v, a). if a then FNaN else v) (zip (pb2_Values m) (pb2_IsAbsent m))"

section \<open>Reading the raw format\<close>

text \<open>
  A reader of the raw format: a line per series, the name and the three times before the bar,
  the values behind it.
\<close>

definition read_raw_value :: "string \<Rightarrow> f64 option" where
  "read_raw_value s = (if s = ''None'' then Some FNaN else (case ParseFloat s of Inr v \<Rightarrow> Some v | Inl _ \<Rightarrow> None))"

definition read_int :: "string \<Rightarrow> int option" where
  "read_int s = (case Atoi s of Inr n \<Rightarrow> Some n | Inl _ \<Rightarrow> None)"

definition read_raw_line :: "string \<Rightarrow> (string \<times> int \<times> int \<times> int \<times> f64 list) option" where
  "read_raw_line l =
     (case Split1 l (CHR ''|'') of
        [h, vs] \<Rightarrow>
          (case rev (Split1 h (CHR '','')) of
             step # stop # start # name \<Rightarrow>
               Option.bind (read_int start) (\<lambda>a. Option.bind (read_int stop) (\<lambda>b. Option.bind (read_int step) (\<lambda>c.
               Option.bind (if vs = [] then Some [] else opt_map read_raw_value (Split1 vs (CHR '',''))) (\<lambda>xs.
                 Some (Join (rev name) '','', a, b, c, xs)))))
           | _ \<Rightarrow> None)
      | _ \<Rightarrow> None)"

definition read_raw :: "string \<Rightarrow> (string \<times> int \<times> int \<times> int \<times> f64 list) list option" where
  "read_raw s = opt_map read_raw_line (butlast (Split1 s (CHR 0x0A)))"

text \<open>What \<open>strconv\<close> documents of the text of a float: it reads back, and has no separator.\<close>

definition float_text :: "(f64 \<Rightarrow> string) \<Rightarrow> f64 \<Rightarrow> bool" where
  "float_text fmtF v \<longleftrightarrow> ParseFloat (fmtF v) = Inr v \<and> fmtF v \<noteq> [] \<and> fmtF v \<noteq> ''None''
     \<and> (\<forall>c\<in>set (fmtF v). c \<notin> {CHR '','', CHR ''|'', CHR 0x0A, CHR '']''})"

lemma FormatInt_chars: "c \<in> set (FormatInt n) \<Longrightarrow> is_digit c \<or> c = CHR ''-''"
  using dec_digits_are_digits[of n] dec_digits_are_digits[of "- n"]
  by (auto simp: FormatInt_def list_all_iff split: if_splits)

lemma FormatInt_seps: "sep \<in> {CHR '','', CHR ''|'', CHR 0x0A, CHR '']''} \<Longrightarrow> sep \<notin> set (FormatInt n)"
  using FormatInt_chars[of sep n] by (auto simp: is_digit_def byte_def)

lemma Split1_append2: "Split1 (p @ c # s) c = Split1 p c @ Split1 s c"
proof (induction p)
  case (Cons x p)
  then show ?case by (cases "Split1 p c") auto
qed simp

lemma Split1_concat_lines:
  "\<forall>l\<in>set ls. c \<notin> set l \<Longrightarrow> Split1 (concat (map (\<lambda>l. l @ [c]) ls)) c = ls @ [[]]"
  by (induction ls) (auto simp: Split1_append)

lemma read_raw_values:
  assumes "\<forall>v\<in>set vs. isNaN v \<or> float_text fmtF v" "vs \<noteq> []"
  shows "Split1 (Join (map (raw_value fmtF) vs) '','') (CHR '','') = map (raw_value fmtF) vs"
    "opt_map read_raw_value (map (raw_value fmtF) vs) = Some vs" "Join (map (raw_value fmtF) vs) '','' \<noteq> []"
proof -
  have sep: "CHR '','' \<notin> set (raw_value fmtF v)" "raw_value fmtF v \<noteq> []" if "v \<in> set vs" for v
    using assms(1) that by (auto simp: raw_value_def float_text_def)
  show "Split1 (Join (map (raw_value fmtF) vs) '','') (CHR '','') = map (raw_value fmtF) vs"
    using sep assms(2) by (intro Split1_Join) auto
  have "read_raw_value (raw_value fmtF v) = Some v" if v: "v \<in> set vs" for v
  proof (cases "isNaN v")
    case True
    then show ?thesis unfolding raw_value_def read_raw_value_def by (simp add: isNaN_def)
  next
    case False
    then have "float_text fmtF v" using assms(1) v by blast
    then show ?thesis using False unfolding raw_value_def read_raw_value_def float_text_def by simp
  qed
  then show "opt_map read_raw_value (map (raw_value fmtF) vs) = Some vs"
    unfolding opt_map_map by (subst opt_map_Some[where g = "\<lambda>v. v"]) auto
  obtain v vs' where vs: "vs = v # vs'" using assms(2) by (cases vs) auto
  then show "Join (map (raw_value fmtF) vs) '','' \<noteq> []" using sep(2)[of v] by (cases vs') auto
qed

lemma Join_chars: "c \<in> set (Join ps sep) \<Longrightarrow> c \<in> set sep \<or> (\<exists>p\<in>set ps. c \<in> set p)"
  by (induction ps sep rule: Join.induct) auto

lemma read_raw_line_series:
  assumes "\<forall>v\<in>set (Values r). isNaN v \<or> float_text fmtF v" "CHR ''|'' \<notin> set (Name r)"
    and "in_int64 (StartTime r)" "in_int64 (StopTime r)" "in_int64 (StepTime r)"
  shows "read_raw_line (butlast (raw_series fmtF r)) = Some (Name r, StartTime r, StopTime r, StepTime r, Values r)"
proof -
  define h where "h = Name r @ CHR '','' # FormatInt (StartTime r) @ CHR '','' # FormatInt (StopTime r) @ CHR '','' # FormatInt (StepTime r)"
  define vs where "vs = Join (map (raw_value fmtF) (Values r)) '',''"
  have b: "butlast (raw_series fmtF r) = h @ CHR ''|'' # vs"
    by (simp add: raw_series_def h_def vs_def butlast_append)
  have sep: "sep \<notin> set (raw_value fmtF v)" if "sep = CHR ''|''" "v \<in> set (Values r)" for sep v
    using assms(1) that by (auto simp: raw_value_def float_text_def)
  have bar: "CHR ''|'' \<notin> set h" "CHR ''|'' \<notin> set vs"
    using assms(2) FormatInt_seps[of "CHR ''|''"] by (simp_all add: h_def, use Join_chars sep vs_def in fastforce)
  have "Split1 h (CHR '','') = Split1 (Name r) (CHR '','') @ [FormatInt (StartTime r), FormatInt (StopTime r), FormatInt (StepTime r)]"
    using FormatInt_seps[of "CHR '',''"] unfolding h_def by (simp add: Split1_append2 Split1_append Split1_single)
  then have rv: "rev (Split1 h (CHR '','')) =
      FormatInt (StepTime r) # FormatInt (StopTime r) # FormatInt (StartTime r) # rev (Split1 (Name r) (CHR '',''))" by simp
  have sp: "Split1 (h @ CHR ''|'' # vs) (CHR ''|'') = [h, vs]"
    using bar by (simp add: Split1_append Split1_single)
  have xs: "(if vs = [] then Some [] else opt_map read_raw_value (Split1 vs (CHR '',''))) = Some (Values r)"
    using read_raw_values[OF assms(1)] unfolding vs_def by (cases "Values r = []") simp_all
  show ?thesis
    using assms(3-5) Join_Split1[of "Name r" "CHR '',''"]
    by (simp add: b read_raw_line_def sp rv xs read_int_def Atoi_FormatInt)
qed

text \<open>
  the raw format can be read back: every series with its name, its times and its values, the
  absent ones as such, as long as no name has a line break or a bar and the times are 64-bit.
\<close>

lemma MarshalRaw_roundtrip:
  assumes "\<forall>r\<in>set results. (\<forall>v\<in>set (Values r). isNaN v \<or> float_text fmtF v)
      \<and> CHR ''|'' \<notin> set (Name r) \<and> CHR 0x0A \<notin> set (Name r)
      \<and> in_int64 (StartTime r) \<and> in_int64 (StopTime r) \<and> in_int64 (StepTime r)"
  shows "read_raw (MarshalRaw fmtF results) =
    Some (map (\<lambda>r. (Name r, StartTime r, StopTime r, StepTime r, Values r)) results)"
proof -
  have line: "raw_series fmtF r = butlast (raw_series fmtF r) @ [CHR 0x0A]" for r
    by (simp add: raw_series_def butlast_append)
  have nl: "CHR 0x0A \<notin> set (butlast (raw_series fmtF r))" if "r \<in> set results" for r
  proof -
    have "CHR 0x0A \<notin> set (raw_value fmtF v)" if "v \<in> set (Values r)" for v
      using assms \<open>r \<in> set results\<close> that by (auto simp: raw_value_def float_text_def)
    then show ?thesis
      using assms that FormatInt_seps[of "CHR 0x0A"] by (auto simp: raw_series_def butlast_append dest!: Join_chars)
  qed
  have "MarshalRaw fmtF results = concat (map (\<lambda>l. l @ [CHR 0x0A]) (map (\<lambda>r. butlast (raw_series fmtF r)) results))"
    unfolding MarshalRaw_def map_map comp_def by (simp add: line[symmetric])
  then have "butlast (Split1 (MarshalRaw fmtF results) (CHR 0x0A)) = map (\<lambda>r. butlast (raw_series fmtF r)) results"
    using Split1_concat_lines[of "map (\<lambda>r. butlast (raw_series fmtF r)) results"] nl by simp
  then show ?thesis
    using assms unfolding read_raw_def
    by (simp add: opt_map_map) (intro opt_map_Some read_raw_line_series, auto)
qed

section \<open>What a JSON text means\<close>

text \<open>
  The part of the JSON grammar (RFC 8259) the output uses. The body of a string denotes bytes in
  UTF-8; a unicode escape stands for the bytes its code point is decoded from.
\<close>

datatype json = JNull | JNum f64 | JInt int | JStr string | JArr "json list" | JObj "(string \<times> json) list"

definition json_escapes :: "(char \<times> nat) list" where
  "json_escapes = [(CHR 0x22, 34), (CHR 0x5C, 92), (CHR ''/'', 47), (CHR ''b'', 8), (CHR ''f'', 12), (CHR ''n'', 10),
     (CHR ''r'', 13), (CHR ''t'', 9)]"

definition hex_value :: "char \<Rightarrow> nat option" where
  "hex_value c = map_option fst (List.find (\<lambda>(n, d). d = c) (enumerate 0 ''0123456789abcdef''))"

fun hex_num :: "nat \<Rightarrow> string \<Rightarrow> nat option" where
  "hex_num n [] = Some n"
| "hex_num n (c # cs) = (case hex_value c of None \<Rightarrow> None | Some d \<Rightarrow> hex_num (16 * n + d) cs)"

inductive json_body :: "string \<Rightarrow> string \<Rightarrow> bool" where
  end_of_body: "json_body [] []"
| plain_char: "32 \<le> byte c \<Longrightarrow> c \<noteq> CHR 0x22 \<Longrightarrow> c \<noteq> CHR 0x5C \<Longrightarrow> json_body s t \<Longrightarrow> json_body (c # s) (c # t)"
| escaped_char: "(e, byte c) \<in> set json_escapes \<Longrightarrow> json_body s t \<Longrightarrow> json_body (CHR 0x5C # e # s) (c # t)"
| escaped_code: "length h = 4 \<Longrightarrow> hex_num 0 h = Some n \<Longrightarrow> decode_rune (w @ t) = (n, length w) \<Longrightarrow> n \<noteq> RuneError \<or> length w \<noteq> 1
    \<Longrightarrow> json_body s t \<Longrightarrow> json_body (CHR 0x5C # CHR ''u'' # h @ s) (w @ t)"

definition json_string :: "string \<Rightarrow> string \<Rightarrow> bool" where
  "json_string text s \<longleftrightarrow> (\<exists>b. text = [CHR 0x22] @ b @ [CHR 0x22] \<and> json_body b s)"

definition json_number :: "string \<Rightarrow> bool" where
  "json_number s \<longleftrightarrow>
     (let (neg, us) = strip_sign s; ip = takeWhile is_digit us; fr = dropWhile is_digit us
      in hd s \<noteq> CHR ''+'' \<and> ip \<noteq> [] \<and> (hd ip = CHR ''0'' \<longrightarrow> length ip = 1)
         \<and> (fr = [] \<or> (hd fr = CHR ''.'' \<and> tl fr \<noteq> [] \<and> list_all is_digit (tl fr))))"

inductive json_text :: "json \<Rightarrow> string \<Rightarrow> bool" where
  json_null: "json_text JNull ''null''"
| json_num: "json_number s \<Longrightarrow> ParseFloat s = Inr v \<Longrightarrow> json_text (JNum v) s"
| json_int: "json_number s \<Longrightarrow> Atoi s = Inr n \<Longrightarrow> json_text (JInt n) s"
| json_str: "json_string s t \<Longrightarrow> json_text (JStr t) s"
| json_arr: "list_all2 json_text js ts \<Longrightarrow> json_text (JArr js) (''['' @ Join ts '','' @ '']'')"
| json_obj: "list_all2 (\<lambda>kv t. \<exists>kt vt. t = kt @ '':'' @ vt \<and> json_string kt (fst kv) \<and> json_text (snd kv) vt) kvs ts
    \<Longrightarrow> json_text (JObj kvs) (''{'' @ Join ts '','' @ ''}'')"

section \<open>MarshalJSON writes JSON\<close>

text \<open>The code points for which the escapes of Go are escapes of JSON.\<close>

definition json_rune :: "nat \<Rightarrow> bool" where
  "json_rune r \<longleftrightarrow> (32 \<le> r \<and> r < 127) \<or> r \<in> {8, 9, 10, 12, 13} \<or> (128 \<le> r \<and> r < 65536)"

function json_safe :: "string \<Rightarrow> bool" where
  "json_safe s \<longleftrightarrow>
     (if s = [] then True
      else (case decode_rune s of (r, width) \<Rightarrow>
        \<not> (width = 1 \<and> r = RuneError) \<and> json_rune r \<and> json_safe (drop width s)))"
  by pat_completeness auto
termination
  by (relation "measure length") (auto simp: go_len)

declare json_safe.simps [simp del]

lemma hex_value_digit: "n < 16 \<Longrightarrow> hex_value (hex_digit n) = Some n"
proof -
  have "list_all (\<lambda>n. hex_value (hex_digit n) = Some n) [0..<16]" by code_simp
  then show "n < 16 \<Longrightarrow> hex_value (hex_digit n) = Some n" by (auto simp: list_all_iff)
qed

lemma hex_num_append: "hex_num n (xs @ ys) = Option.bind (hex_num n xs) (\<lambda>m. hex_num m ys)"
  by (induction xs arbitrary: n) (auto split: option.split)

lemma length_hex_text: "length (hex_text w n) = w"
  by (induction w arbitrary: n) auto

lemma hex_num_text: "n < 16 ^ w \<Longrightarrow> hex_num 0 (hex_text w n) = Some n"
proof (induction w arbitrary: n)
  case (Suc w)
  then have "n div 16 < 16 ^ w" by (simp add: less_mult_imp_div_less mult.commute)
  then show ?case using Suc.IH[of "n div 16"] hex_value_digit[of "n mod 16"] by (simp add: hex_num_append)
qed simp

lemma decode_high:
  "194 \<le> b \<Longrightarrow> 128 \<le> fst (decode2 b cs)"
  "224 \<le> b \<Longrightarrow> 128 \<le> fst (decode3 b cs)"
  "240 \<le> b \<Longrightarrow> 128 \<le> fst (decode4 b cs)"
  by (auto simp: decode2_def decode3_def decode4_def RuneError_def cont_byte_def Let_def split: list.split)

lemma decode_rune_high: "\<not> byte c < 128 \<Longrightarrow> 128 \<le> fst (decode_rune (c # cs))"
  using decode_high[of "byte c" cs] by (simp add: decode_rune.simps Let_def RuneError_def)

lemma char_of_byte: "char_of (byte c) = c"
  by (simp add: byte_def)

lemma byte_char_of: "n < 256 \<Longrightarrow> byte (char_of n) = n"
  by (simp add: byte_def)

lemma decode_rune_byte:
  assumes "decode_rune s = (r, w)" "r < 128" "s \<noteq> []"
  shows "w = 1 \<and> s = char_of r # tl s \<and> byte (hd s) = r"
proof -
  obtain c cs where s: "s = c # cs" using assms(3) by (cases s) auto
  have "byte c < 128"
  proof (rule ccontr)
    assume "\<not> byte c < 128"
    then have "128 \<le> fst (decode_rune (c # cs))" by (rule decode_rune_high)
    then show False using assms(1,2) s by simp
  qed
  then have "decode_rune s = (byte c, 1)" unfolding s by (intro decode_rune_ascii) (simp add: is_ascii_def)
  then have "r = byte c" "w = 1" using assms(1) by simp_all
  then show ?thesis by (simp add: s char_of_byte)
qed

lemma escaped_ascii:
  assumes "json_rune r" "r < 128" "json_body b t"
  shows "json_body (escaped_rune r @ b) (char_of r # t)"
proof -
  have bt: "byte (char_of r) = r" using assms(2) by (simp add: byte_def)
  consider "r = 34 \<or> r = 92" | "32 \<le> r" "r < 127" "r \<noteq> 34" "r \<noteq> 92" | "r = 8" | "r = 9" | "r = 10" | "r = 12" | "r = 13"
  proof -
    have "32 \<le> r \<and> r < 127 \<or> r \<in> {8, 9, 10, 12, 13}" using assms(1,2) unfolding json_rune_def by (elim disjE) simp_all
    then show thesis using that by blast
  qed
  then show ?thesis
  proof cases
    case 1
    have "char_of (34 :: nat) = CHR 0x22" "char_of (92 :: nat) = CHR 0x5C" by code_simp+
    then have "(char_of r, r) \<in> set json_escapes" using 1 by (elim disjE) (simp_all add: json_escapes_def)
    then have "(char_of r, byte (char_of r)) \<in> set json_escapes" by (simp only: bt)
    from escaped_char[OF this assms(3)] show ?thesis using 1 by (auto simp: escaped_rune_def)
  next
    case 2
    have "byte (CHR 0x22) = 34" "byte (CHR 0x5C) = 92" by code_simp+
    then have "char_of r \<noteq> CHR 0x22" "char_of r \<noteq> CHR 0x5C" using 2 bt by metis+
    with 2 bt assms(3) have "json_body (char_of r # b) (char_of r # t)" by (intro plain_char) simp_all
    then show ?thesis using 2 by (simp add: escaped_rune_def)
  qed (use bt escaped_char[OF _ assms(3), of _ "char_of r"] in \<open>simp_all add: escaped_rune_def json_escapes_def\<close>)
qed

lemma quoted_body_json: "json_safe s \<Longrightarrow> json_body (quoted_body s) s"
proof (induction s rule: quoted_body.induct)
  case (1 s)
  show ?case
  proof (cases "s = []")
    case True
    then show ?thesis by (simp add: quoted_body.simps json_body.intros)
  next
    case False
    obtain r w where d: "decode_rune s = (r, w)" by fastforce
    have safe: "\<not> (w = 1 \<and> r = RuneError)" "json_rune r" "json_safe (drop w s)"
      using "1.prems" False d by (subst (asm) json_safe.simps, simp)+
    have IH: "json_body (quoted_body (drop w s)) (drop w s)" using "1.IH"[OF False d[symmetric]] safe(3) by simp
    have q: "quoted_body s = escaped_rune r @ quoted_body (drop w s)"
      using False d safe(1) by (subst quoted_body.simps) auto
    show ?thesis
    proof (cases "r < 128")
      case True
      then have s: "w = 1" "s = char_of r # drop 1 s" "byte (char_of r) = r"
        using decode_rune_byte[OF d True False] True by (simp_all add: drop_Suc byte_char_of)
      have "json_body (escaped_rune r @ quoted_body (drop 1 s)) (char_of r # drop 1 s)"
        by (rule escaped_ascii[OF safe(2) True]) (use IH s(1) in simp)
      then show ?thesis using q s by simp
    next
      case False
      then have e: "escaped_rune r = CHR 0x5C # CHR ''u'' # hex_text 4 r" "r < 65536"
        using safe(2) by (auto simp: escaped_rune_def json_rune_def)
      have w: "w \<le> length s" using decode_rune_pos[OF \<open>s \<noteq> []\<close> d[symmetric]] by simp
      have "json_body (CHR 0x5C # CHR ''u'' # hex_text 4 r @ quoted_body (drop w s)) (take w s @ drop w s)"
        using e(2) d w safe(1) IH by (intro escaped_code[of _ r]) (auto simp: length_hex_text hex_num_text)
      then show ?thesis using q e(1) by simp
    qed
  qed
qed

lemma plain_safe: "list_all (\<lambda>c. 32 \<le> byte c \<and> byte c < 127) s \<Longrightarrow> json_safe s"
proof (induction s)
  case (Cons c s)
  then have "decode_rune (c # s) = (byte c, 1)" by (intro decode_rune_ascii) (simp add: is_ascii_def)
  then show ?case using Cons by (subst json_safe.simps) (simp add: json_rune_def RuneError_def)
qed (simp add: json_safe.simps)

lemma quoted_json: "json_safe s \<Longrightarrow> json_string (AppendQuoteToASCII s) s"
  using quoted_body_json by (auto simp: json_string_def AppendQuoteToASCII_def)

lemma dec_digits_no_zero: "10 \<le> n \<Longrightarrow> hd (dec_digits n) \<noteq> CHR ''0''"
proof (induction n rule: dec_digits.induct)
  case (1 n)
  show ?case
  proof (cases "n < 100")
    case True
    then have d: "n div 10 < 10" "0 < n div 10" using "1.prems" by auto
    then have "dec_digits n = digit_char (n div 10) # [digit_char (n mod 10)]"
      using "1.prems" by (subst dec_digits.simps) (subst dec_digits.simps, simp)
    moreover have "byte (digit_char (n div 10)) \<noteq> 48" using d by (simp add: byte_digit_char)
    moreover have "byte (CHR ''0'') = 48" by code_simp
    ultimately show ?thesis by auto
  next
    case False
    then have "10 \<le> n div 10" by auto
    then have "hd (dec_digits (n div 10)) \<noteq> CHR ''0''" using "1.IH" "1.prems" by simp
    then show ?thesis using "1.prems" by (subst dec_digits.simps) (simp add: hd_append)
  qed
qed

lemma json_number_digits:
  assumes "0 \<le> n"
  shows "json_number (dec_digits n) \<and> json_number (CHR ''-'' # dec_digits n)"
proof -
  have d: "list_all is_digit (dec_digits n)" by (rule dec_digits_are_digits[OF assms])
  then have "\<forall>x\<in>set (dec_digits n). is_digit x" by (simp add: list_all_iff)
  then have t: "takeWhile is_digit (dec_digits n) = dec_digits n" "dropWhile is_digit (dec_digits n) = []"
    by (simp_all only: takeWhile_eq_all_conv dropWhile_eq_Nil_conv)
  have z: "hd (dec_digits n) = CHR ''0'' \<longrightarrow> length (dec_digits n) = 1"
    using dec_digits_no_zero[of n] by (subst (2) dec_digits.simps) auto
  have "is_digit (hd (dec_digits n))" using d by (cases "dec_digits n") auto
  then have "hd (dec_digits n) \<noteq> CHR ''+''" using digit_not_sign by blast
  moreover have "strip_sign (CHR ''-'' # dec_digits n) = (True, dec_digits n)" by (simp add: strip_sign_def)
  ultimately show ?thesis
    unfolding json_number_def strip_sign_digits[OF d] using z d by (simp add: t list_all_iff)
qed

lemma json_number_int: "json_number (FormatInt n)"
  using json_number_digits[of n] json_number_digits[of "- n"] by (simp add: FormatInt_def)

text \<open>The values of the data points, and of a series.\<close>

fun json_datapoints :: "bool \<Rightarrow> int \<Rightarrow> int \<Rightarrow> f64 list \<Rightarrow> json list" where
  "json_datapoints noNullPoints step t [] = []"
| "json_datapoints noNullPoints step t (v # vs) =
     (if noNullPoints \<and> isNaN v then [] else [JArr [if isNaN v \<or> isInf v then JNull else JNum v, JInt t]])
     @ json_datapoints noNullPoints step (t + step) vs"

definition json_tag_values :: "tag_map \<Rightarrow> (string \<times> json) list" where
  "json_tag_values tags = map (\<lambda>k. (k, JStr (the (map_of tags k)))) (sort (remdups (map fst tags)))"

definition series_json :: "go_env \<Rightarrow> quickselect \<Rightarrow> config \<Rightarrow> int \<Rightarrow> bool \<Rightarrow> MetricData \<Rightarrow> json" where
  "series_json E qs C factor noNullPoints r =
     JObj [(''target'', JStr (Name r)),
           (''datapoints'', JArr (json_datapoints noNullPoints (AggregatedTimeStep r * factor)
              (the (AggregatedStartTime C r) * factor) (fst (the (AggregatedValues E qs C r))))),
           (''tags'', JObj (json_tag_values (MTags r)))]"

text \<open>What the text of a float has to be: a JSON number that reads back as the float.\<close>

definition json_float :: "(f64 \<Rightarrow> string) \<Rightarrow> f64 \<Rightarrow> bool" where
  "json_float fmtF v \<longleftrightarrow> ParseFloat (fmtF v) = Inr v \<and> json_number (fmtF v)"

definition json_ready :: "(f64 \<Rightarrow> string) \<Rightarrow> go_env \<Rightarrow> quickselect \<Rightarrow> config \<Rightarrow> int \<Rightarrow> MetricData \<Rightarrow> bool" where
  "json_ready fmtF E qs C factor r \<longleftrightarrow>
     json_safe (Name r) \<and> (\<forall>(k, v)\<in>set (MTags r). json_safe k \<and> json_safe v) \<and>
     (\<exists>start vs r'. AggregatedStartTime C r = Some start \<and> AggregatedValues E qs C r = Some (vs, r')
        \<and> (\<forall>v\<in>set vs. isNaN v \<or> isInf v \<or> json_float fmtF v)
        \<and> (\<forall>i\<le>length vs. in_int64 (start * factor + int i * (AggregatedTimeStep r * factor))))"

lemma json_points_text:
  assumes "\<forall>v\<in>set vs. isNaN v \<or> isInf v \<or> json_float fmtF v" "\<forall>i\<le>length vs. in_int64 (t + int i * step)"
  shows "list_all2 json_text (json_datapoints noNull step t vs) (json_points fmtF noNull step t vs)"
  using assms
proof (induction vs arbitrary: t)
  case (Cons v vs)
  have t: "in_int64 t" using Cons.prems(2)[rule_format, of 0] by simp
  have "in_int64 (t + step + int i * step)" if "i \<le> length vs" for i
    using Cons.prems(2)[rule_format, of "Suc i"] that by (simp add: algebra_simps)
  then have IH: "list_all2 json_text (json_datapoints noNull step (t + step) vs) (json_points fmtF noNull step (t + step) vs)"
    using Cons by simp
  have "json_text (if isNaN v \<or> isInf v then JNull else JNum v) (if isNaN v \<or> isInf v then ''null'' else fmtF v)"
    using Cons.prems(1) json_null json_num by (auto simp: json_float_def)
  moreover have "json_text (JInt t) (FormatInt t)" using json_int[OF json_number_int Atoi_FormatInt[OF t]] .
  ultimately have "json_text (JArr [if isNaN v \<or> isInf v then JNull else JNum v, JInt t]) (json_point fmtF t v)"
    using json_arr[of "[if isNaN v \<or> isInf v then JNull else JNum v, JInt t]"
        "[if isNaN v \<or> isInf v then ''null'' else fmtF v, FormatInt t]"]
    by (simp only: json_point_def Join.simps append.simps append_assoc list_all2_Cons list_all2_Nil)
  then show ?case using IH by (cases "noNull \<and> isNaN v") (simp_all only: json_datapoints.simps json_points.simps
      simp_thms if_True if_False append.simps list_all2_Cons)
qed simp

lemma json_tags_text:
  assumes "\<forall>(k, v)\<in>set tags. json_safe k \<and> json_safe v"
  shows "json_text (JObj (json_tag_values tags)) (''{'' @ json_tags tags @ ''}'')"
proof -
  have k: "json_safe k \<and> json_safe (the (map_of tags k))" if "k \<in> set (map fst tags)" for k
  proof -
    have "map_of tags k \<noteq> None" using that by (simp add: map_of_eq_None_iff)
    then obtain v where v: "map_of tags k = Some v" by blast
    then have "(k, v) \<in> set tags" by (rule map_of_SomeD)
    then show ?thesis using assms v by auto
  qed
  show ?thesis unfolding json_tags_def json_tag_values_def
  proof (intro json_obj)
    show "list_all2 (\<lambda>kv t. \<exists>kt vt. t = kt @ '':'' @ vt \<and> json_string kt (fst kv) \<and> json_text (snd kv) vt)
      (map (\<lambda>k. (k, JStr (the (map_of tags k)))) (sort (remdups (map fst tags))))
      (map (\<lambda>k. AppendQuoteToASCII k @ '':'' @ AppendQuoteToASCII (the (map_of tags k))) (sort (remdups (map fst tags))))"
      unfolding list.rel_map
    proof (intro list.rel_refl_strong)
      fix x assume "x \<in> set (sort (remdups (map fst tags)))"
      then have "json_safe x \<and> json_safe (the (map_of tags x))" by (intro k) simp
      then have "json_string (AppendQuoteToASCII x) x"
        "json_text (JStr (the (map_of tags x))) (AppendQuoteToASCII (the (map_of tags x)))"
        using quoted_json json_str by blast+
      then show "\<exists>kt vt. AppendQuoteToASCII x @ '':'' @ AppendQuoteToASCII (the (map_of tags x)) = kt @ '':'' @ vt
          \<and> json_string kt (fst (x, JStr (the (map_of tags x)))) \<and> json_text (snd (x, JStr (the (map_of tags x)))) vt"
        unfolding fst_conv snd_conv by blast
    qed
  qed
qed

lemma plain_body: "list_all (\<lambda>c. 32 \<le> byte c \<and> c \<noteq> CHR 0x22 \<and> c \<noteq> CHR 0x5C) s \<Longrightarrow> json_body s s"
  by (induction s) (auto intro: json_body.intros)

lemma json_keys:
  "json_string ([CHR 0x22] @ ''target'' @ [CHR 0x22]) ''target''"
  "json_string ([CHR 0x22] @ ''datapoints'' @ [CHR 0x22]) ''datapoints''"
  "json_string ([CHR 0x22] @ ''tags'' @ [CHR 0x22]) ''tags''"
proof -
  have "json_body ''target'' ''target''" "json_body ''datapoints'' ''datapoints''" "json_body ''tags'' ''tags''"
    by (rule plain_body, code_simp)+
  then show "json_string ([CHR 0x22] @ ''target'' @ [CHR 0x22]) ''target''"
    "json_string ([CHR 0x22] @ ''datapoints'' @ [CHR 0x22]) ''datapoints''"
    "json_string ([CHR 0x22] @ ''tags'' @ [CHR 0x22]) ''tags''"
    unfolding json_string_def by blast+
qed

lemma json_series_text:
  assumes "json_ready fmtF E qs C factor r"
  shows "\<exists>t. json_series fmtF E qs C factor noNull r = Some t \<and> json_text (series_json E qs C factor noNull r) t"
proof -
  obtain start vs r' where a: "AggregatedStartTime C r = Some start" "AggregatedValues E qs C r = Some (vs, r')"
    "\<forall>v\<in>set vs. isNaN v \<or> isInf v \<or> json_float fmtF v"
    "\<forall>i\<le>length vs. in_int64 (start * factor + int i * (AggregatedTimeStep r * factor))"
    and n: "json_safe (Name r)" "\<forall>(k, v)\<in>set (MTags r). json_safe k \<and> json_safe v"
    using assms unfolding json_ready_def by blast
  let ?p = "json_points fmtF noNull (AggregatedTimeStep r * factor) (start * factor) vs"
  let ?ts = "[([CHR 0x22] @ ''target'' @ [CHR 0x22]) @ '':'' @ AppendQuoteToASCII (Name r),
      ([CHR 0x22] @ ''datapoints'' @ [CHR 0x22]) @ '':'' @ ''['' @ Join ?p '','' @ '']'',
      ([CHR 0x22] @ ''tags'' @ [CHR 0x22]) @ '':'' @ ''{'' @ json_tags (MTags r) @ ''}'']"
  have s: "json_series fmtF E qs C factor noNull r = Some (''{'' @ Join ?ts '','' @ ''}'')"
    by (simp add: json_series_def a)
  have v: "json_text (JStr (Name r)) (AppendQuoteToASCII (Name r))"
    "json_text (JArr (json_datapoints noNull (AggregatedTimeStep r * factor) (start * factor) vs)) (''['' @ Join ?p '','' @ '']'')"
    "json_text (JObj (json_tag_values (MTags r))) (''{'' @ json_tags (MTags r) @ ''}'')"
    using quoted_json[OF n(1)] json_points_text[OF a(3,4)] json_tags_text[OF n(2)] by (blast intro: json_str json_arr)+
  have "json_text (series_json E qs C factor noNull r) (''{'' @ Join ?ts '','' @ ''}'')"
    unfolding series_json_def a option.sel fst_conv
    by (intro json_obj, unfold list_all2_Cons list_all2_Nil fst_conv snd_conv) (use json_keys v in blast)
  then show ?thesis using s by blast
qed

lemma MarshalJSON_text:
  assumes "\<forall>r\<in>set results. json_ready fmtF E qs C factor r"
  shows "\<exists>body. MarshalJSON fmtF E qs C results factor noNullPoints = Some body
    \<and> json_text (JArr (map (series_json E qs C factor noNullPoints) results)) body"
proof (cases "results = []")
  case True
  then show ?thesis using json_arr[of "[]" "[]"] by (simp add: MarshalJSON_def)
next
  case False
  define g where "g r = the (json_series fmtF E qs C factor noNullPoints r)" for r
  have g: "\<forall>r\<in>set results. json_series fmtF E qs C factor noNullPoints r = Some (g r)
      \<and> json_text (series_json E qs C factor noNullPoints r) (g r)"
  proof
    fix r assume "r \<in> set results"
    then have "json_ready fmtF E qs C factor r" using assms by blast
    from json_series_text[OF this, of noNullPoints]
    show "json_series fmtF E qs C factor noNullPoints r = Some (g r) \<and> json_text (series_json E qs C factor noNullPoints r) (g r)"
      unfolding g_def by auto
  qed
  then have "MarshalJSON fmtF E qs C results factor noNullPoints = Some (''['' @ Join (map g results) '','' @ '']'')"
    using False opt_map_Some[of results "json_series fmtF E qs C factor noNullPoints" g] by (simp add: MarshalJSON_def)
  moreover have "list_all2 json_text (map (series_json E qs C factor noNullPoints) results) (map g results)"
    unfolding list.rel_map using g by (intro list.rel_refl_strong) blast
  ultimately show ?thesis using json_arr by blast
qed


text \<open>A printer for the examples, which prints every float as \<open>3\<close>.\<close>

definition print_three :: "f64 \<Rightarrow> string" where
  "print_three v = ''3''"

lemma print_three: "json_float print_three (FNum 3)" "float_text print_three (FNum 3)"
proof -
  have p: "ParseFloat ''3'' = Inr (FNum 3)" "json_number ''3''" by code_simp+
  have "\<forall>c\<in>set ''3''. c \<notin> {CHR '','', CHR ''|'', CHR 0x0A, CHR '']''}" "''3'' \<noteq> ''None''" by code_simp+
  then show "json_float print_three (FNum 3)" "float_text print_three (FNum 3)"
    using p by (simp_all add: json_float_def float_text_def print_three_def)
qed

definition sample_results :: "MetricData list" where
  "sample_results = [makeMetricDataWithTags ''a'' [FNum 3, FNaN] 60 120 [(''name'', ''a'')]]"

lemma MarshalRaw_roundtrip_witness:
  "read_raw (MarshalRaw print_three sample_results) = Some [(''a'', 120, 240, 60, [FNum 3, FNaN])]"
proof -
  have "CHR ''|'' \<notin> set ''a''" "CHR 0x0A \<notin> set ''a''" by code_simp+
  then show ?thesis
    using MarshalRaw_roundtrip[of sample_results print_three] print_three(2)
    by (simp add: sample_results_def makeMetricDataWithTags_def isNaN_def in_int64_def)
qed


text \<open>A bell in a name is written with an escape JSON does not have.\<close>

lemma json_body_escape:
  "json_body b t \<Longrightarrow> b = CHR 0x5C # e # s \<Longrightarrow> e \<in> fst ` set json_escapes \<or> e = CHR ''u''"
proof (induction rule: json_body.induct)
  case (escaped_char e' c s' t')
  then have "(e, byte c) \<in> set json_escapes" by simp
  then show ?case by (rule disjI1[OF rev_image_eqI]) simp
qed simp_all

lemma bell_not_json: "AppendQuoteToASCII [CHR 0x07] = [CHR 0x22, CHR 0x5C, CHR ''a'', CHR 0x22] \<and>
   \<not> json_string (AppendQuoteToASCII [CHR 0x07]) t"
proof -
  have "byte (CHR 0x07) = 7" by code_simp
  then have "decode_rune [CHR 0x07] = (7, 1)" using decode_rune_ascii[of "CHR 0x07" "[]"] by (simp add: is_ascii_def)
  then have q: "AppendQuoteToASCII [CHR 0x07] = [CHR 0x22, CHR 0x5C, CHR ''a'', CHR 0x22]"
    by (simp add: AppendQuoteToASCII_def quoted_body.simps escaped_rune_def RuneError_def)
  have "\<not> json_body [CHR 0x5C, CHR ''a''] t" 
  proof
    assume "json_body [CHR 0x5C, CHR ''a''] t"
    from json_body_escape[OF this refl] have "CHR ''a'' \<in> fst ` set json_escapes \<or> CHR ''a'' = CHR ''u''" .
    moreover have "\<not> (CHR ''a'' \<in> fst ` set json_escapes \<or> CHR ''a'' = CHR ''u'')" by code_simp
    ultimately show False by blast
  qed
  moreover have "b = [CHR 0x5C, CHR ''a'']" if "[CHR 0x22, CHR 0x5C, CHR ''a'', CHR 0x22] = [CHR 0x22] @ b @ [CHR 0x22]" for b
  proof -
    have "[CHR 0x5C, CHR ''a''] @ [CHR 0x22] = b @ [CHR 0x22]" using that by simp
    then show ?thesis by (metis append_same_eq)
  qed
  ultimately show ?thesis unfolding q json_string_def by blast
qed

text \<open>
  version 2 of the protobuf format keeps the values of a series, the absent ones as such, and
  its name, and its times modulo two to the 32.
\<close>

lemma pb2_keeps_values:
  "pb2_values (pb2_of r) = Values r \<and> pb2_Name (pb2_of r) = Name r
   \<and> (pb2_StartTime (pb2_of r) = StartTime r \<longleftrightarrow> in_int32 (StartTime r))"
proof -
  have "map (\<lambda>(v, a). if a then FNaN else v) (zip (map (\<lambda>v. if isNaN v then 0 else v) vs) (map isNaN vs)) = vs" for vs
    by (induction vs) (simp_all add: isNaN_def)
  moreover have "wrap32 t = t \<longleftrightarrow> in_int32 t" for t using wrap32_id[of t] in_int32_wrap32[of t] by metis
  ultimately show ?thesis by (simp add: pb2_of_def pb2_values_def)
qed

end
