(* ===== verification/Render.thy ===== *)
theory Render
  imports Encoders Helpers
begin

text \<open>
  The handler of \<open>/render\<close>, \<open>cmd/carbonapi/http/render_handler.go\<close>: parameters, the response cache
  and the backend cache, the evaluation of the targets, the code of the answer and its body. What
  it calls is the record \<open>render_env\<close>: the clock and the zones, the evaluation of the parsed
  targets, which also depends on the backends, and the formats that other packages write. The
  caches are maps that may lose an entry at any time, as the expiring caches do.
\<close>

section \<open>Parameters\<close>

type_synonym form = "(string \<times> string list) list"

definition form_values :: "form \<Rightarrow> string \<Rightarrow> string list" where
  "form_values f k = (case map_of f k of None \<Rightarrow> [] | Some vs \<Rightarrow> vs)"

definition FormValue :: "form \<Rightarrow> string \<Rightarrow> string" where
  "FormValue f k = (case form_values f k of [] \<Rightarrow> [] | v # _ \<Rightarrow> v)"

definition dropped_params :: "string list" where
  "dropped_params = [''noCache'', ''jsonp'', ''_salt'', ''_ts'', ''_t'']"

definition cleanupParams :: "form \<Rightarrow> form" where
  "cleanupParams f = filter (\<lambda>(k, _). k \<notin> set dropped_params) f"

datatype responseFormat =
    jsonFormat | treejsonFormat | pngFormat | csvFormat | rawFormat | svgFormat
  | protoV2Format | protoV3Format | pickleFormat | completerFormat

definition ValidRenderFormat :: "responseFormat \<Rightarrow> bool" where
  "ValidRenderFormat f \<longleftrightarrow>
     f \<in> {jsonFormat, pickleFormat, protoV2Format, protoV3Format, pngFormat, svgFormat, csvFormat, rawFormat}"

definition knownFormats :: "(string \<times> responseFormat) list" where
  "knownFormats =
     [(''json'', jsonFormat), (''pickle'', pickleFormat), (''treejson'', treejsonFormat), (''protobuf'', protoV2Format),
      (''protobuf3'', protoV2Format), (''carbonapi_v2_pb'', protoV2Format), (''carbonapi_v3_pb'', protoV3Format),
      (''png'', pngFormat), (''csv'', csvFormat), (''raw'', rawFormat), (''svg'', svgFormat), (''completer'', completerFormat)]"

text \<open>An unknown format is the zero value of the type, \<open>jsonFormat\<close>, with the flag false.\<close>

definition getFormat :: "form \<Rightarrow> responseFormat \<Rightarrow> responseFormat \<times> bool \<times> string" where
  "getFormat r defaultFormat =
     (let format = FormValue r ''format''
      in if format = [] \<and> (TruthyBool (FormValue r ''rawData'') \<or> TruthyBool (FormValue r ''rawdata''))
         then (rawFormat, True, format)
         else if format = [] then (defaultFormat, True, format)
         else (case map_of knownFormats format of Some f \<Rightarrow> (f, True, format) | None \<Rightarrow> (jsonFormat, False, format)))"

definition timestamp_multiplier :: "go_env \<Rightarrow> string \<Rightarrow> int option" where
  "timestamp_multiplier E s =
     (let f = ToLower E s
      in if f = [] \<or> f = ''s'' then Some 1
         else if f \<in> set [''ms'', ''millisecond'', ''milliseconds''] then Some 1000
         else if f \<in> set [''us'', ''microsecond'', ''microseconds''] then Some 1000000
         else if f \<in> set [''ns'', ''nanosecond'', ''nanoseconds''] then Some 1000000000
         else None)"

text \<open>\<open>strconv.ParseInt\<close> with its error ignored: a value out of range becomes the nearest limit.\<close>

definition parse_int_or_limit :: "string \<Rightarrow> int" where
  "parse_int_or_limit s =
     (case Atoi s of
        Inr n \<Rightarrow> n
      | Inl ErrSyntax \<Rightarrow> 0
      | Inl ErrRange \<Rightarrow> (if fst (strip_sign s) then - (2 ^ 63) else 2 ^ 63 - 1))"

text \<open>Durations are nanoseconds; \<open>Truncate\<close> rounds down since the year 1.\<close>

definition time_Truncate :: "int \<Rightarrow> int \<Rightarrow> int" where
  "time_Truncate ts d =
     (if d \<le> 0 then ts else (let ns = (ts + 62135596800) * 10 ^ 9 in (ns - ns mod d) div 10 ^ 9 - 62135596800))"

fun timestampTruncate :: "int \<Rightarrow> int \<Rightarrow> (int \<times> int) list \<Rightarrow> int" where
  "timestampTruncate ts duration [] = ts"
| "timestampTruncate ts duration ((d, tr) # ds) =
     (if duration > d \<or> d = 0 then time_Truncate ts tr else timestampTruncate ts duration ds)"

definition seconds_duration :: "int \<Rightarrow> int" where
  "seconds_duration n = wrap64 (10 ^ 9 * n)"

record cache_config =
  DefaultTimeoutSec :: int
  ShortTimeoutSec :: int
  ShortDuration :: int
  ShortUntilOffsetSec :: int

definition getCacheTimeout :: "form \<Rightarrow> int \<Rightarrow> int \<Rightarrow> int \<Rightarrow> cache_config \<Rightarrow> int" where
  "getCacheTimeout r now32 until32 duration c =
     (let tstr = FormValue r ''cacheTimeout'';
          rest = (if now32 = 0 \<or> ShortTimeoutSec c = 0 \<or> ShortDuration c = 0 then DefaultTimeoutSec c
                  else if duration > ShortDuration c \<or> now32 - until32 > ShortUntilOffsetSec c then DefaultTimeoutSec c
                  else ShortTimeoutSec c)
      in if tstr \<noteq> [] then (case Atoi tstr of Inr t \<Rightarrow> wrap32 t | Inl _ \<Rightarrow> rest) else rest)"

section \<open>Cache keys\<close>

text \<open>\<open>url.Values.Encode\<close>: the parameters sorted by key, each value escaped for a query.\<close>

definition upper_hex :: "nat \<Rightarrow> char" where
  "upper_hex n = (''0123456789ABCDEF'' ! n)"

definition unreserved :: "char \<Rightarrow> bool" where
  "unreserved c \<longleftrightarrow> is_digit c \<or> (65 \<le> byte c \<and> byte c \<le> 90) \<or> (97 \<le> byte c \<and> byte c \<le> 122)
     \<or> c \<in> {CHR ''-'', CHR ''_'', CHR ''.'', CHR ''~''}"

definition escape_char :: "char \<Rightarrow> string" where
  "escape_char c =
     (if unreserved c then [c] else if c = CHR '' '' then ''+''
      else [CHR ''%'', upper_hex (byte c div 16), upper_hex (byte c mod 16)])"

definition QueryEscape :: "string \<Rightarrow> string" where
  "QueryEscape s = concat (map escape_char s)"

definition form_pairs :: "form \<Rightarrow> (string \<times> string) list" where
  "form_pairs f = concat (map (\<lambda>k. map (Pair k) (form_values f k)) (sort (remdups (map fst f))))"

definition Form_Encode :: "form \<Rightarrow> string" where
  "Form_Encode f = Join (map (\<lambda>(k, v). QueryEscape k @ ''='' @ QueryEscape v) (form_pairs f)) ''&''"

definition responseCacheComputeKey :: "int \<Rightarrow> int \<Rightarrow> string list \<Rightarrow> string \<Rightarrow> int \<Rightarrow> bool \<Rightarrow> string \<Rightarrow> string" where
  "responseCacheComputeKey start stop targets format maxDataPoints noNullPoints template =
     ''from:'' @ FormatInt start @ '' until:'' @ FormatInt stop @ '' targets:'' @ Join targets '','' @ '' format:'' @ format
     @ (if maxDataPoints > 0 then '' maxDataPoints:'' @ FormatInt maxDataPoints else [])
     @ (if noNullPoints then '' noNullPoints'' else [])
     @ (if template \<noteq> [] then '' template:'' @ template else [])"

definition backendCacheComputeKey :: "string \<Rightarrow> string \<Rightarrow> string list \<Rightarrow> int \<Rightarrow> bool \<Rightarrow> string" where
  "backendCacheComputeKey start stop targets maxDataPoints noNullPoints =
     ''from:'' @ start @ '' until:'' @ stop @ '' targets:'' @ Join targets '',''
     @ (if maxDataPoints > 0 then '' maxDataPoints:'' @ FormatInt maxDataPoints else [])
     @ (if noNullPoints then '' noNullPoints'' else [])"

definition backendCacheComputeKeyAbs :: "int \<Rightarrow> int \<Rightarrow> string list \<Rightarrow> int \<Rightarrow> bool \<Rightarrow> string" where
  "backendCacheComputeKeyAbs start stop targets maxDataPoints noNullPoints =
     backendCacheComputeKey (FormatInt start) (FormatInt stop) targets maxDataPoints noNullPoints"

definition queryLengthLimitExceeded :: "string list \<Rightarrow> int \<Rightarrow> bool" where
  "queryLengthLimitExceeded query maxLength \<longleftrightarrow>
     maxLength > 0 \<and> sum_list (map (\<lambda>q. int (length q)) query) > maxLength"

section \<open>The handler\<close>

record render_conf =
  cf_go :: go_env
  cf_templates :: templates
  cf_depth :: nat
  cf_quickselect :: quickselect
  cf_series :: config
  cf_DefaultTimeZone :: location
  cf_TruncateTime :: "(int \<times> int) list"
  cf_ResponseCache :: cache_config
  cf_BackendCache :: cache_config
  cf_MaxQueryLength :: int
  cf_CombineMultipleTargetsInOne :: bool
  cf_RequireSuccessAll :: bool
  cf_NotFoundStatusCode :: int

text \<open>
  Evaluation runs on the map of fetched series, which the targets of a request share; \<open>None\<close> is a
  panic. \<open>en_gob\<close> is what the decoder of the backend cache makes of encoded results, if anything.
\<close>

record render_env =
  en_date :: date_env
  en_FetchAndEvalExp :: "expr \<Rightarrow> int \<Rightarrow> int \<Rightarrow> series_map \<Rightarrow> ((merry_error + MetricData list) \<times> series_map) go_result"
  en_FetchAndEvalExprs :: "expr list \<Rightarrow> int \<Rightarrow> int \<Rightarrow> (MetricData list \<times> (string \<times> merry_error) list) go_result"
  en_fmtF :: "f64 \<Rightarrow> string"
  en_marshal :: "responseFormat \<Rightarrow> MetricData list \<Rightarrow> string + string"
  en_gob :: "MetricData list \<Rightarrow> MetricData list option"

text \<open>A request: its parameters, whether parsing them fails, and its body as a version 3 message.\<close>

record render_request =
  rq_Form :: form
  rq_FormError :: bool
  rq_pv3 :: "(string \<times> int \<times> int) list option"

record render_caches =
  c_response :: "string \<Rightarrow> string option"
  c_backend :: "string \<Rightarrow> MetricData list option"

text \<open>An answer with its code, format, callback and body, and whether it is from the cache.\<close>

datatype render_response =
    Answer int responseFormat string string bool
  | Failed int
  | Aborted

text \<open>
  \<open>writeResponse\<close> sets the code for every format but CSV, which is always sent with 200; JSON is
  wrapped in the callback, if there is one.
\<close>

definition writeResponse :: "int \<Rightarrow> string \<Rightarrow> responseFormat \<Rightarrow> string \<Rightarrow> bool \<Rightarrow> render_response" where
  "writeResponse returnCode b format jsonp hit =
     Answer (if format = csvFormat then 200 else returnCode) format jsonp b hit"

definition written_bytes :: "responseFormat \<Rightarrow> string \<Rightarrow> string \<Rightarrow> string" where
  "written_bytes format jsonp b = (if format = jsonFormat \<and> jsonp \<noteq> [] then jsonp @ ''('' @ b @ '')'' else b)"

text \<open>The times, the key and the timeouts of the caches.\<close>

record render_plan =
  pl_from :: int
  pl_until :: int
  pl_key :: string
  pl_responseTimeout :: int
  pl_backendTimeout :: int

definition render_plan_of :: "render_conf \<Rightarrow> date_env \<Rightarrow> form \<Rightarrow> render_plan" where
  "render_plan_of C D f0 =
     (let f = cleanupParams f0; useCache = \<not> TruthyBool (FormValue f0 ''noCache'');
          from0 = DateParamToEpoch D (FormValue f ''from'') (FormValue f ''tz'') (de_now D - 86400) (cf_DefaultTimeZone C);
          until0 = DateParamToEpoch D (FormValue f ''until'') (FormValue f ''tz'') (de_now D) (cf_DefaultTimeZone C);
          d0 = seconds_duration (until0 - from0);
          truncating = cf_TruncateTime C \<noteq> [];
          start = (if truncating then timestampTruncate from0 d0 (cf_TruncateTime C) else from0);
          stop = (if truncating then timestampTruncate until0 d0 (cf_TruncateTime C) else until0);
          d = seconds_duration (stop - start)
      in \<lparr>pl_from = start, pl_until = stop,
          pl_key = (if truncating
             then responseCacheComputeKey start stop (form_values f0 ''target'') (snd (snd (getFormat f0 pngFormat)))
                    (parse_int_or_limit (FormValue f0 ''maxDataPoints'')) (TruthyBool (FormValue f0 ''noNullPoints''))
                    (FormValue f0 ''template'')
             else Form_Encode f),
          pl_responseTimeout = (if useCache then getCacheTimeout f (de_now D) stop d (cf_ResponseCache C) else 0),
          pl_backendTimeout = (if useCache then getCacheTimeout f (de_now D) stop d (cf_BackendCache C) else 0)\<rparr>)"

definition parse_target_text :: "render_conf \<Rightarrow> string \<Rightarrow> (unit + expr) go_result" where
  "parse_target_text C t =
     map_option (\<lambda>r. case r of Inl _ \<Rightarrow> Inl () | Inr (e, rest) \<Rightarrow> if rest = [] then Inr e else Inl ())
       (ParseExpr (cf_go C) (cf_templates C) (cf_depth C) t)"

text \<open>
  The targets one after the other: a parse error ends the request, an error of the evaluation is
  noted, and ends the loop when all have to succeed and it is not a not-found error.
\<close>

fun eval_each :: "render_conf \<Rightarrow> render_env \<Rightarrow> int \<Rightarrow> int \<Rightarrow> string list \<Rightarrow> series_map
    \<Rightarrow> MetricData list \<Rightarrow> (string \<times> merry_error) list \<Rightarrow> (unit + MetricData list \<times> (string \<times> merry_error) list) go_result" where
  "eval_each C N start stop [] values results errors = Some (Inr (results, errors))"
| "eval_each C N start stop (t # ts) values results errors =
     (case parse_target_text C t of
        None \<Rightarrow> Panic
      | Some (Inl _) \<Rightarrow> Some (Inl ())
      | Some (Inr e) \<Rightarrow>
          (case en_FetchAndEvalExp N e start stop values of
             None \<Rightarrow> Panic
           | Some (Inr rs, values') \<Rightarrow> eval_each C N start stop ts values' (results @ rs) errors
           | Some (Inl err, values') \<Rightarrow>
               if cf_RequireSuccessAll C \<and> HTTPCode err \<noteq> 200 \<and> HTTPCode err \<noteq> 404
               then Some (Inr (results, AList.update t err errors))
               else eval_each C N start stop ts values' results (AList.update t err errors)))"

fun parse_all :: "render_conf \<Rightarrow> string list \<Rightarrow> (unit + expr list) go_result" where
  "parse_all C [] = Some (Inr [])"
| "parse_all C (t # ts) =
     (case parse_target_text C t of
        None \<Rightarrow> Panic
      | Some (Inl _) \<Rightarrow> Some (Inl ())
      | Some (Inr e) \<Rightarrow> map_option (\<lambda>r. case r of Inl _ \<Rightarrow> Inl () | Inr es \<Rightarrow> Inr (e # es)) (parse_all C ts))"

definition eval_targets_of :: "render_conf \<Rightarrow> render_env \<Rightarrow> int \<Rightarrow> int \<Rightarrow> string list
    \<Rightarrow> (unit + MetricData list \<times> (string \<times> merry_error) list) go_result" where
  "eval_targets_of C N start stop targets =
     (if cf_CombineMultipleTargetsInOne C \<and> targets \<noteq> []
      then (case parse_all C targets of
              None \<Rightarrow> Panic
            | Some (Inl _) \<Rightarrow> Some (Inl ())
            | Some (Inr es) \<Rightarrow> map_option Inr (en_FetchAndEvalExprs N es start stop))
      else eval_each C N start stop targets [] [] [])"

text \<open>The code of the answer, and whether it is an error.\<close>

definition render_code :: "render_conf \<Rightarrow> MetricData list \<Rightarrow> (string \<times> merry_error) list \<Rightarrow> int \<times> bool" where
  "render_code C results errors =
     (if results = [] \<or> (errors \<noteq> [] \<and> cf_RequireSuccessAll C)
      then (let merged = fst (MergeHttpErrorMap errors);
                code = (if merged = 404 then cf_NotFoundStatusCode C else merged)
            in (code, code = 400 \<or> code = 404 \<or> code = 403 \<or> code \<ge> 500))
      else (200, False))"

definition render_body :: "render_conf \<Rightarrow> render_env \<Rightarrow> responseFormat \<Rightarrow> int \<Rightarrow> int \<Rightarrow> bool \<Rightarrow> MetricData list \<Rightarrow> (string + string) go_result" where
  "render_body C N format maxDataPoints multiplier noNullPoints results =
     (case format of
        jsonFormat \<Rightarrow>
          map_option Inr (MarshalJSON (en_fmtF N) (cf_go C) (cf_quickselect C) (cf_series C)
            (if maxDataPoints \<noteq> 0 then ConsolidateJSON maxDataPoints results else results) multiplier noNullPoints)
      | rawFormat \<Rightarrow> Some (Inr (MarshalRaw (en_fmtF N) results))
      | csvFormat \<Rightarrow> Some (Inr (MarshalCSV (en_fmtF N) results))
      | _ \<Rightarrow> Some (en_marshal N format results))"

text \<open>From the results on: the code, the body, and the entry in the response cache.\<close>

definition render_finish :: "render_conf \<Rightarrow> render_env \<Rightarrow> form \<Rightarrow> responseFormat \<Rightarrow> string \<Rightarrow> int \<Rightarrow> string
    \<Rightarrow> MetricData list \<Rightarrow> (string \<times> merry_error) list \<Rightarrow> render_caches \<Rightarrow> render_response \<times> render_caches" where
  "render_finish C N f format jsonp multiplier key results errors caches =
     (case render_code C results errors of (code, failed) \<Rightarrow>
        if failed then (Failed code, caches)
        else (case render_body C N format (parse_int_or_limit (FormValue f ''maxDataPoints'')) multiplier
                     (TruthyBool (FormValue f ''noNullPoints'')) results of
                None \<Rightarrow> (Failed 500, caches)
              | Some (Inl _) \<Rightarrow> (Failed 500, caches)
              | Some (Inr body) \<Rightarrow>
                  (writeResponse code body format jsonp False,
                   if results \<noteq> [] then caches\<lparr>c_response := (c_response caches)(key \<mapsto> body)\<rparr> else caches)))"

text \<open>The results from the backend cache or from the evaluation, whose panics become a 500.\<close>

definition render_compute :: "render_conf \<Rightarrow> render_env \<Rightarrow> form \<Rightarrow> responseFormat \<Rightarrow> string \<Rightarrow> int \<Rightarrow> render_plan
    \<Rightarrow> string list \<Rightarrow> int \<Rightarrow> int \<Rightarrow> render_caches \<Rightarrow> render_response \<times> render_caches" where
  "render_compute C N f format jsonp multiplier pl targets start stop caches =
     (let maxDataPoints = parse_int_or_limit (FormValue f ''maxDataPoints''); noNull = TruthyBool (FormValue f ''noNullPoints'');
          bkey = (if cf_TruncateTime C \<noteq> [] then backendCacheComputeKeyAbs start stop targets maxDataPoints noNull
                  else backendCacheComputeKey (FormValue f ''from'') (FormValue f ''until'') targets maxDataPoints noNull)
      in case (if TruthyBool (FormValue f ''noCache'') then None else c_backend caches bkey) of
           Some results \<Rightarrow> render_finish C N f format jsonp multiplier (pl_key pl) results [] caches
         | None \<Rightarrow>
             (case eval_targets_of C N start stop targets of
                None \<Rightarrow> (Failed 500, caches)
              | Some (Inl _) \<Rightarrow> (Failed 400, caches)
              | Some (Inr (results, errors)) \<Rightarrow>
                  render_finish C N f format jsonp multiplier (pl_key pl) results errors
                    (if errors = [] \<and> pl_backendTimeout pl > 0
                     then (case en_gob N results of
                             Some stored \<Rightarrow> caches\<lparr>c_backend := (c_backend caches)(bkey \<mapsto> stored)\<rparr>
                           | None \<Rightarrow> caches)
                     else caches)))"

text \<open>A version 3 message replaces the targets and the times; an empty one is a panic of the handler.\<close>

datatype render_targets = NoTargets int | TargetsPanic | Targets "string list" int int

definition render_targets_of :: "render_request \<Rightarrow> responseFormat \<Rightarrow> render_plan \<Rightarrow> render_targets" where
  "render_targets_of rq format pl =
     (if format = protoV3Format
      then (case rq_pv3 rq of
              None \<Rightarrow> NoTargets 400
            | Some [] \<Rightarrow> TargetsPanic
            | Some ((p, a, b) # ms) \<Rightarrow> Targets (map fst ((p, a, b) # ms)) a b)
      else Targets (form_values (rq_Form rq) ''target'') (pl_from pl) (pl_until pl))"

definition renderHandler :: "render_conf \<Rightarrow> render_env \<Rightarrow> render_request \<Rightarrow> render_caches \<Rightarrow> render_response \<times> render_caches" where
  "renderHandler C N rq caches =
     (if rq_FormError rq then (Failed 400, caches)
      else (let f = rq_Form rq; useCache = \<not> TruthyBool (FormValue f ''noCache'');
                (format, ok, formatRaw) = getFormat f pngFormat;
                jsonp = (if format = jsonFormat then FormValue f ''jsonp'' else [])
            in case timestamp_multiplier (cf_go C) (FormValue f ''timestampFormat'') of
                 None \<Rightarrow> (Failed 400, caches)
               | Some multiplier \<Rightarrow>
                   (let pl = render_plan_of C (en_date N) f
                    in if \<not> ok \<or> \<not> ValidRenderFormat format then (Failed 400, caches)
                       else (case render_targets_of rq format pl of
                               NoTargets code \<Rightarrow> (Failed code, caches)
                             | TargetsPanic \<Rightarrow> (Aborted, caches)
                             | Targets targets start stop \<Rightarrow>
                                 if queryLengthLimitExceeded targets (cf_MaxQueryLength C) then (Failed 400, caches)
                                 else (case (if useCache then c_response caches (pl_key pl) else None) of
                                         Some body \<Rightarrow> (writeResponse 200 body format jsonp True, caches)
                                       | None \<Rightarrow>
                                           if start \<ge> stop then (Failed 400, caches)
                                           else render_compute C N f format jsonp multiplier pl targets start stop caches)))))"

section \<open>What the response cache holds\<close>

definition request_key :: "render_conf \<Rightarrow> render_env \<Rightarrow> render_request \<Rightarrow> string" where
  "request_key C N rq = pl_key (render_plan_of C (en_date N) (rq_Form rq))"

text \<open>The requests served so far with their answers, the last one first; entries can be lost in between.\<close>

inductive reachable :: "render_conf \<Rightarrow> render_caches \<Rightarrow> (render_request \<times> render_env \<times> render_response) list \<Rightarrow> bool"
  for C :: render_conf where
  no_request: "reachable C \<lparr>c_response = (\<lambda>_. None), c_backend = (\<lambda>_. None)\<rparr> []"
| serve: "reachable C caches served \<Longrightarrow> renderHandler C N rq caches = (resp, caches') \<Longrightarrow> reachable C caches' ((rq, N, resp) # served)"
| lose_response: "reachable C caches served \<Longrightarrow> reachable C (caches\<lparr>c_response := (c_response caches)(k := None)\<rparr>) served"
| lose_backend: "reachable C caches served \<Longrightarrow> reachable C (caches\<lparr>c_backend := (c_backend caches)(k := None)\<rparr>) served"

text \<open>A new entry in the response cache is the body just answered, under the key of the request.\<close>

definition only_answer :: "string \<Rightarrow> render_caches \<Rightarrow> render_response \<times> render_caches \<Rightarrow> bool" where
  "only_answer key caches r \<longleftrightarrow>
     (\<forall>k b. c_response (snd r) k = Some b \<longrightarrow>
        c_response caches k = Some b \<or> k = key \<and> (\<exists>code format jsonp. fst r = Answer code format jsonp b False))"

lemma only_answer_same: "c_response caches' = c_response caches \<Longrightarrow> only_answer key caches (resp, caches')"
  by (simp add: only_answer_def)

lemma only_answer_finish:
  assumes "c_response caches' = c_response caches"
  shows "only_answer key caches (render_finish C N f format jsonp multiplier key results errors caches')"
proof -
  have "only_answer key caches (writeResponse code body format jsonp False,
      if results \<noteq> [] then caches'\<lparr>c_response := (c_response caches')(key \<mapsto> body)\<rparr> else caches')" for code body
    using assms by (simp add: only_answer_def writeResponse_def)
  then show ?thesis
    using only_answer_same[OF assms] unfolding render_finish_def
    by (auto split: prod.split option.split sum.split)
qed

lemma only_answer_compute:
  "only_answer (pl_key pl) caches (render_compute C N f format jsonp multiplier pl targets start stop caches)"
  unfolding render_compute_def Let_def
  by (auto split: option.split sum.split prod.split intro!: only_answer_finish only_answer_same)

lemma only_answer_handler: "only_answer (request_key C N rq) caches (renderHandler C N rq caches)"
proof -
  obtain format ok formatRaw where g: "getFormat (rq_Form rq) pngFormat = (format, ok, formatRaw)" by (metis prod_cases3)
  show ?thesis
    unfolding renderHandler_def request_key_def Let_def g
    by (auto split: option.split render_targets.split intro!: only_answer_compute only_answer_same)
qed

lemma response_cache_origin:
  "reachable C caches served \<Longrightarrow> c_response caches k = Some b \<Longrightarrow>
   \<exists>(rq, N, resp)\<in>set served. request_key C N rq = k \<and> (\<exists>code format jsonp. resp = Answer code format jsonp b False)"
proof (induction arbitrary: k b rule: reachable.induct)
  case (serve caches served N rq resp caches')
  have "only_answer (request_key C N rq) caches (resp, caches')"
    using only_answer_handler[of C N rq caches] serve.hyps(2) by simp
  then show ?case using serve.IH serve.prems unfolding only_answer_def by fastforce
qed (auto split: if_splits)

text \<open>An answer is from the cache only when the cache has it under the key of the request.\<close>

definition fresh :: "render_response \<Rightarrow> bool" where
  "fresh r = (case r of Answer _ _ _ _ hit \<Rightarrow> \<not> hit | _ \<Rightarrow> True)"

lemma fresh_finish: "fresh (fst (render_finish C N f format jsonp multiplier key results errors caches))"
  by (auto simp: render_finish_def fresh_def writeResponse_def split: prod.split option.split sum.split)

lemma fresh_compute: "fresh (fst (render_compute C N f format jsonp multiplier pl targets start stop caches))"
  unfolding render_compute_def Let_def
  by (auto split: option.split sum.split prod.split intro!: fresh_finish) (simp_all add: fresh_def)

lemma cached_answer:
  assumes "renderHandler C N rq caches = (Answer code format jsonp b True, caches')"
  shows "c_response caches (request_key C N rq) = Some b \<and> caches' = caches \<and> code = 200"
proof -
  obtain fm ok formatRaw where g: "getFormat (rq_Form rq) pngFormat = (fm, ok, formatRaw)" by (metis prod_cases3)
  have nf: "render_compute C N f fm' jp m pl ts a b' caches \<noteq> (Answer code format jsonp b True, caches')" for f fm' jp m pl ts a b'
    using fresh_compute[of C N f fm' jp m pl ts a b' caches] by (auto simp: fresh_def)
  show ?thesis
    using assms nf unfolding renderHandler_def request_key_def Let_def g
    by (auto simp: writeResponse_def split: if_splits option.splits render_targets.splits)
qed

section \<open>The key of a request\<close>

lemma upper_hex_inj: "a < 16 \<Longrightarrow> b < 16 \<Longrightarrow> upper_hex a = upper_hex b \<Longrightarrow> a = b"
proof -
  have "list_all (\<lambda>a. list_all (\<lambda>b. upper_hex a = upper_hex b \<longrightarrow> a = b) [0..<16]) [0..<16]" by code_simp
  then show "a < 16 \<Longrightarrow> b < 16 \<Longrightarrow> upper_hex a = upper_hex b \<Longrightarrow> a = b" by (auto simp: list_all_iff)
qed

lemma upper_hex_char: "a < 16 \<Longrightarrow> upper_hex a \<noteq> CHR ''='' \<and> upper_hex a \<noteq> CHR ''&''"
proof -
  have "list_all (\<lambda>a. upper_hex a \<noteq> CHR ''='' \<and> upper_hex a \<noteq> CHR ''&'') [0..<16]" by code_simp
  then show "a < 16 \<Longrightarrow> upper_hex a \<noteq> CHR ''='' \<and> upper_hex a \<noteq> CHR ''&''" by (auto simp: list_all_iff)
qed

lemma byte_bound: "byte c < 256"
  using nat_of_char_less_256[of c] by (simp add: byte_def)

lemma unreserved_plain: "unreserved c \<Longrightarrow> c \<notin> {CHR ''+'', CHR ''%'', CHR ''='', CHR ''&''}"
  by (auto simp: unreserved_def is_digit_def byte_def)

lemma escape_char_cancel:
  assumes "escape_char c @ s = escape_char d @ t"
  shows "c = d \<and> s = t"
proof -
  have h: "byte c div 16 < 16" "byte d div 16 < 16" "byte c mod 16 < 16" "byte d mod 16 < 16"
    using byte_bound[of c] byte_bound[of d] by auto
  have eq: "c = d" if "upper_hex (byte c div 16) = upper_hex (byte d div 16)" "upper_hex (byte c mod 16) = upper_hex (byte d mod 16)"
  proof -
    have "byte c div 16 = byte d div 16" "byte c mod 16 = byte d mod 16" using upper_hex_inj that h by blast+
    then have "byte c = byte d" by (metis div_mult_mod_eq)
    then show ?thesis by (simp add: byte_eq_iff)
  qed
  show ?thesis
    using assms unreserved_plain[of c] unreserved_plain[of d] eq
    by (cases "unreserved c"; cases "unreserved d"; cases "c = CHR '' ''"; cases "d = CHR '' ''")
      (auto simp only: escape_char_def if_True if_False append.simps list.inject simp_thms insert_iff)
qed

lemma QueryEscape_inj: "QueryEscape s = QueryEscape t \<Longrightarrow> s = t"
proof (induction s arbitrary: t)
  case Nil
  then show ?case by (cases t) (auto simp: QueryEscape_def escape_char_def split: if_splits)
next
  case (Cons c s)
  then obtain d t' where t: "t = d # t'"
    by (cases t) (auto simp: QueryEscape_def escape_char_def split: if_splits)
  then have "escape_char c @ QueryEscape s = escape_char d @ QueryEscape t'"
    using Cons.prems by (simp add: QueryEscape_def)
  then show ?case using escape_char_cancel Cons.IH t by blast
qed

lemma QueryEscape_chars: "CHR ''='' \<notin> set (QueryEscape s) \<and> CHR ''&'' \<notin> set (QueryEscape s)"
proof -
  have "CHR ''='' \<notin> set (escape_char c) \<and> CHR ''&'' \<notin> set (escape_char c)" for c
  proof -
    have "byte c div 16 < 16" "byte c mod 16 < 16" using byte_bound[of c] by auto
    then show ?thesis
      using upper_hex_char[of "byte c div 16"] upper_hex_char[of "byte c mod 16"] unreserved_plain[of c]
      unfolding escape_char_def by (simp split: if_split) fastforce
  qed
  then show ?thesis by (auto simp: QueryEscape_def)
qed

definition pair_text :: "string \<times> string \<Rightarrow> string" where
  "pair_text p = (case p of (k, v) \<Rightarrow> QueryEscape k @ ''='' @ QueryEscape v)"

lemma pair_text_inj: "pair_text p = pair_text q \<Longrightarrow> p = q"
proof -
  obtain k v k' v' where pq: "p = (k, v)" "q = (k', v')" by (cases p; cases q)
  assume "pair_text p = pair_text q"
  then have "QueryEscape k @ CHR ''='' # QueryEscape v = QueryEscape k' @ CHR ''='' # QueryEscape v'"
    by (simp add: pair_text_def pq)
  then have "QueryEscape k = QueryEscape k' \<and> QueryEscape v = QueryEscape v'"
    using QueryEscape_chars[of k] QueryEscape_chars[of v] by (subst (asm) append_Cons_eq_iff) auto
  then show ?thesis using QueryEscape_inj pq by blast
qed

lemma Join_pairs_inj: "Join (map pair_text ps) ''&'' = Join (map pair_text qs) ''&'' \<Longrightarrow> ps = qs"
proof -
  have split: "Split1 (Join (map pair_text xs) ''&'') (CHR ''&'') = map pair_text xs" if "xs \<noteq> []" for xs
    using that QueryEscape_chars by (intro Split1_Join) (auto simp: pair_text_def)
  have ne: "Join (map pair_text xs) ''&'' \<noteq> []" if xs: "xs \<noteq> []" for xs
  proof
    assume "Join (map pair_text xs) ''&'' = []"
    then have "map pair_text xs = [[]]" using split[OF xs] by simp
    then show False by (cases xs) (auto simp: pair_text_def split: prod.splits)
  qed
  assume j: "Join (map pair_text ps) ''&'' = Join (map pair_text qs) ''&''"
  show "ps = qs"
  proof (cases "ps = [] \<or> qs = []")
    case True
    have "Join (map pair_text []) ''&'' = []" by simp
    then show ?thesis using True j ne by metis
  next
    case False
    then have "map pair_text ps = map pair_text qs" using split j by metis
    then show ?thesis using pair_text_inj by (metis inj_onI inj_map_eq_map)
  qed
qed

lemma filter_pairs:
  "distinct js \<Longrightarrow> filter (\<lambda>p. fst p = k) (concat (map (\<lambda>j. map (Pair j) (g j)) js)) = (if k \<in> set js then map (Pair k) (g k) else [])"
  by (induction js) (auto simp: filter_map comp_def filter_empty_conv)

lemma form_values_pairs: "form_values f k = map snd (filter (\<lambda>p. fst p = k) (form_pairs f))"
proof (cases "k \<in> fst ` set f")
  case True
  then show ?thesis unfolding form_pairs_def by (subst filter_pairs) (auto simp: comp_def)
next
  case False
  then have "map_of f k = None" by (simp add: map_of_eq_None_iff)
  then show ?thesis using False unfolding form_pairs_def by (subst filter_pairs) (auto simp: form_values_def)
qed

lemma Form_Encode_inj: "Form_Encode f = Form_Encode g \<Longrightarrow> form_values f k = form_values g k"
proof -
  assume "Form_Encode f = Form_Encode g"
  then have "Join (map pair_text (form_pairs f)) ''&'' = Join (map pair_text (form_pairs g)) ''&''"
    by (simp add: Form_Encode_def pair_text_def[abs_def])
  then show ?thesis using Join_pairs_inj form_values_pairs by metis
qed

lemma cleanup_values: "k \<notin> set dropped_params \<Longrightarrow> form_values (cleanupParams f) k = form_values f k"
proof -
  assume "k \<notin> set dropped_params"
  then have "map_of (cleanupParams f) k = map_of f k" unfolding cleanupParams_def by (induction f) auto
  then show ?thesis by (simp add: form_values_def)
qed


text \<open>
  What the key leaves out. The body of a version 3 request is not part of it, so a request with
  the same parameters and another body is answered with the cached series of the first; with
  truncated times neither is the format of the timestamps, so times in seconds are sent to a
  client that asked for milliseconds.
\<close>

lemma v3_body_not_in_key:
  assumes "\<not> rq_FormError rq" "FormValue (rq_Form rq) ''format'' = ''carbonapi_v3_pb''"
    and "timestamp_multiplier (cf_go C) (FormValue (rq_Form rq) ''timestampFormat'') \<noteq> None"
    and "\<not> TruthyBool (FormValue (rq_Form rq) ''noCache'')" "cf_MaxQueryLength C = 0"
    and "c_response caches (request_key C N rq) = Some b"
  shows "renderHandler C N (rq\<lparr>rq_pv3 := Some (m # ms)\<rparr>) caches = (Answer 200 protoV3Format [] b True, caches)"
proof -
  have "getFormat (rq_Form rq) pngFormat = (protoV3Format, True, ''carbonapi_v3_pb'')"
    by (simp add: getFormat_def assms(2) knownFormats_def)
  moreover obtain p a c where "m = (p, a, c)" by (cases m)
  ultimately show ?thesis
    using assms(1,3-6) unfolding renderHandler_def request_key_def
    by (auto simp: Let_def render_targets_of_def queryLengthLimitExceeded_def writeResponse_def ValidRenderFormat_def
        split: option.split)
qed

lemma timestampFormat_not_in_key:
  assumes "cf_TruncateTime C \<noteq> []"
    and "\<forall>k\<in>set [''target'', ''from'', ''until'', ''tz'', ''format'', ''rawData'', ''rawdata'', ''maxDataPoints'',
        ''noNullPoints'', ''template'']. form_values (rq_Form rq) k = form_values (rq_Form rq') k"
  shows "request_key C N rq = request_key C N rq'"
proof -
  have c: "form_values (cleanupParams f) k = form_values f k" if "k \<in> set [''from'', ''until'', ''tz'']" for f k
    using that by (intro cleanup_values) (auto simp: dropped_params_def)
  show ?thesis
    using assms(2) c unfolding request_key_def render_plan_of_def
    by (simp add: Let_def assms(1) FormValue_def getFormat_def)
qed

section \<open>The answer in JSON\<close>

text \<open>A target that parses and is evaluated to \<open>r\<close>, whatever was fetched before.\<close>

definition evaluates :: "render_conf \<Rightarrow> render_env \<Rightarrow> int \<Rightarrow> int \<Rightarrow> string \<Rightarrow> merry_error + MetricData list \<Rightarrow> bool" where
  "evaluates C N start stop t r \<longleftrightarrow>
     (\<exists>e. parse_target_text C t = Some (Inr e) \<and> (\<forall>values. \<exists>values'. en_FetchAndEvalExp N e start stop values = Some (r, values')))"

definition series_found :: "merry_error + MetricData list \<Rightarrow> MetricData list" where
  "series_found r = (case r of Inl _ \<Rightarrow> [] | Inr rs \<Rightarrow> rs)"

lemma eval_each_results:
  assumes "\<not> cf_RequireSuccessAll C" "\<forall>t\<in>set ts. evaluates C N start stop t (res t)"
  shows "\<exists>errs. eval_each C N start stop ts values rs es = Some (Inr (rs @ concat (map (\<lambda>t. series_found (res t)) ts), errs))"
  using assms(2)
proof (induction ts arbitrary: "values" rs es)
  case (Cons t ts)
  obtain e values' where e: "parse_target_text C t = Some (Inr e)" "en_FetchAndEvalExp N e start stop values = Some (res t, values')"
    using Cons.prems unfolding evaluates_def by (metis list.set_intros(1))
  have IH: "\<exists>errs. eval_each C N start stop ts v r es' = Some (Inr (r @ concat (map (\<lambda>t. series_found (res t)) ts), errs))" for v r es'
    using Cons.IH Cons.prems by simp
  show ?case
  proof (cases "res t")
    case (Inl err)
    then show ?thesis using IH[of values' rs "AList.update t err es"] e assms(1) by (simp add: series_found_def)
  next
    case (Inr found)
    then show ?thesis using IH[of values' "rs @ found" es] e by (simp add: series_found_def)
  qed
qed simp


section \<open>An example\<close>

definition example_render_conf :: "go_env \<Rightarrow> quickselect \<Rightarrow> render_conf" where
  "example_render_conf E qs =
     \<lparr>cf_go = E, cf_templates = (\<lambda>_. None), cf_depth = 99, cf_quickselect = qs,
      cf_series = \<lparr>NudgeStartTimeOnAggregation = False, UseBucketsHighestTimestampOnAggregation = False\<rparr>,
      cf_DefaultTimeZone = utc, cf_TruncateTime = [],
      cf_ResponseCache = \<lparr>DefaultTimeoutSec = 60, ShortTimeoutSec = 0, ShortDuration = 0, ShortUntilOffsetSec = 0\<rparr>,
      cf_BackendCache = \<lparr>DefaultTimeoutSec = 0, ShortTimeoutSec = 0, ShortDuration = 0, ShortUntilOffsetSec = 0\<rparr>,
      cf_MaxQueryLength = 0, cf_CombineMultipleTargetsInOne = False, cf_RequireSuccessAll = False, cf_NotFoundStatusCode = 200\<rparr>"

definition example_render_env :: "go_env \<Rightarrow> render_env" where
  "example_render_env E =
     \<lparr>en_date = \<lparr>de_go = E, de_Fields = (\<lambda>s. [s]), de_LoadLocation = (\<lambda>_. None), de_now = 1000000\<rparr>,
      en_FetchAndEvalExp = (\<lambda>e start stop values. Some (Inr sample_results, values)),
      en_FetchAndEvalExprs = (\<lambda>es start stop. Some (sample_results, [])),
      en_fmtF = print_three, en_marshal = (\<lambda>_ _. Inl []), en_gob = (\<lambda>_. None)\<rparr>"

definition example_request :: "string \<Rightarrow> render_request" where
  "example_request format = \<lparr>rq_Form = [(''target'', [''a'']), (''format'', [format])], rq_FormError = False, rq_pv3 = None\<rparr>"

lemma parse_a: "parse_target_text (example_render_conf E qs) ''a'' = Some (Inr (name_expr ''a''))"
proof -
  have "ast_ok E (AName ''a'')" by code_simp
  then have "parse_inner E ''a'' = POk (name_expr ''a'') []"
    using parse_inner_render[of E "AName ''a''" "[]"] by (simp add: delim_def)
  moreover have "expandExpr E (\<lambda>_. None) 99 (name_expr ''a'') = Some (Inr (name_expr ''a''))"
    by (rule expandExpr_no_templates) (simp add: name_expr_def)
  ultimately show ?thesis by (simp add: parse_target_text_def ParseExpr_def example_render_conf_def del: expandExpr.simps)
qed

lemma example_form:
  "form_values (rq_Form (example_request fm)) k = (if k = ''target'' then [''a''] else if k = ''format'' then [fm] else [])"
  by (simp add: form_values_def example_request_def)

lemma example_times:
  "pl_from (render_plan_of (example_render_conf E qs) (en_date (example_render_env E)) (rq_Form (example_request fm))) = 913600"
  "pl_until (render_plan_of (example_render_conf E qs) (en_date (example_render_env E)) (rq_Form (example_request fm))) = 1000000"
  by (simp_all add: render_plan_of_def Let_def example_render_conf_def example_render_env_def FormValue_def form_values_def
      cleanupParams_def example_request_def dropped_params_def DateParamToEpoch_def ParseAtTime_def the_default_def)

lemma example_ready:
  "\<forall>r\<in>set sample_results. json_ready print_three E qs \<lparr>NudgeStartTimeOnAggregation = False, UseBucketsHighestTimestampOnAggregation = False\<rparr> 1 r"
proof -
  have s: "json_safe ''a''" "json_safe ''name''" by (rule plain_safe, code_simp)+
  then show ?thesis
    using print_three(1) unfolding json_ready_def sample_results_def
    by (simp add: makeMetricDataWithTags_def AggregatedStartTime_def nudgePointsCount_def AggregatedValues_def
        AggregateValues_def AggregatedTimeStep_def isNaN_def in_int64_def)
qed

abbreviation no_caches :: render_caches where
  "no_caches \<equiv> \<lparr>c_response = (\<lambda>_. None), c_backend = (\<lambda>_. None)\<rparr>"


lemma example_raw_answer:
  fixes E qs
  defines "C \<equiv> example_render_conf E qs" and "N \<equiv> example_render_env E" and "rq \<equiv> example_request ''raw''"
  shows "\<exists>bc. renderHandler C N rq no_caches =
     (Answer 200 rawFormat [] (MarshalRaw print_three sample_results) False,
      \<lparr>c_response = [request_key C N rq \<mapsto> MarshalRaw print_three sample_results], c_backend = bc\<rparr>)"
    and "c_response caches (request_key C N rq) = Some b \<Longrightarrow> renderHandler C N rq caches = (Answer 200 rawFormat [] b True, caches)"
proof -
  have f: "getFormat (rq_Form rq) pngFormat = (rawFormat, True, ''raw'')"
    by (simp add: rq_def getFormat_def FormValue_def example_form knownFormats_def Let_def)
  have m: "timestamp_multiplier (cf_go C) (FormValue (rq_Form rq) ''timestampFormat'') = Some 1"
    by (simp add: rq_def timestamp_multiplier_def FormValue_def example_form ToLower_def)
  have q: "\<not> queryLengthLimitExceeded ts (cf_MaxQueryLength C)" for ts
    by (simp add: queryLengthLimitExceeded_def example_render_conf_def C_def)
  have v: "\<not> rq_FormError rq" "FormValue (rq_Form rq) ''noCache'' = []" "form_values (rq_Form rq) ''target'' = [''a'']"
    by (simp_all add: rq_def example_request_def FormValue_def form_values_def)
  have nc: "\<not> TruthyBool []" by (simp add: TruthyBool_def)
  have t: "pl_from (render_plan_of C (en_date N) (rq_Form rq)) = 913600" "pl_until (render_plan_of C (en_date N) (rq_Form rq)) = 1000000"
    unfolding C_def N_def rq_def by (rule example_times)+
  have ev: "eval_targets_of C N 913600 1000000 [''a''] = Some (Inr (sample_results, []))"
    using parse_a[of E qs] by (simp add: eval_targets_of_def C_def N_def example_render_env_def example_render_conf_def)
  have b: "render_body C N rawFormat mx fc nn sample_results = Some (Inr (MarshalRaw print_three sample_results))" for mx fc nn
    by (simp add: render_body_def N_def example_render_env_def)
  have fin: "render_finish C N f rawFormat [] 1 key sample_results [] caches =
      (Answer 200 rawFormat [] (MarshalRaw print_three sample_results) False,
       caches\<lparr>c_response := (c_response caches)(key \<mapsto> MarshalRaw print_three sample_results)\<rparr>)" for f key caches
    using b by (simp add: render_finish_def render_code_def sample_results_def writeResponse_def)
  have "\<exists>bc. render_compute C N (rq_Form rq) rawFormat [] 1 (render_plan_of C (en_date N) (rq_Form rq)) [''a''] 913600 1000000 no_caches =
     (Answer 200 rawFormat [] (MarshalRaw print_three sample_results) False,
      \<lparr>c_response = [request_key C N rq \<mapsto> MarshalRaw print_three sample_results], c_backend = bc\<rparr>)"
    unfolding render_compute_def using ev fin by (simp add: Let_def request_key_def nc v(2) split: option.split)
  then show "\<exists>bc. renderHandler C N rq no_caches =
     (Answer 200 rawFormat [] (MarshalRaw print_three sample_results) False,
      \<lparr>c_response = [request_key C N rq \<mapsto> MarshalRaw print_three sample_results], c_backend = bc\<rparr>)"
    unfolding renderHandler_def by (simp add: Let_def f m q v nc t render_targets_of_def ValidRenderFormat_def)
  show "renderHandler C N rq caches = (Answer 200 rawFormat [] b True, caches)"
    if "c_response caches (request_key C N rq) = Some b"
    using that unfolding renderHandler_def request_key_def
    by (simp add: Let_def f m q v nc t render_targets_of_def ValidRenderFormat_def writeResponse_def)
qed


end
