(* ===== verification/Float_Order.thy ===== *)
theory Float_Order
  imports Float64
begin

text \<open>
  Rounding is monotone, so sums and differences of floats respect the order: with these lemmas a
  bound on exact values carries over to what the program computes.
\<close>

section \<open>Rounding is monotone\<close>

lemma round_half_even_mono: "x \<le> y \<Longrightarrow> round_half_even x \<le> round_half_even y"
proof (cases "\<lfloor>x\<rfloor> = \<lfloor>y\<rfloor>")
  case True
  assume "x \<le> y"
  then show ?thesis using True by (auto simp: round_half_even_def Let_def)
next
  case False
  assume "x \<le> y"
  then have "\<lfloor>x\<rfloor> + 1 \<le> \<lfloor>y\<rfloor>" using False floor_mono[of x y] by linarith
  moreover have "round_half_even x \<le> \<lfloor>x\<rfloor> + 1" by (simp add: round_half_even_def Let_def)
  ultimately show ?thesis using round_half_even_ge[of y] by linarith
qed

lemma rat_exponent_mono: "0 < p \<Longrightarrow> p \<le> q \<Longrightarrow> rat_exponent p \<le> rat_exponent q"
  by (rule rat_exponent_ge) (use rat_exponent_bounds(1)[of p] in linarith)

lemma pow2_split: "e \<le> k \<Longrightarrow> pow2 k = of_int (2 ^ nat (k - e)) * pow2 e"
  using pow2_add[of "k - e" e] by (simp add: pow2_def[of "k - e"])

text \<open>A power of two between two numbers is also between the rounded ones.\<close>

lemma round_pos_le_pow2:
  assumes "0 < q" "q \<le> pow2 k" "ulp_exponent q \<le> k" shows "round_pos q \<le> pow2 k"
proof -
  define u where "u = pow2 (ulp_exponent q)"
  have u: "0 < u" by (simp add: u_def)
  define N :: int where "N = 2 ^ nat (k - ulp_exponent q)"
  have k: "pow2 k = of_int N * u" unfolding u_def N_def by (rule pow2_split[OF assms(3)])
  have "q / u \<le> of_int N" using assms(2) u by (simp add: k divide_le_eq)
  then have "round_half_even (q / u) \<le> N" using round_half_even_mono[of "q / u" "of_int N"] by simp
  then have "of_int (round_half_even (q / u)) * u \<le> of_int N * u" using u by simp
  then show ?thesis by (simp add: round_pos_def u_def[symmetric] k)
qed

lemma round_pos_ge_pow2:
  assumes "0 < q" "pow2 k \<le> q" "ulp_exponent q \<le> k" shows "pow2 k \<le> round_pos q"
proof -
  define u where "u = pow2 (ulp_exponent q)"
  have u: "0 < u" by (simp add: u_def)
  define N :: int where "N = 2 ^ nat (k - ulp_exponent q)"
  have k: "pow2 k = of_int N * u" unfolding u_def N_def by (rule pow2_split[OF assms(3)])
  have "of_int N \<le> q / u" using assms(2) u by (simp add: k le_divide_eq)
  then have "N \<le> round_half_even (q / u)" using round_half_even_mono[of "of_int N" "q / u"] by simp
  then have "of_int N * u \<le> of_int (round_half_even (q / u)) * u" using u by simp
  then show ?thesis by (simp add: round_pos_def u_def[symmetric] k)
qed

lemma round_pos_mono:
  assumes "0 < p" "p \<le> q" shows "round_pos p \<le> round_pos q"
proof (cases "ulp_exponent p = ulp_exponent q")
  case True
  have "p / pow2 (ulp_exponent q) \<le> q / pow2 (ulp_exponent q)" using assms(2) by (simp add: divide_right_mono less_imp_le)
  then have "of_int (round_half_even (p / pow2 (ulp_exponent q))) \<le> (of_int (round_half_even (q / pow2 (ulp_exponent q))) :: rat)"
    using round_half_even_mono by simp
  then show ?thesis unfolding round_pos_def True by (intro mult_right_mono) (simp_all add: less_imp_le)
next
  case False
  define k where "k = rat_exponent q"
  have q: "0 < q" using assms by linarith
  have le: "rat_exponent p \<le> k" using rat_exponent_mono[OF assms] by (simp add: k_def)
  then have u: "ulp_exponent p \<le> k" "ulp_exponent q \<le> k" "rat_exponent p + 1 \<le> k"
    using False by (auto simp: ulp_exponent_def k_def max_def split: if_splits)
  have "p \<le> pow2 (rat_exponent p + 1)" using rat_exponent_bounds(2)[OF assms(1)] by simp
  also have "\<dots> \<le> pow2 k" using u(3) by (rule pow2_mono)
  finally have "round_pos p \<le> pow2 k" using u(1) by (intro round_pos_le_pow2 assms(1))
  also have "pow2 k \<le> round_pos q"
    using rat_exponent_bounds(1)[OF q] u(2) by (intro round_pos_ge_pow2 q) (simp_all add: k_def)
  finally show ?thesis .
qed

lemma round_pos_nonneg: "0 \<le> q \<Longrightarrow> 0 \<le> round_pos q"
proof -
  assume q: "0 \<le> q"
  have "0 \<le> \<lfloor>q / pow2 (ulp_exponent q)\<rfloor>"
    using divide_nonneg_pos[OF q pow2_pos[of "ulp_exponent q"]] by simp
  then have "0 \<le> round_half_even (q / pow2 (ulp_exponent q))" using round_half_even_ge by (rule order_trans)
  then show ?thesis unfolding round_pos_def by (intro mult_nonneg_nonneg less_imp_le[OF pow2_pos]) simp
qed

text \<open>The order of floats by an extended value: infinities are beyond all numbers.\<close>

lemma le_f64_finite: "finite64 x \<Longrightarrow> finite64 y \<Longrightarrow> x \<le> y \<longleftrightarrow> fval x \<le> fval y"
  by (cases x; cases y) (auto simp: less_eq_f64_def)

lemma le_f64_inf [simp]: "\<not> isNaN x \<Longrightarrow> x \<le> FInf False" "\<not> isNaN x \<Longrightarrow> FInf True \<le> x"
  by (cases x; auto simp: less_eq_f64_def)+

lemma round64_cases:
  "round64 s q =
     (if q = 0 then mk_zero s
      else if q < 0 then - round64 True (- q)
      else if round_pos q = 0 then FNum 0
      else if 1024 \<le> rat_exponent (round_pos q) then FInf False else FNum (round_pos q))"
  by (auto simp: round64_def mk_zero_def Let_def)


lemma uminus_le_f64 [simp]: "- x \<le> - y \<longleftrightarrow> y \<le> (x :: f64)"
  by (cases x; cases y) (auto simp: less_eq_f64_def)

lemma f64_nonneg_cases: "0 \<le> x \<longleftrightarrow> x = FInf False \<or> finite64 x \<and> 0 \<le> fval x"
  by (cases x) (auto simp: less_eq_f64_def zero_f64_def)

lemma round64_nonneg: "0 \<le> q \<Longrightarrow> 0 \<le> round64 s q"
  using round_pos_nonneg[of q] by (auto simp: f64_nonneg_cases round64_def mk_zero_def Let_def)

lemma round64_nonpos: "q \<le> 0 \<Longrightarrow> round64 s q \<le> 0"
proof (cases "q = 0")
  case True
  then show ?thesis by (auto simp: mk_zero_def less_eq_f64_def zero_f64_def)
next
  case False
  assume "q \<le> 0"
  then have "round64 s q = - round64 True (- q)" "0 \<le> round64 True (- q)"
    using False round64_cases[of s q] by (simp_all add: round64_nonneg)
  moreover have "- x \<le> 0" if "0 \<le> x" for x :: f64
    using that by (cases x) (auto simp: less_eq_f64_def zero_f64_def)
  ultimately show ?thesis by simp
qed

lemma round64_mono_pos:
  assumes "0 < p" "p \<le> q" shows "round64 s p \<le> round64 t q"
proof -
  have q: "0 < q" using assms by linarith
  have m: "round_pos p \<le> round_pos q" "0 \<le> round_pos p" "0 \<le> round_pos q"
    using round_pos_mono[OF assms] round_pos_nonneg[of p] round_pos_nonneg[of q] assms(1) q by simp_all
  have "1024 \<le> rat_exponent (round_pos q)" if "1024 \<le> rat_exponent (round_pos p)" "round_pos p \<noteq> 0"
    using rat_exponent_mono[of "round_pos p" "round_pos q"] m that by linarith
  then show ?thesis
    using m assms(1) q by (auto simp: round64_cases[of s p] round64_cases[of t q] le_f64_finite)
qed

lemma round64_mono: "p \<le> q \<Longrightarrow> round64 s p \<le> round64 t q"
proof -
  assume le: "p \<le> q"
  consider "0 < p" | "p \<le> 0" "0 \<le> q" | "p < 0" "q < 0" using le by linarith
  then show ?thesis
  proof cases
    case 1
    then show ?thesis using round64_mono_pos le by simp
  next
    case 2
    then show ?thesis using round64_nonpos round64_nonneg le_f64_trans by blast
  next
    case 3
    then have "round64 s p = - round64 True (- p)" "round64 t q = - round64 True (- q)"
      using round64_cases[of s p] round64_cases[of t q] by simp_all
    moreover have "round64 True (- q) \<le> round64 True (- p)" using 3 le by (intro round64_mono_pos) simp_all
    ultimately show ?thesis by simp
  qed
qed

section \<open>Arithmetic and the order\<close>

lemma plus_f64_finite: "finite64 x \<Longrightarrow> finite64 y \<Longrightarrow> x + y = round64 (x = FNegZero \<and> y = FNegZero) (fval x + fval y)"
  by (cases x; cases y) (auto simp: plus_f64_def)

lemma minus_f64_finite: "finite64 x \<Longrightarrow> finite64 y \<Longrightarrow> x - y = round64 (x = FNegZero \<and> - y = FNegZero) (fval x - fval y)"
  by (cases x; cases y) (auto simp: minus_f64_def plus_f64_def)

lemma nonneg_sum:
  fixes x y :: f64
  assumes "0 \<le> x" "0 \<le> y" shows "0 \<le> x + y"
proof (cases "isInf x \<or> isInf y")
  case True
  then show ?thesis using assms by (cases x; cases y) (auto simp: plus_f64_def f64_nonneg_cases)
next
  case False
  then have f: "finite64 x" "finite64 y" "0 \<le> fval x + fval y" using assms by (auto simp: f64_nonneg_cases)
  then show ?thesis using round64_nonneg[OF f(3)] by (simp add: plus_f64_finite)
qed

lemma nonneg_difference:
  fixes x y :: f64
  assumes "y \<le> x" shows "x - y = FNaN \<or> 0 \<le> x - y"
proof (cases "isInf x \<or> isInf y")
  case True
  then show ?thesis
    using assms by (cases x; cases y) (auto simp: minus_f64_def plus_f64_def less_eq_f64_def zero_f64_def)
next
  case False
  then have "finite64 x" "finite64 y" "fval y \<le> fval x"
    using assms by (cases x; cases y; auto simp: less_eq_f64_def)+
  then show ?thesis by (simp add: minus_f64_finite round64_nonneg)
qed

lemma nonneg_product:
  fixes x y :: f64
  assumes "0 \<le> x" "0 \<le> y" shows "x * y = FNaN \<or> 0 \<le> x * y"
proof (cases "isInf x \<or> isInf y")
  case True
  then show ?thesis using assms by (cases x; cases y) (auto simp: times_f64_def f64_nonneg_cases)
next
  case False
  then have f: "finite64 x" "finite64 y" "0 \<le> fval x * fval y" using assms by (auto simp: f64_nonneg_cases)
  then show ?thesis using round64_nonneg[OF f(3)] by (cases x; cases y) (auto simp: times_f64_def)
qed

text \<open>Something that is not negative, taken away or added.\<close>

lemma minus_le_plus:
  fixes x y :: f64
  assumes "0 \<le> y" shows "isNaN (x - y) \<or> isNaN (x + y) \<or> x - y \<le> x + y"
proof (cases "isInf x \<or> isInf y")
  case True
  then show ?thesis
    using assms by (cases x; cases y) (auto simp: minus_f64_def plus_f64_def zero_f64_def less_eq_f64_def)
next
  case False
  show ?thesis
  proof (cases "isNaN x")
    case True
    then have "x = FNaN" by (cases x) auto
    then show ?thesis by simp
  next
    case nan: False
    have "finite64 x" "finite64 y" "0 \<le> fval y"
      using False nan assms by (cases x; auto simp: f64_nonneg_cases)+
    then show ?thesis by (simp add: plus_f64_finite minus_f64_finite round64_mono)
  qed
qed

end
