(* ===== verification/Transforms.thy ===== *)
theory Transforms
  imports Helpers Windowed Dates Float_Order
begin

text \<open>
  Functions of \<open>expr/functions\<close> that make one series of each series: differences and sums
  (\<open>derivative\<close>, \<open>nonNegativeDerivative\<close>, \<open>perSecond\<close>, \<open>integral\<close> and its variants), filling of gaps
  (\<open>keepLastValue\<close>, \<open>interpolate\<close>, \<open>transformNull\<close>), shifts (\<open>delay\<close>, \<open>timeShift\<close>, \<open>timeSlice\<close>) and
  maps of the values. The values are computed by one loop per function, \<open>f_loop\<close>; \<open>f_Do\<close> is the
  method \<open>Do\<close>. \<open>CopyLink\<close> copies the tags, so a series that is returned shares none with its source.
\<close>

section \<open>Loops over the values\<close>

fun derivative_loop :: "f64 \<Rightarrow> f64 list \<Rightarrow> f64 list" where
  "derivative_loop prev [] = []"
| "derivative_loop prev (v # vs) = (v - prev) # derivative_loop (if isNaN v then prev else v) vs"

fun integral_loop :: "f64 \<Rightarrow> f64 list \<Rightarrow> f64 list" where
  "integral_loop current [] = []"
| "integral_loop current (v # vs) =
     (if isNaN v then FNaN # integral_loop current vs
      else (current + v) # integral_loop (current + v) vs)"

text \<open>The sum starts again when the time enters another bucket; a bucket size of zero is a division by zero.\<close>

fun byInterval_loop :: "int \<Rightarrow> int \<Rightarrow> int \<Rightarrow> int \<Rightarrow> f64 \<Rightarrow> f64 list \<Rightarrow> f64 list go_result" where
  "byInterval_loop startTime bucketSize step currentTime current [] = Some []"
| "byInterval_loop startTime bucketSize step currentTime current (v # vs) =
     Option.bind (go_div (currentTime - startTime) bucketSize) (\<lambda>a.
     Option.bind (go_div (currentTime - startTime - step) bucketSize) (\<lambda>b.
       let current' = (if a \<noteq> b then 0 else current) + (if isNaN v then 0 else v)
       in map_option ((#) current') (byInterval_loop startTime bucketSize step (currentTime + step) current' vs)))"

fun withReset_loop :: "f64 \<Rightarrow> f64 list \<Rightarrow> f64 list \<Rightarrow> f64 list" where
  "withReset_loop current (v # vs) (r # rs) =
     (if isNaN v then v # withReset_loop current vs rs
      else (let current' = (if \<not> isNaN r \<and> \<not> feq r 0 then 0 else current + v)
            in current' # withReset_loop current' vs rs))"
| "withReset_loop current _ _ = []"

text \<open>
  The limits of a counter. Both loops set \<open>prev\<close> to the value they have just seen, whatever it is, so
  \<open>prev\<close> is also the value \<open>a.Values[i-1]\<close> they test.
\<close>

record counter_limits =
  hasMax :: bool
  hasMin :: bool
  maxValue :: f64
  minValue :: f64

definition counter_point :: "counter_limits \<Rightarrow> f64 \<Rightarrow> f64 \<Rightarrow> f64" where
  "counter_point C prev v =
     (if isNaN v \<or> isNaN prev then FNaN
      else (let diff = v - prev
            in if 0 \<le> diff then diff
               else if hasMax C \<and> v \<le> maxValue C then (maxValue C - prev) + (v - minValue C) + 1
               else if hasMin C \<and> minValue C \<le> v then v - minValue C
               else FNaN))"

fun counter_loop :: "counter_limits \<Rightarrow> f64 \<Rightarrow> f64 list \<Rightarrow> f64 list" where
  "counter_loop C prev [] = []"
| "counter_loop C prev (v # vs) = counter_point C prev v # counter_loop C v vs"

definition nonNegativeDerivative_values :: "counter_limits \<Rightarrow> f64 list \<Rightarrow> f64 list" where
  "nonNegativeDerivative_values C vs = (case vs of [] \<Rightarrow> [] | v # vs' \<Rightarrow> FNaN # counter_loop C v vs')"

definition rate_point :: "counter_limits \<Rightarrow> int \<Rightarrow> f64 \<Rightarrow> f64 \<Rightarrow> f64" where
  "rate_point C step prev v =
     (if isNaN v \<or> isNaN prev then FNaN
      else (let diff = v - prev
            in if 0 \<le> diff then diff div f64_of_int step
               else if hasMax C \<and> v \<le> maxValue C
               then ((maxValue C - prev) + (v - minValue C) + 1) div f64_of_int step
               else if hasMin C \<and> minValue C \<le> v then (v - minValue C) div f64_of_int step
               else FNaN))"

fun rate_loop :: "counter_limits \<Rightarrow> int \<Rightarrow> f64 \<Rightarrow> f64 list \<Rightarrow> f64 list" where
  "rate_loop C step prev [] = []"
| "rate_loop C step prev (v # vs) = rate_point C step prev v # rate_loop C step v vs"

definition perSecond_values :: "counter_limits \<Rightarrow> int \<Rightarrow> f64 list \<Rightarrow> f64 list" where
  "perSecond_values C step vs = (case vs of [] \<Rightarrow> [] | v # vs' \<Rightarrow> FNaN # rate_loop C step v vs')"

definition keeps :: "IntOrInf \<Rightarrow> nat \<Rightarrow> bool" where
  "keeps limit missing = (case limit of IOInf \<Rightarrow> True | IOInt n \<Rightarrow> n < 0 \<or> int missing < n)"

fun keep_loop :: "IntOrInf \<Rightarrow> f64 \<Rightarrow> nat \<Rightarrow> f64 list \<Rightarrow> f64 list" where
  "keep_loop limit prev missing [] = []"
| "keep_loop limit prev missing (v # vs) =
     (if isNaN v
      then (if keeps limit missing \<and> \<not> isNaN prev then prev # keep_loop limit prev (missing + 1) vs
            else FNaN # keep_loop limit prev missing vs)
      else v # keep_loop limit v 0 vs)"

text \<open>\<open>interpolate\<close> fills the points of a gap in place when it reaches the value after it.\<close>

definition fill_gap :: "f64 list \<Rightarrow> nat \<Rightarrow> nat \<Rightarrow> f64 list" where
  "fill_gap xs i n =
     foldl (\<lambda>ys j. ys[i - n + j := xs ! (i - n - 1)
         + f64_of_int (int (j + 1)) div f64_of_int (int (n + 1)) * (xs ! i - xs ! (i - n - 1))])
       xs [0..<n]"

definition gap_allowed :: "IntOrInf \<Rightarrow> nat \<Rightarrow> bool" where
  "gap_allowed limit n = (case limit of IOInf \<Rightarrow> True | IOInt m \<Rightarrow> int n \<le> m)"

text \<open>The loop with \<open>k\<close> points to go at the index \<open>i\<close>; \<open>n\<close> counts the absent points just before it.\<close>

fun interpolate_loop :: "IntOrInf \<Rightarrow> nat \<Rightarrow> nat \<Rightarrow> nat \<Rightarrow> f64 list \<Rightarrow> f64 list" where
  "interpolate_loop limit 0 i n xs = xs"
| "interpolate_loop limit (Suc k) i n xs =
     (if i = 0 then interpolate_loop limit k (i + 1) n xs
      else if isNaN (xs ! i) then interpolate_loop limit k (i + 1) (n + 1) xs
      else if n = 0 then interpolate_loop limit k (i + 1) n xs
      else if isNaN (xs ! (i - n - 1)) then interpolate_loop limit k (i + 1) 0 xs
      else interpolate_loop limit k (i + 1) 0 (if gap_allowed limit n then fill_gap xs i n else xs))"

definition interpolate_values :: "IntOrInf \<Rightarrow> f64 list \<Rightarrow> f64 list" where
  "interpolate_values limit xs = interpolate_loop limit (length xs) 0 0 xs"

fun changed_loop :: "f64 \<Rightarrow> f64 list \<Rightarrow> f64 list" where
  "changed_loop prev [] = []"
| "changed_loop prev (v # vs) =
     (if isNaN prev then 0 # changed_loop v vs
      else if \<not> isNaN v \<and> \<not> feq prev v then 1 # changed_loop v vs
      else 0 # changed_loop prev vs)"

fun scale_loop :: "f64 \<Rightarrow> int \<Rightarrow> int \<Rightarrow> int \<Rightarrow> f64 list \<Rightarrow> f64 list" where
  "scale_loop factor timestamp step currentTimestamp [] = []"
| "scale_loop factor timestamp step currentTimestamp (v # vs) =
     (if timestamp \<le> currentTimestamp then v * factor else v)
     # scale_loop factor timestamp step (currentTimestamp + step) vs"

fun slice_loop :: "int \<Rightarrow> int \<Rightarrow> int \<Rightarrow> int \<Rightarrow> f64 list \<Rightarrow> f64 list" where
  "slice_loop start stop step current [] = []"
| "slice_loop start stop step current (v # vs) =
     (if current < start \<or> stop < current then FNaN else v) # slice_loop start stop step (current + step) vs"

text \<open>The shift \<open>-steps\<close> wraps around for the least integer, and the slice panics.\<close>

definition delay_values :: "int \<Rightarrow> f64 list \<Rightarrow> f64 list go_result" where
  "delay_values steps vs =
     (if steps < 0
      then (let shift = min (wrap64 (- steps)) (int (length vs))
            in map_option (\<lambda>ws. ws @ replicate (nat shift) FNaN) (go_drop shift vs))
      else if steps \<noteq> 0
      then (let shift = min (nat steps) (length vs) in Some (replicate shift FNaN @ take (length vs - shift) vs))
      else Some vs)"

definition minimum :: "f64 list \<Rightarrow> f64" where
  "minimum vs = foldl (\<lambda>m v. if v < m then v else m) (FInf False) vs"

definition minMax_values :: "f64 list \<Rightarrow> f64 list" where
  "minMax_values vs =
     (let mn0 = MinValue vs; mn = (if mn0 = FInf False then 0 else mn0);
          mx0 = MaxValue vs; mx = (if mx0 = FInf True then 0 else mx0)
      in map (\<lambda>v. if isNaN v then FNaN else if \<not> feq mx mn then (v - mn) div (mx - mn) else 0) vs)"


section \<open>The functions\<close>

text \<open>The series of the first argument, and the copy of a series with new values.\<close>

definition each_series ::
  "evaluator \<Rightarrow> expr \<Rightarrow> int \<Rightarrow> int \<Rightarrow> (MetricData list \<Rightarrow> 'a ev) \<Rightarrow> 'a ev" where
  "each_series ev e start stop k =
     ev_bind (Arg e 0) (\<lambda>a0. ev_bind (GetSeriesArg ev a0 start stop) k)"

definition renamed :: "string \<Rightarrow> f64 list \<Rightarrow> MetricData \<Rightarrow> MetricData" where
  "renamed name vs a = (CopyLink a)\<lparr>Name := name, Values := vs\<rparr>"

definition tagged :: "string \<Rightarrow> string \<Rightarrow> string \<Rightarrow> f64 list \<Rightarrow> MetricData \<Rightarrow> MetricData" where
  "tagged tag v name vs a = (renamed name vs a)\<lparr>MTags := AList.update tag v (MTags a)\<rparr>"

definition set_tag :: "string \<Rightarrow> string \<Rightarrow> MetricData \<Rightarrow> MetricData" where
  "set_tag tag v r = r\<lparr>MTags := AList.update tag v (MTags r)\<rparr>"

definition other_error :: "string \<Rightarrow> eval_error" where
  "other_error s = plain_error (OtherCause s)"

definition missing_argument :: eval_error where
  "missing_argument = plain_error (ParserCause ErrMissingArgument)"

definition absolute_Do :: "evaluator \<Rightarrow> expr \<Rightarrow> int \<Rightarrow> int \<Rightarrow> MetricData list ev" where
  "absolute_Do ev e start stop =
     ForEachSeriesDo ev e start stop (\<lambda>a r.
       set_tag ''absolute'' ''1'' (r\<lparr>Values := map (\<lambda>v. if isNaN v then FNaN else \<bar>v\<bar>) (Values a)\<rparr>))"

definition invert_Do :: "evaluator \<Rightarrow> expr \<Rightarrow> int \<Rightarrow> int \<Rightarrow> MetricData list ev" where
  "invert_Do ev e start stop =
     ForEachSeriesDo ev e start stop (\<lambda>a r.
       set_tag ''invert'' ''1'' (r\<lparr>Values := map (\<lambda>v. if feq v 0 then FNaN else 1 div v) (Values a)\<rparr>))"

text \<open>\<open>isNotNull\<close> first renames the target of its expression.\<close>

definition isNotNull_Do :: "evaluator \<Rightarrow> expr \<Rightarrow> int \<Rightarrow> int \<Rightarrow> MetricData list ev" where
  "isNotNull_Do ev e start stop =
     ForEachSeriesDo ev (set_target ''isNonNull'' e) start stop (\<lambda>a r.
       set_tag ''isNonNull'' ''1'' (r\<lparr>Values := map (\<lambda>v. if isNaN v then 0 else 1) (Values a)\<rparr>))"

definition derivative_Do :: "evaluator \<Rightarrow> expr \<Rightarrow> int \<Rightarrow> int \<Rightarrow> MetricData list ev" where
  "derivative_Do ev e start stop =
     ForEachSeriesDo ev e start stop (\<lambda>a r.
       set_tag ''derivative'' ''1'' (r\<lparr>Values := derivative_loop FNaN (Values a)\<rparr>))"

definition integral_Do :: "evaluator \<Rightarrow> expr \<Rightarrow> int \<Rightarrow> int \<Rightarrow> MetricData list ev" where
  "integral_Do ev e start stop =
     ForEachSeriesDo ev e start stop (\<lambda>a r.
       set_tag ''integral'' ''1'' (r\<lparr>Values := integral_loop 0 (Values a)\<rparr>))"

definition offsetToZero_Do :: "go_env \<Rightarrow> evaluator \<Rightarrow> expr \<Rightarrow> int \<Rightarrow> int \<Rightarrow> MetricData list ev" where
  "offsetToZero_Do E ev e start stop =
     ForEachSeriesDo ev e start stop (\<lambda>a r.
       set_tag ''offsetToZero'' (Sprint_f64 E (minimum (Values a)))
         (r\<lparr>Values := map (\<lambda>v. v - minimum (Values a)) (Values a)\<rparr>))"

definition integralByInterval_Do :: "go_env \<Rightarrow> evaluator \<Rightarrow> expr \<Rightarrow> int \<Rightarrow> int \<Rightarrow> MetricData list ev" where
  "integralByInterval_Do E ev e start stop =
     (if length (args e) < 2 then throw missing_argument
      else each_series ev e start stop (\<lambda>as.
        if as = [] then ret []
        else ev_bind (of_parser (GetIntervalArg E e 1 1)) (\<lambda>bucketSize.
             ev_bind (of_parser (GetStringArg e 1)) (\<lambda>intervalString.
               of_go (opt_map (\<lambda>a.
                   let name = ''integralByInterval('' @ Name a @ '','' @ [CHR 0x27] @ intervalString @ [CHR 0x27] @ '')''
                   in map_option (\<lambda>vs. (tagged ''integralByInterval'' intervalString name vs a)\<lparr>PathExpression := name\<rparr>)
                        (byInterval_loop start bucketSize (StepTime a) (StartTime a) 0 (Values a))) as)))))"

definition ErrWildcardNotAllowed :: string where
  "ErrWildcardNotAllowed = ''found wildcard where series expected''"

definition integralWithReset_Do :: "evaluator \<Rightarrow> expr \<Rightarrow> int \<Rightarrow> int \<Rightarrow> MetricData list ev" where
  "integralWithReset_Do ev e start stop =
     each_series ev e start stop (\<lambda>as.
       ev_bind (Arg e 1) (\<lambda>a1. ev_bind (GetSeriesArg ev a1 start stop) (\<lambda>resetting.
         case resetting of
           [reset] \<Rightarrow>
             (case find (\<lambda>a. StepTime a \<noteq> StepTime reset \<or> length (Values a) \<noteq> length (Values reset)) as of
                Some a \<Rightarrow> throw (other_error (''series '' @ Name a @ '' must have the same length as '' @ Name reset))
              | None \<Rightarrow>
                  ret (map (\<lambda>a. renamed (''integralWithReset('' @ Name a @ '','' @ Name reset @ '')'')
                                  (withReset_loop 0 (Values a) (Values reset)) a) as))
         | _ \<Rightarrow> throw (other_error ErrWildcardNotAllowed))))"

definition cumulative_Do :: "evaluator \<Rightarrow> expr \<Rightarrow> int \<Rightarrow> int \<Rightarrow> MetricData list ev" where
  "cumulative_Do ev e start stop =
     each_series ev e start stop (\<lambda>as. ret (map (\<lambda>a.
       (tagged ''consolidateBy'' ''sum'' (''consolidateBy('' @ Name a @ '','' @ [CHR 0x22] @ ''sum'' @ [CHR 0x22] @ '')'')
          (Values a) a)\<lparr>MConsolidationFunc := ''sum''\<rparr>) as))"

text \<open>The limits of a counter from the arguments, and the arguments as they appear in the new name.\<close>

definition counter_args :: "go_env \<Rightarrow> expr \<Rightarrow> counter_limits ev" where
  "counter_args E e =
     ev_bind (of_parser (GetFloatNamedOrPosArgDefault E e ''maxValue'' 1 FNaN)) (\<lambda>mx.
     ev_bind (of_parser (GetFloatNamedOrPosArgDefault E e ''minValue'' 2 FNaN)) (\<lambda>mn.
       if \<not> isNaN mx \<and> \<not> isNaN mn \<and> mx \<le> mn
       then throw (other_error ''minValue must be lower than maxValue'')
       else ret \<lparr>hasMax = (\<not> isNaN mx), hasMin = (\<not> isNaN mn), maxValue = mx,
                 minValue = (if \<not> isNaN mx \<and> isNaN mn then 0 else mn)\<rparr>))"

definition counter_name :: "go_env \<Rightarrow> expr \<Rightarrow> counter_limits \<Rightarrow> string \<Rightarrow> string \<Rightarrow> string" where
  "counter_name E e C f name =
     (let mx = (if hasMax C then Sprint_f64 E (maxValue C) else []);
          mn = (if hasMin C then Sprint_f64 E (minValue C) else []);
          m1 = (getNamedArg e ''maxValue'' \<noteq> None \<or> 1 < length (args e));
          m2 = (getNamedArg e ''minValue'' \<noteq> None \<or> 2 < length (args e))
      in f @ ''('' @ name
         @ (if m1 \<and> m2 then '','' @ mx @ '','' @ mn else if m2 then '',minValue='' @ mn
            else if m1 then '','' @ mx else []) @ '')'')"

definition nonNegativeDerivative_Do :: "go_env \<Rightarrow> evaluator \<Rightarrow> expr \<Rightarrow> int \<Rightarrow> int \<Rightarrow> MetricData list ev" where
  "nonNegativeDerivative_Do E ev e start stop =
     each_series ev e start stop (\<lambda>as. ev_bind (counter_args E e) (\<lambda>C.
       ret (map (\<lambda>a. tagged ''nonNegativeDerivative'' ''1'' (counter_name E e C ''nonNegativeDerivative'' (Name a))
                       (nonNegativeDerivative_values C (Values a)) a) as)))"

definition perSecond_Do :: "go_env \<Rightarrow> evaluator \<Rightarrow> expr \<Rightarrow> int \<Rightarrow> int \<Rightarrow> MetricData list ev" where
  "perSecond_Do E ev e start stop =
     each_series ev e start stop (\<lambda>as. ev_bind (counter_args E e) (\<lambda>C.
       ret (map (\<lambda>a. tagged ''perSecond'' ''1'' (counter_name E e C ''perSecond'' (Name a))
                       (perSecond_values C (StepTime a) (Values a)) a) as)))"


definition show_limit :: "IntOrInf \<Rightarrow> string" where
  "show_limit l = (case l of IOInf \<Rightarrow> ''inf'' | IOInt n \<Rightarrow> FormatInt n)"

definition keepLastValue_Do :: "go_env \<Rightarrow> evaluator \<Rightarrow> expr \<Rightarrow> int \<Rightarrow> int \<Rightarrow> MetricData list ev" where
  "keepLastValue_Do E ev e start stop =
     each_series ev e start stop (\<lambda>as.
       ev_bind (of_parser (GetIntOrInfNamedOrPosArgDefault E e ''limit'' 1 IOInf)) (\<lambda>keep.
         ret (map (\<lambda>a. renamed (''keepLastValue('' @ Name a
                           @ (if length (args e) < 2 then [] else '','' @ show_limit keep) @ '')'')
                         (keep_loop keep FNaN 0 (Values a)) a) as)))"

definition interpolate_Do :: "go_env \<Rightarrow> evaluator \<Rightarrow> expr \<Rightarrow> int \<Rightarrow> int \<Rightarrow> MetricData list ev" where
  "interpolate_Do E ev e start stop =
     each_series ev e start stop (\<lambda>as.
       ev_bind (of_parser (GetIntOrInfArgDefault E e 1 IOInf)) (\<lambda>limit.
         ret (map (\<lambda>a. renamed (''interpolate('' @ Name a @ '')'') (interpolate_values limit (Values a)) a) as)))"

definition changed_Do :: "evaluator \<Rightarrow> expr \<Rightarrow> int \<Rightarrow> int \<Rightarrow> MetricData list ev" where
  "changed_Do ev e start stop =
     each_series ev e start stop (\<lambda>as.
       ret (map (\<lambda>a. (CopyTag (target e @ ''('' @ Name a @ '')'') (MTags a) a)\<lparr>Values := changed_loop FNaN (Values a)\<rparr>) as))"

definition scale_Do :: "go_env \<Rightarrow> evaluator \<Rightarrow> expr \<Rightarrow> int \<Rightarrow> int \<Rightarrow> MetricData list ev" where
  "scale_Do E ev e start stop =
     (if length (args e) < 2 then throw missing_argument
      else each_series ev e start stop (\<lambda>as.
        ev_bind (of_parser (GetFloatArg E e 1)) (\<lambda>factor.
        ev_bind (of_parser (GetIntArgDefault e 2 0)) (\<lambda>timestamp.
          of_go (opt_map (\<lambda>a.
            map_option (\<lambda>shown. tagged ''scale'' (Sprint_f64 E factor)
                (''scale('' @ Name a @ '','' @ Sprint_f64 E factor @ shown @ '')'')
                (scale_loop factor timestamp (StepTime a) (StartTime a) (Values a)) a)
              (if timestamp = 0 then Some []
               else map_option (\<lambda>x. '','' @ valStr x) (go_index (args e) 2))) as)))))"

definition scaleToSeconds_Do :: "go_env \<Rightarrow> evaluator \<Rightarrow> expr \<Rightarrow> int \<Rightarrow> int \<Rightarrow> MetricData list ev" where
  "scaleToSeconds_Do E ev e start stop =
     (if length (args e) < 2 then throw missing_argument
      else each_series ev e start stop (\<lambda>as.
        ev_bind (of_parser (GetFloatArg E e 1)) (\<lambda>seconds.
          let secondsStr = FormatInt (int_of_f64 seconds)
          in ret (map (\<lambda>a. tagged ''scaleToSeconds'' secondsStr
                 (''scaleToSeconds('' @ Name a @ '','' @ secondsStr @ '')'')
                 (map (\<lambda>v. v * (seconds div f64_of_int (StepTime a))) (Values a)) a) as))))"

definition offset_Do :: "go_env \<Rightarrow> evaluator \<Rightarrow> expr \<Rightarrow> int \<Rightarrow> int \<Rightarrow> MetricData list ev" where
  "offset_Do E ev e start stop =
     (if length (args e) < 2 then throw missing_argument
      else each_series ev e start stop (\<lambda>as.
        ev_bind (of_parser (GetFloatArg E e 1)) (\<lambda>factor.
          ret (map (\<lambda>a. tagged (target e) (Sprint_f64 E factor)
                 (target e @ ''('' @ Name a @ '','' @ Sprint_f64 E factor @ '')'')
                 (map (\<lambda>v. v + factor) (Values a)) a) as))))"

definition squareRoot_Do :: "evaluator \<Rightarrow> expr \<Rightarrow> int \<Rightarrow> int \<Rightarrow> MetricData list ev" where
  "squareRoot_Do ev e start stop =
     each_series ev e start stop (\<lambda>as.
       ret (map (\<lambda>a. tagged ''squareRoot'' ''1'' (''squareRoot('' @ Name a @ '')'') (map fsqrt (Values a)) a) as))"

definition round_Do :: "evaluator \<Rightarrow> expr \<Rightarrow> int \<Rightarrow> int \<Rightarrow> MetricData list ev" where
  "round_Do ev e start stop =
     each_series ev e start stop (\<lambda>as.
       case GetIntNamedOrPosArgWithIndication e ''precision'' 1 of
         (r, withPrecision) \<Rightarrow> ev_bind (of_parser r) (\<lambda>precision.
           ret (map (\<lambda>a. tagged ''round'' (FormatInt precision)
                  (''round('' @ Name a @ (if withPrecision then '','' @ FormatInt precision else []) @ '')'')
                  (map (\<lambda>v. SafeRound v precision) (Values a)) a) as)))"

definition minMax_Do :: "evaluator \<Rightarrow> expr \<Rightarrow> int \<Rightarrow> int \<Rightarrow> MetricData list ev" where
  "minMax_Do ev e start stop =
     each_series ev e start stop (\<lambda>as.
       ret (map (\<lambda>a. renamed (''minMax('' @ Name a @ '')'') (minMax_values (Values a)) a) as))"

definition delay_Do :: "evaluator \<Rightarrow> expr \<Rightarrow> int \<Rightarrow> int \<Rightarrow> MetricData list ev" where
  "delay_Do ev e start stop =
     (if length (args e) < 2 then throw missing_argument
      else each_series ev e start stop (\<lambda>as.
        ev_bind (of_parser (GetIntArg e 1)) (\<lambda>steps.
          let stepsStr = valStr (args e ! 1)
          in of_go (opt_map (\<lambda>a. map_option (\<lambda>vs. tagged ''delay'' stepsStr
                 (''delay('' @ Name a @ '','' @ stepsStr @ '')'') vs a) (delay_values steps (Values a))) as))))"

text \<open>A time of the slice is a time reference, or else an interval.\<close>

definition parseTimeArg :: "date_env \<Rightarrow> location \<Rightarrow> string \<Rightarrow> parser_error + int" where
  "parseTimeArg D zone s =
     (case ParseAtTime D s [] zone of
        Some epoch \<Rightarrow> Inr epoch
      | None \<Rightarrow> (case IntervalString (de_go D) s 1 of Inr secs \<Rightarrow> Inr secs | Inl _ \<Rightarrow> Inl ErrBadType))"

definition timeSlice_Do :: "date_env \<Rightarrow> location \<Rightarrow> evaluator \<Rightarrow> expr \<Rightarrow> int \<Rightarrow> int \<Rightarrow> MetricData list ev" where
  "timeSlice_Do D zone ev e start stop =
     (if length (args e) < 2 then throw missing_argument
      else ev_bind (of_parser (GetStringArg e 1)) (\<lambda>startArg.
           ev_bind (of_parser (GetStringNamedOrPosArgDefault e ''endSliceAt'' 2 ''now'')) (\<lambda>endArg.
           ev_bind (of_parser (parseTimeArg D zone startArg)) (\<lambda>a0.
           ev_bind (of_parser (parseTimeArg D zone endArg)) (\<lambda>b0.
             each_series ev e start stop (\<lambda>as. ret (map (\<lambda>a.
               set_tag ''timeSliceEnd'' (FormatInt b0) (tagged ''timeSliceStart'' (FormatInt a0)
                 (''timeSlice('' @ Name a @ '','' @ FormatInt a0 @ '','' @ FormatInt b0 @ '')'')
                 (slice_loop a0 b0 (StepTime a) start (Values a)) a)) as)))))))"

text \<open>
  \<open>timeShift\<close> cuts the values to the new range. A Go slice may be cut to more than its length as long
  as its array has room; \<open>spare a\<close> is what the array of a series holds after its values.
\<close>

definition timeShift_one ::
  "(MetricData \<Rightarrow> f64 list) \<Rightarrow> int \<Rightarrow> bool \<Rightarrow> int \<Rightarrow> MetricData \<Rightarrow> MetricData option go_result" where
  "timeShift_one spare offs resetEnd until a =
     (let s1 = StopTime a - offs; stop = (if resetEnd \<and> until < s1 then until else s1);
          start = StartTime a - offs
      in Option.bind (go_div (stop - start) (StepTime a)) (\<lambda>n.
           if n < 0 then Some None
           else map_option (\<lambda>vs. Some (set_tag ''timeshift'' (FormatInt offs)
                    ((renamed (''timeShift('' @ Name a @ '','' @ [CHR 0x27] @ FormatInt offs @ [CHR 0x27] @ '',''
                        @ (if resetEnd then ''true'' else ''false'') @ '')'') vs a)
                     \<lparr>StartTime := start, StopTime := stop\<rparr>)))
                  (go_take n (Values a @ spare a))))"

definition timeShift_Do ::
  "go_env \<Rightarrow> (MetricData \<Rightarrow> f64 list) \<Rightarrow> bool \<Rightarrow> evaluator \<Rightarrow> expr \<Rightarrow> int \<Rightarrow> int \<Rightarrow> MetricData list ev" where
  "timeShift_Do E spare ResetEndDefaultValue ev e start stop =
     (if length (args e) < 2 then throw missing_argument
      else ev_bind (of_parser (GetIntervalArg E e 1 (- 1))) (\<lambda>offs.
           ev_bind (of_parser (GetBoolArgDefault e 2 ResetEndDefaultValue)) (\<lambda>resetEnd.
             each_series ev e (start + offs) (stop + offs) (\<lambda>as.
               of_go (map_option (\<lambda>rs. concat (map (\<lambda>r. case r of None \<Rightarrow> [] | Some x \<Rightarrow> [x]) rs))
                 (opt_map (timeShift_one spare offs resetEnd stop) as))))))"

section \<open>Functions that choose series\<close>

definition limit_Do :: "evaluator \<Rightarrow> expr \<Rightarrow> int \<Rightarrow> int \<Rightarrow> MetricData list ev" where
  "limit_Do ev e start stop =
     (if length (args e) < 2 then throw missing_argument
      else each_series ev e start stop (\<lambda>as. ev_bind (of_parser (GetIntArg e 1)) (\<lambda>limit.
             if int (length as) \<le> limit then ret as else of_go (go_take limit as))))"

fun first_of_name :: "string set \<Rightarrow> MetricData list \<Rightarrow> MetricData list" where
  "first_of_name seen [] = []"
| "first_of_name seen (a # as) =
     (if Name a \<in> seen then first_of_name seen as else a # first_of_name (insert (Name a) seen) as)"

definition unique_Do :: "evaluator \<Rightarrow> expr \<Rightarrow> int \<Rightarrow> int \<Rightarrow> MetricData list ev" where
  "unique_Do ev e start stop = each_series ev e start stop (\<lambda>as. ret (first_of_name {} as))"

definition group_Do :: "evaluator \<Rightarrow> expr \<Rightarrow> int \<Rightarrow> int \<Rightarrow> MetricData list ev" where
  "group_Do ev e start stop =
     ev_bind (GetSeriesArgsAndRemoveNonExisting ev e start stop) (\<lambda>(as, _). ret as)"

text \<open>An error of either argument alone is dropped.\<close>

definition fallbackSeries_Do :: "evaluator \<Rightarrow> expr \<Rightarrow> int \<Rightarrow> int \<Rightarrow> MetricData list ev" where
  "fallbackSeries_Do ev e start stop =
     (if length (args e) < 2 then throw (plain_error (ParserCause ErrMissingTimeseries))
      else (\<lambda>s. Option.bind (GetSeriesArg ev (args e ! 0) start stop s) (\<lambda>(r1, s1).
                Option.bind (GetSeriesArg ev (args e ! 1) start stop s1) (\<lambda>(r2, s2).
                  Some (case (r1, r2) of
                      (Inl _, Inl err) \<Rightarrow> Inl err
                    | (Inr (a # as), _) \<Rightarrow> Inr (a # as)
                    | (_, Inr fallback) \<Rightarrow> Inr fallback
                    | (Inr [], Inl _) \<Rightarrow> Inr [], s2)))))"

definition counts_as_present :: "string \<Rightarrow> f64 \<Rightarrow> bool" where
  "counts_as_present f v \<longleftrightarrow>
     \<not> isNaN v \<and> (f = ''removeEmptySeries'' \<or> f = ''removeZeroSeries'' \<and> \<not> feq v 0)"

definition removeEmptySeries_Do :: "go_env \<Rightarrow> (f64 \<Rightarrow> string) \<Rightarrow> evaluator \<Rightarrow> expr \<Rightarrow> int \<Rightarrow> int \<Rightarrow> MetricData list ev" where
  "removeEmptySeries_Do E fmtF ev e start stop =
     each_series ev e start stop (\<lambda>as.
       if as = [] then ret []
       else ev_bind (if length (args e) = 2 then of_parser (GetFloatArgDefault E e 1 (XFilesFactor (hd as))) else ret 0) (\<lambda>xff.
         ret (map (set_tag (target e) (fmtF xff))
           (filter (\<lambda>a. let nonNull = length (filter (counts_as_present (target e)) (Values a))
                        in nonNull \<noteq> 0 \<and> helper_XFilesFactor (int nonNull) (int (length (Values a))) xff) as))))"


section \<open>Periodic gaps\<close>

text \<open>The indices of the first two present values.\<close>

definition first_two :: "f64 list \<Rightarrow> int \<times> int" where
  "first_two vs =
     (case filter (\<lambda>i. \<not> isNaN (vs ! i)) [0..<length vs] of
        [] \<Rightarrow> (- 1, - 1) | [i] \<Rightarrow> (int i, - 1) | i # j # _ \<Rightarrow> (int i, int j))"

text \<open>The new step when the third value comes after the same gap and has gaps around it.\<close>

definition gap_interval :: "MetricData \<Rightarrow> f64" where
  "gap_interval a =
     (let vs = Values a; (i, j) = first_two vs; guess = j - i; k = j + guess
      in if 1 < guess \<and> k \<le> int (length vs) - 2 \<and> \<not> isNaN (vs ! nat k)
            \<and> isNaN (vs ! nat (k - 1)) \<and> isNaN (vs ! nat (k + 1))
         then f64_of_int (wrap64 (guess * StepTime a)) else FNaN)"

record gap_state =
  gs_out :: "f64 list"
  gs_ridx :: nat
  gs_items :: nat
  gs_new :: "f64 list"

definition put_bucket :: "(f64 list \<Rightarrow> f64) \<Rightarrow> gap_state \<Rightarrow> gap_state go_result" where
  "put_bucket f g =
     (if gs_ridx g < length (gs_out g)
      then Some \<lparr>gs_out = (gs_out g)[gs_ridx g := f (gs_new g)], gs_ridx = gs_ridx g + 1, gs_items = 0, gs_new = []\<rparr>
      else Panic)"

fun gaps_loop :: "(f64 list \<Rightarrow> f64) \<Rightarrow> int \<Rightarrow> int \<Rightarrow> f64 \<Rightarrow> f64 \<Rightarrow> int \<Rightarrow> f64 list \<Rightarrow> gap_state \<Rightarrow> gap_state go_result" where
  "gaps_loop f step stop interval intervalEnd t [] g = Some g"
| "gaps_loop f step stop interval intervalEnd t (v # vs) g =
     (let g' = g\<lparr>gs_items := gs_items g + 1, gs_new := gs_new g @ (if isNaN v then [] else [v])\<rparr>;
          t' = t + step
      in if stop \<le> t' then Some g'
         else if int_of_f64 intervalEnd \<le> t'
         then Option.bind (put_bucket f g') (gaps_loop f step stop interval (intervalEnd + interval) t' vs)
         else gaps_loop f step stop interval intervalEnd t' vs g')"

definition compress_one :: "quickselect \<Rightarrow> MetricData \<Rightarrow> MetricData go_result" where
  "compress_one qs a =
     (let name = ''compressPeriodicGaps('' @ Name a @ '')''; interval = gap_interval a; size = int_of_f64 interval;
          newStart = StartTime a + fst (first_two (Values a)) * StepTime a; buckets = GetBuckets newStart (StopTime a) size;
          f = (\<lambda>vs. SummarizeValues qs ''last'' vs (XFilesFactor a))
      in if isNaN interval then Some (renamed name (Values a) a)
         else if StepTime a = 0 \<or> size sdiv StepTime a < 0 \<or> buckets < 0 then Panic
         else map_option (\<lambda>g.
                (renamed name (gs_out g) a)\<lparr>StepTime := size, StartTime := newStart,
                  StopTime := newStart + int (length (gs_out g)) * size\<rparr>)
              (Option.bind (gaps_loop f (StepTime a) (StopTime a) interval (f64_of_int newStart + interval) (StartTime a) (Values a)
                   \<lparr>gs_out = replicate (nat buckets) 0, gs_ridx = 0, gs_items = 0, gs_new = []\<rparr>)
                 (\<lambda>g. if 0 < gs_items g then put_bucket f g else Some g)))"

definition compressPeriodicGaps_Do :: "quickselect \<Rightarrow> evaluator \<Rightarrow> expr \<Rightarrow> int \<Rightarrow> int \<Rightarrow> MetricData list ev" where
  "compressPeriodicGaps_Do qs ev e start stop =
     each_series ev e start stop (\<lambda>as. of_go (opt_map (compress_one qs) as))"

text \<open>The default and the flags of \<open>transformNull\<close>: the points where some reference series is present.\<close>

definition reference_mask :: "MetricData list \<Rightarrow> MetricData list \<Rightarrow> (eval_error + bool list) go_result" where
  "reference_mask as refs =
     (if refs = [] then Some (Inl (other_error ''reference series is not a valid metric''))
      else if as = [] then Panic
      else if length (Values (hd refs)) \<noteq> length (Values (hd as))
      then Some (Inl (other_error ''length of series and reference series must be the same''))
      else (let n = length (Values (hd refs))
            in if list_ex (\<lambda>a. list_ex (\<lambda>v. \<not> isNaN v) (drop n (Values a))) refs then Panic
               else Some (Inr (map (\<lambda>i. list_ex (\<lambda>a. i < length (Values a) \<and> \<not> isNaN (Values a ! i)) refs) [0..<n]))))"

definition fill_null :: "f64 \<Rightarrow> bool list \<Rightarrow> f64 list \<Rightarrow> f64 list go_result" where
  "fill_null d flags vs =
     opt_map (\<lambda>i. let v = vs ! i
       in if isNaN v \<and> flags \<noteq> [] then map_option (\<lambda>m. if m then d else v) (go_index flags (int i))
          else Some (if isNaN v then d else v)) [0..<length vs]"

definition transformNull_Do :: "go_env \<Rightarrow> evaluator \<Rightarrow> expr \<Rightarrow> int \<Rightarrow> int \<Rightarrow> MetricData list ev" where
  "transformNull_Do E ev e start stop =
     each_series ev e start stop (\<lambda>as.
       ev_bind (of_parser (GetFloatNamedOrPosArgDefault E e ''default'' 1 0)) (\<lambda>d.
       ev_bind (of_parser (GetBoolNamedOrPosArgDefault e ''defaultOnAbsent'' 3 False)) (\<lambda>onAbsent.
       ev_bind (case getNamedArg e ''referenceSeries'' of
            None \<Rightarrow> ret []
          | Some re \<Rightarrow> ev_bind (GetSeriesArg ev re start stop) (\<lambda>refs.
              ev_bind (of_go (reference_mask as refs)) (\<lambda>r. case r of Inl err \<Rightarrow> throw err | Inr m \<Rightarrow> ret m))) (\<lambda>flags.
         let shown = Sprint_f64 E d; given = (getNamedArg e ''default'' \<noteq> None \<or> 1 < length (args e))
         in if as = [] \<and> onAbsent
            then of_go (map_option (\<lambda>n.
                   [makeMetricDataWithTags (ToString E e) [d, d] (stop - start) start
                      (AList.update ''transformNull'' shown (ExtractTags n))]) (ExtractName (ToString E e)))
            else of_go (opt_map (\<lambda>a. map_option (\<lambda>vs.
                   tagged ''transformNull'' shown
                     (''transformNull('' @ Name a @ (if given then '','' @ shown else []) @ '')'') vs a)
                   (fill_null d flags (Values a))) as)))))"


section \<open>Differences and sums\<close>

lemma derivative_loop_NaN: "derivative_loop FNaN (replicate k FNaN @ x # ys) = replicate (Suc k) FNaN @ derivative_loop (if isNaN x then FNaN else x) ys"
  by (induction k) (auto simp: minus_f64_def)

lemma integral_loop_NaN: "integral_loop c (replicate k FNaN @ ys) = replicate k FNaN @ integral_loop c ys"
  by (induction k) auto

text \<open>Between integers of at most \<open>2 ^ 52\<close> the differences and their running sums are exact.\<close>

lemma integral_derivative_from:
  assumes "list_all (integral B) ys" "\<bar>p\<bar> \<le> B" "\<bar>x\<bar> \<le> B" "2 * B \<le> 2 ^ 53"
  shows "integral_loop (FNum (of_int (p - x))) (derivative_loop (FNum (of_int p)) ys) = map (\<lambda>v. v - FNum (of_int x)) ys"
  using assms(1,2)
proof (induction ys arbitrary: p)
  case Nil
  then show ?case by simp
next
  case (Cons v vs)
  have v: "integral B v" and vs: "list_all (integral B) vs" using Cons.prems(1) by auto
  show ?case
  proof (cases "isNaN v")
    case True
    then have "v = FNaN" by (cases v) auto
    then show ?thesis using Cons.IH[OF vs Cons.prems(2)] by simp
  next
    case False
    define q where "q = int_value v"
    have q: "v = FNum (of_int q)" "\<bar>q\<bar> \<le> B" using integral_cases[OF v] False by (auto simp: q_def)
    have "FNum (of_int q) - FNum (of_int p) = FNum (of_int (q - p))" "FNum (of_int q) - FNum (of_int x) = FNum (of_int (q - x))"
      using q(2) Cons.prems(2) assms(3,4) by (intro minus_exact; linarith)+
    moreover have "FNum (of_int (p - x)) + FNum (of_int (q - p)) = FNum (of_int (p - x + (q - p)))"
      using q(2) assms(3,4) by (intro plus_exact) linarith
    ultimately show ?thesis using Cons.IH[OF vs q(2)] by (simp add: q(1) del: of_int_diff of_int_add)
  qed
qed



section \<open>Counters\<close>

lemma rate_point_div: "rate_point C step prev v = counter_point C prev v div f64_of_int step"
  by (simp add: rate_point_def counter_point_def Let_def)

lemma perSecond_values_div:
  "perSecond_values C step vs = map (\<lambda>v. v div f64_of_int step) (nonNegativeDerivative_values C vs)"
proof -
  have "rate_loop C step p ws = map (\<lambda>v. v div f64_of_int step) (counter_loop C p ws)" for p ws
    by (induction ws arbitrary: p) (simp_all add: rate_point_div)
  then show ?thesis by (simp add: perSecond_values_def nonNegativeDerivative_values_def split: list.split)
qed

definition map_ev :: "('a \<Rightarrow> 'b) \<Rightarrow> 'a ev \<Rightarrow> 'b ev" where
  "map_ev f m = ev_bind m (\<lambda>x. ret (f x))"

lemma map_ev_simps [simp]:
  "map_ev f (ret x) = ret (f x)" "map_ev f (throw err) = throw err" "map_ev f (ev_bind m k) = ev_bind m (\<lambda>x. map_ev f (k x))"
  by (simp_all add: map_ev_def ev_bind_assoc)

text \<open>
  \<open>perSecond\<close> is \<open>nonNegativeDerivative\<close> with every value divided by the step, on all inputs, errors and
  panics included.
\<close>

lemma perSecond_rate:
  "map_ev (map (\<lambda>r. (StartTime r, StopTime r, StepTime r, Values r))) (perSecond_Do E ev e start stop) =
   map_ev (map (\<lambda>r. (StartTime r, StopTime r, StepTime r, map (\<lambda>v. v div f64_of_int (StepTime r)) (Values r))))
     (nonNegativeDerivative_Do E ev e start stop)"
  by (simp add: perSecond_Do_def nonNegativeDerivative_Do_def each_series_def tagged_def renamed_def CopyLink_def
      perSecond_values_div o_def)


text \<open>
  no point of \<open>nonNegativeDerivative\<close> is negative as long as the values lie between the limits that
  are given, the least of which is zero when only the maximum is given.
\<close>

lemma nonNegativeDerivative_nonneg:
  assumes "\<forall>v\<in>set vs. isNaN v \<or> (hasMax C \<longrightarrow> minValue C \<le> v \<and> v \<le> maxValue C)"
  shows "\<forall>d\<in>set (nonNegativeDerivative_values C vs). isNaN d \<or> 0 \<le> d"
proof -
  have one: "(0 :: f64) \<le> 1" by (simp add: less_eq_f64_def zero_f64_def one_f64_def)
  have point: "isNaN (counter_point C p v) \<or> 0 \<le> counter_point C p v"
    if p: "isNaN p \<or> (hasMax C \<longrightarrow> minValue C \<le> p \<and> p \<le> maxValue C)"
      and v: "isNaN v \<or> (hasMax C \<longrightarrow> minValue C \<le> v \<and> v \<le> maxValue C)" for p v
  proof -
    have "isNaN (maxValue C - p + (v - minValue C) + 1) \<or> 0 \<le> maxValue C - p + (v - minValue C) + 1"
      if "p \<le> maxValue C" "minValue C \<le> v"
      using nonneg_difference[OF that(1)] nonneg_difference[OF that(2)] nonneg_sum one by (metis NaN_arith(1,2) isNaN_simps(1))
    then show ?thesis
      using p v nonneg_difference[of "minValue C" v] by (auto simp: counter_point_def Let_def)
  qed
  have loop: "\<forall>d\<in>set (counter_loop C p ws). isNaN d \<or> 0 \<le> d" if "set (p # ws) \<subseteq> set vs" for p ws
    using that
  proof (induction ws arbitrary: p)
    case (Cons w ws)
    then have "p \<in> set vs" "w \<in> set vs" "set (w # ws) \<subseteq> set vs" by simp_all
    then show ?case using point[of p w] assms Cons.IH[of w] by (simp add: Ball_def)
  qed simp
  show ?thesis
  proof (cases vs)
    case (Cons p ws)
    then show ?thesis using loop[of p ws] by (simp add: nonNegativeDerivative_values_def)
  qed (simp add: nonNegativeDerivative_values_def)
qed

lemma nonNegativeDerivative_nonneg_witness:
  "list_all (\<lambda>d. isNaN d \<or> 0 \<le> d)
     (nonNegativeDerivative_values \<lparr>hasMax = True, hasMin = False, maxValue = FNum 10, minValue = 0\<rparr> [FNum 9, FNum 2])"
  unfolding list_all_iff by (rule nonNegativeDerivative_nonneg) (simp add: less_eq_f64_def zero_f64_def)

text \<open>A value above the maximum makes the next point negative.\<close>

lemma nonNegativeDerivative_negative:
  "nonNegativeDerivative_values \<lparr>hasMax = True, hasMin = False, maxValue = FNum 10, minValue = 0\<rparr> [FNum 100, FNum 5] =
     [FNaN, FNum (- 84)]"
proof -
  have d: "FNum 5 - FNum 100 = FNum (- 95)" "FNum 10 - FNum 100 = FNum (- 90)" "FNum 5 - FNum 0 = FNum 5"
    "FNum (- 90) + FNum 5 = FNum (- 85)" "FNum (- 85) + FNum 1 = FNum (- 84)"
    using minus_exact[of 5 100] minus_exact[of 10 100] minus_exact[of 5 0] plus_exact[of "- 90" 5] plus_exact[of "- 85" 1] by simp_all
  show ?thesis
    by (simp add: nonNegativeDerivative_values_def counter_point_def Let_def zero_f64_def one_f64_def d less_eq_f64_def)
qed

section \<open>Gaps\<close>

text \<open>The nearest present values before and after an index.\<close>

definition prev_present :: "f64 list \<Rightarrow> nat \<Rightarrow> nat option" where
  "prev_present xs i = find (\<lambda>j. \<not> isNaN (xs ! j)) (rev [0..<i])"

definition next_present :: "f64 list \<Rightarrow> nat \<Rightarrow> nat option" where
  "next_present xs i = find (\<lambda>j. \<not> isNaN (xs ! j)) [Suc i..<length xs]"

lemma prev_present_Suc: "prev_present xs (Suc i) = (if isNaN (xs ! i) then prev_present xs i else Some i)"
  by (simp add: prev_present_def)

lemma prev_present_Some:
  "prev_present xs i = Some j \<longleftrightarrow> j < i \<and> \<not> isNaN (xs ! j) \<and> (\<forall>k. j < k \<and> k < i \<longrightarrow> isNaN (xs ! k))"
proof (induction i)
  case 0
  then show ?case by (simp add: prev_present_def)
next
  case (Suc i)
  then show ?case by (auto simp: prev_present_Suc less_Suc_eq)
qed

lemma prev_present_None: "prev_present xs i = None \<longleftrightarrow> (\<forall>k<i. isNaN (xs ! k))"
  by (auto simp: prev_present_def find_None_iff)

lemma next_present_None: "next_present xs i = None \<longleftrightarrow> (\<forall>k. i < k \<and> k < length xs \<longrightarrow> isNaN (xs ! k))"
  by (auto simp: next_present_def find_None_iff Suc_le_eq)

lemma next_presentI:
  assumes "i < j" "j < length xs" "\<not> isNaN (xs ! j)" "\<And>k. i < k \<Longrightarrow> k < j \<Longrightarrow> isNaN (xs ! k)"
  shows "next_present xs i = Some j"
  unfolding next_present_def find_Some_iff
  using assms by (intro exI[of _ "j - Suc i"]) auto

lemma prev_present_Cons:
  "prev_present (v # vs) (Suc i) =
     (case prev_present vs i of Some j \<Rightarrow> Some (Suc j) | None \<Rightarrow> if isNaN v then None else Some 0)"
proof (induction i)
  case 0
  then show ?case by (simp add: prev_present_Suc) (simp add: prev_present_def)
next
  case (Suc i)
  then show ?case
    unfolding prev_present_Suc[of "v # vs" "Suc i"] prev_present_Suc[of vs] by simp
qed

definition kept_for :: "IntOrInf \<Rightarrow> nat \<Rightarrow> bool" where
  "kept_for limit n = (case limit of IOInf \<Rightarrow> True | IOInt m \<Rightarrow> m < 0 \<or> int n \<le> m)"

lemma keeps_kept_for: "keeps limit n = kept_for limit (n + 1)"
  by (auto simp: keeps_def kept_for_def split: IntOrInf.split)

lemma keeps_mono: "\<not> keeps limit m \<Longrightarrow> m \<le> n \<Longrightarrow> \<not> keeps limit n"
  by (auto simp: keeps_def split: IntOrInf.splits)

lemma keep_loop_nth:
  "i < length vs \<Longrightarrow> keep_loop limit prev missing vs ! i =
     (if \<not> isNaN (vs ! i) then vs ! i
      else case prev_present vs i of
             Some j \<Rightarrow> if kept_for limit (i - j) then vs ! j else FNaN
           | None \<Rightarrow> if keeps limit (missing + i) \<and> \<not> isNaN prev then prev else FNaN)"
proof (induction vs arbitrary: prev missing i)
  case Nil
  then show ?case by simp
next
  case (Cons v vs)
  show ?case
  proof (cases i)
    case 0
    then show ?thesis by (auto simp: prev_present_def)
  next
    case (Suc k)
    then have k: "k < length vs" using Cons.prems by simp
    show ?thesis
    proof (cases "isNaN v")
      case True
      have "\<not> keeps limit (missing + k)" "\<not> keeps limit (missing + Suc k)" if "\<not> keeps limit missing"
        using that keeps_mono by auto
      then show ?thesis using True by (auto simp: Suc prev_present_Cons Cons.IH[OF k] split: option.split)
    next
      case False
      then show ?thesis by (auto simp: Suc prev_present_Cons Cons.IH[OF k] keeps_kept_for split: option.split)
    qed
  qed
qed

text \<open>
  \<open>keepLastValue\<close> leaves present values alone and gives an absent point the last present value
  before it, if there is one and it is at most \<open>limit\<close> points back, where a negative limit is none.
\<close>

lemma keepLastValue_points:
  "keep_loop limit FNaN 0 vs =
     map (\<lambda>i. if \<not> isNaN (vs ! i) then vs ! i
              else case prev_present vs i of
                     None \<Rightarrow> FNaN
                   | Some j \<Rightarrow> if kept_for limit (i - j) then vs ! j else FNaN) [0..<length vs]"
proof (rule nth_equalityI)
  have "length (keep_loop limit p m vs) = length vs" for p m
    by (induction vs arbitrary: p m) simp_all
  then show "length (keep_loop limit FNaN 0 vs) = length (map (\<lambda>i. if \<not> isNaN (vs ! i) then vs ! i
              else case prev_present vs i of
                     None \<Rightarrow> FNaN
                   | Some j \<Rightarrow> if kept_for limit (i - j) then vs ! j else FNaN) [0..<length vs])"
    and "i < length (keep_loop limit FNaN 0 vs) \<Longrightarrow> keep_loop limit FNaN 0 vs ! i =
      map (\<lambda>i. if \<not> isNaN (vs ! i) then vs ! i
              else case prev_present vs i of
                     None \<Rightarrow> FNaN
                   | Some j \<Rightarrow> if kept_for limit (i - j) then vs ! j else FNaN) [0..<length vs] ! i" for i
    using keep_loop_nth[of i vs limit FNaN 0] by (simp_all split: option.split)
qed

lemma fill_gap_length [simp]: "length (fill_gap xs i n) = length xs"
proof -
  have "length (foldl (\<lambda>ys j. ys[f j := g j]) ys js) = length ys" for f :: "nat \<Rightarrow> nat" and g ys js
    by (induction js arbitrary: ys) simp_all
  then show ?thesis by (simp add: fill_gap_def)
qed

definition on_line :: "f64 list \<Rightarrow> nat \<Rightarrow> nat \<Rightarrow> nat \<Rightarrow> f64" where
  "on_line xs a b i = xs ! a + f64_of_int (int (i - a)) div f64_of_int (int (b - a)) * (xs ! b - xs ! a)"

lemma fill_gap_nth:
  assumes "n < i" "i < length xs" "p < length xs"
  shows "fill_gap xs i n ! p = (if i - n \<le> p \<and> p < i then on_line xs (i - n - 1) i p else xs ! p)"
proof -
  have "foldl (\<lambda>ys j. ys[i - n + j := g j]) xs [0..<m] ! p = (if i - n \<le> p \<and> p < i - n + m then g (p - (i - n)) else xs ! p)"
    if "m \<le> n" for g m
    using that
  proof (induction m)
    case (Suc m)
    have "length (foldl (\<lambda>ys j. ys[i - n + j := g j]) ys js) = length ys" for ys js
      by (induction js arbitrary: ys) simp_all
    then show ?case using Suc assms by (auto simp: nth_list_update less_Suc_eq)
  qed auto
  from this[of n] show ?thesis
    using assms unfolding fill_gap_def on_line_def by (auto simp: Suc_diff_le)
qed

text \<open>What the points of an interpolated series are.\<close>

definition interpolated :: "IntOrInf \<Rightarrow> f64 list \<Rightarrow> nat \<Rightarrow> f64" where
  "interpolated limit xs i =
     (if \<not> isNaN (xs ! i) then xs ! i
      else case (prev_present xs i, next_present xs i) of
             (Some a, Some b) \<Rightarrow> if gap_allowed limit (b - a - 1) then on_line xs a b i else FNaN
           | _ \<Rightarrow> FNaN)"

text \<open>At the index \<open>i\<close>: \<open>n\<close> absent points, the first point not counted, and all before them done.\<close>

definition interpolating :: "IntOrInf \<Rightarrow> f64 list \<Rightarrow> nat \<Rightarrow> nat \<Rightarrow> f64 list \<Rightarrow> bool" where
  "interpolating limit xs i n ys \<longleftrightarrow>
     length ys = length xs \<and> (\<forall>j. i \<le> j \<and> j < length xs \<longrightarrow> ys ! j = xs ! j)
     \<and> (if i = 0 then n = 0
        else n < i \<and> (\<forall>j. i - n - 1 \<le> j \<and> j < i \<longrightarrow> ys ! j = xs ! j)
          \<and> (\<forall>j. i - n \<le> j \<and> j < i \<longrightarrow> isNaN (xs ! j)) \<and> (isNaN (xs ! (i - n - 1)) \<longrightarrow> i = n + 1)
          \<and> (\<forall>j<i - n. ys ! j = interpolated limit xs j))"

lemma isNaN_eq: "isNaN x \<Longrightarrow> x = FNaN"
  by (cases x) auto

lemma interpolated_open:
  assumes "isNaN (xs ! i)" "prev_present xs i = None \<or> next_present xs i = None"
  shows "interpolated limit xs i = FNaN"
  using assms by (auto simp: interpolated_def split: option.split)

lemma interpolated_in_gap:
  assumes "a < i" "i < b" "b < length xs" "\<not> isNaN (xs ! a)" "\<not> isNaN (xs ! b)"
    and "\<And>k. a < k \<Longrightarrow> k < b \<Longrightarrow> isNaN (xs ! k)"
  shows "interpolated limit xs i = (if gap_allowed limit (b - a - 1) then on_line xs a b i else FNaN)"
proof -
  have "prev_present xs i = Some a" using assms by (simp add: prev_present_Some)
  moreover have "next_present xs i = Some b" using assms by (intro next_presentI) auto
  ultimately show ?thesis using assms(1,2,6) by (simp add: interpolated_def)
qed

lemma interpolating_first: "interpolating limit xs 0 n ys \<Longrightarrow> 0 < length xs \<Longrightarrow> interpolating limit xs 1 n ys"
  using interpolated_open[of xs 0 limit]
  by (auto simp: interpolating_def prev_present_def isNaN_eq interpolated_def[of limit xs 0])

lemma interpolating_absent:
  "interpolating limit xs i n ys \<Longrightarrow> 0 < i \<Longrightarrow> i < length xs \<Longrightarrow> isNaN (ys ! i) \<Longrightarrow> interpolating limit xs (i + 1) (n + 1) ys"
  by (auto simp: interpolating_def less_Suc_eq)

lemma interpolating_present:
  assumes inv: "interpolating limit xs i n ys" and i: "0 < i" "i < length xs" "\<not> isNaN (ys ! i)"
    and len: "length zs = length xs" and ahead: "\<forall>j. i \<le> j \<and> j < length xs \<longrightarrow> zs ! j = xs ! j"
    and so_far: "\<forall>j<i. zs ! j = interpolated limit xs j"
  shows "interpolating limit xs (i + 1) 0 zs"
proof -
  have t: "interpolating limit xs (i + 1) 0 zs \<longleftrightarrow> length zs = length xs \<and> (\<forall>j. i + 1 \<le> j \<and> j < length xs \<longrightarrow> zs ! j = xs ! j)
      \<and> zs ! i = xs ! i \<and> (isNaN (xs ! i) \<longrightarrow> i = 0) \<and> (\<forall>j<i + 1. zs ! j = interpolated limit xs j)"
    by (auto simp: interpolating_def le_less_Suc_eq)
  have "ys ! i = xs ! i" using inv i by (simp add: interpolating_def)
  then have x: "\<not> isNaN (xs ! i)" using i(3) by simp
  have z: "zs ! i = xs ! i" using ahead i(2) by blast
  have "zs ! j = interpolated limit xs j" if "j < i + 1" for j
  proof (cases "j = i")
    case True
    then show ?thesis using x z by (simp add: interpolated_def)
  next
    case False
    then show ?thesis using so_far that by simp
  qed
  moreover have "\<forall>j. i + 1 \<le> j \<and> j < length xs \<longrightarrow> zs ! j = xs ! j" using ahead by simp
  ultimately show ?thesis unfolding t using x z len by blast
qed

lemma interpolating_leading:
  assumes inv: "interpolating limit xs i n ys" and i: "0 < i" "i < length xs" "isNaN (ys ! (i - n - 1))"
  shows "\<forall>j<i. ys ! j = interpolated limit xs j"
proof (intro allI impI)
  fix j assume j: "j < i"
  have "i = n + 1" "\<forall>j<i. ys ! j = xs ! j" "isNaN (xs ! 0)" "\<forall>j. 0 < j \<and> j < i \<longrightarrow> isNaN (xs ! j)"
    using inv i by (auto simp: interpolating_def)
  then have nan: "\<forall>k<i. isNaN (xs ! k)" by (metis gr0I)
  then have "prev_present xs j = None" using j by (simp add: prev_present_None)
  then have "interpolated limit xs j = FNaN" using nan j by (simp add: interpolated_open)
  then show "ys ! j = interpolated limit xs j" using nan j \<open>\<forall>j<i. ys ! j = xs ! j\<close> isNaN_eq by simp
qed

lemma interpolating_filled:
  assumes inv: "interpolating limit xs i n ys" and i: "0 < i" "i < length xs" "\<not> isNaN (ys ! i)" "\<not> isNaN (ys ! (i - n - 1))"
  defines "zs \<equiv> if gap_allowed limit n then fill_gap ys i n else ys"
  shows "\<forall>j<i. zs ! j = interpolated limit xs j"
proof (intro allI impI)
  fix j assume j: "j < i"
  define a where "a = i - n - 1"
  have len: "length ys = length xs" and n: "n < i" and ai: "ys ! i = xs ! i" "ys ! a = xs ! a"
    and nan: "\<And>k. a < k \<Longrightarrow> k < i \<Longrightarrow> isNaN (xs ! k)" and eq: "\<And>k. a \<le> k \<Longrightarrow> k < i \<Longrightarrow> ys ! k = xs ! k"
    and before: "\<And>k. k < i - n \<Longrightarrow> ys ! k = interpolated limit xs k"
    using inv i(1,2) by (auto simp: interpolating_def a_def)
  have a: "i - n = Suc a" "i - a - 1 = n" "a < i" using n by (auto simp: a_def)
  have line: "on_line ys a i j = on_line xs a i j" by (simp add: on_line_def ai)
  have p: "\<not> isNaN (xs ! a)" "\<not> isNaN (xs ! i)" using i(3,4) ai by (simp_all add: a_def)
  show "zs ! j = interpolated limit xs j"
  proof (cases "a < j")
    case False
    then have "zs ! j = ys ! j" using n i(2) j len a(1) by (simp add: zs_def fill_gap_nth)
    then show ?thesis using before[of j] False a(1) by simp
  next
    case True
    have "interpolated limit xs j = (if gap_allowed limit n then on_line xs a i j else FNaN)"
      using interpolated_in_gap[OF True j i(2) p nan, of limit] a(2) by simp
    moreover have "ys ! j = FNaN" using eq[of j] nan[of j] True j isNaN_eq by simp
    ultimately show ?thesis
      using True j n i(2) len a(1) line by (simp add: zs_def fill_gap_nth a_def[symmetric])
  qed
qed

lemma interpolate_loop_invariant:
  "interpolating limit xs i n ys \<Longrightarrow> i + k = length xs \<Longrightarrow>
   \<exists>m. interpolating limit xs (length xs) m (interpolate_loop limit k i n ys)"
proof (induction k arbitrary: i n ys)
  case 0
  then show ?case by auto
next
  case (Suc k)
  note inv = Suc.prems(1)
  have i: "i < length xs" "(i + 1) + k = length xs" using Suc.prems(2) by simp_all
  consider "i = 0" | "0 < i" "isNaN (ys ! i)" | "0 < i" "\<not> isNaN (ys ! i)" by blast
  then show ?case
  proof cases
    case 1
    then have "interpolating limit xs (i + 1) n ys" using interpolating_first[of limit xs n ys] inv i(1) by simp
    from Suc.IH[OF this i(2)] 1 show ?thesis by (simp only: interpolate_loop.simps simp_thms if_True)
  next
    case 2
    then show ?thesis using Suc.IH[OF _ i(2)] interpolating_absent[OF inv 2(1) i(1) 2(2)] by simp
  next
    case 3
    define zs where "zs = (if n = 0 \<or> isNaN (ys ! (i - n - 1)) then ys
        else if gap_allowed limit n then fill_gap ys i n else ys)"
    have len: "length ys = length xs" and n: "n < i" and ahead: "\<forall>j. i \<le> j \<and> j < length xs \<longrightarrow> ys ! j = xs ! j"
      using inv 3(1) by (simp_all add: interpolating_def)
    have "length zs = length xs" by (simp add: zs_def len)
    moreover have "\<forall>j. i \<le> j \<and> j < length xs \<longrightarrow> zs ! j = xs ! j"
      using ahead n i(1) len by (simp add: zs_def fill_gap_nth)
    moreover have "\<forall>j<i. zs ! j = interpolated limit xs j"
    proof (cases "n = 0")
      case True
      then show ?thesis using inv 3(1) by (simp add: zs_def interpolating_def)
    next
      case False
      then show ?thesis
      proof (cases "isNaN (ys ! (i - n - 1))")
        case True
        then have "zs = ys" by (simp add: zs_def)
        then show ?thesis using interpolating_leading[OF inv 3(1) i(1) True] by (simp only:)
      next
        case nan: False
        then have "zs = (if gap_allowed limit n then fill_gap ys i n else ys)" using False by (simp add: zs_def)
        then show ?thesis using interpolating_filled[OF inv 3(1) i(1) 3(2) nan] by (simp only:)
      qed
    qed
    ultimately have "interpolating limit xs (i + 1) 0 zs" by (intro interpolating_present[OF inv 3(1) i(1) 3(2)])
    from Suc.IH[OF this i(2)] show ?thesis using 3 n by (auto simp: zs_def split: if_splits)
  qed
qed

text \<open>
  C25: \<open>interpolate\<close> changes only the points of a gap between two present values that is not longer than
  the limit, and these lie on the line between the two values.
\<close>

theorem interpolate_points: "interpolate_values limit xs = map (interpolated limit xs) [0..<length xs]"
proof (rule nth_equalityI)
  have "interpolating limit xs 0 0 xs" by (simp add: interpolating_def)
  from interpolate_loop_invariant[OF this, of "length xs"]
  obtain m where m: "interpolating limit xs (length xs) m (interpolate_values limit xs)"
    by (auto simp: interpolate_values_def)
  then have len: "length (interpolate_values limit xs) = length xs" by (simp add: interpolating_def)
  then show "length (interpolate_values limit xs) = length (map (interpolated limit xs) [0..<length xs])" by simp
  fix i assume "i < length (interpolate_values limit xs)"
  then have i: "i < length xs" "length xs \<noteq> 0" using len by auto
  have "interpolate_values limit xs ! i = interpolated limit xs i"
  proof (cases "i < length xs - m")
    case True
    then show ?thesis using m i by (simp add: interpolating_def)
  next
    case False
    then have run: "interpolate_values limit xs ! i = xs ! i" "\<forall>j. i \<le> j \<and> j < length xs \<longrightarrow> isNaN (xs ! j)"
      using m i by (auto simp: interpolating_def)
    then have "next_present xs i = None" by (simp add: next_present_None)
    then show ?thesis using run i isNaN_eq by (simp add: interpolated_open)
  qed
  then show "interpolate_values limit xs ! i = map (interpolated limit xs) [0..<length xs] ! i" using i by simp
qed

section \<open>Panics\<close>

text \<open>
  A negative limit, and a bucket size of zero, are not refused: \<open>limit\<close> slices with the negative number,
  and \<open>integralByInterval\<close> divides by zero on a series with values.
\<close>

lemma limit_negative: "n < 0 \<Longrightarrow> go_take n as = Panic"
  by (simp add: go_take_def)

lemma byInterval_zero: "vs \<noteq> [] \<Longrightarrow> byInterval_loop start 0 step t c vs = Panic"
  by (cases vs) (simp_all add: go_div_def)

text \<open>
  \<open>timeShift\<close> cuts the values to the range of the series, which panics when the range is longer than the
  values and the array behind them.
\<close>

lemma timeShift_short:
  assumes "0 < StepTime a" "int (length (Values a @ spare a)) * StepTime a < StopTime a - StartTime a"
    and "StopTime a - StartTime a = n * StepTime a"
  shows "timeShift_one spare offs False until a = Panic"
proof -
  have "int (length (Values a @ spare a)) < n" using assms by (metis mult_less_cancel_right_pos)
  moreover have "(StopTime a - StartTime a) sdiv StepTime a = n"
    using calculation assms(1,3) by (simp add: sdiv_nonneg)
  ultimately show ?thesis using assms(1) by (simp add: timeShift_one_def Let_def go_div_def go_take_def)
qed

end
