(* ===== verification/Hitcount.thy ===== *)
theory Hitcount
  imports Transforms Summarize
begin

text \<open>
  \<open>expr/functions/hitcount\<close>: every value is a rate over one step, and its hits are spread over the buckets
  that the step overlaps. A bucket collects the hits in the order of the values and sums them up.
  An index out of range of the buckets is a panic.
\<close>

section \<open>The buckets\<close>

definition append_at :: "'a list list \<Rightarrow> int \<Rightarrow> 'a \<Rightarrow> 'a list list go_result" where
  "append_at bs j x = (if 0 \<le> j \<and> j < int (length bs) then Some (bs[nat j := bs ! nat j @ [x]]) else Panic)"

fun append_each :: "'a list list \<Rightarrow> int list \<Rightarrow> 'a \<Rightarrow> 'a list list go_result" where
  "append_each bs [] x = Some bs"
| "append_each bs (j # js) x = Option.bind (append_at bs j x) (\<lambda>bs'. append_each bs' js x)"

definition hit_point :: "int \<Rightarrow> int \<Rightarrow> int \<Rightarrow> f64 list list \<Rightarrow> int \<Rightarrow> f64 \<Rightarrow> f64 list list go_result" where
  "hit_point interval newStart step bs t v =
     Option.bind (Divmod (t - newStart) interval) (\<lambda>(startBucket, startMod).
     Option.bind (Divmod (t + step - newStart) interval) (\<lambda>(end0, mod0).
       let (endBucket, endMod) = (if int (length bs) \<le> end0 then (int (length bs) - 1, interval) else (end0, mod0))
       in if startBucket = endBucket
          then (if 0 \<le> startBucket then append_at bs startBucket (v * f64_of_int (endMod - startMod)) else Some bs)
          else Option.bind (if 0 \<le> startBucket then append_at bs startBucket (v * f64_of_int (interval - startMod)) else Some bs) (\<lambda>bs1.
               Option.bind (append_each bs1 [startBucket + 1..endBucket - 1] (v * f64_of_int interval)) (\<lambda>bs2.
                 if 0 < endMod then append_at bs2 endBucket (v * f64_of_int endMod) else Some bs2))))"

fun hit_loop :: "int \<Rightarrow> int \<Rightarrow> int \<Rightarrow> int \<Rightarrow> f64 list \<Rightarrow> f64 list list \<Rightarrow> f64 list list go_result" where
  "hit_loop interval newStart step t [] bs = Some bs"
| "hit_loop interval newStart step t (v # vs) bs =
     Option.bind (if isNaN v then Some bs else hit_point interval newStart step bs t v)
       (hit_loop interval newStart step (t + step) vs)"

definition bucket_sum :: "f64 list \<Rightarrow> f64" where
  "bucket_sum hits = (if hits \<noteq> [] then foldl (+) 0 hits else FNaN)"

definition hitcount_one :: "int \<Rightarrow> int \<Rightarrow> int \<Rightarrow> string \<Rightarrow> MetricData \<Rightarrow> MetricData go_result" where
  "hitcount_one interval start stop name a =
     (let bucketCount = GetBuckets start stop interval; newStart = stop - bucketCount * interval
      in if bucketCount < 0 then Panic
         else map_option (\<lambda>bs.
                (makeMetricDataWithTags name (map bucket_sum bs) interval newStart
                   (AList.update ''hitcount'' (FormatInt interval) (CopyTags a)))\<lparr>StopTime := stop\<rparr>)
              (hit_loop interval newStart (StepTime a) (StartTime a) (Values a) (replicate (nat bucketCount) [])))"

definition hitcount_Do :: "go_env \<Rightarrow> evaluator \<Rightarrow> expr \<Rightarrow> int \<Rightarrow> int \<Rightarrow> MetricData list ev" where
  "hitcount_Do E ev e start0 until =
     (if length (args e) < 2 then throw missing_argument
      else ev_bind (of_parser (GetIntervalArg E e 1 1)) (\<lambda>interval.
           ev_bind (of_parser (GetBoolNamedOrPosArgDefault e ''alignToInterval'' 2 False)) (\<lambda>align.
             each_series ev e (if align then AlignStartToInterval start0 until interval else start0) until (\<lambda>as.
               if as = [] then ret []
               else ev_bind (of_go (if align
                        then map_option (\<lambda>n. StartTime (hd as) + n * interval + interval)
                               (go_div (StopTime (hd as) - StartTime (hd as)) interval)
                        else Some (StopTime (hd as)))) (\<lambda>stop.
                    of_go (opt_map (\<lambda>a. hitcount_one interval (StartTime (hd as)) stop
                        (''hitcount('' @ Name a @ '','' @ quoted (valStr (args e ! 1))
                         @ (if align then '',true'' else []) @ '')'') a) as))))))"

section \<open>The hits of a bucket\<close>

text \<open>The seconds that \<open>[t, t + step)\<close> and the bucket \<open>j\<close> of \<open>[newStart, stop)\<close> have in common.\<close>

definition overlap :: "int \<Rightarrow> int \<Rightarrow> int \<Rightarrow> int \<Rightarrow> nat \<Rightarrow> int" where
  "overlap interval newStart step t j =
     min (t + step) (newStart + (int j + 1) * interval) - max t (newStart + int j * interval)"

definition hits_of :: "int \<Rightarrow> int \<Rightarrow> int \<Rightarrow> int \<Rightarrow> f64 \<Rightarrow> nat \<Rightarrow> f64 list" where
  "hits_of interval newStart step t v j =
     (if \<not> isNaN v \<and> 0 < overlap interval newStart step t j
      then [v * f64_of_int (overlap interval newStart step t j)] else [])"

text \<open>All hits of a bucket, in the order of the values.\<close>

definition bucket_hits :: "int \<Rightarrow> int \<Rightarrow> int \<Rightarrow> int \<Rightarrow> f64 list \<Rightarrow> nat \<Rightarrow> f64 list" where
  "bucket_hits interval newStart step t vs j =
     concat (map (\<lambda>i. hits_of interval newStart step (t + int i * step) (vs ! i) j) [0..<length vs])"

lemma append_at_nth:
  assumes "0 \<le> j" "j < int (length bs)"
  shows "append_at bs j x = Some (map (\<lambda>k. bs ! k @ (if int k = j then [x] else [])) [0..<length bs])"
proof -
  have "bs[nat j := bs ! nat j @ [x]] = map (\<lambda>k. bs ! k @ (if int k = j then [x] else [])) [0..<length bs]"
    using assms by (intro nth_equalityI) (auto simp: nth_list_update)
  then show ?thesis using assms by (simp add: append_at_def)
qed

lemma append_each_nth:
  "\<forall>j\<in>set js. 0 \<le> j \<and> j < int (length bs) \<Longrightarrow> distinct js \<Longrightarrow>
   append_each bs js x = Some (map (\<lambda>k. bs ! k @ (if int k \<in> set js then [x] else [])) [0..<length bs])"
proof (induction js arbitrary: bs)
  case Nil
  then show ?case by (simp add: map_nth)
next
  case (Cons j js)
  let ?bs = "map (\<lambda>k. bs ! k @ (if int k = j then [x] else [])) [0..<length bs]"
  have "append_each ?bs js x = Some (map (\<lambda>k. ?bs ! k @ (if int k \<in> set js then [x] else [])) [0..<length bs])"
    using Cons.IH[of ?bs] Cons.prems by simp
  also have "map (\<lambda>k. ?bs ! k @ (if int k \<in> set js then [x] else [])) [0..<length bs] =
      map (\<lambda>k. bs ! k @ (if int k \<in> set (j # js) then [x] else [])) [0..<length bs]"
    using Cons.prems by (intro map_cong) auto
  finally show ?case using Cons.prems by (simp add: append_at_nth)
qed


lemma overlap_split:
  fixes I a E sb sm eb em k :: int
  assumes I: "0 < I" and a: "a = sb * I + sm" "0 \<le> sm" "sm < I" and E: "E = eb * I + em" "0 \<le> em" "em \<le> I" and lt: "a < E"
  shows "sb \<le> eb"
    and "min E ((k + 1) * I) - max a (k * I) =
      (if k < sb then (k + 1) * I - a else if eb < k then E - k * I
       else if sb = eb then em - sm else if k = sb then I - sm else if k = eb then em else I)"
proof -
  have mono: "x * I \<le> y * I" if "x \<le> y" for x y :: int using that I by simp
  have "sb * I < (eb + 1) * I" using a E lt by (simp add: distrib_right)
  then show "sb \<le> eb" using I by simp
  have s: "k * I < a" "(k + 1) * I \<le> a" "(k + 1) * I \<le> E" if "k < sb"
    using mono[of "k + 1" sb] that a I lt by (simp_all add: distrib_right)
  have e: "E \<le> k * I" "E < (k + 1) * I" "a < k * I" if "eb < k"
    using mono[of "eb + 1" k] that E I lt by (simp_all add: distrib_right)
  have m1: "a \<le> k * I" if "sb < k" using mono[of "sb + 1" k] that a by (simp add: distrib_right)
  have m2: "(k + 1) * I \<le> E" if "k < eb" using mono[of "k + 1" eb] that E by simp
  have sk: "k * I \<le> a" if "k = sb" using a that by simp
  have ek: "E \<le> (k + 1) * I" if "k = eb" using E that by (simp add: distrib_right)
  have kk: "(k + 1) * I = k * I + I" by (simp add: distrib_right)
  consider "k < sb" | "eb < k" | "k = sb" "k = eb" | "k = sb" "k < eb" | "sb < k" "k < eb" | "sb < k" "k = eb"
    using \<open>sb \<le> eb\<close> by linarith
  then show "min E ((k + 1) * I) - max a (k * I) =
      (if k < sb then (k + 1) * I - a else if eb < k then E - k * I
       else if sb = eb then em - sm else if k = sb then I - sm else if k = eb then em else I)"
  proof cases
    case 1
    then show ?thesis using s by (simp add: min_def max_def)
  next
    case 2
    then show ?thesis using e \<open>sb \<le> eb\<close> by (simp add: min_def max_def)
  next
    case 3
    then show ?thesis using sk ek a E by (simp add: min_absorb1 max_absorb1)
  next
    case 4
    then show ?thesis using sk m2 a kk by (simp add: min_absorb2 max_absorb1)
  next
    case 5
    then show ?thesis using m1 m2 kk by (simp add: min_absorb2 max_absorb2)
  next
    case 6
    then show ?thesis using m1 ek E by (simp add: min_absorb1 max_absorb2)
  qed
qed

lemma hit_point_nth:
  assumes I: "0 < interval" and step: "0 < step" and t: "newStart \<le> t" "t < newStart + int (length bs) * interval"
    and v: "\<not> isNaN v"
  shows "hit_point interval newStart step bs t v =
     Some (map (\<lambda>k. bs ! k @ hits_of interval newStart step t v k) [0..<length bs])"
proof -
  define n a e where "n = int (length bs)" and "a = t - newStart" and "e = t + step - newStart"
  define sb sm where "sb = a div interval" and "sm = a mod interval"
  define eb em where "eb = (if n \<le> e div interval then n - 1 else e div interval)"
    and "em = (if n \<le> e div interval then interval else e mod interval)"
  have ae: "0 \<le> a" "a < e" "a < n * interval" using t step by (simp_all add: a_def e_def n_def)
  have A: "a = sb * interval + sm" "0 \<le> sm" "sm < interval" using I by (simp_all add: sb_def sm_def)
  have em: "0 \<le> em" "em \<le> interval" using I by (simp_all add: em_def less_imp_le)
  have E: "eb * interval + em = min e (n * interval)"
  proof (cases "n \<le> e div interval")
    case True
    then have "n * interval \<le> e div interval * interval" using I by simp
    also have "\<dots> \<le> e" using div_mult_mod_eq[of e interval] pos_mod_sign[OF I, of e] by linarith
    finally show ?thesis using True by (simp add: eb_def em_def left_diff_distrib)
  next
    case False
    then have "e < n * interval" using I by (metis linorder_not_le zdiv_mono1 nonzero_mult_div_cancel_right less_irrefl)
    then show ?thesis using False by (simp add: eb_def em_def)
  qed
  have lt: "a < eb * interval + em" using E ae by simp
  have sbe: "sb \<le> eb" by (rule overlap_split(1)[OF I A refl em lt])
  have sb0: "0 \<le> sb" using ae I by (simp add: sb_def pos_imp_zdiv_nonneg_iff)
  have ebn: "eb < n" by (simp add: eb_def)
  have ov: "overlap interval newStart step t k =
      (if int k < sb then (int k + 1) * interval - a else if eb < int k then (eb * interval + em) - int k * interval
       else if sb = eb then em - sm else if int k = sb then interval - sm else if int k = eb then em else interval)"
    if k: "k < length bs" for k
  proof -
    have "(int k + 1) * interval \<le> n * interval" using k I by (simp add: n_def)
    then have "min e ((int k + 1) * interval) = min (eb * interval + em) ((int k + 1) * interval)"
      unfolding E by simp
    moreover have "overlap interval newStart step t k = min e ((int k + 1) * interval) - max a (int k * interval)"
      by (simp add: overlap_def a_def e_def min_def max_def)
    ultimately show ?thesis using overlap_split(2)[OF I A refl em lt, of "int k"] by simp
  qed
  have low: "(int k + 1) * interval - a \<le> 0" if "int k < sb" for k
  proof -
    have "(int k + 1) * interval \<le> sb * interval" using that I by simp
    then show ?thesis using A by linarith
  qed
  have high: "(eb * interval + em) - int k * interval \<le> 0" if "eb < int k" for k
  proof -
    have "(eb + 1) * interval \<le> int k * interval" using that I by simp
    then show ?thesis using em(2) by (simp add: distrib_right)
  qed
  have div: "Divmod (t - newStart) interval = Some (sb, sm)" "Divmod (t + step - newStart) interval = Some (e div interval, e mod interval)"
    using I ae by (simp_all add: Divmod_def a_def[symmetric] e_def[symmetric] sdiv_nonneg smod_nonneg sb_def sm_def)
  have ends: "(if int (length bs) \<le> e div interval then (int (length bs) - 1, interval) else (e div interval, e mod interval)) = (eb, em)"
    by (simp add: eb_def em_def n_def)
  show ?thesis
  proof (cases "sb = eb")
    case True
    then have pos: "0 < em - sm" using lt A(1) by simp
    have "hit_point interval newStart step bs t v = append_at bs sb (v * f64_of_int (em - sm))"
      using True sb0 by (simp add: hit_point_def div ends)
    also have "\<dots> = Some (map (\<lambda>k. bs ! k @ (if int k = sb then [v * f64_of_int (em - sm)] else [])) [0..<length bs])"
      using sb0 sbe ebn by (intro append_at_nth) (simp_all add: n_def)
    also have "map (\<lambda>k. bs ! k @ (if int k = sb then [v * f64_of_int (em - sm)] else [])) [0..<length bs] =
        map (\<lambda>k. bs ! k @ hits_of interval newStart step t v k) [0..<length bs]"
      using ov low high True pos v by (intro map_cong) (auto simp: hits_of_def not_less)
    finally show ?thesis .
  next
    case False
    define x y z where "x = v * f64_of_int (interval - sm)" and "y = v * f64_of_int interval" and "z = v * f64_of_int em"
    let ?b1 = "map (\<lambda>k. bs ! k @ (if int k = sb then [x] else [])) [0..<length bs]"
    let ?b2 = "map (\<lambda>k. ?b1 ! k @ (if int k \<in> set [sb + 1..eb - 1] then [y] else [])) [0..<length ?b1]"
    have 1: "append_at bs sb x = Some ?b1" using sb0 sbe ebn by (intro append_at_nth) (simp_all add: n_def)
    have 2: "append_each ?b1 [sb + 1..eb - 1] y = Some ?b2"
      using sb0 ebn by (intro append_each_nth) (auto simp: n_def)
    have 3: "append_at ?b2 eb z = Some (map (\<lambda>k. ?b2 ! k @ (if int k = eb then [z] else [])) [0..<length ?b2])"
      using sb0 sbe ebn by (intro append_at_nth) (simp_all add: n_def)
    have "hit_point interval newStart step bs t v =
        Some (map (\<lambda>k. ?b2 ! k @ (if int k = eb \<and> 0 < em then [z] else [])) [0..<length ?b2])"
    proof (cases "0 < em")
      case True
      then show ?thesis using False sb0 1 2 3 by (simp add: hit_point_def div ends x_def y_def z_def)
    next
      case em0: False
      have "?b2 = map (\<lambda>k. ?b2 ! k @ (if int k = eb \<and> 0 < em then [z] else [])) [0..<length ?b2]"
        using em0 by (intro nth_equalityI) auto
      then show ?thesis using False em0 sb0 1 2 by (simp add: hit_point_def div ends x_def y_def)
    qed
    also have "map (\<lambda>k. ?b2 ! k @ (if int k = eb \<and> 0 < em then [z] else [])) [0..<length ?b2] =
        map (\<lambda>k. bs ! k @ hits_of interval newStart step t v k) [0..<length bs]"
    proof (rule nth_equalityI)
      fix k assume "k < length (map (\<lambda>k. ?b2 ! k @ (if int k = eb \<and> 0 < em then [z] else [])) [0..<length ?b2])"
      then have k: "k < length bs" by simp
      consider "int k < sb" | "int k = sb" | "sb < int k" "int k < eb" | "int k = eb" "sb < int k" | "eb < int k"
        using sbe by linarith
      then have "(if int k = sb then [x] else []) @ (if sb < int k \<and> int k < eb then [y] else []) @
          (if int k = eb \<and> 0 < em then [z] else []) = hits_of interval newStart step t v k"
        using ov[OF k] low[of k] high[of k] v False A I sbe by cases (auto simp: hits_of_def x_def y_def z_def)
      then show "map (\<lambda>k. ?b2 ! k @ (if int k = eb \<and> 0 < em then [z] else [])) [0..<length ?b2] ! k =
          map (\<lambda>k. bs ! k @ hits_of interval newStart step t v k) [0..<length bs] ! k"
        using k by (auto split: if_splits)
    qed simp
    finally show ?thesis .
  qed
qed


lemma hit_loop_nth:
  assumes "0 < interval" "0 < step"
  shows "newStart \<le> t \<Longrightarrow> t + (int (length vs) - 1) * step < newStart + int (length bs) * interval \<Longrightarrow>
    hit_loop interval newStart step t vs bs =
      Some (map (\<lambda>k. bs ! k @ bucket_hits interval newStart step t vs k) [0..<length bs])"
proof (induction vs arbitrary: t bs)
  case Nil
  then show ?case by (simp add: bucket_hits_def map_nth)
next
  case (Cons v vs)
  have "0 \<le> int (length vs) * step" using assms(2) by simp
  then have t: "t < newStart + int (length bs) * interval" using Cons.prems(2) by simp
  let ?bs = "map (\<lambda>k. bs ! k @ hits_of interval newStart step t v k) [0..<length bs]"
  have "(if isNaN v then Some bs else hit_point interval newStart step bs t v) = Some ?bs"
  proof (cases "isNaN v")
    case True
    then have "?bs = bs" by (intro nth_equalityI) (auto simp: hits_of_def)
    then show ?thesis using True by simp
  next
    case False
    then show ?thesis using hit_point_nth[OF assms Cons.prems(1) t False] by simp
  qed
  moreover have "hit_loop interval newStart step (t + step) vs ?bs =
      Some (map (\<lambda>k. ?bs ! k @ bucket_hits interval newStart step (t + step) vs k) [0..<length ?bs])"
    using Cons.prems assms(2) by (intro Cons.IH) (simp_all add: algebra_simps)
  moreover have "bucket_hits interval newStart step t (v # vs) k =
      hits_of interval newStart step t v k @ bucket_hits interval newStart step (t + step) vs k" for k
  proof -
    have "[0..<length (v # vs)] = 0 # map Suc [0..<length vs]" by (simp add: map_Suc_upt upt_conv_Cons del: upt_Suc)
    then show ?thesis by (simp add: bucket_hits_def o_def algebra_simps del: upt_Suc)
  qed
  ultimately show ?case by (auto intro!: nth_equalityI)
qed

text \<open>The number of buckets covers the range, floating-point rounding of the quotient included.\<close>

lemma GetBuckets_covers:
  assumes "start < stop" "stop - start < 2 ^ 53" "0 < bucket" "bucket < 2 ^ 53"
  shows "stop - start \<le> GetBuckets start stop bucket * bucket"
proof -
  obtain r where r: "f64_of_int (stop - start) div f64_of_int bucket = FNum r" "0 < r"
    "stop - start \<le> \<lceil>r\<rceil> * bucket" "r \<le> of_int (stop - start) * 2"
    using quotient_rounded[of "stop - start" bucket] assms by auto
  have "\<lceil>r\<rceil> \<le> (stop - start) * 2" using r(4) by (simp add: ceiling_le_iff)
  moreover have "0 < \<lceil>r\<rceil>" using r(2) by simp
  moreover have "stop - start < 9007199254740992" using assms(2) by simp
  moreover have "in_int64 c" if "c \<le> d * 2" "0 < c" "d < 9007199254740992" for c d :: int
    using that by (simp add: in_int64_def)
  ultimately have "in_int64 \<lceil>r\<rceil>" by blast
  moreover have "\<lceil>r\<rceil> \<noteq> 0" using \<open>0 < \<lceil>r\<rceil>\<close> by (rule less_imp_neq[symmetric])
  ultimately have "GetBuckets start stop bucket = \<lceil>r\<rceil>"
    using r(1) by (simp add: GetBuckets_def int_of_f64_def)
  then show ?thesis using r(3) by simp
qed




text \<open>
  The range of the buckets is the one of the first series. In a series that starts earlier the truncating
  division puts a step before the range into its first bucket, with more hits than the step has in
  common with it; a series that starts after the range panics.
\<close>

lemma hitcount_early: "hit_point 60 600 60 [[]] 570 v = Some [[v * f64_of_int 60]] \<and> overlap 60 600 60 570 0 = 30"
proof -
  have "Divmod (- 30) 60 = Some (0, - 30)" "Divmod 30 60 = Some (0, 30)" by code_simp+
  then show ?thesis by (simp add: hit_point_def append_at_def overlap_def)
qed

lemma hitcount_late: "hit_point 60 600 60 [[]] 660 v = Panic"
proof -
  have "Divmod 60 60 = Some (1, 0)" "Divmod 120 60 = Some (2, 0)" by code_simp+
  then show ?thesis by (simp add: hit_point_def append_at_def)
qed

end
