(* ===== verification/Holt_Winters.thy ===== *)
theory Holt_Winters
  imports Transforms Float_Order
begin

text \<open>
  The forecast of \<open>expr/holtwinters/hw.go\<close> and the functions \<open>holtWinters*\<close> that use it. The analysis keeps
  one list per component of the model, which grows by one entry for every value. The forecast of a
  point uses only the values before it, and the bands lie around it.
\<close>

section \<open>The analysis\<close>

definition hw_alpha :: f64 where "hw_alpha = round64 False (1 / 10)"
definition hw_beta :: f64 where "hw_beta = round64 False (35 / 10000)"
definition hw_gamma :: f64 where "hw_gamma = round64 False (1 / 10)"

definition holtWintersIntercept :: "f64 \<Rightarrow> f64 \<Rightarrow> f64 \<Rightarrow> f64 \<Rightarrow> f64 \<Rightarrow> f64" where
  "holtWintersIntercept alpha actual lastSeason lastIntercept lastSlope =
     alpha * (actual - lastSeason) + (1 - alpha) * (lastIntercept + lastSlope)"

definition holtWintersSlope :: "f64 \<Rightarrow> f64 \<Rightarrow> f64 \<Rightarrow> f64 \<Rightarrow> f64" where
  "holtWintersSlope beta intercept lastIntercept lastSlope =
     beta * (intercept - lastIntercept) + (1 - beta) * lastSlope"

definition holtWintersSeasonal :: "f64 \<Rightarrow> f64 \<Rightarrow> f64 \<Rightarrow> f64 \<Rightarrow> f64" where
  "holtWintersSeasonal gamma actual intercept lastSeason =
     gamma * (actual - intercept) + (1 - gamma) * lastSeason"

definition holtWintersDeviation :: "f64 \<Rightarrow> f64 \<Rightarrow> f64 \<Rightarrow> f64 \<Rightarrow> f64" where
  "holtWintersDeviation gamma actual prediction lastSeasonalDev =
     gamma * \<bar>actual - (if isNaN prediction then 0 else prediction)\<bar> + (1 - gamma) * lastSeasonalDev"

record hw_state =
  intercepts :: "f64 list"
  slopes :: "f64 list"
  seasonals :: "f64 list"
  predictions :: "f64 list"
  deviations :: "f64 list"
  nextPred :: f64

definition hw_start :: hw_state where
  "hw_start = \<lparr>intercepts = [], slopes = [], seasonals = [], predictions = [], deviations = [], nextPred = FNaN\<rparr>"

text \<open>The season is at least two points long, so the entry of the season before is always there.\<close>

definition season_ago :: "int \<Rightarrow> f64 list \<Rightarrow> int \<Rightarrow> f64" where
  "season_ago seasonLength xs i = (let j = i - seasonLength in if 0 \<le> j then xs ! nat j else 0)"

definition hw_step :: "int \<Rightarrow> hw_state \<Rightarrow> f64 \<Rightarrow> hw_state" where
  "hw_step seasonLength s actual =
     (let i = int (length (predictions s))
      in if isNaN actual
         then \<lparr>intercepts = intercepts s @ [FNaN], slopes = slopes s @ [0], seasonals = seasonals s @ [0],
               predictions = predictions s @ [nextPred s], deviations = deviations s @ [0], nextPred = FNaN\<rparr>
         else (let lastIntercept = (if i = 0 \<or> isNaN (last (intercepts s)) then actual else last (intercepts s));
                   lastSlope = (if i = 0 then 0 else last (slopes s));
                   prediction = (if i = 0 then actual else nextPred s);
                   lastSeasonal = season_ago seasonLength (seasonals s) i;
                   nextLastSeasonal = season_ago seasonLength (seasonals s) (i + 1);
                   lastSeasonalDev = season_ago seasonLength (deviations s) i;
                   intercept = holtWintersIntercept hw_alpha actual lastSeasonal lastIntercept lastSlope;
                   slope = holtWintersSlope hw_beta intercept lastIntercept lastSlope
               in \<lparr>intercepts = intercepts s @ [intercept], slopes = slopes s @ [slope],
                   seasonals = seasonals s @ [holtWintersSeasonal hw_gamma actual intercept lastSeasonal],
                   predictions = predictions s @ [prediction],
                   deviations = deviations s @ [holtWintersDeviation hw_gamma actual prediction lastSeasonalDev],
                   nextPred = intercept + slope + nextLastSeasonal\<rparr>))"

definition hw_run :: "int \<Rightarrow> f64 list \<Rightarrow> hw_state" where
  "hw_run seasonLength series = foldl (hw_step seasonLength) hw_start series"

definition HoltWintersAnalysis :: "f64 list \<Rightarrow> int \<Rightarrow> int \<Rightarrow> (f64 list \<times> f64 list) go_result" where
  "HoltWintersAnalysis series step seasonality =
     map_option (\<lambda>n. let s = hw_run (if n < 2 then 2 else n) series in (predictions s, deviations s)) (go_div seasonality step)"

definition band_point :: "f64 \<Rightarrow> f64 \<Rightarrow> f64 \<Rightarrow> f64 \<times> f64" where
  "band_point delta p d =
     (if isNaN p \<or> isNaN d then (FNaN, FNaN) else (p - delta * d, p + delta * d))"

text \<open>What is left after the bootstrap, or everything when there are fewer points than that.\<close>

definition of_interest :: "int \<Rightarrow> 'a list \<Rightarrow> 'a list go_result" where
  "of_interest windowPoints xs = (if int (length xs) < windowPoints then Some xs else go_drop windowPoints xs)"

definition HoltWintersConfidenceBands :: "f64 list \<Rightarrow> int \<Rightarrow> f64 \<Rightarrow> int \<Rightarrow> int \<Rightarrow> (f64 list \<times> f64 list) go_result" where
  "HoltWintersConfidenceBands series step delta bootstrapInterval seasonality =
     Option.bind (HoltWintersAnalysis series step seasonality) (\<lambda>(ps, ds).
     Option.bind (go_div bootstrapInterval step) (\<lambda>windowPoints.
     Option.bind (of_interest windowPoints ps) (\<lambda>ps1.
     Option.bind (of_interest windowPoints ds) (\<lambda>ds1.
       let bands = map2 (band_point delta) ps1 ds1 in Some (map fst bands, map snd bands)))))"

section \<open>The functions\<close>

definition DefaultSeasonality :: int where "DefaultSeasonality = 86400"

text \<open>A new series with the times and the consolidation of \<open>a\<close>.\<close>

definition hw_series :: "string \<Rightarrow> string \<Rightarrow> f64 list \<Rightarrow> int \<Rightarrow> MetricData \<Rightarrow> MetricData" where
  "hw_series tag name vs start a =
     (makeMetricDataWithTags name vs (StepTime a) start (AList.update tag ''1'' (CopyTags a)))
     \<lparr>StopTime := StopTime a, PathExpression := name, XFilesFactor := XFilesFactor a, MConsolidationFunc := MConsolidationFunc a\<rparr>"

definition holtWintersForecast_Do :: "go_env \<Rightarrow> evaluator \<Rightarrow> expr \<Rightarrow> int \<Rightarrow> int \<Rightarrow> MetricData list ev" where
  "holtWintersForecast_Do E ev e start stop =
     ev_bind (of_parser (GetIntervalNamedOrPosArgDefault E e ''bootstrapInterval'' 1 1 DefaultBootstrapInterval)) (\<lambda>boot.
       each_series ev e (start - boot) stop (\<lambda>as.
       ev_bind (of_parser (GetIntervalNamedOrPosArgDefault E e ''seasonality'' 2 1 DefaultSeasonality)) (\<lambda>seasonality.
         of_go (opt_map (\<lambda>a.
           Option.bind (HoltWintersAnalysis (Values a) (StepTime a) seasonality) (\<lambda>(ps, _).
           Option.bind (go_div boot (StepTime a)) (\<lambda>windowPoints.
             map_option (\<lambda>vs. hw_series ''holtWintersForecast'' (''holtWintersForecast('' @ Name a @ '')'') vs (StartTime a + boot) a)
               (of_interest windowPoints ps)))) as))))"

definition holtWintersConfidenceBands_Do :: "go_env \<Rightarrow> evaluator \<Rightarrow> expr \<Rightarrow> int \<Rightarrow> int \<Rightarrow> MetricData list ev" where
  "holtWintersConfidenceBands_Do E ev e start stop =
     ev_bind (of_parser (GetIntervalNamedOrPosArgDefault E e ''bootstrapInterval'' 2 1 DefaultBootstrapInterval)) (\<lambda>boot.
       each_series ev e (start - boot) stop (\<lambda>as.
       ev_bind (of_parser (GetFloatNamedOrPosArgDefault E e ''delta'' 1 (FNum 3))) (\<lambda>delta.
       ev_bind (of_parser (GetIntervalNamedOrPosArgDefault E e ''seasonality'' 3 1 DefaultSeasonality)) (\<lambda>seasonality.
         of_go (map_option concat (opt_map (\<lambda>a.
           map_option (\<lambda>(lower, upper).
               [hw_series ''holtWintersConfidenceLower'' (''holtWintersConfidenceLower('' @ Name a @ '')'') lower (StartTime a + boot) a,
                hw_series ''holtWintersConfidenceUpper'' (''holtWintersConfidenceUpper('' @ Name a @ '')'') upper (StartTime a + boot) a])
             (HoltWintersConfidenceBands (Values a) (StepTime a) delta boot seasonality)) as))))))"

text \<open>How far a value lies outside the bands.\<close>

definition aberration :: "f64 \<Rightarrow> f64 \<Rightarrow> f64 \<Rightarrow> f64" where
  "aberration lower upper v =
     (if isNaN v then 0 else if \<not> isNaN upper \<and> upper < v then v - upper
      else if \<not> isNaN lower \<and> v < lower then v - lower else 0)"

text \<open>The bands are read by the index of the value; an absent value does not read them.\<close>

definition aberration_at :: "f64 list \<Rightarrow> f64 list \<Rightarrow> f64 list \<Rightarrow> nat \<Rightarrow> f64 go_result" where
  "aberration_at lower upper vs i =
     (if isNaN (vs ! i) then Some 0
      else Option.bind (go_index upper (int i)) (\<lambda>u. map_option (\<lambda>l. aberration l u (vs ! i)) (go_index lower (int i))))"

definition holtWintersAberration_Do :: "go_env \<Rightarrow> evaluator \<Rightarrow> expr \<Rightarrow> int \<Rightarrow> int \<Rightarrow> MetricData list ev" where
  "holtWintersAberration_Do E ev e start stop =
     ev_bind (of_parser (GetIntervalNamedOrPosArgDefault E e ''bootstrapInterval'' 2 1 DefaultBootstrapInterval)) (\<lambda>boot.
       each_series ev e start stop (\<lambda>as.
       each_series ev e (start - boot) stop (\<lambda>adjusted.
       ev_bind (of_parser (GetFloatNamedOrPosArgDefault E e ''delta'' 1 (FNum 3))) (\<lambda>delta.
       ev_bind (of_parser (GetIntervalNamedOrPosArgDefault E e ''seasonality'' 3 1 DefaultSeasonality)) (\<lambda>seasonality.
         of_go (map_option concat (opt_map (\<lambda>a.
           case find (\<lambda>b. Name b = Name a) (rev adjusted) of
             None \<Rightarrow> Some []
           | Some b \<Rightarrow>
               Option.bind (HoltWintersConfidenceBands (Values b) (StepTime a) delta boot seasonality) (\<lambda>(lower, upper).
                 map_option (\<lambda>vs. [hw_series ''holtWintersAberration'' (''holtWintersAberration('' @ Name a @ '')'') vs (StartTime a) a])
                   (opt_map (aberration_at lower upper (Values a)) [0..<length (Values a)]))) as)))))))"


section \<open>Forecasts and bands\<close>

lemma hw_step_lengths:
  "length (predictions (hw_step n s v)) = length (predictions s) + 1"
  "length (deviations (hw_step n s v)) = length (deviations s) + 1"
  by (simp_all add: hw_step_def Let_def)

lemma hw_fold_lengths:
  "length (predictions (foldl (hw_step n) s vs)) = length (predictions s) + length vs"
  "length (deviations (foldl (hw_step n) s vs)) = length (deviations s) + length vs"
  by (induction vs arbitrary: s) (simp_all add: hw_step_lengths)

lemma hw_run_lengths [simp]: "length (predictions (hw_run n vs)) = length vs" "length (deviations (hw_run n vs)) = length vs"
  by (simp_all add: hw_run_def hw_fold_lengths hw_start_def)

lemma hw_step_prediction:
  "predictions s \<noteq> [] \<Longrightarrow> predictions (hw_step n s v) = predictions s @ [nextPred s]"
  by (simp add: hw_step_def Let_def)

lemma hw_fold_prefix: "\<exists>more. predictions (foldl (hw_step n) s vs) = predictions s @ more"
proof (induction vs arbitrary: s)
  case (Cons v vs)
  have "\<exists>p. predictions (hw_step n s v) = predictions s @ [p]" by (simp add: hw_step_def Let_def)
  then show ?case using Cons.IH[of "hw_step n s v"] by auto
qed simp

lemma hw_run_forecast:
  assumes "xs \<noteq> []"
  shows "take (length xs + 1) (predictions (hw_run n (xs @ y # ys))) = predictions (hw_run n xs) @ [nextPred (hw_run n xs)]"
proof -
  define s where "s = hw_run n xs"
  have len: "length (predictions s) = length xs" by (simp add: s_def)
  then have ne: "predictions s \<noteq> []" using assms by (metis length_0_conv)
  obtain more where "predictions (foldl (hw_step n) (hw_step n s y) ys) = predictions (hw_step n s y) @ more"
    using hw_fold_prefix by blast
  then have "predictions (hw_run n (xs @ y # ys)) = predictions s @ [nextPred s] @ more"
    by (simp add: hw_run_def s_def[unfolded hw_run_def, symmetric] hw_step_prediction[OF ne])
  then show ?thesis using len by (simp add: s_def)
qed

text \<open>
  C32: a forecast uses only the past: the predictions up to and including the point after a non-empty
  prefix are the same whatever values come at that point and after it.
\<close>

theorem forecast_causal:
  assumes "xs \<noteq> []"
  shows "map_option (\<lambda>(ps, _). take (length xs + 1) ps) (HoltWintersAnalysis (xs @ y # ys) step seasonality) =
    map_option (\<lambda>(ps, _). take (length xs + 1) ps) (HoltWintersAnalysis (xs @ z # zs) step seasonality)"
proof (cases "go_div seasonality step")
  case (Some n)
  then show ?thesis using hw_run_forecast[OF assms] by (simp add: HoltWintersAnalysis_def Let_def)
qed (simp add: HoltWintersAnalysis_def)

lemma forecast_causal_witness:
  "map_option (\<lambda>(ps, _). take 2 ps) (HoltWintersAnalysis [FNum 1, FNum 2] 60 3600) =
   map_option (\<lambda>(ps, _). take 2 ps) (HoltWintersAnalysis [FNum 1, FNaN, FNum 9] 60 3600)"
  using forecast_causal[of "[FNum 1]" "FNum 2" "[]" 60 3600 FNaN "[FNum 9]"] by (simp add: numeral_2_eq_2)

text \<open>Deviations are not negative, so the bands are in order.\<close>

definition nonneg_or_NaN :: "f64 \<Rightarrow> bool" where
  "nonneg_or_NaN x \<longleftrightarrow> isNaN x \<or> 0 \<le> x"

lemma nonneg_or_NaN_simps [simp]: "nonneg_or_NaN FNaN" "nonneg_or_NaN 0" "nonneg_or_NaN \<bar>x\<bar>"
proof -
  show "nonneg_or_NaN \<bar>x\<bar>" by (cases x) (auto simp: nonneg_or_NaN_def f64_nonneg_cases)
qed (simp_all add: nonneg_or_NaN_def f64_nonneg_cases zero_f64_def)

lemma nonneg_or_NaN_plus: "nonneg_or_NaN x \<Longrightarrow> nonneg_or_NaN y \<Longrightarrow> nonneg_or_NaN (x + y)"
  unfolding nonneg_or_NaN_def using nonneg_sum[of x y] by (cases x; cases y) auto

lemma nonneg_or_NaN_times: "nonneg_or_NaN x \<Longrightarrow> nonneg_or_NaN y \<Longrightarrow> nonneg_or_NaN (x * y)"
  unfolding nonneg_or_NaN_def using nonneg_product[of x y] by (cases x; cases y) auto

lemma hw_gamma_bounds: "0 \<le> hw_gamma" "0 \<le> 1 - hw_gamma"
proof -
  show "0 \<le> hw_gamma" by (simp add: hw_gamma_def round64_nonneg)
  have "hw_gamma \<le> round64 False 1" unfolding hw_gamma_def by (rule round64_mono) simp
  then have le: "hw_gamma \<le> FNum 1" by simp
  have "finite64 x" if "0 \<le> x" "x \<le> FNum 1" for x
    using that by (cases x) (auto simp: less_eq_f64_def zero_f64_def)
  then have "finite64 hw_gamma" using \<open>0 \<le> hw_gamma\<close> le by blast
  then show "0 \<le> 1 - hw_gamma"
    using le by (simp add: one_f64_def minus_f64_finite le_f64_finite round64_nonneg)
qed

lemma hw_step_deviations:
  "\<forall>d\<in>set (deviations s). nonneg_or_NaN d \<Longrightarrow> length (deviations s) = length (predictions s) \<Longrightarrow> 2 \<le> n \<Longrightarrow>
   \<forall>d\<in>set (deviations (hw_step n s v)). nonneg_or_NaN d"
proof -
  assume s: "\<forall>d\<in>set (deviations s). nonneg_or_NaN d" "length (deviations s) = length (predictions s)" "2 \<le> n"
  have "nonneg_or_NaN (season_ago n (deviations s) (int (length (predictions s))))"
    using s by (auto simp: season_ago_def Let_def)
  moreover have "nonneg_or_NaN hw_gamma" "nonneg_or_NaN (1 - hw_gamma)" using hw_gamma_bounds by (simp_all add: nonneg_or_NaN_def)
  ultimately have "nonneg_or_NaN (holtWintersDeviation hw_gamma v p (season_ago n (deviations s) (int (length (predictions s)))))" for p
    unfolding holtWintersDeviation_def by (intro nonneg_or_NaN_plus nonneg_or_NaN_times) simp_all
  then show ?thesis using s(1) by (simp add: hw_step_def Let_def)
qed

lemma hw_run_deviations: "2 \<le> n \<Longrightarrow> \<forall>d\<in>set (deviations (hw_run n vs)). nonneg_or_NaN d"
proof (induction vs rule: rev_induct)
  case Nil
  then show ?case by (simp add: hw_run_def hw_start_def)
next
  case (snoc v vs)
  then show ?case using hw_step_deviations[of "hw_run n vs" n v] by (simp add: hw_run_def[of n "vs @ [v]"] hw_run_def[of n vs, symmetric])
qed

lemma band_point_ordered:
  assumes "0 \<le> delta" "nonneg_or_NaN d"
  shows "isNaN (fst (band_point delta p d)) \<or> isNaN (snd (band_point delta p d)) \<or> fst (band_point delta p d) \<le> snd (band_point delta p d)"
proof -
  have "nonneg_or_NaN (delta * d)" using assms by (intro nonneg_or_NaN_times) (simp_all add: nonneg_or_NaN_def)
  moreover have "delta * d = FNaN" if "isNaN (delta * d)" using that by (cases "delta * d") auto
  ultimately show ?thesis using minus_le_plus[of "delta * d" p] by (auto simp: band_point_def nonneg_or_NaN_def)
qed

text \<open>
  C33: with a factor that is not negative the lower band is nowhere above the upper one, in floating-point
  arithmetic and for every series, and the bands have the same length.
\<close>

theorem bands_ordered:
  assumes "HoltWintersConfidenceBands series step delta bootstrapInterval seasonality = Some (lower, upper)" "0 \<le> delta"
  shows "length lower = length upper \<and> list_all2 (\<lambda>l u. isNaN l \<or> isNaN u \<or> l \<le> u) lower upper"
proof -
  obtain n w ps1 ds1 where d: "go_div seasonality step = Some n"
    and w: "of_interest w (deviations (hw_run (if n < 2 then 2 else n) series)) = Some ds1"
    and b: "lower = map fst (map2 (band_point delta) ps1 ds1)" "upper = map snd (map2 (band_point delta) ps1 ds1)"
    using assms(1) by (auto simp: HoltWintersConfidenceBands_def HoltWintersAnalysis_def Let_def bind_eq_Some_conv)
  have "set ds1 \<subseteq> set (deviations (hw_run (if n < 2 then 2 else n) series))"
    using w by (auto simp: of_interest_def go_drop_def split: if_splits dest: in_set_dropD)
  moreover have "\<forall>d\<in>set (deviations (hw_run (if n < 2 then 2 else n) series)). nonneg_or_NaN d" by (rule hw_run_deviations) simp
  ultimately have ds: "\<forall>d\<in>set ds1. nonneg_or_NaN d" by blast
  have pairs: "list_all2 P (map fst bs) (map snd bs)" if "\<And>l u. (l, u) \<in> set bs \<Longrightarrow> P l u" for P :: "f64 \<Rightarrow> f64 \<Rightarrow> bool" and bs
    using that by (induction bs) auto
  have "isNaN l \<or> isNaN u \<or> l \<le> u" if "(l, u) \<in> set (map2 (band_point delta) ps1 ds1)" for l u
  proof -
    obtain p d where "(p, d) \<in> set (zip ps1 ds1)" "band_point delta p d = (l, u)" using \<open>(l, u) \<in> _\<close> by auto
    then show ?thesis using band_point_ordered[OF assms(2), of d p] ds set_zip_rightD by fastforce
  qed
  then have "list_all2 (\<lambda>l u. isNaN l \<or> isNaN u \<or> l \<le> u) lower upper"
    unfolding b by (simp only: pairs)
  then show ?thesis by (simp add: list_all2_lengthD)
qed


lemma bands_ordered_witness:
  "\<exists>lower upper. HoltWintersConfidenceBands [FNum 1, FNum 2, FNaN] 60 (FNum 3) 60 3600 = Some (lower, upper)
     \<and> length lower = 2 \<and> length upper = 2 \<and> list_all2 (\<lambda>l u. isNaN l \<or> isNaN u \<or> l \<le> u) lower upper"
proof -
  have d: "go_div 3600 60 = Some 60" "go_div 60 60 = Some 1" by code_simp+
  have i: "of_interest 1 (predictions (hw_run 60 vs)) = Some (drop 1 (predictions (hw_run 60 vs)))"
    "of_interest 1 (deviations (hw_run 60 vs)) = Some (drop 1 (deviations (hw_run 60 vs)))" if "vs \<noteq> []" for vs
    using that by (cases vs; simp add: of_interest_def go_drop_def)+
  obtain lower upper where b: "HoltWintersConfidenceBands [FNum 1, FNum 2, FNaN] 60 (FNum 3) 60 3600 = Some (lower, upper)" "length upper = 2"
    by (simp add: HoltWintersConfidenceBands_def HoltWintersAnalysis_def d i Let_def)
  have "(0 :: f64) \<le> FNum 3" by (simp add: f64_nonneg_cases)
  from bands_ordered[OF b(1) this] b show ?thesis by auto
qed

end
