(* ===== verification/Grouping.thy ===== *)
theory Grouping
  imports Transforms Evaluator
begin

text \<open>
  Functions of \<open>expr/functions\<close> that put series into groups by a key and make one series of each group:
  \<open>aggregate\<close>, \<open>aggregateWithWildcards\<close>, \<open>groupByNode\<close>, \<open>groupByTags\<close>. The map from keys to groups and the
  list of keys in the order they were first seen are one association list in that order.
\<close>

section \<open>Groups\<close>

definition add_to_group :: "'k \<Rightarrow> 'a \<Rightarrow> ('k \<times> 'a list) list \<Rightarrow> ('k \<times> 'a list) list" where
  "add_to_group k a g = AList.update k ((case map_of g k of None \<Rightarrow> [] | Some as \<Rightarrow> as) @ [a]) g"

text \<open>The keys of the series can panic, so they are computed first.\<close>

definition group_by :: "('a \<Rightarrow> 'k go_result) \<Rightarrow> 'a list \<Rightarrow> ('k \<times> 'a list) list go_result" where
  "group_by key as =
     map_option (\<lambda>ks. foldl (\<lambda>g (k, a). add_to_group k a g) [] (zip ks as)) (opt_map key as)"

text \<open>\<open>strings.Replace\<close> of the first occurrence.\<close>

fun Replace_once :: "string \<Rightarrow> string \<Rightarrow> string \<Rightarrow> string" where
  "Replace_once old new [] = []"
| "Replace_once old new (c # cs) =
     (if HasPrefix (c # cs) old then new @ drop (length old) (c # cs) else c # Replace_once old new cs)"

section \<open>Aggregates\<close>

definition unsupported_consolidation :: "string \<Rightarrow> eval_error" where
  "unsupported_consolidation c = other_error (''unsupported consolidation function '' @ c)"

definition aggregate_Do :: "go_env \<Rightarrow> quickselect \<Rightarrow> bool \<Rightarrow> bool \<Rightarrow> evaluator \<Rightarrow> expr \<Rightarrow> int \<Rightarrow> int \<Rightarrow> MetricData list ev" where
  "aggregate_Do E qs ExtrapolatePoints ExtractTagsFromArgs ev e start stop =
     (let finish = (\<lambda>callback as xff e'.
            case map_of (ConsolidationToFunc qs) callback of
              None \<Rightarrow> throw (unsupported_consolidation callback)
            | Some f \<Rightarrow>
                of_go (map_option (map (set_tag ''aggregatedBy'' callback))
                  (AggregateSeries E qs ExtrapolatePoints (set_target (callback @ ''Series'') e') as f xff ExtractTagsFromArgs)))
      in case GetStringArg e 1 of
           Inl err \<Rightarrow>
             if target e = ''aggregate'' then throw (plain_error (ParserCause err))
             else ev_bind (GetSeriesArgsAndRemoveNonExisting ev e start stop) (\<lambda>(as, e').
                    if as = [] then ret [] else finish (Replace_once ''Series'' [] (target e)) as (- 1) e')
         | Inr callback \<Rightarrow>
             each_series ev e start stop (\<lambda>as.
               if as = [] then ret []
               else ev_bind (of_parser (GetFloatArgDefault E e 2 (XFilesFactor (hd as)))) (\<lambda>xff.
                      finish callback as xff (set_argString (target (args e ! 0)) e))))"

text \<open>The name of a series without the nodes at the given positions.\<close>

definition other_nodes :: "int list \<Rightarrow> MetricData \<Rightarrow> string go_result" where
  "other_nodes positions a =
     map_option (\<lambda>metric.
         let nodes = Split1 metric (CHR ''.'')
         in Join (map (\<lambda>i. nodes ! i) (filter (\<lambda>i. \<not> Contains positions (int i)) [0..<length nodes])) ''.'')
       (ExtractNameTag (Name a))"

definition wildcards_callback :: "expr \<Rightarrow> (string \<times> nat) ev" where
  "wildcards_callback e =
     (let t = target e
      in if t = ''aggregateWithWildcards''
         then (if length (args e) < 2 then throw missing_argument
               else ev_bind (of_parser (GetStringArg e 1)) (\<lambda>c. ret (c, 2)))
         else ret (if t = ''sumSeriesWithWildcards'' then ''sum''
                   else if t = ''averageSeriesWithWildcards'' then ''average''
                   else if t = ''multiplySeriesWithWildcards'' then ''multiply'' else [], 1))"

text \<open>One group: the aggregate under the key of the group.\<close>

definition aggregate_group ::
  "go_env \<Rightarrow> quickselect \<Rightarrow> bool \<Rightarrow> expr \<Rightarrow> string \<Rightarrow> (f64 list \<Rightarrow> f64) \<Rightarrow> string \<times> MetricData list \<Rightarrow> MetricData list go_result" where
  "aggregate_group E qs ExtrapolatePoints e callback f = (\<lambda>(node, as).
     case AggregateSeries E qs ExtrapolatePoints e as f (- 1) False of
       Some (r # rs) \<Rightarrow> Some (set_tag ''aggregatedBy'' callback (r\<lparr>Name := node\<rparr>) # rs)
     | _ \<Rightarrow> Panic)"

definition aggregateWithWildcards_Do :: "go_env \<Rightarrow> quickselect \<Rightarrow> bool \<Rightarrow> evaluator \<Rightarrow> expr \<Rightarrow> int \<Rightarrow> int \<Rightarrow> MetricData list ev" where
  "aggregateWithWildcards_Do E qs ExtrapolatePoints ev e start stop =
     (if args e = [] then throw missing_argument
      else each_series ev e start stop (\<lambda>as.
        ev_bind (wildcards_callback e) (\<lambda>(callback, ix).
        ev_bind (of_parser (GetIntArgs e ix)) (\<lambda>positions.
          case map_of (ConsolidationToFunc qs) callback of
            None \<Rightarrow> throw (unsupported_consolidation callback)
          | Some f \<Rightarrow>
              ev_bind (of_go (group_by (other_nodes positions) as)) (\<lambda>groups.
                of_go (map_option concat (opt_map (aggregate_group E qs ExtrapolatePoints e callback f) groups)))))))"

section \<open>Callbacks\<close>

text \<open>
  \<open>groupByNode\<close> evaluates the callback on each group as the only series of an expression of its own. The
  name of the group is parsed behind the prefix \<open>stub_\<close>, which is then removed: once from the text of the
  arguments, and from the target of the first argument for every argument. Errors of the evaluation
  leave out the group, and only the first series of a result is used.
\<close>

definition without_stub :: "expr \<Rightarrow> expr" where
  "without_stub x =
     (let strip = Replace_once ''stub_'' [];
          as = (case args x of
                  [] \<Rightarrow> []
                | a # bs \<Rightarrow> set_target (strip (target a)) a # map (set_target (strip (strip (target a)))) bs)
      in set_args (set_argString (strip (argString x)) x) as (namedArgs x))"

definition group_callback :: "eval_conf \<Rightarrow> string \<Rightarrow> string \<Rightarrow> string \<Rightarrow> expr ev" where
  "group_callback C name callback k =
     ev_bind (parse_target C (callback @ ''(stub_'' @ k @ '')'')) (\<lambda>x.
       if etype x \<noteq> EtFunc then throw (plain_error (ParserCause ErrInvalidArg)) else ret (without_stub x))"

definition eval_group :: "evaluator \<Rightarrow> int \<Rightarrow> int \<Rightarrow> expr \<Rightarrow> string \<Rightarrow> MetricData list \<Rightarrow> MetricData list ev" where
  "eval_group ev start stop x k as =
     ev_on [(\<lparr>Metric = k, ConsolidationFunc = [], From = start, Until = stop\<rparr>, as)]
       (\<lambda>s. case ev_Eval ev x start stop s of
              None \<Rightarrow> Panic
            | Some (Inl _, s') \<Rightarrow> Some (Inr [], s')
            | Some (Inr rs, s') \<Rightarrow> Some (Inr (CopyMetricDataSliceWithName (take 1 rs) k), s'))"

fun eval_groups :: "eval_conf \<Rightarrow> evaluator \<Rightarrow> int \<Rightarrow> int \<Rightarrow> string \<Rightarrow> string \<Rightarrow> (string \<times> MetricData list) list \<Rightarrow> MetricData list ev" where
  "eval_groups C ev start stop name callback [] = ret []"
| "eval_groups C ev start stop name callback ((k, as) # gs) =
     ev_bind (group_callback C name callback k) (\<lambda>x.
     ev_bind (eval_group ev start stop x k as) (\<lambda>rs.
     ev_bind (eval_groups C ev start stop name callback gs) (\<lambda>rss. ret (rs @ rss))))"

definition groupByNode_Do :: "eval_conf \<Rightarrow> evaluator \<Rightarrow> expr \<Rightarrow> int \<Rightarrow> int \<Rightarrow> MetricData list ev" where
  "groupByNode_Do C ev e start stop =
     (if length (args e) < 2 then throw missing_argument
      else each_series ev e start stop (\<lambda>as.
        ev_bind (if target e = ''groupByNode''
                 then ev_bind (of_parser (GetNodeOrTagArgs e 1 True)) (\<lambda>nodes.
                      ev_bind (of_parser (GetStringArgDefault e 2 ''avg'')) (\<lambda>c. ret (nodes, c)))
                 else ev_bind (of_parser (GetStringArg e 1)) (\<lambda>c.
                      ev_bind (of_parser (GetNodeOrTagArgs e 2 False)) (\<lambda>nodes. ret (nodes, c)))) (\<lambda>(nodes, callback).
        ev_bind (of_go (group_by (\<lambda>a. AggKey a nodes) as))
          (eval_groups C ev start stop (target e) callback))))"

section \<open>One group for every key\<close>

definition first_seen :: "'k list \<Rightarrow> 'k list" where
  "first_seen ks = rev (remdups (rev ks))"

lemma first_seen_snoc: "first_seen (ks @ [k]) = (if k \<in> set ks then first_seen ks else first_seen ks @ [k])"
  by (simp add: first_seen_def)

lemma first_seen_simps [simp]: "set (first_seen ks) = set ks" "distinct (first_seen ks)" "first_seen [] = []"
  by (simp_all add: first_seen_def)

lemma update_listed:
  "distinct ks \<Longrightarrow> AList.update k v (map (\<lambda>x. (x, F x)) ks) =
     map (\<lambda>x. (x, (F(k := v)) x)) (if k \<in> set ks then ks else ks @ [k])"
  by (induction ks) auto

lemma group_fold:
  "foldl (\<lambda>g (k, a). add_to_group k a g) [] ps =
     map (\<lambda>k. (k, map snd (filter (\<lambda>p. fst p = k) ps))) (first_seen (map fst ps))"
proof (induction ps rule: rev_induct)
  case (snoc p ps)
  obtain k a where p: "p = (k, a)" by (cases p)
  define F where "F = (\<lambda>k. map snd (filter (\<lambda>p. fst p = k) ps))"
  have none: "F k = []" if "k \<notin> fst ` set ps" using that by (auto simp: F_def filter_empty_conv)
  have "map_of (map (\<lambda>k. (k, F k)) (first_seen (map fst ps))) k = (if k \<in> fst ` set ps then Some (F k) else None)"
    by (simp add: map_of_map_restrict restrict_map_def)
  then have "add_to_group k a (map (\<lambda>k. (k, F k)) (first_seen (map fst ps))) =
      map (\<lambda>x. (x, (F(k := F k @ [a])) x)) (first_seen (map fst (ps @ [p])))"
    using none by (simp add: add_to_group_def update_listed first_seen_snoc p)
  moreover have "(F(k := F k @ [a])) x = map snd (filter (\<lambda>p. fst p = x) (ps @ [p]))" for x
    by (simp add: F_def p)
  ultimately show ?case using snoc.IH by (simp add: p F_def)
qed simp

lemma keyed_filter:
  "opt_map key as = Some ks \<Longrightarrow> map snd (filter (\<lambda>p. fst p = k) (zip ks as)) = filter (\<lambda>a. key a = Some k) as"
  by (induction as arbitrary: ks) (auto split: option.splits)

text \<open>
  grouping sorts the series into one group for every key, in the order in which the keys were first
  seen, and a group has exactly the series with its key, in their order; it panics when computing a
  key does.
\<close>

lemma group_by_partitions:
  "group_by key as =
     map_option (\<lambda>ks. map (\<lambda>k. (k, filter (\<lambda>a. key a = Some k) as)) (rev (remdups (rev ks)))) (opt_map key as)"
proof (cases "opt_map key as")
  case (Some ks)
  then have "length ks = length as" by (rule opt_map_length)
  then show ?thesis using keyed_filter[OF Some] by (simp add: group_by_def Some group_fold first_seen_def)
qed (simp add: group_by_def)

lemma group_by_keys:
  assumes "group_by key as = Some gs"
  shows "distinct (map fst gs)" "\<And>k ms. (k, ms) \<in> set gs \<Longrightarrow> ms \<noteq> []"
    "set (map fst gs) = {k. \<exists>a\<in>set as. key a = Some k}"
proof -
  obtain ks where ks: "opt_map key as = Some ks" using assms by (auto simp: group_by_def)
  then have len: "length ks = length as" by (rule opt_map_length)
  have gs: "gs = map (\<lambda>k. (k, filter (\<lambda>a. key a = Some k) as)) (first_seen ks)"
    using assms len keyed_filter[OF ks] by (simp add: group_by_def ks group_fold)
  have mem: "k \<in> set ks \<longleftrightarrow> (\<exists>a\<in>set as. key a = Some k)" for k
    using opt_map_nth[OF ks] len opt_map_in_set[OF ks] by (metis in_set_conv_nth option.inject)
  show "distinct (map fst gs)" by (simp add: gs comp_def)
  show "ms \<noteq> []" if "(k, ms) \<in> set gs" for k ms
    using that mem by (auto simp: gs filter_empty_conv)
  show "set (map fst gs) = {k. \<exists>a\<in>set as. key a = Some k}" using mem by (auto simp: gs image_image)
qed

lemma aggregate_group_single:
  "aggregate_group E qs x e c f (k, as) = Some rs \<Longrightarrow> as \<noteq> [] \<Longrightarrow> \<exists>r. rs = [r] \<and> Name r = k"
  by (auto simp: aggregate_group_def AggregateSeries_def set_tag_def bind_eq_Some_conv split: option.splits list.splits)

lemma aggregate_groups_names:
  "opt_map (aggregate_group E qs x e c f) gs = Some rss \<Longrightarrow> (\<And>k ms. (k, ms) \<in> set gs \<Longrightarrow> ms \<noteq> []) \<Longrightarrow>
   map Name (concat rss) = map fst gs"
proof (induction gs arbitrary: rss)
  case (Cons g gs)
  obtain k ms where g: "g = (k, ms)" by (cases g)
  obtain rs rss' where rs: "aggregate_group E qs x e c f (k, ms) = Some rs" "opt_map (aggregate_group E qs x e c f) gs = Some rss'"
    "rss = rs # rss'" using Cons.prems(1) by (auto simp: g split: option.splits)
  moreover have "ms \<noteq> []" using Cons.prems(2)[of k ms] by (simp add: g)
  ultimately obtain r where "rs = [r]" "Name r = k" using aggregate_group_single[OF rs(1)] by blast
  then show ?case using Cons.IH[OF rs(2)] Cons.prems(2) rs(3) by (auto simp: g)
qed simp

lemma ev_bind_Inr:
  "ev_bind m f s = Some (Inr x, s') \<longleftrightarrow> (\<exists>y s1. m s = Some (Inr y, s1) \<and> f y s1 = Some (Inr x, s'))"
  by (auto simp: ev_bind_def split: option.splits sum.splits prod.splits)

lemma of_go_Inr: "of_go r s = Some (Inr x, s') \<longleftrightarrow> r = Some x \<and> s' = s"
  by (auto simp: of_go_def split: option.splits)

lemma of_parser_Inr: "of_parser r s = Some (Inr x, s') \<longleftrightarrow> r = Inr x \<and> s' = s"
  by (auto simp: of_parser_def throw_def ret_def split: sum.splits)

lemma wildcards_callback_state: "wildcards_callback e s = Some (Inr r, s') \<Longrightarrow> s' = s"
  by (auto simp: wildcards_callback_def throw_def ret_def ev_bind_Inr of_parser_Inr Let_def split: if_splits)

text \<open>
  the answer of \<open>aggregateWithWildcards\<close> and its relatives has no two series of one name; its names are
  those that the names of the series have without the nodes at the given positions.
\<close>

lemma wildcards_one_per_name:
  assumes "aggregateWithWildcards_Do E qs x ev e start stop s = Some (Inr rs, s')"
  shows "distinct (map Name rs) \<and>
    (\<exists>as s1 c ix positions. GetSeriesArg ev (args e ! 0) start stop s = Some (Inr as, s1)
       \<and> wildcards_callback e s1 = Some (Inr (c, ix), s1) \<and> GetIntArgs e ix = Inr positions
       \<and> set (map Name rs) = {k. \<exists>a\<in>set as. other_nodes positions a = Some k})"
proof -
  have "args e \<noteq> []" using assms by (auto simp: aggregateWithWildcards_Do_def throw_def split: if_splits)
  then obtain as s1 c ix positions f gs rss where
    as: "GetSeriesArg ev (args e ! 0) start stop s = Some (Inr as, s1)"
    and c: "wildcards_callback e s1 = Some (Inr (c, ix), s1)" "GetIntArgs e ix = Inr positions"
    and gs: "group_by (other_nodes positions) as = Some gs"
    and rss: "opt_map (aggregate_group E qs x e c f) gs = Some rss" "rs = concat rss"
    using assms wildcards_callback_state
    by (auto simp: aggregateWithWildcards_Do_def each_series_def Arg_def go_index_def ev_bind_Inr of_go_Inr of_parser_Inr
        throw_def hd_conv_nth split: prod.splits option.splits if_splits)
  have "map Name rs = map fst gs"
    using aggregate_groups_names[OF rss(1)] group_by_keys(2)[OF gs] rss(2) by blast
  then show ?thesis using group_by_keys(1,3)[OF gs] as c by auto
qed


lemma answered_values:
  "map_option (\<lambda>(r, _). case r of Inl _ \<Rightarrow> [] | Inr rs \<Rightarrow> map Values rs) m = Some (v # vs) \<Longrightarrow>
   \<exists>rs s'. m = Some (Inr rs, s') \<and> map Values rs = v # vs"
  by (cases m) (auto split: sum.splits)

lemma wildcards_one_per_name_witness:
  "\<forall>E qs. \<exists>rs s'. aggregateWithWildcards_Do E qs False
     \<lparr>ev_Fetch = (\<lambda>es start stop. ret []),
      ev_Eval = (\<lambda>x start stop. ret [makeMetricDataWithTags ''a.x'' [FNum 1] 10 20 [], makeMetricDataWithTags ''b.x'' [FNum 3] 10 20 [],
         makeMetricDataWithTags ''a.y'' [FNum 2] 10 20 []])\<rparr>
     (Expr ''sumSeriesWithWildcards'' EtFunc (FNum 0) [] [Expr ''*.*'' EtName (FNum 0) [] [] [] [], Expr [] EtConst (FNum 1) [] [] [] []]
        [] ''*.*,1'') 20 30 [] = Some (Inr rs, s')
     \<and> map Values rs = [[FNum 3], [FNum 3]] \<and> distinct (map Name rs)"
proof (intro allI)
  fix E qs
  let ?m = "aggregateWithWildcards_Do E qs False
     \<lparr>ev_Fetch = (\<lambda>es start stop. ret []),
      ev_Eval = (\<lambda>x start stop. ret [makeMetricDataWithTags ''a.x'' [FNum 1] 10 20 [], makeMetricDataWithTags ''b.x'' [FNum 3] 10 20 [],
         makeMetricDataWithTags ''a.y'' [FNum 2] 10 20 []])\<rparr>
     (Expr ''sumSeriesWithWildcards'' EtFunc (FNum 0) [] [Expr ''*.*'' EtName (FNum 0) [] [] [] [], Expr [] EtConst (FNum 1) [] [] [] []]
        [] ''*.*,1'') 20 30 []"
  have "map_option (\<lambda>(r, _). case r of Inl _ \<Rightarrow> [] | Inr rs \<Rightarrow> map Values rs) ?m = Some [[FNum 3], [FNum 3]]"
    by code_simp
  then obtain rs s' where rs: "?m = Some (Inr rs, s')" "map Values rs = [[FNum 3], [FNum 3]]"
    using answered_values by blast
  then show "\<exists>rs s'. ?m = Some (Inr rs, s') \<and> map Values rs = [[FNum 3], [FNum 3]] \<and> distinct (map Name rs)"
    by (intro exI conjI) (rule rs wildcards_one_per_name[OF rs(1), THEN conjunct1])+
qed

end
