(* ===== verification/As_Percent.thy ===== *)
theory As_Percent
  imports Grouping Align_Scale Go_Sort
begin

text \<open>
  \<open>asPercent\<close> of \<open>expr/functions/asPercent/function.go\<close>: series as percentages of their sum, of a number, of
  other series, or of the series of their group. The series are aligned copies, so what the
  function writes into them is seen in its answer only.
\<close>

type_synonym series_sort = "(MetricData \<Rightarrow> MetricData \<Rightarrow> bool) \<Rightarrow> MetricData list \<Rightarrow> MetricData list"

definition by_name :: "MetricData \<Rightarrow> MetricData \<Rightarrow> bool" where
  "by_name a b \<longleftrightarrow> string_less (Name a) (Name b)"

section \<open>Percentages\<close>

definition sum_present :: "f64 list \<Rightarrow> f64" where
  "sum_present vs = foldl (\<lambda>t v. if isNaN v then t else t + v) 0 vs"

definition getTotal :: "f64 list \<Rightarrow> f64" where
  "getTotal vs = (if list_all isNaN vs then FNaN else sum_present vs)"

definition sumSeries :: "MetricData list \<Rightarrow> f64 list go_result" where
  "sumSeries as = opt_map (\<lambda>i. map_option sum_present (column as i)) [0..<length (Values (hd as))]"

definition calculatePercentage :: "f64 \<Rightarrow> f64 \<Rightarrow> f64" where
  "calculatePercentage v tot = (if isNaN v \<or> isNaN tot \<or> feq tot 0 then FNaN else v * (FNum 100 div tot))"

definition getPercentages :: "f64 list \<Rightarrow> f64 list \<Rightarrow> f64 list" where
  "getPercentages vs ts =
     (if length ts < length vs
      then map2 calculatePercentage vs ts @ replicate (length vs - length ts) FNaN
      else map2 calculatePercentage vs ts @ replicate (length ts - length vs) FNaN)"

definition percent_name :: "string \<Rightarrow> string \<Rightarrow> string" where
  "percent_name a b = ''asPercent('' @ a @ '','' @ b @ '')''"

definition percent_of :: "MetricData \<Rightarrow> MetricData \<Rightarrow> MetricData" where
  "percent_of a t = a\<lparr>Values := getPercentages (Values a) (Values t), Name := percent_name (Name a) (Name t)\<rparr>"

definition all_absent :: "MetricData \<Rightarrow> MetricData" where
  "all_absent a = a\<lparr>Values := replicate (length (Values a)) FNaN\<rparr>"

definition total_missing :: "MetricData \<Rightarrow> MetricData" where
  "total_missing a = (all_absent a)\<lparr>Name := percent_name (Name a) ''MISSING''\<rparr>"

definition series_missing :: "MetricData \<Rightarrow> MetricData" where
  "series_missing t = (all_absent t)\<lparr>Name := percent_name ''MISSING'' (Name t), MTags := [(''name'', ''MISSING'')]\<rparr>"

definition seriesAsPercent :: "series_sort \<Rightarrow> MetricData list \<Rightarrow> MetricData list \<Rightarrow> MetricData list" where
  "seriesAsPercent sort_by arg tot =
     (case tot of
        [] \<Rightarrow> map total_missing arg
      | [t] \<Rightarrow> map (\<lambda>a. percent_of a t) arg
      | _ \<Rightarrow>
          (let as = sort_by by_name arg; ts = sort_by by_name tot
           in if length as \<le> length ts
              then map2 percent_of as ts @ map series_missing (drop (length as) ts)
              else map2 percent_of as ts @ map total_missing (drop (length ts) as)))"

section \<open>Groups\<close>

definition group_point :: "f64 \<Rightarrow> f64 \<Rightarrow> f64" where
  "group_point v s = (if isNaN s \<or> feq s 0 then FNaN else v * (FNum 100 div s))"

definition group_percent :: "series_sort \<Rightarrow> MetricData list \<Rightarrow> MetricData list go_result" where
  "group_percent sort_by as =
     map_option (\<lambda>s. sort_by by_name (map (\<lambda>a.
         a\<lparr>Values := map2 group_point (Values a) s @ drop (length s) (Values a), Name := percent_name (Name a) ''None''\<rparr>) as))
       (sumSeries as)"

definition group_at :: "string \<Rightarrow> (string \<times> MetricData list) list \<Rightarrow> MetricData list" where
  "group_at k g = (case map_of g k of None \<Rightarrow> [] | Some as \<Rightarrow> as)"

definition seriesGroupAsPercent :: "series_sort \<Rightarrow> MetricData list \<Rightarrow> NodeOrTag list \<Rightarrow> MetricData list go_result" where
  "seriesGroupAsPercent sort_by arg nodes =
     Option.bind (group_by (\<lambda>a. AggKey a nodes) arg) (\<lambda>groups.
       map_option concat (opt_map (\<lambda>k. group_percent sort_by (group_at k groups)) (sort_strings (map fst groups))))"

text \<open>The loops that read the total at the index of the value, which panic when the total is shorter.\<close>

definition percent_within :: "MetricData \<Rightarrow> MetricData \<Rightarrow> MetricData go_result" where
  "percent_within a t =
     (if length (Values t) < length (Values a) then Panic
      else Some (a\<lparr>Values := map2 calculatePercentage (Values a) (Values t), Name := percent_name (Name a) (Name t)\<rparr>))"

text \<open>
  For a group with more series than totals, the loop for the series without a total runs over the answer
  instead of the group, from the number of all totals on, and appends to it: \<open>None\<close> is also a run
  that does not end.
\<close>

partial_function (option) unpaired_loop :: "nat \<Rightarrow> MetricData list \<Rightarrow> MetricData list option" where
  "unpaired_loop n arg =
     (if n < length arg
      then (let a = total_missing (arg ! n) in unpaired_loop (Suc n) (arg[n := a] @ [a]))
      else Some arg)"

definition percent_group ::
  "series_sort \<Rightarrow> MetricData list \<Rightarrow> MetricData list option \<Rightarrow> MetricData list option \<Rightarrow> MetricData list \<Rightarrow> MetricData list go_result" where
  "percent_group sort_by tot argGroup totalGroup out =
     (case (argGroup, totalGroup) of
        (Some as, Some ts) \<Rightarrow>
          if length ts = 1 then Some (out @ sort_by by_name (map (\<lambda>a. percent_of a (hd ts)) as))
          else if length as \<le> length ts
          then map_option (\<lambda>rs. out @ sort_by by_name (rs @ map series_missing (drop (length as) ts)))
                 (opt_map (\<lambda>(a, t). percent_within a t) (zip as ts))
          else Option.bind (opt_map (\<lambda>(a, t). percent_within a t) (zip (take (length ts) as) tot)) (\<lambda>_.
                 map_option (\<lambda>arg. take (length out) arg @ sort_by by_name (drop (length out) arg))
                   (unpaired_loop (length tot) out))
      | (Some as, None) \<Rightarrow> Some (out @ sort_by by_name (map total_missing as))
      | (None, Some ts) \<Rightarrow> Some (out @ sort_by by_name (map series_missing ts))
      | (None, None) \<Rightarrow> Some out)"

fun percent_groups ::
  "series_sort \<Rightarrow> MetricData list \<Rightarrow> (string \<times> MetricData list) list \<Rightarrow> (string \<times> MetricData list) list \<Rightarrow> string list
    \<Rightarrow> MetricData list \<Rightarrow> MetricData list go_result" where
  "percent_groups sort_by tot argGroups totalGroups [] out = Some out"
| "percent_groups sort_by tot argGroups totalGroups (k # ks) out =
     Option.bind (percent_group sort_by tot (map_of argGroups k) (map_of totalGroups k) out)
       (percent_groups sort_by tot argGroups totalGroups ks)"

definition seriesGroup2AsPercent ::
  "series_sort \<Rightarrow> MetricData list \<Rightarrow> MetricData list \<Rightarrow> NodeOrTag list \<Rightarrow> MetricData list go_result" where
  "seriesGroup2AsPercent sort_by arg tot nodes =
     Option.bind (group_by (\<lambda>a. AggKey a nodes) arg) (\<lambda>argGroups.
     Option.bind (group_by (\<lambda>a. AggKey a nodes) tot) (\<lambda>totalGroups.
       percent_groups sort_by tot argGroups totalGroups
         (sort_strings (map fst argGroups @ filter (\<lambda>k. map_of argGroups k = None) (map fst totalGroups))) []))"

section \<open>The function\<close>

text \<open>Every series at its percentage of the sum of the values at the same index.\<close>

definition percent_of_sum :: "MetricData list \<Rightarrow> MetricData list go_result" where
  "percent_of_sum as =
     map_option (\<lambda>ts. map (\<lambda>a. a\<lparr>Values := map2 calculatePercentage (Values a) ts @ drop (length ts) (Values a),
         Name := ''asPercent('' @ Name a @ '')''\<rparr>) as)
       (opt_map (\<lambda>i. map_option getTotal (column as i)) [0..<length (Values (hd as))])"

definition percent_of_number :: "f64 \<Rightarrow> string \<Rightarrow> MetricData \<Rightarrow> MetricData" where
  "percent_of_number tot txt a =
     a\<lparr>Values := map (\<lambda>v. calculatePercentage v tot) (Values a), Name := percent_name (Name a) txt\<rparr>"

definition asPercent_Do :: "go_env \<Rightarrow> series_sort \<Rightarrow> bool \<Rightarrow> evaluator \<Rightarrow> expr \<Rightarrow> int \<Rightarrow> int \<Rightarrow> MetricData list ev" where
  "asPercent_Do E sort_by ExtrapolatePoints ev e start stop =
     each_series ev e start stop (\<lambda>arg.
       let n = length (args e); e1 = args e ! 1;
           aligned = (\<lambda>as. AlignSeries ExtrapolatePoints (CopyMetricDataSlice as));
           with_totals = (\<lambda>f. ev_bind (GetSeriesArg ev e1 start stop) (\<lambda>tot.
             of_go (Option.bind (aligned (arg @ tot)) (\<lambda>as. f (take (length arg) as) (drop (length arg) as)))))
       in if arg = [] then ret []
          else if n = 1 then of_go (Option.bind (aligned arg) percent_of_sum)
          else if n = 2 \<and> (IsConst e1 \<or> IsString e1)
          then ev_bind (of_parser (GetFloatArg E e 1)) (\<lambda>tot.
                 of_go (map_option (map (percent_of_number tot (valStr e1))) (aligned arg)))
          else if n = 2 \<and> (IsName e1 \<or> IsFunc e1)
          then with_totals (\<lambda>as ts. Some (seriesAsPercent sort_by as ts))
          else if 3 \<le> n \<and> IsName e1 \<or> IsFunc e1
          then ev_bind (of_parser (GetNodeOrTagArgs e 2 False)) (\<lambda>nodes.
                 if target e1 = ''None'' then of_go (Option.bind (aligned arg) (\<lambda>as. seriesGroupAsPercent sort_by as nodes))
                 else with_totals (\<lambda>as ts. seriesGroup2AsPercent sort_by as ts nodes))
          else throw (other_error ''total must be either a constant or a series''))"


section \<open>What the percentages are\<close>

lemma padded_same_length:
  assumes g: "one_grid s as" and "a \<in> set as" "b \<in> set as"
  shows "length (Values (padded (min_start as) (max_stop as) a)) = length (Values (padded (min_start as) (max_stop as) b))"
proof -
  have "0 < s" using g by (simp add: one_grid_def)
  then show ?thesis using padded_lengths(3)[OF g assms(2)] padded_lengths(3)[OF g assms(3)]
    by (metis mult_right_cancel less_irrefl of_nat_eq_iff)
qed

lemma percent_of_sum_padded:
  assumes g: "one_grid s as"
  defines "p \<equiv> padded (min_start as) (max_stop as)"
    and "T \<equiv> \<lambda>i. getTotal (map (\<lambda>a. value_at a (min_start as + int i * s)) as)"
  shows "percent_of_sum (map p as) = Some (map (\<lambda>a. (p a)
    \<lparr>Values := map2 calculatePercentage (Values (p a)) (map T [0..<length (Values (p a))]), Name := ''asPercent('' @ Name a @ '')''\<rparr>) as)"
proof -
  have ne: "as \<noteq> []" using g by (simp add: one_grid_def)
  define n where "n = length (Values (p (hd as)))"
  have hd: "hd as \<in> set as" using ne by simp
  have len: "length (Values (p a)) = n" if "a \<in> set as" for a
    using padded_same_length[OF g that hd] by (simp add: n_def p_def)
  have "opt_map (\<lambda>i. map_option getTotal (column (map p as) i)) [0..<n] = Some (map T [0..<n])"
    using column_padded[OF g hd] by (intro opt_map_Some) (simp add: n_def p_def T_def)
  moreover have "length (Values (hd (map p as))) = n" using ne by (simp add: n_def hd_map)
  ultimately show ?thesis using len by (simp add: percent_of_sum_def p_def)
qed

text \<open>
  C35: \<open>asPercent\<close> of series alone gives each series, at every time of the common range of the series, its
  value at that time as a percentage of the sum of the values the series have at that time, and
  no value where the series or all series have none, or where the sum is zero.
\<close>

theorem asPercent_points:
  assumes g: "one_grid s as" and e: "length (args e) = 1"
    and as: "GetSeriesArg ev (args e ! 0) start stop m = Some (Inr as, m')"
  shows "\<exists>rs. asPercent_Do E sort_by False ev e start stop m = Some (Inr rs, m') \<and> length rs = length as
    \<and> (\<forall>j<length as. Name (rs ! j) = ''asPercent('' @ Name (as ! j) @ '')'' \<and> StepTime (rs ! j) = s
         \<and> StartTime (rs ! j) = min_start as \<and> int (length (Values (rs ! j))) * s = max_stop as - min_start as
         \<and> (\<forall>i<length (Values (rs ! j)).
              value_at (rs ! j) (min_start as + int i * s) =
                calculatePercentage (value_at (as ! j) (min_start as + int i * s))
                  (getTotal (map (\<lambda>a. value_at a (min_start as + int i * s)) as))))"
proof -
  let ?p = "padded (min_start as) (max_stop as)"
  let ?T = "\<lambda>i. getTotal (map (\<lambda>a. value_at a (min_start as + int i * s)) as)"
  let ?r = "\<lambda>a. (?p a)\<lparr>Values := map2 calculatePercentage (Values (?p a)) (map ?T [0..<length (Values (?p a))]),
    Name := ''asPercent('' @ Name a @ '')''\<rparr>"
  have s: "as \<noteq> []" "0 < s" "\<forall>r\<in>set as. StepTime r = s" using g by (auto simp: one_grid_def)
  have "args e \<noteq> []" using e by auto
  moreover have "CopyMetricDataSlice as = as" by (simp add: CopyMetricDataSlice_def Copy_def map_idI)
  ultimately have "asPercent_Do E sort_by False ev e start stop m = Some (Inr (map ?r as), m')"
    using e as s(1) AlignSeries_padded[OF g] percent_of_sum_padded[OF g]
    by (simp add: asPercent_Do_def each_series_def Arg_def go_index_def ev_bind_def ret_def Let_def hd_conv_nth)
  moreover have "value_at (?r a) (min_start as + int i * s) = calculatePercentage (value_at a (min_start as + int i * s)) (?T i)"
    if a: "a \<in> set as" and i: "i < length (Values (?p a))" for a i
    using value_at_index[of "?r a" i] value_at_padded[OF g a, of i] value_at_index[of "?p a" i] i s(2,3) a by simp
  ultimately show ?thesis
    using s(3) padded_lengths(3)[OF g] by (intro exI[of _ "map ?r as"]) simp
qed


theorem asPercent_points_witness:
  "\<forall>E sort_by. \<exists>rs m. asPercent_Do E sort_by False
     \<lparr>ev_Fetch = (\<lambda>es start stop. ret []),
      ev_Eval = (\<lambda>x start stop. ret [makeMetricDataWithTags ''a'' [FNum 1, FNum 2] 10 20 [], makeMetricDataWithTags ''b'' [FNum 3, FNum 7] 10 30 []])\<rparr>
     (Expr ''asPercent'' EtFunc (FNum 0) [] [Expr ''*'' EtName (FNum 0) [] [] [] []] [] ''*'') 20 50 [] = Some (Inr rs, m)
     \<and> map Name rs = [''asPercent(a)'', ''asPercent(b)''] \<and> value_at (rs ! 0) 30 = calculatePercentage (FNum 2) (FNum 5)"
proof (intro allI)
  fix E sort_by
  let ?as = "[makeMetricDataWithTags ''a'' [FNum 1, FNum 2] 10 20 [], makeMetricDataWithTags ''b'' [FNum 3, FNum 7] 10 30 []]"
  let ?ev = "\<lparr>ev_Fetch = (\<lambda>es start stop. ret []), ev_Eval = (\<lambda>x start stop. ret ?as)\<rparr>"
  let ?e = "Expr ''asPercent'' EtFunc (FNum 0) [] [Expr ''*'' EtName (FNum 0) [] [] [] []] [] ''*''"
  have g: "one_grid 10 ?as"
    by (simp add: one_grid_def makeMetricDataWithTags_def values_stop_def)
  have m: "min_start ?as = 20" "max_stop ?as = 50"
    by (simp_all add: min_start_def max_stop_def makeMetricDataWithTags_def values_stop_def)
  have a: "GetSeriesArg ?ev (args ?e ! 0) 20 50 [] = Some (Inr ?as, [])"
    by (simp add: GetSeriesArg_def IsName_def ret_def)
  obtain rs where r: "asPercent_Do E sort_by False ?ev ?e 20 50 [] = Some (Inr rs, [])" "length rs = 2"
    and p: "\<forall>j<length ?as. Name (rs ! j) = ''asPercent('' @ Name (?as ! j) @ '')'' \<and> int (length (Values (rs ! j))) * 10 = 30
      \<and> (\<forall>i<length (Values (rs ! j)). value_at (rs ! j) (20 + int i * 10) =
           calculatePercentage (value_at (?as ! j) (20 + int i * 10)) (getTotal (map (\<lambda>a. value_at a (20 + int i * 10)) ?as)))"
    using asPercent_points[OF g _ a, of E sort_by] unfolding m by auto
  have l: "length (Values (rs ! 0)) = 3" using p[rule_format, of 0] by simp
  have "0 < length ?as" by simp
  note p0 = p[THEN spec, THEN mp, OF this, THEN conjunct2, THEN conjunct2, THEN spec, THEN mp, of 1]
  have t: "(20 :: int) + int 1 * 10 = 30" by simp
  have "1 < length (Values (rs ! 0))" using l by simp
  from p0[OF this] have "value_at (rs ! 0) 30 = calculatePercentage (value_at (?as ! 0) 30) (getTotal (map (\<lambda>a. value_at a 30) ?as))"
    unfolding t .
  moreover have "getTotal (map (\<lambda>a. value_at a 30) ?as) = FNum 5" "value_at (?as ! 0) 30 = FNum 2"
    by (simp_all add: getTotal_def sum_present_def value_at_def makeMetricDataWithTags_def zero_f64_def plus_f64_def)
  moreover have "map Name rs = [''asPercent(a)'', ''asPercent(b)'']"
    using r(2) p[rule_format, of 0] p[rule_format, of 1]
    by (auto simp: makeMetricDataWithTags_def length_Suc_conv numeral_2_eq_2)
  ultimately show "\<exists>rs m. asPercent_Do E sort_by False ?ev ?e 20 50 [] = Some (Inr rs, m)
     \<and> map Name rs = [''asPercent(a)'', ''asPercent(b)''] \<and> value_at (rs ! 0) 30 = calculatePercentage (FNum 2) (FNum 5)"
    using r(1) by metis
qed

text \<open>
  The loop for the series of a group that have no total never ends once it starts, as each round appends a
  series; when the answer is still short it does not start, and the series of the group are lost.
\<close>

lemma unpaired_loop_endless: "unpaired_loop n arg = (if n < length arg then None else Some arg)"
proof (cases "n < length arg")
  case True
  let ?P = "\<lambda>n (arg :: MetricData list) (y :: MetricData list). \<not> n < length arg"
  have "?P n arg y" if "unpaired_loop n arg = Some y" for n arg y
  proof (rule unpaired_loop.raw_induct[of ?P, OF _ that])
    fix loop n arg y
    assume IH: "\<And>n arg y. loop n arg = Some y \<Longrightarrow> ?P n arg y"
      and body: "(if n < length arg then (let a = total_missing (arg ! n) in loop (Suc n) (arg[n := a] @ [a])) else Some arg) = Some y"
    show "?P n arg y" using body IH[of "Suc n"] by (fastforce simp: Let_def)
  qed
  then show ?thesis using True by (metis not_Some_eq)
qed (simp add: unpaired_loop.simps)

lemma percent_group_unpaired:
  assumes "go_sort sort_by" "1 < length ts" "length ts < length as"
    and "opt_map (\<lambda>(a, t). percent_within a t) (zip (take (length ts) as) tot) = Some rs"
  shows "percent_group sort_by tot (Some as) (Some ts) out = (if length tot < length out then None else Some out)"
  using assms(2-4) go_sort.sort_empty[OF assms(1)] by (simp add: percent_group_def unpaired_loop_endless)

end
