(* ===== verification/Selection.thy ===== *)
theory Selection
  imports As_Percent Metric_Heap
begin

text \<open>
  Functions of \<open>expr/functions\<close> that keep some of their series or put them in order, by a value of the
  series, by a percentile or by name: \<open>averageAbove\<close> and its relatives, \<open>filterSeries\<close>, \<open>grep\<close>, \<open>exclude\<close>,
  \<open>removeBelowValue\<close> and its relatives, \<open>sortBy*\<close>, \<open>sortByName\<close>, \<open>nPercentile\<close>, \<open>percentileOfSeries\<close>,
  \<open>removeBetweenPercentile\<close>, \<open>averageOutsidePercentile\<close> and \<open>mostDeviant\<close>. Parameters are the regular
  expressions of package \<open>regexp\<close> (a pattern is a predicate on names, or an error), the decimal texts
  \<open>fmtF\<close> and \<open>fmtG\<close> of package \<open>strconv\<close>, the natural order of names, and the order of equal elements.
\<close>

type_synonym regexes = "string \<Rightarrow> (string \<Rightarrow> bool) option"

section \<open>By a value of the series\<close>

definition below_compute :: "string \<Rightarrow> (f64 list \<Rightarrow> f64) option" where
  "below_compute t =
     (if HasPrefix t ''average'' then Some AvgValue else if HasPrefix t ''current'' then Some CurrentValue
      else if HasPrefix t ''maximum'' then Some MaxValue else if HasPrefix t ''minimum'' then Some MinValue else None)"

definition below_keeps :: "bool \<Rightarrow> f64 \<Rightarrow> f64 \<Rightarrow> bool" where
  "below_keeps isAbove n v = (if isAbove then n < v else v \<le> n)"

definition below_Do :: "go_env \<Rightarrow> evaluator \<Rightarrow> expr \<Rightarrow> int \<Rightarrow> int \<Rightarrow> MetricData list ev" where
  "below_Do E ev e start stop =
     (if length (args e) < 2 then throw missing_argument
      else each_series ev e start stop (\<lambda>as. ev_bind (of_parser (GetFloatArg E e 1)) (\<lambda>n.
        of_go (case below_compute (target e) of
                 None \<Rightarrow> if as = [] then Some [] else Panic
               | Some compute \<Rightarrow>
                   Some (filter (\<lambda>a. below_keeps (HasSuffix (target e) ''Above'') n (compute (Values a))) as)))))"

definition filter_operator :: "string \<Rightarrow> (f64 \<Rightarrow> f64 \<Rightarrow> bool) option" where
  "filter_operator op =
     map_of [(''='', feq), (''!='', \<lambda>v t. \<not> feq v t), (''>'', \<lambda>v t. t < v), (''>='', \<lambda>v t. t \<le> v),
             (''<'', \<lambda>v t. v < t), (''<='', \<lambda>v t. v \<le> t)] op"

definition filterSeries_Do :: "go_env \<Rightarrow> quickselect \<Rightarrow> evaluator \<Rightarrow> expr \<Rightarrow> int \<Rightarrow> int \<Rightarrow> MetricData list ev" where
  "filterSeries_Do E qs ev e start stop =
     (if length (args e) < 4 then throw missing_argument
      else each_series ev e start stop (\<lambda>as.
        ev_bind (of_parser (GetStringArg e 1)) (\<lambda>callback.
        ev_bind (of_parser (GetStringArg e 2)) (\<lambda>op.
        case filter_operator op of
          None \<Rightarrow> throw (other_error (''unsupported operator '' @ op))
        | Some holds \<Rightarrow>
            ev_bind (of_parser (GetFloatArg E e 3)) (\<lambda>threshold.
            case map_of (ConsolidationToFunc qs) callback of
              None \<Rightarrow> throw (unsupported_consolidation callback)
            | Some f \<Rightarrow> ret (filter (\<lambda>a. holds (f (Values a)) threshold) as))))))"

text \<open>\<open>grep\<close> and \<open>exclude\<close>.\<close>

definition name_filter_Do :: "regexes \<Rightarrow> bool \<Rightarrow> evaluator \<Rightarrow> expr \<Rightarrow> int \<Rightarrow> int \<Rightarrow> MetricData list ev" where
  "name_filter_Do compile keep ev e start stop =
     (if length (args e) < 2 then throw missing_argument
      else each_series ev e start stop (\<lambda>as. ev_bind (of_parser (GetStringArg e 1)) (\<lambda>pat.
        case compile pat of
          None \<Rightarrow> throw (other_error ''regexp'')
        | Some matches \<Rightarrow> ret (filter (\<lambda>a. matches (Name a) = keep) as))))"

definition grep_Do :: "regexes \<Rightarrow> evaluator \<Rightarrow> expr \<Rightarrow> int \<Rightarrow> int \<Rightarrow> MetricData list ev" where
  "grep_Do compile = name_filter_Do compile True"

definition exclude_Do :: "regexes \<Rightarrow> evaluator \<Rightarrow> expr \<Rightarrow> int \<Rightarrow> int \<Rightarrow> MetricData list ev" where
  "exclude_Do compile = name_filter_Do compile False"

definition removeBelowSeries_Do ::
  "go_env \<Rightarrow> quickselect \<Rightarrow> (f64 \<Rightarrow> string) \<Rightarrow> evaluator \<Rightarrow> expr \<Rightarrow> int \<Rightarrow> int \<Rightarrow> MetricData list ev" where
  "removeBelowSeries_Do E qs fmtF ev e start stop =
     each_series ev e start stop (\<lambda>as. ev_bind (of_parser (GetFloatArg E e 1)) (\<lambda>number.
       let condition = (\<lambda>v threshold. if HasPrefix (target e) ''removeAbove'' then threshold < v else v < threshold)
       in ret (map (\<lambda>a.
            let threshold = (if HasSuffix (target e) ''Percentile'' then Percentile qs (non_nan (Values a)) number True else number)
            in tagged ''removeBelowSeries'' (fmtF threshold) (target e @ ''('' @ Name a @ '', '' @ valStr (args e ! 1) @ '')'')
                 (map (\<lambda>v. if isNaN v \<or> condition v threshold then FNaN else v) (Values a)) a) as)))"

text \<open>As many series as asked for, by variance; the root of the heap is read also when it is empty.\<close>

definition mostDeviant_Do :: "evaluator \<Rightarrow> expr \<Rightarrow> int \<Rightarrow> int \<Rightarrow> MetricData list ev" where
  "mostDeviant_Do ev e start stop =
     (if length (args e) < 2 then throw missing_argument
      else let nArg = (if IsConst (args e ! 0) then 0 else 1)
        in ev_bind (of_parser (GetIntArg e nArg)) (\<lambda>n.
           ev_bind (GetSeriesArg ev (args e ! (1 - nArg)) start stop) (\<lambda>as.
             of_go (if 0 < n then select_highest (nat n) VarianceValue as
                    else if list_all (\<lambda>a. isNaN (VarianceValue (Values a))) as then Some [] else Panic))))"

section \<open>Order\<close>

type_synonym valued_sort = "(f64 \<times> MetricData \<Rightarrow> f64 \<times> MetricData \<Rightarrow> bool) \<Rightarrow> (f64 \<times> MetricData) list \<Rightarrow> (f64 \<times> MetricData) list"

definition sort_value :: "quickselect \<Rightarrow> string \<Rightarrow> MetricData \<Rightarrow> f64" where
  "sort_value qs f a = (let v = SummarizeValues qs f (Values a) (XFilesFactor a) in if isNaN v then FInf True else v)"

definition doSort :: "quickselect \<Rightarrow> valued_sort \<Rightarrow> string \<Rightarrow> bool \<Rightarrow> MetricData list \<Rightarrow> MetricData list" where
  "doSort qs sort_by f ascending as =
     map snd (sort_by (if ascending then (\<lambda>x y. fst x < fst y) else (\<lambda>x y. fst y < fst x))
       (map (\<lambda>a. (sort_value qs f a, a)) as))"

definition sort_function :: "string \<Rightarrow> string \<Rightarrow> (string \<times> bool) option" where
  "sort_function t f =
     map_of [(''sortByTotal'', (''sum'', False)), (''sortByMaxima'', (''max'', False)),
             (''sortByMinima'', (''min'', True)), (''sortBy'', (f, True))] t"

definition sortBy_Do :: "quickselect \<Rightarrow> valued_sort \<Rightarrow> evaluator \<Rightarrow> expr \<Rightarrow> int \<Rightarrow> int \<Rightarrow> MetricData list ev" where
  "sortBy_Do qs sort_by ev e start stop =
     each_series ev e start stop (\<lambda>as.
     ev_bind (of_parser (GetBoolArgDefault e 2 False)) (\<lambda>reverse.
     ev_bind (of_parser (GetStringArgDefault e 1 ''average'')) (\<lambda>f0.
       case sort_function (target e) f0 of
         None \<Rightarrow> throw (other_error (''invalid function called: '' @ target e))
       | Some (f, up) \<Rightarrow>
           if \<not> CheckValidConsolidationFunc qs f then throw (other_error (''invalid consolidation '' @ f))
           else ret (doSort qs sort_by f (if up then \<not> reverse else reverse) as))))"

definition sortByName_Do :: "series_sort \<Rightarrow> (string \<Rightarrow> string \<Rightarrow> bool) \<Rightarrow> evaluator \<Rightarrow> expr \<Rightarrow> int \<Rightarrow> int \<Rightarrow> MetricData list ev" where
  "sortByName_Do sort_by natural_less ev e start stop =
     each_series ev e start stop (\<lambda>as.
     ev_bind (of_parser (GetBoolNamedOrPosArgDefault e ''natural'' 1 False)) (\<lambda>natural.
     ev_bind (of_parser (GetBoolNamedOrPosArgDefault e ''reverse'' 2 False)) (\<lambda>reverse.
       let lt = (if natural then (\<lambda>a b. natural_less (Name a) (Name b)) else by_name)
       in ret (sort_by (if reverse then (\<lambda>a b. lt b a) else lt) as))))"

section \<open>By percentiles\<close>

definition nPercentile_Do ::
  "go_env \<Rightarrow> quickselect \<Rightarrow> (f64 \<Rightarrow> string) \<Rightarrow> evaluator \<Rightarrow> expr \<Rightarrow> int \<Rightarrow> int \<Rightarrow> MetricData list ev" where
  "nPercentile_Do E qs fmtG ev e start stop =
     (if length (args e) < 2 then throw missing_argument
      else each_series ev e start stop (\<lambda>as. ev_bind (of_parser (GetFloatArg E e 1)) (\<lambda>percent.
        ret (map (\<lambda>a. tagged ''nPercentile'' (fmtG percent) (''nPercentile('' @ Name a @ '','' @ fmtG percent @ '')'')
               (replicate (length (Values a)) (Percentile qs (non_nan (Values a)) percent True)) a) as))))"

definition percentileOfSeries_Do ::
  "go_env \<Rightarrow> quickselect \<Rightarrow> bool \<Rightarrow> bool \<Rightarrow> evaluator \<Rightarrow> expr \<Rightarrow> int \<Rightarrow> int \<Rightarrow> MetricData list ev" where
  "percentileOfSeries_Do E qs ExtrapolatePoints ExtractTagsFromArgs ev e start stop =
     (if length (args e) < 2 then throw missing_argument
      else each_series ev e start stop (\<lambda>as.
        if as = [] then ret []
        else ev_bind (of_parser (GetFloatArg E e 1)) (\<lambda>percent.
             ev_bind (of_parser (GetBoolNamedOrPosArgDefault e ''interpolate'' 2 False)) (\<lambda>interpolate.
               of_go (AggregateSeries E qs ExtrapolatePoints e as (\<lambda>vs. Percentile qs vs percent interpolate)
                        (XFilesFactor (hd as)) ExtractTagsFromArgs)))))"

definition upper_percent :: "f64 \<Rightarrow> f64" where
  "upper_percent number = (if number < FNum 50 then FNum 100 - number else number)"

text \<open>
  A pair of thresholds for every index with a value in some series. They are then read at the index of
  the series, not of the value.
\<close>

definition percentile_bounds :: "quickselect \<Rightarrow> f64 \<Rightarrow> MetricData list \<Rightarrow> (f64 \<times> f64) list go_result" where
  "percentile_bounds qs percentile as =
     map_option concat (opt_map (\<lambda>i. map_option (\<lambda>vs.
         if non_nan vs = [] then []
         else [(Percentile qs (non_nan vs) (FNum 100 - percentile) False, Percentile qs (non_nan vs) percentile False)])
       (column as i)) [0..<length (Values (hd as))])"

definition outside :: "f64 \<times> f64 \<Rightarrow> f64 \<Rightarrow> bool" where
  "outside b v \<longleftrightarrow> \<not> (fst b < v \<and> v < snd b)"

definition kept_outside :: "(f64 \<times> f64) list \<Rightarrow> nat \<times> MetricData \<Rightarrow> MetricData list go_result" where
  "kept_outside bounds = (\<lambda>(i, a).
     if Values a = [] then Some []
     else map_option (\<lambda>b. if list_ex (outside b) (Values a) then [a] else []) (go_index bounds (int i)))"

definition removeBetweenPercentile_Do ::
  "go_env \<Rightarrow> quickselect \<Rightarrow> (f64 \<Rightarrow> string) \<Rightarrow> evaluator \<Rightarrow> expr \<Rightarrow> int \<Rightarrow> int \<Rightarrow> MetricData list ev" where
  "removeBetweenPercentile_Do E qs fmtF ev e start stop =
     (if length (args e) < 2 then throw missing_argument
      else each_series ev e start stop (\<lambda>as. ev_bind (of_parser (GetFloatArg E e 1)) (\<lambda>number.
        of_go (if as = [] then Panic
               else Option.bind (percentile_bounds qs (upper_percent number) as) (\<lambda>bounds.
                 map_option (\<lambda>rss. map (\<lambda>a. (CopyLink a)\<lparr>Name := target e @ ''('' @ Name a @ '', '' @ fmtF number @ '')''\<rparr>) (concat rss))
                   (opt_map (kept_outside bounds) (enumerate 0 as)))))))"

definition averageOutsidePercentile_Do :: "go_env \<Rightarrow> quickselect \<Rightarrow> evaluator \<Rightarrow> expr \<Rightarrow> int \<Rightarrow> int \<Rightarrow> MetricData list ev" where
  "averageOutsidePercentile_Do E qs ev e start stop =
     (if length (args e) < 2 then throw missing_argument
      else each_series ev e start stop (\<lambda>as. ev_bind (of_parser (GetFloatArg E e 1)) (\<lambda>n.
        let number = upper_percent n; averages = map (\<lambda>a. AggMean (Values a)) as;
            b = (if averages = [] then (0, 0)
                 else (Percentile qs averages (FNum 100 - number) False, Percentile qs averages number False))
        in ret (filter (\<lambda>a. outside b (AggMean (Values a))) as))))"


section \<open>What is kept and in which order\<close>

text \<open>\<open>averageAbove\<close> and \<open>averageBelow\<close>, and their relatives, share out the series that have a value.\<close>

lemma above_below:
  "\<not> isNaN n \<Longrightarrow> \<not> isNaN v \<Longrightarrow> below_keeps True n v \<noteq> below_keeps False n v"
  "isNaN v \<Longrightarrow> \<not> below_keeps b n v"
  using not_less_f64[of n v] not_less_f64[of v n] less_f64_isNaN[of n v] le_f64_isNaN[of v n] by (auto simp: below_keeps_def)

text \<open>
  Sorting by a value keeps all series and puts them into ascending or descending order of that value;
  a series for which it cannot be computed counts as minus infinity.
\<close>

lemma doSort_sorted:
  assumes "go_sort sort_by"
  shows "mset (doSort qs sort_by f ascending as) = mset as \<and>
    sorted_wrt (\<lambda>a b. if ascending then sort_value qs f a \<le> sort_value qs f b else sort_value qs f b \<le> sort_value qs f a)
      (doSort qs sort_by f ascending as)"
proof -
  let ?v = "sort_value qs f" and ?ps = "map (\<lambda>a. (sort_value qs f a, a)) as"
  let ?lt = "if ascending then (\<lambda>x y. fst x < fst y) else (\<lambda>x y :: f64 \<times> MetricData. fst y < fst x)"
  define xs where "xs = sort_by ?lt ?ps"
  have mm: "mset xs = mset ?ps" unfolding xs_def by (rule go_sort.permutes[OF assms])
  then have set: "set xs = set ?ps" by (rule mset_eq_setD)
  have "mset (map snd xs) = image_mset snd (mset ?ps)" by (simp only: mset_map mm)
  then have m: "mset (map snd xs) = mset as" by (simp add: multiset.map_comp comp_def)
  have nn: "\<not> isNaN (?v a)" for a by (simp add: sort_value_def Let_def)
  have fst: "fst x = ?v (snd x)" if "x \<in> set xs" for x using that set by auto
  have "weak_order_on (set ?ps) ?lt"
    using nn by (auto simp: weak_order_on_def less_f64_rank)
  then have "sorted_wrt (\<lambda>x y. \<not> ?lt y x) xs" unfolding xs_def by (rule go_sort.sorts[OF assms])
  then have "sorted_wrt (\<lambda>x y. if ascending then ?v (snd x) \<le> ?v (snd y) else ?v (snd y) \<le> ?v (snd x)) xs"
    by (rule sorted_wrt_mono_rel[rotated]) (use nn fst in \<open>auto simp: less_f64_rank less_eq_f64_def split: if_splits\<close>)
  then have "sorted_wrt (\<lambda>a b. if ascending then ?v a \<le> ?v b else ?v b \<le> ?v a) (map snd xs)"
    by (simp add: sorted_wrt_map)
  then show ?thesis using m by (simp add: doSort_def xs_def)
qed

lemma doSort_sorted_witness:
  "\<forall>qs. mset (doSort qs insertionSort ''max'' False [makeMetricDataWithTags ''a'' [FNum 1] 60 0 [], makeMetricDataWithTags ''b'' [FNum 2] 60 0 []])
       = {#makeMetricDataWithTags ''a'' [FNum 1] 60 0 [], makeMetricDataWithTags ''b'' [FNum 2] 60 0 []#}
     \<and> sorted_wrt (\<lambda>a b. sort_value qs ''max'' b \<le> sort_value qs ''max'' a)
         (doSort qs insertionSort ''max'' False [makeMetricDataWithTags ''a'' [FNum 1] 60 0 [], makeMetricDataWithTags ''b'' [FNum 2] 60 0 []])"
  using doSort_sorted[OF insertion.go_sort_axioms, where ascending = False and f = "''max''"
      and as = "[makeMetricDataWithTags ''a'' [FNum 1] 60 0 [], makeMetricDataWithTags ''b'' [FNum 2] 60 0 []]"] by simp

text \<open>\<open>removeBetweenPercentile\<close> panics when there are more series than indices with a value.\<close>

lemma removeBetween_panics:
  assumes "length bounds < length as" "\<forall>a\<in>set as. Values a \<noteq> []"
  shows "opt_map (kept_outside bounds) (enumerate 0 as) = Panic"
proof (rule ccontr)
  assume "opt_map (kept_outside bounds) (enumerate 0 as) \<noteq> Panic"
  then obtain rs where "opt_map (kept_outside bounds) (enumerate 0 as) = Some rs" by blast
  from opt_map_nth[OF this, of "length bounds"] show False
    using assms by (simp add: kept_outside_def go_index_def nth_enumerate_eq)
qed

end
