(* ===== verification/Naming.thy ===== *)
theory Naming
  imports Selection
begin

text \<open>
  Functions of \<open>expr/functions\<close> that only name their series: \<open>alias\<close>, \<open>aliasByMetric\<close>, \<open>aliasByNode\<close>,
  \<open>aliasSub\<close>, \<open>aliasQuery\<close>, \<open>aliasByBase64\<close>, \<open>substr\<close>, \<open>toLowerCase\<close>, \<open>toUpperCase\<close>, \<open>legendValue\<close>,
  \<open>consolidateBy\<close>, and \<open>seriesByTag\<close>, which only looks its series up. Parameters are the replacement by a
  regular expression, the decoder of package \<open>base64\<close>, the mapping to upper case and the formats of
  \<open>fmt\<close> and \<open>strconv\<close>.
\<close>

type_synonym replacer = "string \<Rightarrow> (string \<Rightarrow> string \<Rightarrow> string) option"
type_synonym float_format = "char \<Rightarrow> int \<Rightarrow> f64 \<Rightarrow> string"

text \<open>A loop over a list that stops at the first error.\<close>

fun ev_map :: "('a \<Rightarrow> 'b ev) \<Rightarrow> 'a list \<Rightarrow> 'b list ev" where
  "ev_map f [] = ret []"
| "ev_map f (a # as) = ev_bind (f a) (\<lambda>r. ev_bind (ev_map f as) (\<lambda>rs. ret (r # rs)))"

text \<open>\<open>strings.ReplaceAll\<close> of a string that is not empty.\<close>

function ReplaceAll :: "string \<Rightarrow> string \<Rightarrow> string \<Rightarrow> string" where
  "ReplaceAll old new [] = []"
| "ReplaceAll old new (c # cs) =
     (if old \<noteq> [] \<and> HasPrefix (c # cs) old then new @ ReplaceAll old new (drop (length old) (c # cs))
      else c # ReplaceAll old new cs)"
  by pat_completeness auto
termination by (relation "measure (\<lambda>(old, new, s). length s)") (auto simp: diff_less_Suc)

text \<open>The backslashes of a replacement, \<open>helper.Backref.ReplaceAllString\<close>.\<close>

function Backref :: "string \<Rightarrow> string" where
  "Backref [] = []"
| "Backref (c # cs) =
     (if c = CHR 0x5C \<and> takeWhile is_digit cs \<noteq> []
      then ''${'' @ takeWhile is_digit cs @ ''}'' @ Backref (dropWhile is_digit cs)
      else c # Backref cs)"
  by pat_completeness auto
termination by (relation "measure length") (auto simp: le_imp_less_Suc length_dropWhile_le)

section \<open>Names of nodes\<close>

definition tag_of :: "string \<Rightarrow> MetricData \<Rightarrow> string" where
  "tag_of t a = (case map_of (MTags a) t of None \<Rightarrow> [] | Some v \<Rightarrow> v)"

text \<open>The nodes between two positions, which count from the end when they are negative.\<close>

definition substr_nodes :: "int \<Rightarrow> int \<Rightarrow> string list \<Rightarrow> string + string list" where
  "substr_nodes startField stopField nodes =
     (let n = int (length nodes);
          realStart = (if startField < 0 then max 0 (n + startField) else startField)
      in if startField \<noteq> 0 \<and> n - 1 < realStart then Inl ''start out of range''
         else let ns = drop (nat realStart) nodes
              in if stopField \<noteq> 0 \<and> stopField < int (length ns) + realStart
                 then let realStop = (if stopField < 0 then int (length ns) + stopField else stopField - realStart)
                      in if realStop < 0 then Inl ''stop out of range'' else Inr (take (nat realStop) ns)
                 else Inr ns)"

definition substr_Do :: "evaluator \<Rightarrow> expr \<Rightarrow> int \<Rightarrow> int \<Rightarrow> MetricData list ev" where
  "substr_Do ev e start stop =
     each_series ev e start stop (\<lambda>as.
     ev_bind (of_parser (GetIntNamedOrPosArgDefault e ''start'' 1 0)) (\<lambda>startField.
     ev_bind (of_parser (GetIntNamedOrPosArgDefault e ''stop'' 2 0)) (\<lambda>stopField.
       ev_map (\<lambda>a. case substr_nodes startField stopField (Split1 (tag_of ''name'' a) (CHR ''.'')) of
           Inl err \<Rightarrow> throw (other_error err)
         | Inr nodes \<Rightarrow> ret (a\<lparr>Name := Join nodes ''.''\<rparr>)) as)))"

definition alias_Do :: "evaluator \<Rightarrow> expr \<Rightarrow> int \<Rightarrow> int \<Rightarrow> MetricData list ev" where
  "alias_Do ev e start stop =
     (if length (args e) < 2 then throw missing_argument
      else each_series ev e start stop (\<lambda>as.
        ev_bind (of_parser (GetStringArg e 1)) (\<lambda>alias.
        ev_bind (of_parser (GetBoolArgDefault e 2 False)) (\<lambda>allowFormatStr.
          ret (map (\<lambda>a. a\<lparr>Name := (if allowFormatStr then ReplaceAll ''${expr}'' (Name a) alias else alias)\<rparr>) as)))))"

definition aliasByMetric_Do :: "evaluator \<Rightarrow> expr \<Rightarrow> int \<Rightarrow> int \<Rightarrow> MetricData list ev" where
  "aliasByMetric_Do ev e start stop =
     each_series ev e start stop (\<lambda>as. of_go (opt_map (\<lambda>a.
       map_option (\<lambda>metric. let name = last (Split1 metric (CHR ''.'')) in a\<lparr>Name := name, PathExpression := name\<rparr>)
         (ExtractNameTag (Name a))) as))"

definition aliasByNode_Do :: "evaluator \<Rightarrow> expr \<Rightarrow> int \<Rightarrow> int \<Rightarrow> MetricData list ev" where
  "aliasByNode_Do ev e start stop =
     (if length (args e) < 2 then throw missing_argument
      else each_series ev e start stop (\<lambda>as. ev_bind (of_parser (GetNodeOrTagArgs e 1 False)) (\<lambda>nodes.
        of_go (opt_map (\<lambda>a. map_option (\<lambda>k. a\<lparr>Name := k\<rparr>) (AggKey a nodes)) as))))"

definition aliasSub_Do :: "replacer \<Rightarrow> evaluator \<Rightarrow> expr \<Rightarrow> int \<Rightarrow> int \<Rightarrow> MetricData list ev" where
  "aliasSub_Do compile ev e start stop =
     (if length (args e) < 3 then throw (plain_error (ParserCause ErrMissingTimeseries))
      else each_series ev e start stop (\<lambda>as.
        ev_bind (of_parser (GetStringArg e 1)) (\<lambda>search.
        ev_bind (of_parser (GetStringArg e 2)) (\<lambda>repl.
          case compile search of
            None \<Rightarrow> throw (other_error ''regexp'')
          | Some replace_in \<Rightarrow> ret (map (\<lambda>a. a\<lparr>Name := replace_in (Backref repl) (Name a)\<rparr>) as)))))"

text \<open>The new name of a series is the last value of another one, whose name is made of the first's.\<close>

definition getLastValueOfSeries :: "evaluator \<Rightarrow> expr \<Rightarrow> int \<Rightarrow> int \<Rightarrow> f64 ev" where
  "getLastValueOfSeries ev e start stop =
     ev_bind (GetSeriesArg ev e start stop) (\<lambda>as.
       case as of
         [] \<Rightarrow> throw (plain_error (ParserCause ErrMissingTimeseries))
       | a # _ \<Rightarrow> if Values a = [] then throw (plain_error (ParserCause ErrMissingValues)) else ret (last (Values a)))"

definition aliasQuery_Do ::
  "eval_conf \<Rightarrow> replacer \<Rightarrow> (string \<Rightarrow> f64 \<Rightarrow> string) \<Rightarrow> evaluator \<Rightarrow> expr \<Rightarrow> int \<Rightarrow> int \<Rightarrow> MetricData list ev" where
  "aliasQuery_Do C compile sprintf ev e start stop =
     each_series ev e start stop (\<lambda>as.
     ev_bind (of_parser (GetStringArg e 1)) (\<lambda>search.
     ev_bind (of_parser (GetStringArg e 2)) (\<lambda>repl.
     ev_bind (of_parser (GetStringArg e 3)) (\<lambda>newName.
       case compile search of
         None \<Rightarrow> throw (other_error ''regexp'')
       | Some replace_in \<Rightarrow>
           ev_bind (ev_map (\<lambda>a. parse_target C (replace_in (Backref repl) (Name a))) as) (\<lambda>targets.
           ev_bind (ev_Fetch ev targets start stop) (\<lambda>targetValues.
             ev_map (\<lambda>(a, t). ev_bind (ev_on targetValues (getLastValueOfSeries ev t start stop)) (\<lambda>v.
               ret (a\<lparr>Name := sprintf newName v\<rparr>))) (zip as targets)))))))"

text \<open>A position is compared with the number of nodes only, so a negative one panics.\<close>

definition base64_name :: "(string \<Rightarrow> string option) \<Rightarrow> int option \<Rightarrow> MetricData \<Rightarrow> MetricData go_result" where
  "base64_name decode pos a =
     (case pos of
        None \<Rightarrow> Some (case decode (Name a) of None \<Rightarrow> a | Some n \<Rightarrow> CopyName n a)
      | Some p \<Rightarrow>
          let nodes = Split1 (tag_of ''name'' a) (CHR ''.'')
          in if int (length nodes) \<le> p then Some a
             else map_option (\<lambda>node. case decode node of
                      None \<Rightarrow> a
                    | Some n \<Rightarrow> CopyName (Join (nodes[nat p := n]) ''.'') a) (go_index nodes p))"

definition aliasByBase64_Do :: "(string \<Rightarrow> string option) \<Rightarrow> evaluator \<Rightarrow> expr \<Rightarrow> int \<Rightarrow> int \<Rightarrow> MetricData list ev" where
  "aliasByBase64_Do decode ev e start stop =
     each_series ev e start stop (\<lambda>as.
       let pos = (case GetIntArg e 1 of Inl _ \<Rightarrow> None | Inr i \<Rightarrow> Some (i - 1))
       in of_go (opt_map (base64_name decode pos) as))"

section \<open>Letters\<close>

text \<open>A byte as a string is the UTF-8 text of the code point with its value.\<close>

definition byte_string :: "char \<Rightarrow> string" where
  "byte_string c =
     (if byte c < 128 then [c] else [char_of (192 + byte c div 64), char_of (128 + byte c mod 64)])"

text \<open>The name changes length at each step, and the next position refers to the changed name.\<close>

fun case_at :: "(string \<Rightarrow> string) \<Rightarrow> int list \<Rightarrow> string \<Rightarrow> string go_result" where
  "case_at f [] s = Some s"
| "case_at f (i # is) s =
     (let j = (if i < 0 then int (length s) + i else i)
      in Option.bind (go_index s j) (\<lambda>c. case_at f is (take (nat j) s @ f (byte_string c) @ drop (nat j + 1) s)))"

definition case_Do :: "(string \<Rightarrow> string) \<Rightarrow> evaluator \<Rightarrow> expr \<Rightarrow> int \<Rightarrow> int \<Rightarrow> MetricData list ev" where
  "case_Do f ev e start stop =
     each_series ev e start stop (\<lambda>as. ev_bind (of_parser (GetIntArgs e 1)) (\<lambda>pos.
       of_go (opt_map (\<lambda>a. map_option (\<lambda>n. set_tag ''name'' n ((CopyLink a)\<lparr>Name := n\<rparr>))
         (if pos = [] then Some (f (Name a)) else case_at f pos (Name a))) as)))"

definition toLowerCase_Do :: "go_env \<Rightarrow> evaluator \<Rightarrow> expr \<Rightarrow> int \<Rightarrow> int \<Rightarrow> MetricData list ev" where
  "toLowerCase_Do E = case_Do (ToLower E)"

definition toUpperCase_Do :: "(string \<Rightarrow> string) \<Rightarrow> evaluator \<Rightarrow> expr \<Rightarrow> int \<Rightarrow> int \<Rightarrow> MetricData list ev" where
  "toUpperCase_Do ToUpper = case_Do ToUpper"

section \<open>Names with values\<close>

text \<open>The methods in order, and the last of the unit systems.\<close>

fun legend_methods :: "quickselect \<Rightarrow> expr \<Rightarrow> nat list \<Rightarrow> string \<Rightarrow> (string \<times> string list) ev" where
  "legend_methods qs e [] system = ret (system, [])"
| "legend_methods qs e (i # is) system =
     ev_bind (of_parser (GetStringArg e i)) (\<lambda>method.
       if method = ''si'' \<or> method = ''binary'' then legend_methods qs e is method
       else if \<not> CheckValidConsolidationFunc qs method then throw (other_error (''invalid consolidation '' @ method))
       else ev_bind (legend_methods qs e is system) (\<lambda>(s, ms). ret (s, method # ms)))"

definition legend_value :: "float_format \<Rightarrow> string \<Rightarrow> f64 \<Rightarrow> string" where
  "legend_value FormatFloat system v =
     (if system = [] then FormatFloat (CHR ''g'') (- 1) v
      else (case FormatUnits v system of (x, prefix) \<Rightarrow>
              (if \<bar>x\<bar> < round64 False (1 / 10) then FormatFloat (CHR ''g'') 9 x else FormatFloat (CHR ''f'') 2 x)
              @ (if prefix = [] then [] else prefix @ '' '')))"

definition legendValue_Do :: "quickselect \<Rightarrow> float_format \<Rightarrow> evaluator \<Rightarrow> expr \<Rightarrow> int \<Rightarrow> int \<Rightarrow> MetricData list ev" where
  "legendValue_Do qs FormatFloat ev e start stop =
     (if length (args e) < 2 then throw missing_argument
      else each_series ev e start stop (\<lambda>as.
        ev_bind (legend_methods qs e [1..<length (args e)] []) (\<lambda>(system, methods).
          ret (map (\<lambda>a. (CopyLink a)\<lparr>Name := Name a @ concat (map (\<lambda>method.
              '' ('' @ method @ '': '' @ legend_value FormatFloat system (SummarizeValues qs method (Values a) (XFilesFactor a)) @ '')'') methods)\<rparr>) as))))"

definition consolidateBy_Do :: "evaluator \<Rightarrow> expr \<Rightarrow> int \<Rightarrow> int \<Rightarrow> MetricData list ev" where
  "consolidateBy_Do ev e start stop =
     (if length (args e) < 2 then throw missing_argument
      else each_series ev e start stop (\<lambda>as. ev_bind (of_parser (GetStringArg e 1)) (\<lambda>name.
        ret (map (\<lambda>a. set_tag ''consolidateBy'' name ((CopyLink a)
          \<lparr>Name := ''consolidateBy('' @ Name a @ [CHR '','', CHR 0x22] @ name @ [CHR 0x22, CHR '')''], MConsolidationFunc := name\<rparr>)) as))))"

definition seriesByTag_Do :: "go_env \<Rightarrow> evaluator \<Rightarrow> expr \<Rightarrow> int \<Rightarrow> int \<Rightarrow> MetricData list ev" where
  "seriesByTag_Do E ev e start stop =
     (\<lambda>values. Some (Inr (case map_of values \<lparr>Metric = ToString E e, ConsolidationFunc = [], From = start, Until = stop\<rparr> of
         None \<Rightarrow> [] | Some as \<Rightarrow> as), values))"

section \<open>Positions\<close>

text \<open>The slice of a list from one position to another as Python writes it, zero standing for no end.\<close>

definition slice_bound :: "nat \<Rightarrow> int \<Rightarrow> int" where
  "slice_bound n i = (if i < 0 then max 0 (int n + i) else min (int n) i)"

definition python_slice :: "int \<Rightarrow> int \<Rightarrow> 'a list \<Rightarrow> 'a list" where
  "python_slice i j xs =
     drop (nat (slice_bound (length xs) i)) (if j = 0 then xs else take (nat (slice_bound (length xs) j)) xs)"

text \<open>
  \<open>substr\<close> gives the nodes of the slice from the start to the stop, and is an error exactly when a
  given start lies behind the last node, or when a stop that is before the end lies before the
  start.
\<close>

lemma substr_nodes_slice:
  "substr_nodes i j ns =
     (if i \<noteq> 0 \<and> int (length ns) \<le> slice_bound (length ns) i then Inl ''start out of range''
      else if j \<noteq> 0 \<and> (if j < 0 then int (length ns) + j else j) < slice_bound (length ns) i then Inl ''stop out of range''
      else Inr (python_slice i j ns))"
proof -
  define n where "n = int (length ns)"
  define s where "s = (if i < 0 then max 0 (n + i) else i)"
  have n0: "0 \<le> n" by (simp add: n_def)
  show ?thesis
  proof (cases "i \<noteq> 0 \<and> n - 1 < s")
    case True
    then have "n \<le> slice_bound (length ns) i" unfolding slice_bound_def n_def[symmetric] s_def by (auto simp: max_def min_def split: if_splits)
    then show ?thesis
      using True unfolding substr_nodes_def Let_def n_def[symmetric] s_def[symmetric] by simp
  next
    case False
    have s: "0 \<le> s" "s \<le> n" "slice_bound (length ns) i = s" "\<not> (i \<noteq> 0 \<and> n \<le> s)"
      using False n0 unfolding slice_bound_def n_def[symmetric] s_def by (auto simp: max_def min_def split: if_splits)
    have len: "int (length (drop (nat s) ns)) = n - s" using s by (simp add: n_def of_nat_diff nat_le_iff)
    have body: "substr_nodes i j ns =
      (if j \<noteq> 0 \<and> j < n
       then if (if j < 0 then n + j else j) < s then Inl ''stop out of range''
            else Inr (take (nat ((if j < 0 then n + j else j) - s)) (drop (nat s) ns))
       else Inr (drop (nat s) ns))"
    proof -
      have e: "(if j < 0 then n - s + j else j - s) = (if j < 0 then n + j else j) - s" by simp
      have l: "x - s < 0 \<longleftrightarrow> x < s" "n - s + s = n" for x by simp_all
      show ?thesis
        unfolding substr_nodes_def Let_def n_def[symmetric] s_def[symmetric] len e l if_not_P[OF False] ..
    qed
    have tk: "take (nat (k - s)) (drop (nat s) ns) = drop (nat s) (take (nat k) ns)" if "s \<le> k" for k
      using that s(1) by (simp add: take_drop nat_diff_distrib' nat_mono)
    have "take (nat n) ns = ns" by (simp add: n_def)
    then have "python_slice i j ns = drop (nat s) (if j = 0 \<or> n \<le> j then ns else take (nat (max 0 (if j < 0 then n + j else j))) ns)"
      by (auto simp: python_slice_def s(3)) (auto simp: slice_bound_def n_def)
    then show ?thesis
      using s tk unfolding body s(3) n_def[symmetric] by (auto simp: max_def)
  qed
qed


text \<open>The position 0 of \<open>aliasByBase64\<close>, which counts from 1, is read before the first node.\<close>

lemma base64_position_zero: "base64_name decode (Some (- 1)) a = Panic"
  by (simp add: base64_name_def go_index_def)

text \<open>A position that \<open>toLowerCase\<close> does not find in the name panics.\<close>

lemma case_at_outside: "int (length s) \<le> i \<Longrightarrow> case_at f (i # is) s = Panic"
  by (simp add: go_index_def)

end
