(* ===== verification/Combining.thy ===== *)
theory Combining
  imports Naming
begin

text \<open>
  Functions of \<open>expr/functions\<close> that combine series of several arguments or groups (\<open>divideSeries\<close>,
  \<open>divideSeriesLists\<close> and its relatives, \<open>aggregateSeriesLists\<close>, \<open>mapSeries\<close>, \<open>groupByTags\<close>, \<open>reduceSeries\<close>),
  and the rewriting functions \<open>useSeriesAbove\<close> and \<open>applyByNode\<close>, whose targets the evaluator fetches.
  The order in which a map is visited and \<open>math.Pow\<close> are parameters.
\<close>

section \<open>Quotients\<close>

text \<open>A point of a quotient; an absent value is absent by itself.\<close>

definition divide_point :: "f64 \<Rightarrow> f64 \<Rightarrow> f64" where
  "divide_point v d = (if feq d 0 then FNaN else v div d)"

definition divide_values :: "f64 list \<Rightarrow> f64 list \<Rightarrow> f64 list go_result" where
  "divide_values vs ds =
     opt_map (\<lambda>i. map_option (divide_point (vs ! i)) (go_index ds (int i))) [0..<length vs]"

text \<open>The consolidated denominator replaces the denominator for the numerators that follow.\<close>

fun divide_loop :: "go_env \<Rightarrow> quickselect \<Rightarrow> (MetricData \<Rightarrow> MetricData \<Rightarrow> string) \<Rightarrow> MetricData list \<Rightarrow> MetricData \<Rightarrow> MetricData list go_result" where
  "divide_loop E qs name [] d = Some []"
| "divide_loop E qs name (a # as) d =
     Option.bind (ConsolidateSeriesByStep E qs a d) (\<lambda>(a', d').
     Option.bind (divide_values (Values a') (Values d')) (\<lambda>vs.
     map_option (\<lambda>rs. (CopyTag (name a d) (MTags a') a')\<lparr>Values := vs\<rparr> # rs) (divide_loop E qs name as d')))"

definition divideSeries_Do :: "go_env \<Rightarrow> quickselect \<Rightarrow> evaluator \<Rightarrow> expr \<Rightarrow> int \<Rightarrow> int \<Rightarrow> MetricData list ev" where
  "divideSeries_Do E qs ev e start stop =
     (if args e = [] then throw (plain_error (ParserCause ErrMissingTimeseries))
      else each_series ev e start stop (\<lambda>as.
        if length (args e) = 2
        then ev_bind (GetSeriesArg ev (args e ! 1) start stop) (\<lambda>ds.
               case ds of
                 [] \<Rightarrow> ret (map (\<lambda>a. renamed (''divideSeries('' @ Name a @ '',MISSING)'') (replicate (length (Values a)) FNaN) a) as)
               | [d] \<Rightarrow> of_go (divide_loop E qs (\<lambda>a d. ''divideSeries('' @ Name a @ '','' @ Name d @ '')'') as d)
               | _ \<Rightarrow> throw (other_error ''wildcards not allowed''))
        else if length as = 2 \<and> length (args e) = 1
        then of_go (divide_loop E qs (\<lambda>a d. ''divideSeries('' @ argString e @ '')'') [as ! 0] (as ! 1))
        else throw (other_error ''must be called with 2 series or a wildcard that matches exactly 2 series'')))"

section \<open>Lists of series\<close>

definition list_compute :: "(f64 \<Rightarrow> f64 \<Rightarrow> f64) \<Rightarrow> string \<Rightarrow> f64 \<Rightarrow> f64 \<Rightarrow> f64" where
  "list_compute pw t l r =
     (if t = ''divideSeriesLists'' then l div r else if t = ''multiplySeriesLists'' then l * r
      else if t = ''diffSeriesLists'' then l - r else if t = ''powSeriesLists'' then pw l r else l + r)"

definition lists_name :: "expr \<Rightarrow> string \<Rightarrow> string \<Rightarrow> string" where
  "lists_name e a b = take (length (target e) - 5) (target e) @ ''('' @ a @ '','' @ b @ '')''"

text \<open>Only one of the lists has series; the default stands for the other.\<close>

definition constant_point :: "(f64 \<Rightarrow> f64 \<Rightarrow> f64) \<Rightarrow> string \<Rightarrow> bool \<Rightarrow> f64 \<Rightarrow> f64 \<Rightarrow> f64" where
  "constant_point pw t useDenom dflt v =
     (if isNaN v then FNaN
      else if t = ''divideSeriesLists'' \<and> (if useDenom then feq v 0 else feq dflt 0) then FNaN
      else if useDenom then list_compute pw t dflt v else list_compute pw t v dflt)"

definition constant_list :: "(f64 \<Rightarrow> f64 \<Rightarrow> f64) \<Rightarrow> expr \<Rightarrow> bool \<Rightarrow> f64 \<Rightarrow> MetricData list \<Rightarrow> MetricData list" where
  "constant_list pw e useDenom dflt as =
     map (\<lambda>a. a\<lparr>Name := lists_name e (Name a) (Name a), Values := map (constant_point pw (target e) useDenom dflt) (Values a)\<rparr>) as"

text \<open>A pair of series; the quotient also reads the denominator where there is none.\<close>

definition pair_point :: "(f64 \<Rightarrow> f64 \<Rightarrow> f64) \<Rightarrow> string \<Rightarrow> f64 \<Rightarrow> f64 list option \<Rightarrow> nat \<Rightarrow> f64 \<Rightarrow> f64 go_result" where
  "pair_point pw t dflt ds i v =
     (case ds of
        Some xs \<Rightarrow> map_option (\<lambda>d.
            if isNaN d \<or> isNaN v then FNaN
            else if t = ''divideSeriesLists'' \<and> feq d 0 then FNaN else list_compute pw t v d) (go_index xs (int i))
      | None \<Rightarrow> if isNaN v then Some FNaN
                else if t = ''divideSeriesLists'' then Panic else Some (list_compute pw t v dflt))"

definition pair_series ::
  "go_env \<Rightarrow> quickselect \<Rightarrow> (f64 \<Rightarrow> string) \<Rightarrow> (f64 \<Rightarrow> f64 \<Rightarrow> f64) \<Rightarrow> expr \<Rightarrow> f64 \<Rightarrow> MetricData \<Rightarrow> MetricData option \<Rightarrow> MetricData go_result" where
  "pair_series E qs fmtF pw e dflt a d =
     Option.bind (case d of None \<Rightarrow> Some (a, None)
                          | Some d0 \<Rightarrow> map_option (\<lambda>(x, y). (x, Some y)) (ConsolidateSeriesByStep E qs a d0)) (\<lambda>(a', d').
       map_option (\<lambda>vs. renamed (lists_name e (Name a') (case d' of None \<Rightarrow> fmtF dflt | Some y \<Rightarrow> Name y)) vs a')
         (opt_map (\<lambda>i. pair_point pw (target e) dflt (map_option Values d') i (Values a' ! i)) [0..<length (Values a')]))"

text \<open>The partner of the \<open>n\<close>-th series: \<open>None\<close> when the series is left out.\<close>

definition partner :: "bool \<Rightarrow> f64 \<Rightarrow> MetricData list \<Rightarrow> nat \<Rightarrow> MetricData \<Rightarrow> MetricData option option go_result" where
  "partner matching dflt ds n a =
     (if matching
      then Some (case find (\<lambda>d. Name d = Name a) (rev ds) of
                   Some d \<Rightarrow> Some (Some d)
                 | None \<Rightarrow> if isNaN dflt then None else Some None)
      else map_option (\<lambda>d. Some (Some d)) (if length ds = 1 then Some (ds ! 0) else go_index ds (int n)))"

definition pair_lists ::
  "go_env \<Rightarrow> quickselect \<Rightarrow> (f64 \<Rightarrow> string) \<Rightarrow> (f64 \<Rightarrow> f64 \<Rightarrow> f64) \<Rightarrow> expr \<Rightarrow> bool \<Rightarrow> f64 \<Rightarrow> MetricData list \<Rightarrow> MetricData list
    \<Rightarrow> MetricData list go_result" where
  "pair_lists E qs fmtF pw e matching dflt as ds =
     map_option concat (opt_map (\<lambda>(n, a). Option.bind (partner matching dflt ds n a) (\<lambda>p.
       case p of None \<Rightarrow> Some [] | Some d \<Rightarrow> map_option (\<lambda>r. [r]) (pair_series E qs fmtF pw e dflt a d))) (enumerate 0 as))"

definition seriesList_Do ::
  "go_env \<Rightarrow> quickselect \<Rightarrow> series_sort \<Rightarrow> (f64 \<Rightarrow> string) \<Rightarrow> (f64 \<Rightarrow> f64 \<Rightarrow> f64) \<Rightarrow> evaluator \<Rightarrow> expr \<Rightarrow> int \<Rightarrow> int \<Rightarrow> MetricData list ev" where
  "seriesList_Do E qs sort_by fmtF pw ev e start stop =
     (if length (args e) < 2 then throw missing_argument
      else ev_bind (of_parser (GetFloatNamedOrPosArgDefault E e ''default'' 3 FNaN)) (\<lambda>dflt.
        each_series ev e start stop (\<lambda>as.
          if as = [] \<and> isNaN dflt then ret []
          else ev_bind (GetSeriesArg ev (args e ! 1) start stop) (\<lambda>ds.
            if ds = [] \<and> (isNaN dflt \<or> as = []) then ret []
            else let useConstant = (as = [] \<or> ds = []);
                     sizeMatch = (length ds = length as \<or> length ds = 1)
              in ev_bind (of_parser (GetBoolNamedOrPosArgDefault e ''matching'' 2 (\<not> useConstant \<and> \<not> sizeMatch))) (\<lambda>matching.
                 let as1 = sort_by by_name as; ds1 = sort_by by_name ds
                 in if as = [] then ret (constant_list pw e True dflt ds1)
                    else if ds = [] then ret (constant_list pw e False dflt as1)
                    else of_go (pair_lists E qs fmtF pw e matching dflt as1 ds1))))))"

definition aggregateSeriesLists_Do :: "go_env \<Rightarrow> quickselect \<Rightarrow> bool \<Rightarrow> evaluator \<Rightarrow> expr \<Rightarrow> int \<Rightarrow> int \<Rightarrow> MetricData list ev" where
  "aggregateSeriesLists_Do E qs ExtrapolatePoints ev e start stop =
     (if length (args e) < 3 then throw missing_argument
      else each_series ev e start stop (\<lambda>as. ev_bind (GetSeriesArg ev (args e ! 1) start stop) (\<lambda>bs.
        if length as \<noteq> length bs
        then throw (other_error ''seriesListFirstPos and seriesListSecondPos must have equal length'')
        else if as = [] then ret []
        else ev_bind (of_parser (GetStringArg e 2)) (\<lambda>c.
          case map_of (ConsolidationToFunc qs) c of
            None \<Rightarrow> throw (unsupported_consolidation c)
          | Some f \<Rightarrow>
              ev_bind (of_parser (GetFloatArgDefault E e 3 (XFilesFactor (hd as)))) (\<lambda>xff.
                of_go (opt_map (\<lambda>(a, b). Option.bind (AggregateSeries E qs ExtrapolatePoints e [a, b] f xff False) (\<lambda>rs. go_index rs 0))
                  (zip as bs)))))))"

section \<open>Groups\<close>

definition mapSeries_Do :: "evaluator \<Rightarrow> expr \<Rightarrow> int \<Rightarrow> int \<Rightarrow> MetricData list ev" where
  "mapSeries_Do ev e start stop =
     (if length (args e) < 2 then throw missing_argument
      else each_series ev e start stop (\<lambda>as. ev_bind (of_parser (GetNodeOrTagArgs e 1 False)) (\<lambda>nodes.
        of_go (map_option (\<lambda>g. concat (map snd g)) (group_by (\<lambda>a. AggKey a nodes) as)))))"

text \<open>\<open>groupByTags\<close>: the key and the tags of a group are made from the tags of its series.\<close>

definition tags_key :: "string \<Rightarrow> string list \<Rightarrow> MetricData \<Rightarrow> string" where
  "tags_key callback tagNames a =
     (if ''name'' \<in> set tagNames then tag_of ''name'' a else callback)
     @ concat (map (\<lambda>t. '';'' @ t @ ''='' @ tag_of t a) (filter (\<lambda>t. t \<noteq> ''name'') tagNames))"

definition group_tags :: "string \<Rightarrow> string list \<Rightarrow> MetricData \<Rightarrow> tag_map" where
  "group_tags callback tagNames a =
     (let ts = foldl (\<lambda>m t. AList.update t (tag_of t a) m) [] tagNames
      in if ''name'' \<in> set tagNames then ts else AList.update ''name'' callback ts)"

fun eval_tag_groups ::
  "eval_conf \<Rightarrow> evaluator \<Rightarrow> int \<Rightarrow> int \<Rightarrow> string \<Rightarrow> string list \<Rightarrow> (string \<times> MetricData list) list \<Rightarrow> MetricData list ev" where
  "eval_tag_groups C ev start stop callback tagNames [] = ret []"
| "eval_tag_groups C ev start stop callback tagNames ((k, as) # gs) =
     ev_bind (parse_target C (if map_of (ConsolidationToFunc (ec_quickselect C)) callback \<noteq> None
                              then ''aggregate(stub, '' @ [CHR 0x22] @ callback @ [CHR 0x22] @ '')'' else callback @ ''(stub)'')) (\<lambda>x.
     ev_bind (ev_on [(\<lparr>Metric = ''stub'', ConsolidationFunc = [], From = start, Until = stop\<rparr>, as)] (ev_Eval ev x start stop)) (\<lambda>rs.
     ev_bind (eval_tag_groups C ev start stop callback tagNames gs) (\<lambda>rss.
       ret (CopyMetricDataSliceWithTags rs k (group_tags callback tagNames (hd as)) @ rss))))"

definition groupByTags_Do ::
  "eval_conf \<Rightarrow> ((string \<times> MetricData list) list \<Rightarrow> (string \<times> MetricData list) list) \<Rightarrow> evaluator \<Rightarrow> expr \<Rightarrow> int \<Rightarrow> int \<Rightarrow> MetricData list ev" where
  "groupByTags_Do C visit ev e start stop =
     (if length (args e) < 3 then throw missing_argument
      else each_series ev e start stop (\<lambda>as.
        ev_bind (of_parser (GetStringArg e 1)) (\<lambda>callback.
        ev_bind (of_parser (GetStringArgs e 2)) (\<lambda>names.
        let tagNames = sort_strings names
        in ev_bind (of_go (group_by (\<lambda>a. Some (tags_key callback tagNames a)) as)) (\<lambda>groups.
             eval_tag_groups C ev start stop callback tagNames (visit groups))))))"

text \<open>
  \<open>reduceSeries\<close> files its series by the name with one node replaced, and the key of the node. It also adds
  them to the map of fetched series, which stays changed.
\<close>

definition add_series :: "MetricRequest \<Rightarrow> MetricData \<Rightarrow> series_map \<Rightarrow> series_map" where
  "add_series k a values = AList.update k (series_of values k @ [a]) values"

type_synonym reduce_groups = "(string \<times> (string \<times> MetricData) list) list"

definition reduce_one :: "string \<Rightarrow> int \<Rightarrow> MetricData \<Rightarrow> (string \<times> string) ev" where
  "reduce_one f reduceNode a =
     ev_bind (of_go (ExtractName (Name a))) (\<lambda>metric.
       let nodes = Split1 metric (CHR ''.'');
           node = (if reduceNode < 0 then reduceNode + int (length nodes) else reduceNode)
       in if node < 0 \<or> int (length nodes) \<le> node then throw (plain_error (ParserCause ErrInvalidArg))
          else ret (Join (nodes[nat node := ''reduce.'' @ f]) ''.'', nodes ! nat node))"

fun reduce_loop :: "string \<Rightarrow> int \<Rightarrow> int \<Rightarrow> int \<Rightarrow> MetricData list \<Rightarrow> reduce_groups \<Rightarrow> reduce_groups ev" where
  "reduce_loop f reduceNode start stop [] g = ret g"
| "reduce_loop f reduceNode start stop (a # as) g =
     ev_bind (reduce_one f reduceNode a) (\<lambda>(aliasName, key).
     ev_bind (\<lambda>values. Some (Inr (), add_series \<lparr>Metric = Name a, ConsolidationFunc = [], From = start, Until = stop\<rparr> a values)) (\<lambda>_.
       reduce_loop f reduceNode start stop as
         (AList.update aliasName (AList.update key a (case map_of g aliasName of None \<Rightarrow> [] | Some m \<Rightarrow> m)) g)))"

fun reduce_eval :: "evaluator \<Rightarrow> string \<Rightarrow> string list \<Rightarrow> int \<Rightarrow> int \<Rightarrow> reduce_groups \<Rightarrow> MetricData list ev" where
  "reduce_eval ev f matchers start stop [] = ret []"
| "reduce_eval ev f matchers start stop ((aliasName, m) # gs) =
     (case opt_map (map_of m) matchers of
        None \<Rightarrow> reduce_eval ev f matchers start stop gs
      | Some as \<Rightarrow>
          ev_bind (ev_Eval ev (NewExprTyped ''alias'' [NewExprTyped f (map (\<lambda>a. NewTargetExpr (Name a)) as), NewValueExpr aliasName]) start stop) (\<lambda>rs.
          ev_bind (reduce_eval ev f matchers start stop gs) (\<lambda>rss. ret (rs @ rss))))"

definition reduce_Do :: "evaluator \<Rightarrow> expr \<Rightarrow> int \<Rightarrow> int \<Rightarrow> MetricData list ev" where
  "reduce_Do ev e start stop =
     (if length (args e) < 4 then throw missing_argument
      else each_series ev e start stop (\<lambda>as.
        ev_bind (of_parser (GetStringArg e 1)) (\<lambda>f.
        ev_bind (of_parser (GetIntArg e 2)) (\<lambda>reduceNode.
        ev_bind (ev_map (\<lambda>i. of_parser (GetStringArg e i)) [3..<length (args e)]) (\<lambda>matchers.
        ev_bind (reduce_loop f reduceNode start stop as []) (\<lambda>g.
          reduce_eval ev f matchers start stop g))))))"

section \<open>Rewriting functions\<close>

definition aboveSeries_Do :: "go_env \<Rightarrow> replacer \<Rightarrow> rewrite_function" where
  "aboveSeries_Do E compile = (\<lambda>ev e start stop.
     each_series ev e start stop (\<lambda>as.
     ev_bind (of_parser (GetFloatArg E e 1)) (\<lambda>mx.
     ev_bind (of_parser (GetStringArg e 2)) (\<lambda>search.
     ev_bind (of_parser (GetStringArg e 3)) (\<lambda>repl.
       case compile search of
         None \<Rightarrow> throw (other_error ''regexp'')
       | Some replace_in \<Rightarrow> ret (True, map (\<lambda>a. replace_in repl (Name a)) (filter (\<lambda>a. mx < MaxValue (Values a)) as)))))))"

definition node_target :: "int \<Rightarrow> string \<Rightarrow> string \<Rightarrow> MetricData \<Rightarrow> string ev" where
  "node_target nodeNum callback newName a =
     ev_bind (of_go (ExtractName (Name a))) (\<lambda>metric.
       let nodes = Split1 metric (CHR ''.'')
       in if int (length nodes) \<le> nodeNum then throw (plain_error (ParserCause ErrInvalidArg))
          else ev_bind (of_go (go_take (nodeNum + 1) nodes)) (\<lambda>ns.
            let node = Join ns ''.''; t = ReplaceAll1 callback (CHR ''%'') node
            in ret (if newName = [] then t
                    else ''alias('' @ t @ [CHR '','', CHR 0x22] @ ReplaceAll1 newName (CHR ''%'') node @ [CHR 0x22, CHR '')''])))"

definition applyByNode_Do :: rewrite_function where
  "applyByNode_Do = (\<lambda>ev e start stop.
     each_series ev e start stop (\<lambda>as.
     ev_bind (of_parser (GetIntArg e 1)) (\<lambda>nodeNum.
     ev_bind (of_parser (GetStringArg e 2)) (\<lambda>callback.
     ev_bind (if length (args e) = 4 then of_parser (GetStringArg e 3) else ret []) (\<lambda>newName.
       ev_bind (ev_map (node_target nodeNum callback newName) as) (\<lambda>ts. ret (True, ts)))))))"


section \<open>What the combinations do\<close>

lemma mset_partition:
  "distinct ks \<Longrightarrow> (\<And>a. a \<in> set as \<Longrightarrow> \<exists>k\<in>set ks. key a = Some k) \<Longrightarrow>
   mset (concat (map (\<lambda>k. filter (\<lambda>a. key a = Some k) as) ks)) = mset as"
proof (induction ks arbitrary: as)
  case (Cons k ks)
  let ?rest = "filter (\<lambda>a. key a \<noteq> Some k) as"
  have "map (\<lambda>j. filter (\<lambda>a. key a = Some j) as) ks = map (\<lambda>j. filter (\<lambda>a. key a = Some j) ?rest) ks"
    using Cons.prems(1) by (intro map_cong) (auto intro!: filter_cong)
  moreover have "mset (concat (map (\<lambda>j. filter (\<lambda>a. key a = Some j) ?rest) ks)) = mset ?rest"
    using Cons.prems by (intro Cons.IH) auto
  moreover have "mset (filter (\<lambda>a. key a = Some k) as) + mset ?rest = mset as"
    using multiset_partition[of "mset as" "\<lambda>a. key a = Some k"] by simp
  ultimately show ?case by (simp only: list.map concat.simps mset_append)
next
  case Nil
  then have "a \<notin> set as" for a by auto
  then show ?case by (cases as) auto
qed

text \<open>\<open>mapSeries\<close> keeps all series and puts those of one key next to each other.\<close>

lemma group_by_permutes:
  assumes "group_by key as = Some g"
  shows "mset (concat (map snd g)) = mset as"
proof -
  obtain ks where ks: "opt_map key as = Some ks" using assms by (auto simp: group_by_def)
  have len: "length ks = length as" using ks by (rule opt_map_length)
  have g: "g = map (\<lambda>k. (k, filter (\<lambda>a. key a = Some k) as)) (first_seen ks)"
    using assms len keyed_filter[OF ks] by (simp add: group_by_def ks group_fold)
  have "\<exists>k\<in>set (first_seen ks). key a = Some k" if "a \<in> set as" for a
    using that opt_map_nth[OF ks] len by (auto simp: in_set_conv_nth)
  then show ?thesis using mset_partition[of "first_seen ks" as key] by (simp add: g comp_def)
qed

lemma mapSeries_permutes:
  assumes "mapSeries_Do ev e start stop s = Some (Inr rs, s')"
  shows "\<exists>as. GetSeriesArg ev (args e ! 0) start stop s = Some (Inr as, s') \<and> mset rs = mset as"
  using assms group_by_permutes
  by (auto simp: mapSeries_Do_def each_series_def Arg_def go_index_def ev_bind_Inr of_go_Inr of_parser_Inr throw_def
      hd_conv_nth split: if_splits)

lemma reduce_one_state: "reduce_one f n a s = Some (Inr r, s') \<Longrightarrow> s' = s"
  by (auto simp: reduce_one_def ev_bind_Inr of_go_Inr throw_def ret_def Let_def split: if_splits)

lemma series_of_add: "series_of (add_series k a s) k' = series_of s k' @ (if k' = k then [a] else [])"
  by (simp add: add_series_def series_of_def update_conv)

text \<open>
  \<open>reduceSeries\<close> leaves the map of fetched series changed: every series it was given is added once more
  to those of the request for its name. The next target of the same request gets it twice.
\<close>

lemma reduce_loop_values:
  "reduce_loop f n start stop as g s = Some (Inr g', s') \<Longrightarrow>
   series_of s' k = series_of s k @ filter (\<lambda>a. \<lparr>Metric = Name a, ConsolidationFunc = [], From = start, Until = stop\<rparr> = k) as"
proof (induction as arbitrary: g s)
  case Nil
  then show ?case by (simp add: ret_def)
next
  case (Cons a as)
  let ?k = "\<lparr>Metric = Name a, ConsolidationFunc = [], From = start, Until = stop\<rparr>"
  obtain g1 where "reduce_loop f n start stop as g1 (add_series ?k a s) = Some (Inr g', s')"
    using Cons.prems by (auto simp: ev_bind_Inr dest!: reduce_one_state)
  from Cons.IH[OF this] show ?case by (simp add: series_of_add)
qed

lemma reduce_loop_values_witness:
  "\<exists>g. reduce_loop ''sumSeries'' 1 0 60 [makeMetricDataWithTags ''a.b'' [FNum 1] 60 0 []] []
       [(\<lparr>Metric = ''a.b'', ConsolidationFunc = [], From = 0, Until = 60\<rparr>, [makeMetricDataWithTags ''a.b'' [FNum 1] 60 0 []])] = Some (Inr (fst g), snd g)
     \<and> length (series_of (snd g) \<lparr>Metric = ''a.b'', ConsolidationFunc = [], From = 0, Until = 60\<rparr>) = 2"
proof -
  let ?a = "makeMetricDataWithTags ''a.b'' [FNum 1] 60 0 []"
  let ?k = "\<lparr>Metric = ''a.b'', ConsolidationFunc = [], From = 0, Until = 60\<rparr>"
  have "ExtractName ''a.b'' = Some ''a.b''" "Split1 ''a.b'' (CHR ''.'') = [''a'', ''b'']" by code_simp+
  then have "\<exists>g s'. reduce_loop ''sumSeries'' 1 0 60 [?a] [] [(?k, [?a])] = Some (Inr g, s')"
    by (simp add: reduce_one_def ev_bind_def of_go_def ret_def makeMetricDataWithTags_def Let_def)
  then obtain g s' where g: "reduce_loop ''sumSeries'' 1 0 60 [?a] [] [(?k, [?a])] = Some (Inr g, s')" by blast
  have "length (series_of s' ?k) = 2"
    unfolding reduce_loop_values[OF g] by (simp add: series_of_def makeMetricDataWithTags_def)
  then show ?thesis using g by (intro exI[of _ "(g, s')"]) simp
qed


text \<open>
  The denominator of \<open>divideSeries\<close> is consolidated once for all: behind a numerator of a coarser step the
  quotients of the numerators that follow have the coarser step too.
\<close>

lemma divide_loop_coarse:
  "map_option (map StepTime) (divide_loop E qs (\<lambda>a d. []) [makeMetricDataWithTags ''a'' [FNum 4] 120 0 [],
       makeMetricDataWithTags ''b'' [FNum 1, FNum 2] 60 0 []] (makeMetricDataWithTags ''d'' [FNum 1, FNum 1] 60 0 [])) = Some [120, 120]"
  "map_option (map StepTime) (divide_loop E qs (\<lambda>a d. []) [makeMetricDataWithTags ''b'' [FNum 1, FNum 2] 60 0 []]
       (makeMetricDataWithTags ''d'' [FNum 1, FNum 1] 60 0 [])) = Some [60]"
  by code_simp+

end
