(* ===== verification/Statistics.thy ===== *)
theory Statistics
  imports Combining
begin

text \<open>
  More functions of \<open>expr/functions\<close>: statistics of the values in buckets, windows and intervals (\<open>slo\<close>,
  \<open>sloErrorBudget\<close>, \<open>stdev\<close>, \<open>exponentialMovingAverage\<close>, \<open>tukeyAbove\<close>, \<open>tukeyBelow\<close>, \<open>aggregateLine\<close>,
  \<open>lowPass\<close>), functions that read their series at shifted times (\<open>timeStack\<close>, \<open>baseline\<close>,
  \<open>baselineAberration\<close>), and those that make series of nothing (\<open>constantLine\<close>, \<open>timeFunction\<close>,
  \<open>identity\<close>). That the series read at shifted times were fetched is checked against \<open>Metrics\<close>.
\<close>

section \<open>Service levels\<close>

definition slo_method :: "string \<Rightarrow> f64 \<Rightarrow> (f64 \<Rightarrow> bool) option" where
  "slo_method m value =
     map_of [(''above'', \<lambda>v. value < v), (''aboveOrEqual'', \<lambda>v. value \<le> v),
             (''below'', \<lambda>v. v < value), (''belowOrEqual'', \<lambda>v. v \<le> value)] m"

definition buildDataPoint :: "nat \<Rightarrow> nat \<Rightarrow> bool \<times> f64" where
  "buildDataPoint matched notNull =
     (if notNull = 0 then (True, 0) else (False, f64_of_int (int matched) div f64_of_int (int notNull)))"

text \<open>The value of a bucket; an error budget is the distance from the objective times the seconds.\<close>

definition slo_value :: "f64 option \<Rightarrow> int \<Rightarrow> nat \<Rightarrow> nat \<Rightarrow> f64" where
  "slo_value objective duration matched notNull =
     (case buildDataPoint matched notNull of (isAbsent, v) \<Rightarrow>
        (case objective of
           Some x \<Rightarrow> if isAbsent then v else (v - x) * f64_of_int duration
         | None \<Rightarrow> v))"

definition slo_rest :: "f64 option \<Rightarrow> int \<Rightarrow> nat \<Rightarrow> nat \<Rightarrow> nat \<Rightarrow> f64 list" where
  "slo_rest objective duration matched notNull n =
     (if 0 < n then [slo_value objective duration matched notNull] else [])"

fun slo_loop ::
  "(f64 \<Rightarrow> bool) \<Rightarrow> f64 option \<Rightarrow> int \<Rightarrow> int \<Rightarrow> int \<Rightarrow> f64 list \<Rightarrow> int \<Rightarrow> int \<Rightarrow> int \<Rightarrow> nat \<Rightarrow> nat \<Rightarrow> nat \<Rightarrow> f64 list" where
  "slo_loop meets objective step timeStop bucketSize [] t starts ends matched notNull n =
     slo_rest objective (t - starts) matched notNull n"
| "slo_loop meets objective step timeStop bucketSize (v # vs) t starts ends matched notNull n =
     (let notNull' = (if isNaN v then notNull else Suc notNull);
          matched' = (if \<not> isNaN v \<and> meets v then Suc matched else matched);
          t' = t + step
      in if timeStop < t' then slo_rest objective (t' - starts) matched' notNull' (Suc n)
         else if ends \<le> t'
         then slo_value objective bucketSize matched' notNull'
              # slo_loop meets objective step timeStop bucketSize vs t' t' (ends + bucketSize) 0 0 0
         else slo_loop meets objective step timeStop bucketSize vs t' starts ends matched' notNull' (Suc n))"

text \<open>A negative number of buckets makes the allocation of the values panic.\<close>

definition slo_one ::
  "(f64 \<Rightarrow> bool) \<Rightarrow> f64 option \<Rightarrow> string \<Rightarrow> int \<Rightarrow> MetricData \<Rightarrow> MetricData \<Rightarrow> MetricData go_result" where
  "slo_one meets objective name bucketSize wnd ext =
     (let qty = GetBuckets (StartTime wnd) (StopTime wnd) bucketSize;
          vs = (if bucketSize < StepTime wnd then replicate (nat qty) FNaN
                else slo_loop meets objective (StepTime ext) (StopTime ext) bucketSize (Values ext)
                       (StartTime ext) (StartTime ext) (StartTime ext + bucketSize) 0 0 0)
      in if qty + 1 < 0 then Panic
         else Some ((makeMetricDataWithTags name vs bucketSize (StartTime wnd) (MTags wnd))
                \<lparr>StopTime := StartTime wnd + qty * bucketSize\<rparr>))"

definition slo_Do :: "go_env \<Rightarrow> evaluator \<Rightarrow> expr \<Rightarrow> int \<Rightarrow> int \<Rightarrow> MetricData list ev" where
  "slo_Do E ev e start stop =
     each_series ev e start stop (\<lambda>wnds.
       if wnds = [] then ret []
       else ev_bind (of_parser (GetIntervalArg E e 1 1)) (\<lambda>bucketSize.
       ev_bind (if stop - start < bucketSize \<and> \<not> (start = 0 \<and> stop = 1)
                then ev_bind (GetSeriesArg ev (args e ! 0) (start - (bucketSize - (stop - start))) stop) (\<lambda>exts.
                       if length exts \<noteq> length wnds then throw (other_error ''MetricData quantity differs'') else ret exts)
                else ret wnds) (\<lambda>exts.
       ev_bind (of_parser (GetFloatArg E e 3)) (\<lambda>value.
       ev_bind (of_parser (GetStringArg e 2)) (\<lambda>method.
         case slo_method method value of
           None \<Rightarrow> throw (other_error (''unknown method '' @ method))
         | Some meets \<Rightarrow>
             let budget = (target e = ''sloErrorBudget'')
             in ev_bind (if budget then ev_bind (of_parser (GetFloatArg E e 4)) (\<lambda>x. ret (Some x)) else ret None) (\<lambda>objective.
                  of_go (opt_map (\<lambda>(wnd, ext). slo_one meets objective
                      ((if budget then ''sloErrorBudget('' else ''slo('') @ Name wnd @ '', '' @ valStr (args e ! 1) @ '', '' @ method
                        @ '', '' @ valStr (args e ! 3) @ (if budget then '', '' @ valStr (args e ! 4) else []) @ '')'')
                      bucketSize wnd ext) (zip wnds exts))))))))"

section \<open>Windows\<close>

fun stdev_loop :: "int \<Rightarrow> nat \<Rightarrow> windowed \<Rightarrow> f64 list \<Rightarrow> f64 list" where
  "stdev_loop minLen i w [] = []"
| "stdev_loop minLen i w (v # vs) =
     (let w' = Push w v; r = (if isNaN v then FNaN else Stdev w')
      in (if isNaN r \<or> minLen \<le> int i \<and> Len w' < minLen then FNaN else r) # stdev_loop minLen (Suc i) w' vs)"

definition stdev_Do :: "go_env \<Rightarrow> evaluator \<Rightarrow> expr \<Rightarrow> int \<Rightarrow> int \<Rightarrow> MetricData list ev" where
  "stdev_Do E ev e start stop =
     (if length (args e) < 2 then throw missing_argument
      else each_series ev e start stop (\<lambda>as.
        ev_bind (of_parser (GetIntArg e 1)) (\<lambda>points.
        ev_bind (of_parser (GetFloatArgDefault E e 2 (round64 False (1 / 10)))) (\<lambda>missingThreshold.
          let minLen = int_of_f64 ((FNum 1 - missingThreshold) * f64_of_int points)
          in of_go (if points < 0 \<and> as \<noteq> [] then Panic
                    else Some (map (\<lambda>a. tagged ''stdev'' (FormatInt points) (''stdev('' @ Name a @ '','' @ valStr (args e ! 1) @ '')'')
                           (stdev_loop minLen 0 (empty_window (nat points)) (Values a)) a) as))))))"

text \<open>The average of the window before the first point, then a weighted mean with each value.\<close>

fun ema_loop :: "f64 \<Rightarrow> f64 \<Rightarrow> f64 list \<Rightarrow> f64 list" where
  "ema_loop c ema [] = []"
| "ema_loop c ema (v # vs) =
     (if isNaN v then FNaN # ema_loop c ema vs
      else let ema' = c * v + (FNum 1 - c) * ema in SafeRound ema' 6 # ema_loop c ema' vs)"

definition ema_values :: "f64 \<Rightarrow> nat \<Rightarrow> f64 list \<Rightarrow> f64 list" where
  "ema_values c windowPoints vs =
     (if length vs < windowPoints then [SafeRound (AggMean vs) 6]
      else let m = AggMean (take windowPoints vs); ema = (if isNaN m then 0 else m)
           in SafeRound ema 6 # ema_loop c ema (drop windowPoints vs))"

text \<open>The window of a constant is in points of the longest step, so the series are fetched again.\<close>

definition ema_window :: "go_env \<Rightarrow> (string \<Rightarrow> string) \<Rightarrow> evaluator \<Rightarrow> expr \<Rightarrow> int \<Rightarrow> int \<Rightarrow> (string \<times> int \<times> int \<times> f64) option ev" where
  "ema_window E Quote ev e start stop =
     (if etype (args e ! 1) = EtConst
      then (let n = (case GetIntArg e 1 of Inl _ \<Rightarrow> 0 | Inr n \<Rightarrow> n); w = \<bar>n\<bar>
            in ev_bind (GetSeriesArg ev (args e ! 0) start stop) (\<lambda>as.
                 ret (if as = [] then None
                      else Some (FormatInt n, w, foldl max 0 (map StepTime as) * w, FNum 2 div (f64_of_int w + FNum 1)))))
      else if etype (args e ! 1) = EtString
      then ev_bind (of_parser (GetIntervalArg E e 1 1)) (\<lambda>n.
             ret (Some (Quote (valStr (args e ! 1)), 0, \<bar>n\<bar>, FNum 2 div (f64_of_int \<bar>n\<bar> + FNum 1))))
      else throw (plain_error (ParserCause ErrBadType)))"

definition exponentialMovingAverage_Do :: "go_env \<Rightarrow> (string \<Rightarrow> string) \<Rightarrow> evaluator \<Rightarrow> expr \<Rightarrow> int \<Rightarrow> int \<Rightarrow> MetricData list ev" where
  "exponentialMovingAverage_Do E Quote ev e start stop =
     (if length (args e) < 2 then throw missing_argument
      else ev_bind (ema_window E Quote ev e start stop) (\<lambda>r. case r of
          None \<Rightarrow> ret []
        | Some (argstr, w, preview, c) \<Rightarrow>
            if preview < 1 then throw (other_error (''invalid window size '' @ valStr (args e ! 1)))
            else ev_bind (if etype (args e ! 1) = EtConst
                          then (\<lambda>values. map_option (\<lambda>(_, values'). (Inr (), values')) (ev_Fetch ev [args e ! 0] (start - preview) stop values))
                          else ret ()) (\<lambda>_.
              ev_bind (GetSeriesArg ev (args e ! 0) (start - preview) stop) (\<lambda>as.
                of_go (opt_map (\<lambda>a.
                  Option.bind (if etype (args e ! 1) = EtString then go_div preview (StepTime a) else Some w) (\<lambda>windowPoints.
                    if windowPoints \<le> 0 then Panic
                    else let r = tagged (target e) argstr (target e @ ''('' @ Name a @ '','' @ argstr @ '')'') (ema_values c (nat windowPoints) (Values a)) a;
                             s = StartTime a + preview
                         in Some (r\<lparr>StartTime := s, StopTime := s + int (length (Values r)) * StepTime r\<rparr>))) as)))))"

section \<open>Outliers\<close>

text \<open>The range of indices the interval leaves: those before it when it is negative, else those in it.\<close>

definition tukey_range :: "int \<Rightarrow> int \<Rightarrow> int \<times> int" where
  "tukey_range n interval =
     (if interval < 0 \<and> - interval < n then (0, n + interval)
      else if 0 < interval \<and> interval < n then (n - interval, n) else (0, n))"

definition tukey_interval :: "go_env \<Rightarrow> expr \<Rightarrow> MetricData \<Rightarrow> int ev" where
  "tukey_interval E e a =
     (if length (args e) < 4 then ret 0
      else if etype (args e ! 3) = EtConst then of_parser (GetIntArg e 3)
      else if etype (args e ! 3) = EtString
      then (case GetIntervalArg E e 3 1 of
              Inl err \<Rightarrow> ev_bind (of_go (go_div 0 (StepTime a))) (\<lambda>_. throw (plain_error (ParserCause err)))
            | Inr i \<Rightarrow> of_go (go_div i (StepTime a)))
      else throw (plain_error (ParserCause ErrBadType)))"

text \<open>The present values of a series in the range; a shorter series panics.\<close>

definition tukey_points :: "int \<times> int \<Rightarrow> MetricData \<Rightarrow> f64 list go_result" where
  "tukey_points = (\<lambda>(b, t) a.
     if int (length (Values a)) < t then Panic else Some (non_nan (take (nat (t - b)) (drop (nat b) (Values a)))))"

definition tukey_limits :: "f64 \<Rightarrow> f64 list \<Rightarrow> (f64 \<times> f64) go_result" where
  "tukey_limits basis points =
     (let n = f64_of_int (int (length points))
      in Option.bind (go_index points (int_of_f64 (FNum (3 / 4) * n))) (\<lambda>third.
         map_option (\<lambda>first. let iqr = third - first in (first - basis * iqr, third + basis * iqr))
           (go_index points (int_of_f64 (FNum (1 / 4) * n)))))"

definition tukey_select :: "nat \<Rightarrow> (f64 \<Rightarrow> bool) \<Rightarrow> MetricData list \<Rightarrow> f64 list list \<Rightarrow> MetricData list go_result" where
  "tukey_select n outlier as pss =
     (let xs = map (\<lambda>(i, ps). \<lparr>Idx = i, Val = f64_of_int (int (length (filter outlier ps)))\<rparr>) (enumerate 0 pss);
          mh = foldl (highest_step n) [] (filter (\<lambda>x. \<not> feq (Val x) 0) xs)
      in map_option (\<lambda>vs. map (\<lambda>v. as ! Idx v) (rev vs)) (pops heap_Pop (length mh) mh))"

definition tukey_Do :: "go_env \<Rightarrow> (f64 list \<Rightarrow> f64 list) \<Rightarrow> evaluator \<Rightarrow> expr \<Rightarrow> int \<Rightarrow> int \<Rightarrow> MetricData list ev" where
  "tukey_Do E sort_floats ev e start stop =
     each_series ev e start stop (\<lambda>as.
     ev_bind (of_parser (GetFloatArg E e 1)) (\<lambda>basis.
       if basis \<le> 0 then ret []
       else ev_bind (of_parser (GetIntArg e 2)) (\<lambda>n.
         if n < 1 then throw (other_error ''n must be larger or equal to 1'')
         else if as = [] then of_go Panic
         else ev_bind (tukey_interval E e (hd as)) (\<lambda>interval.
           let range = tukey_range (int (length (Values (hd as)))) interval
           in of_go (Option.bind (opt_map (tukey_points range) as) (\<lambda>pss.
                Option.bind (tukey_limits basis (sort_floats (concat pss))) (\<lambda>(mn, mx).
                  tukey_select (nat n) (if HasSuffix (target e) ''Above'' then (\<lambda>v. mx \<le> v) else (\<lambda>v. v \<le> mn)) as pss)))))))"

section \<open>Lines\<close>

definition aggregateLine_Do :: "quickselect \<Rightarrow> (f64 \<Rightarrow> string) \<Rightarrow> evaluator \<Rightarrow> expr \<Rightarrow> int \<Rightarrow> int \<Rightarrow> MetricData list ev" where
  "aggregateLine_Do qs fmtG ev e start stop =
     each_series ev e start stop (\<lambda>as.
     ev_bind (if length (args e) = 2 \<or> length (args e) = 3 then of_parser (GetStringArgDefault e 1 ''average'') else ret ''avg'') (\<lambda>callback.
     ev_bind (if length (args e) = 3 then of_parser (GetBoolArgDefault e 2 False) else ret False) (\<lambda>keepStep.
       case map_of (ConsolidationToFunc qs) callback of
         None \<Rightarrow> throw (unsupported_consolidation callback)
       | Some f \<Rightarrow> ret (map (\<lambda>a.
           let v = f (Values a);
               r = CopyTag (''aggregateLine('' @ Name a @ '', '' @ (if isNaN v then ''None'' else fmtG v) @ '')'') (MTags a) a
           in if keepStep then r\<lparr>Values := replicate (length (Values a)) v\<rparr>
              else let s = StopTime a - StartTime a
                   in r\<lparr>StepTime := s, Values := [v, v], StopTime := StartTime r + 2 * s\<rparr>) as))))"

definition lowPass_Do :: "go_env \<Rightarrow> (f64 \<Rightarrow> string) \<Rightarrow> evaluator \<Rightarrow> expr \<Rightarrow> int \<Rightarrow> int \<Rightarrow> MetricData list ev" where
  "lowPass_Do E fmtG ev e start stop =
     each_series ev e start stop (\<lambda>as. ev_bind (of_parser (GetFloatArg E e 1)) (\<lambda>cutPercent.
       ret (map (\<lambda>a.
         let n = int (length (Values a)); lowCut = int_of_f64 ((cutPercent div FNum 200) * f64_of_int n)
         in a\<lparr>Name := ''lowPass('' @ Name a @ '','' @ fmtG cutPercent @ '')'',
              Values := map (\<lambda>(i, v). if int i < lowCut \<or> n - lowCut \<le> int i then v else FNaN) (enumerate 0 (Values a))\<rparr>) as)))"

definition new_line :: "string \<Rightarrow> string \<Rightarrow> f64 list \<Rightarrow> int \<Rightarrow> int \<Rightarrow> int \<Rightarrow> MetricData" where
  "new_line name tag vs step start stop = (makeMetricDataWithTags name vs step start [(''name'', tag)])\<lparr>StopTime := stop\<rparr>"

definition constantLine_Do :: "go_env \<Rightarrow> (f64 \<Rightarrow> string) \<Rightarrow> expr \<Rightarrow> int \<Rightarrow> int \<Rightarrow> MetricData list ev" where
  "constantLine_Do E fmtG e start stop =
     ev_bind (of_parser (GetFloatArg E e 0)) (\<lambda>v.
       ret [new_line (fmtG v) (fmtG v) [v, v] (stop - start) start (start + (stop - start) * 2)])"

text \<open>The times of the points as values; a range that is negative by a step panics.\<close>

definition time_values :: "int \<Rightarrow> int \<Rightarrow> int \<Rightarrow> f64 list go_result" where
  "time_values step start stop =
     Option.bind (go_div (stop - start - 1 + step) step) (\<lambda>n.
       if n < 0 then Panic else Some (map (\<lambda>i. f64_of_int (start + int i * step)) [0..<nat n]))"

definition timeFunction_Do :: "expr \<Rightarrow> int \<Rightarrow> int \<Rightarrow> MetricData list ev" where
  "timeFunction_Do e start stop =
     ev_bind (of_parser (GetStringArg e 0)) (\<lambda>name.
     ev_bind (of_parser (GetIntArgDefault e 1 60)) (\<lambda>step.
       if step \<le> 0 then throw (other_error ''step can't be less than 0'')
       else of_go (map_option (\<lambda>vs. [new_line name name vs step start stop]) (time_values step start stop))))"

definition identity_Do :: "expr \<Rightarrow> int \<Rightarrow> int \<Rightarrow> MetricData list ev" where
  "identity_Do e start stop =
     ev_bind (of_parser (GetStringArg e 0)) (\<lambda>name.
       of_go (map_option (\<lambda>vs. [new_line (''identity('' @ name @ '')'') name vs 60 start stop]) (time_values 60 start stop)))"

section \<open>Shifted times\<close>

definition stacked :: "string \<Rightarrow> int \<Rightarrow> MetricData \<Rightarrow> MetricData" where
  "stacked unitStr offs a =
     set_tag ''timeShift'' (FormatInt offs) (set_tag ''timeShiftUnit'' unitStr ((CopyLink a)
       \<lparr>Name := ''timeShift('' @ Name a @ '','' @ unitStr @ '','' @ FormatInt offs @ '')'',
        StartTime := StartTime a - offs, StopTime := StopTime a - offs\<rparr>))"

definition timeStack_Do :: "go_env \<Rightarrow> evaluator \<Rightarrow> expr \<Rightarrow> int \<Rightarrow> int \<Rightarrow> MetricData list ev" where
  "timeStack_Do E ev e start stop =
     ev_bind (of_parser (GetIntervalArg E e 1 (- 1))) (\<lambda>unit.
     ev_bind (of_parser (GetIntArgDefault e 2 0)) (\<lambda>i0.
     ev_bind (of_parser (GetIntArgDefault e 3 7)) (\<lambda>i1.
       ev_bind (ev_map (\<lambda>i. each_series ev e (start + i * unit) (stop + i * unit) (\<lambda>as.
           ret (map (stacked (valStr (args e ! 1)) (i * unit)) as))) [i0..i1 - 1]) (\<lambda>rss. ret (concat rss)))))"

text \<open>An error of the evaluation counts as no series.\<close>

definition or_none :: "MetricData list ev \<Rightarrow> MetricData list ev" where
  "or_none m = (\<lambda>s. case m s of None \<Rightarrow> Panic | Some (Inl _, s') \<Rightarrow> Some (Inr [], s') | Some (Inr as, s') \<Rightarrow> Some (Inr as, s'))"

definition baseline_shifts :: "int \<Rightarrow> int \<Rightarrow> int list" where
  "baseline_shifts i0 i1 = filter (\<lambda>i. i \<noteq> 0) [wrap32 i0..wrap32 i1 - 1]"

text \<open>The medians of one group, with their sum and the number of points that have one.\<close>

definition baseline_points :: "quickselect \<Rightarrow> MetricData list \<Rightarrow> f64 option list go_result" where
  "baseline_points qs as =
     (let n = length (Values (hd as))
      in if list_ex (\<lambda>a. list_ex (\<lambda>v. \<not> isNaN v) (drop n (Values a))) as then Panic
         else Some (map (\<lambda>i.
             let vs = non_nan (concat (map (\<lambda>a. if i < length (Values a) then [Values a ! i] else []) as))
             in if vs = [] then None else Some (Percentile qs vs (FNum 50) True)) [0..<n]))"

definition aberration_point :: "f64 list \<Rightarrow> nat \<times> f64 option \<Rightarrow> f64 go_result" where
  "aberration_point cur = (\<lambda>(i, p). case p of
       None \<Rightarrow> Some FNaN
     | Some m \<Rightarrow> map_option (\<lambda>c. if isNaN c then FNaN else if feq m 0 then m else c div m) (go_index cur (int i)))"

definition baseline_group ::
  "quickselect \<Rightarrow> (string \<Rightarrow> MetricData option) option \<Rightarrow> f64 \<Rightarrow> f64 \<Rightarrow> string \<times> MetricData list \<Rightarrow> MetricData list go_result" where
  "baseline_group qs aberration_of maxAbsentPercent minAvgLimit = (\<lambda>(name, as).
     Option.bind (baseline_points qs as) (\<lambda>ps.
     map_option (\<lambda>vs.
         let r = (CopyName ((case aberration_of of None \<Rightarrow> ''baseline('' | Some _ \<Rightarrow> ''baselineAberration('') @ name @ '')'') (hd as))\<lparr>Values := vs\<rparr>;
             present = concat (map (\<lambda>p. case p of None \<Rightarrow> [] | Some m \<Rightarrow> [m]) ps);
             absentPercent = f64_of_int (100 * (int (length ps) - int (length present))) div f64_of_int (int (length ps))
         in if \<not> isNaN maxAbsentPercent \<and> maxAbsentPercent < absentPercent then []
            else if \<not> isNaN minAvgLimit \<and> present \<noteq> [] \<and> foldl (+) 0 present div f64_of_int (int (length present)) < minAvgLimit then []
            else [r])
       (case aberration_of of
          None \<Rightarrow> Some (map (\<lambda>p. case p of None \<Rightarrow> FNaN | Some m \<Rightarrow> m) ps)
        | Some cur \<Rightarrow> opt_map (aberration_point (case cur name of None \<Rightarrow> [] | Some c \<Rightarrow> Values c)) (enumerate 0 ps))))"

definition baselines_Do ::
  "go_env \<Rightarrow> quickselect \<Rightarrow> ((string \<times> MetricData list) list \<Rightarrow> (string \<times> MetricData list) list) \<Rightarrow> evaluator \<Rightarrow> expr \<Rightarrow> int \<Rightarrow> int
    \<Rightarrow> MetricData list ev" where
  "baselines_Do E qs visit ev e start stop =
     ev_bind (of_parser (GetIntervalArg E e 1 (- 1))) (\<lambda>unit.
     ev_bind (of_parser (GetIntArg e 2)) (\<lambda>i0.
     ev_bind (of_parser (GetIntArg e 3)) (\<lambda>i1.
     ev_bind (of_parser (GetFloatArgDefault E e 4 FNaN)) (\<lambda>maxAbsentPercent.
     ev_bind (of_parser (GetFloatArgDefault E e 5 FNaN)) (\<lambda>minAvgLimit.
       let isAberration = (target e = ''baselineAberration'')
       in ev_bind (or_none (each_series ev e start stop ret)) (\<lambda>as0.
          let current = (\<lambda>n. find (\<lambda>a. Name a = n) (rev as0))
          in ev_bind (ev_map (\<lambda>i. let offs = wrap32 (i * unit)
                in ev_bind (or_none (each_series ev e (start + offs) (stop + offs) ret)) (\<lambda>as.
                     ret (map (\<lambda>a. a\<lparr>StartTime := StartTime a - offs, StopTime := StopTime a - offs\<rparr>)
                       (filter (\<lambda>a. current (Name a) \<noteq> None \<or> \<not> isAberration) as)))) (baseline_shifts i0 i1)) (\<lambda>shifted.
             ev_bind (of_go (group_by (\<lambda>a. Some (Name a)) (concat shifted))) (\<lambda>groups.
               of_go (map_option concat (opt_map (baseline_group qs (if isAberration then Some current else None) maxAbsentPercent minAvgLimit)
                 (visit groups)))))))))))"


section \<open>Buckets\<close>

lemma chunks_short: "length xs < k \<Longrightarrow> chunks k xs = (if xs = [] then [] else [xs])"
  by (subst chunks.simps) simp

lemma chunks_full: "length xs = k \<Longrightarrow> 0 < k \<Longrightarrow> chunks k (xs @ ys) = xs # chunks k ys"
  by (subst chunks.simps) simp

definition met :: "(f64 \<Rightarrow> bool) \<Rightarrow> f64 list \<Rightarrow> nat" where
  "met meets vs = length (filter (\<lambda>v. \<not> isNaN v \<and> meets v) vs)"

definition bucket_level :: "(f64 \<Rightarrow> bool) \<Rightarrow> f64 option \<Rightarrow> int \<Rightarrow> f64 list \<Rightarrow> f64" where
  "bucket_level meets objective step vs =
     slo_value objective (int (length vs) * step) (met meets vs) (length (non_nan vs))"

lemma slo_loop_chunks:
  assumes "0 < step" "length p < k" "t + int (length vs) * step \<le> timeStop"
  shows "slo_loop meets objective step timeStop (int k * step) vs t (t - int (length p) * step)
      (t - int (length p) * step + int k * step) (met meets p) (length (non_nan p)) (length p) =
    map (bucket_level meets objective step) (chunks k (p @ vs))"
  using assms
proof (induction vs arbitrary: p t)
  case Nil
  then show ?case by (simp add: chunks_short slo_rest_def bucket_level_def)
next
  case (Cons v vs)
  let ?p = "p @ [v]"
  have m: "(if \<not> isNaN v \<and> meets v then Suc (met meets p) else met meets p) = met meets ?p"
    "(if isNaN v then length (non_nan p) else Suc (length (non_nan p))) = length (non_nan ?p)"
    by (simp_all add: met_def non_nan_def)
  have "0 \<le> int (length vs) * step" using Cons.prems(1) by simp
  moreover have t1: "t + step + int (length vs) * step \<le> timeStop" using Cons.prems(3) by (simp add: algebra_simps)
  ultimately have t: "t + step + int (length vs) * step \<le> timeStop" "\<not> timeStop < t + step" by linarith+
  have e: "t - int (length p) * step + int k * step \<le> t + step \<longleftrightarrow> Suc (length p) = k"
  proof -
    have "t - int (length p) * step + int k * step \<le> t + step \<longleftrightarrow> (int k - int (length p)) * step \<le> 1 * step"
      by (simp add: algebra_simps)
    also have "\<dots> \<longleftrightarrow> int k - int (length p) \<le> 1" using Cons.prems(1) by (simp only: mult_le_cancel_right) simp
    also have "\<dots> \<longleftrightarrow> Suc (length p) = k" using Cons.prems(2) by auto
    finally show ?thesis .
  qed
  show ?case
  proof (cases "Suc (length p) = k")
    case True
    then have s: "t - int (length p) * step + int k * step = t + step" by (auto simp: algebra_simps)
    have "chunks k (?p @ vs) = ?p # chunks k vs" using True by (intro chunks_full) auto
    moreover have "bucket_level meets objective step ?p = slo_value objective (int k * step) (met meets ?p) (length (non_nan ?p))"
      using True by (simp add: bucket_level_def)
    ultimately show ?thesis
      using Cons.IH[of "[]" "t + step"] Cons.prems(1) t True
      by (simp add: m e Let_def s) (simp add: met_def non_nan_def)
  next
    case False
    have s: "t + step - int (length ?p) * step = t - int (length p) * step" by (simp add: algebra_simps)
    have "length ?p < k" using False Cons.prems(2) by simp
    from Cons.IH[OF Cons.prems(1) this t(1), unfolded s] show ?thesis
      using t False by (simp add: m e Let_def)
  qed
qed

text \<open>
  C34: with a bucket of a whole number of steps and a stop time behind the values, \<open>slo\<close> has one point for
  every bucket of consecutive values, the last one possibly shorter: the share of the present values
  that meet the condition, or its distance from the objective times the seconds of the bucket.
\<close>

theorem slo_buckets:
  assumes "0 < step" "0 < k" "start + int (length vs) * step \<le> timeStop"
  shows "slo_loop meets objective step timeStop (int k * step) vs start start (start + int k * step) 0 0 0 =
    map (\<lambda>c. slo_value objective (int (length c) * step)
        (length (filter (\<lambda>v. \<not> isNaN v \<and> meets v) c)) (length (filter (\<lambda>v. \<not> isNaN v) c)))
      (chunks k vs)"
  using slo_loop_chunks[of step "[]" k start vs timeStop meets objective] assms
  by (simp add: met_def non_nan_def bucket_level_def[abs_def])

theorem slo_buckets_witness:
  "slo_loop (\<lambda>v. FNum 1 < v) None 60 180 120 [FNum 1, FNum 2, FNum 3] 0 0 120 0 0 0 =
     [FNum 1 div FNum 2, FNum 1 div FNum 1]"
proof -
  have c: "chunks 2 [FNum 1, FNum 2, FNum 3] = [[FNum 1, FNum 2], [FNum 3]]"
    by (simp add: chunks.simps[of 2])
  have "(0 :: int) < 60" "(0 :: nat) < 2" "0 + int (length [FNum 1, FNum 2, FNum 3]) * 60 \<le> 180" by simp_all
  from slo_buckets[OF this, of "\<lambda>v. FNum 1 < v" None] show ?thesis
    unfolding c by (simp add: slo_value_def buildDataPoint_def f64_of_int_def less_f64.simps)
qed


section \<open>What was fetched\<close>

text \<open>
  The evaluator reads a name from the map that \<open>Fetch\<close> filled with what \<open>Metrics\<close> asked for. So a function
  that reads its series at other times than the call finds them only if \<open>Metrics\<close> knows the function
  and shifts the request in the same way.
\<close>

definition request_at :: "string \<Rightarrow> int \<Rightarrow> int \<Rightarrow> MetricRequest" where
  "request_at name start stop = \<lparr>Metric = name, ConsolidationFunc = [], From = start, Until = stop\<rparr>"

definition call_on :: "string \<Rightarrow> string \<Rightarrow> expr list \<Rightarrow> expr" where
  "call_on f name rest = Expr f EtFunc (FNum 0) [] (NewNameExpr name # rest) [] []"

lemma call_on_simps [simp]:
  "target (call_on f name rest) = f" "args (call_on f name rest) = NewNameExpr name # rest"
  "namedArgs (call_on f name rest) = []" "etype (call_on f name rest) = EtFunc"
  by (simp_all add: call_on_def)

lemma Metrics_call_on:
  assumes "\<forall>x\<in>set rest. etype x \<noteq> EtName \<and> etype x \<noteq> EtFunc"
  shows "Metrics E (call_on f name rest) start stop = function_requests E (call_on f name rest) [] [request_at name start stop]"
proof -
  have "Metrics E x start stop = []" if "x \<in> set rest" for x
    using assms that by (subst Metrics.simps) (auto split: ExprType.splits)
  then have c: "concat (map (\<lambda>a. Metrics E a start stop) rest) = []" by simp
  show ?thesis
    by (subst Metrics.simps) (simp add: Metrics_leaf getNamedArg_def request_at_def c)
qed

definition shifting_functions :: "string list" where
  "shifting_functions = [''transformNull'', ''consolidateBy'', ''timeShift'', ''timeStack'', ''holtWintersForecast'',
     ''holtWintersConfidenceBands'', ''holtWintersConfidenceArea'', ''holtWintersAberration'', ''hitcount'', ''smartSummarize'']
     @ moving_functions"

lemma function_requests_other: "target e \<notin> set shifting_functions \<Longrightarrow> function_requests E e reference r = r"
  unfolding function_requests_def Let_def shifting_functions_def by simp

lemma function_requests_timeStack:
  "target e = ''timeStack'' \<Longrightarrow> function_requests E e reference r =
     (case (GetIntervalArg E e 1 (- 1), GetIntArg e 2, GetIntArg e 3) of
        (Inr offs, Inr start, Inr stop) \<Rightarrow> timeStack_requests offs start stop r | _ \<Rightarrow> [])"
  by (simp only: function_requests_def Let_def) simp

lemma each_series_call_on:
  "each_series (evaluator_at C (Suc n)) (call_on f name rest) start stop k values =
     k (series_of values (request_at name start stop)) values"
  by (simp add: each_series_def Arg_def go_index_def ev_bind_def GetSeriesArg_def evaluator_at_def Eval_name
      request_at_def IsName_def NewNameExpr_def ret_def del: Eval.simps)
    (simp add: Eval_name[unfolded NewNameExpr_def] del: Eval.simps)

lemma GetSeriesArg_name:
  "GetSeriesArg (evaluator_at C (Suc n)) (NewNameExpr name) start stop values =
     Some (Inr (series_of values (request_at name start stop)), values)"
  by (simp add: GetSeriesArg_def evaluator_at_def Eval_name[unfolded NewNameExpr_def] request_at_def IsName_def
      NewNameExpr_def del: Eval.simps)

text \<open>
  \<open>slo\<close> over a bucket longer than the window reads its series also from before the window, but \<open>Metrics\<close>
  asks for the window only: the call is an error whenever the window has series and an earlier
  request did not happen to fetch the longer range.
\<close>

lemma slo_not_fetched:
  assumes "GetIntervalArg E (call_on f name rest) 1 1 = Inr bucketSize" "stop - start < bucketSize" "\<not> (start = 0 \<and> stop = 1)"
    and "f = ''slo'' \<or> f = ''sloErrorBudget''" "\<forall>x\<in>set rest. etype x \<noteq> EtName \<and> etype x \<noteq> EtFunc"
    and "series_of values (request_at name start stop) \<noteq> []"
    and "series_of values (request_at name (stop - bucketSize) stop) = []"
  shows "set (Metrics E (call_on f name rest) start stop) = {request_at name start stop} \<and>
    slo_Do E (evaluator_at C (Suc n)) (call_on f name rest) start stop values =
      Some (Inl (other_error ''MetricData quantity differs''), values)"
proof -
  have "function_requests E (call_on f name rest) [] [request_at name start stop] = [request_at name start stop]"
    using assms(4) by (intro function_requests_other) (auto simp: shifting_functions_def moving_functions_def)
  moreover have "start - (bucketSize - (stop - start)) = stop - bucketSize" by simp
  ultimately show ?thesis
    using assms(1-3,6,7)
    by (simp add: Metrics_call_on[OF assms(5)] slo_Do_def each_series_call_on)
      (simp add: ev_bind_def GetSeriesArg_name throw_def)
qed

lemma one_hour: "IntervalString E ''1h'' 1 = Inr 3600" "IntervalString E ''1h'' (- 1) = Inr (- 3600)"
  by code_simp+

lemma slo_not_fetched_witness:
  "\<forall>E C. slo_Do E (evaluator_at C 1) (call_on ''slo'' ''a'' [NewValueExpr ''1h'', NewValueExpr ''above'', Expr [] EtConst (FNum 1) [] [] [] []]) 3600 3660
      [(request_at ''a'' 3600 3660, [makeMetricDataWithTags ''a'' [FNum 2] 60 3600 []])] =
    Some (Inl (other_error ''MetricData quantity differs''), [(request_at ''a'' 3600 3660, [makeMetricDataWithTags ''a'' [FNum 2] 60 3600 []])])"
proof (intro allI)
  fix E C
  let ?rest = "[NewValueExpr ''1h'', NewValueExpr ''above'', Expr [] EtConst (FNum 1) [] [] [] []]"
  let ?v = "[(request_at ''a'' 3600 3660, [makeMetricDataWithTags ''a'' [FNum 2] 60 3600 []])]"
  have i: "GetIntervalArg E (call_on ''slo'' ''a'' ?rest) 1 1 = Inr 3600"
    using one_hour(1)[of E] by (simp add: GetIntervalArg_def req_arg_def NewValueExpr_def)
  have r: "\<forall>x\<in>set ?rest. etype x \<noteq> EtName \<and> etype x \<noteq> EtFunc" by (simp add: NewValueExpr_def)
  have v: "series_of ?v (request_at ''a'' 3600 3660) \<noteq> []" "series_of ?v (request_at ''a'' (3660 - 3600) 3660) = []"
    by (simp_all add: series_of_def request_at_def)
  show "slo_Do E (evaluator_at C 1) (call_on ''slo'' ''a'' ?rest) 3600 3660 ?v = Some (Inl (other_error ''MetricData quantity differs''), ?v)"
    using slo_not_fetched[OF i _ _ _ r v, of C 0] by simp
qed

lemma timeStack_reads:
  "ev_map (\<lambda>i. each_series (evaluator_at C (Suc n)) (call_on f name rest) (start + i * unit) (stop + i * unit) (\<lambda>as. ret (h i as))) is values =
     Some (Inr (map (\<lambda>i. h i (series_of values (request_at name (start + i * unit) (stop + i * unit)))) is), values)"
  by (induction "is") (simp_all add: each_series_call_on ev_bind_def ret_def)

text \<open>
  when the first and the last shift are given, \<open>timeStack\<close> reads exactly the requests that \<open>Metrics\<close> makes,
  and returns their series moved back; with the last shift left to its default nothing is fetched.
\<close>

lemma timeStack_fetched:
  assumes "GetIntervalArg E (call_on ''timeStack'' name rest) 1 (- 1) = Inr unit" "\<forall>x\<in>set rest. etype x \<noteq> EtName \<and> etype x \<noteq> EtFunc"
    and "GetIntArg (call_on ''timeStack'' name rest) 2 = Inr i0" "GetIntArg (call_on ''timeStack'' name rest) 3 = Inr i1"
  shows "timeStack_Do E (evaluator_at C (Suc n)) (call_on ''timeStack'' name rest) start stop values =
      Some (Inr (concat (map (\<lambda>i. map (stacked (valStr (rest ! 0)) (i * unit))
        (series_of values (request_at name (start + i * unit) (stop + i * unit)))) [i0..i1 - 1])), values)
    \<and> Metrics E (call_on ''timeStack'' name rest) start stop =
        map (\<lambda>i. request_at name (start + i * unit) (stop + i * unit)) [i0..i1 - 1]"
proof -
  have d: "GetIntArgDefault (call_on ''timeStack'' name rest) 2 0 = Inr i0" "GetIntArgDefault (call_on ''timeStack'' name rest) 3 7 = Inr i1"
    using assms(3,4) by (auto simp: GetIntArgDefault_def GetIntArg_def def_arg_def req_arg_def split: if_splits)
  have "timeStack_Do E (evaluator_at C (Suc n)) (call_on ''timeStack'' name rest) start stop values =
      ev_bind (ev_map (\<lambda>i. each_series (evaluator_at C (Suc n)) (call_on ''timeStack'' name rest) (start + i * unit) (stop + i * unit)
        (\<lambda>as. ret (map (stacked (valStr (rest ! 0)) (i * unit)) as))) [i0..i1 - 1]) (\<lambda>rss. ret (concat rss)) values"
    by (simp add: timeStack_Do_def d assms(1)[unfolded One_nat_def])
  moreover have "Metrics E (call_on ''timeStack'' name rest) start stop = timeStack_requests unit i0 i1 [request_at name start stop]"
    by (simp add: Metrics_call_on[OF assms(2)] function_requests_timeStack assms(3,4) assms(1)[unfolded One_nat_def])
  ultimately show ?thesis by (simp add: ev_bind_def timeStack_reads) (simp add: ret_def timeStack_requests_def request_at_def)
qed

lemma timeStack_fetched_witness:
  "\<forall>E. Metrics E (call_on ''timeStack'' ''a'' [NewValueExpr ''1h'', Expr [] EtConst (FNum 0) [] [] [] [], Expr [] EtConst (FNum 2) [] [] [] []]) 7200 7260 =
     [request_at ''a'' 7200 7260, request_at ''a'' 3600 3660]"
proof
  fix E
  let ?rest = "[NewValueExpr ''1h'', Expr [] EtConst (FNum 0) [] [] [] [], Expr [] EtConst (FNum 2) [] [] [] []]"
  have i: "GetIntervalArg E (call_on ''timeStack'' ''a'' ?rest) 1 (- 1) = Inr (- 3600)"
    using one_hour(2)[of E] by (simp add: GetIntervalArg_def req_arg_def NewValueExpr_def)
  have r: "\<forall>x\<in>set ?rest. etype x \<noteq> EtName \<and> etype x \<noteq> EtFunc" by (simp add: NewValueExpr_def)
  have g: "GetIntArg (call_on ''timeStack'' ''a'' ?rest) 2 = Inr 0" "GetIntArg (call_on ''timeStack'' ''a'' ?rest) 3 = Inr 2"
    by code_simp+
  have "[0..2 - 1 :: int] = [0, 1]" by code_simp
  then show "Metrics E (call_on ''timeStack'' ''a'' ?rest) 7200 7260 = [request_at ''a'' 7200 7260, request_at ''a'' 3600 3660]"
    using timeStack_fetched[OF i r g, THEN conjunct2, of 7200 7260] by simp
qed

lemma timeStack_default_not_fetched:
  assumes "length rest \<le> 2" "\<forall>x\<in>set rest. etype x \<noteq> EtName \<and> etype x \<noteq> EtFunc"
  shows "Metrics E (call_on ''timeStack'' name rest) start stop = []"
proof -
  have "GetIntArg (call_on ''timeStack'' name rest) 3 = Inl ErrMissingArgument"
    using assms(1) by (simp add: GetIntArg_def req_arg_def)
  then show ?thesis by (simp add: Metrics_call_on[OF assms(2)] function_requests_timeStack split: sum.split)
qed

text \<open>\<open>Metrics\<close> does not know the baselines: of the shifted times they read it asks for none.\<close>

lemma baseline_not_fetched:
  assumes "f = ''baseline'' \<or> f = ''baselineAberration''" "\<forall>x\<in>set rest. etype x \<noteq> EtName \<and> etype x \<noteq> EtFunc"
  shows "Metrics E (call_on f name rest) start stop = [request_at name start stop]"
  unfolding Metrics_call_on[OF assms(2)]
  by (rule function_requests_other) (use assms(1) in \<open>auto simp: shifting_functions_def moving_functions_def\<close>)

end
