(* ===== verification/Math_Functions.thy ===== *)
theory Math_Functions
  imports Statistics
begin

text \<open>
  Functions of \<open>expr/functions\<close> that apply mathematics of other packages to values: \<open>pow\<close>, \<open>powSeries\<close>,
  \<open>logarithm\<close>, \<open>exp\<close>, \<open>logit\<close>, \<open>sigmoid\<close>, \<open>sinFunction\<close>, \<open>randomWalk\<close>, \<open>ewma\<close>, \<open>movingMedian\<close>,
  \<open>pearson\<close>, \<open>pearsonClosest\<close>, \<open>kolmogorovSmirnovTest2\<close>, \<open>linearRegression\<close>, \<open>polyfit\<close>, \<open>fft\<close> and \<open>ifft\<close>.
  The mathematics are the fields of a record: what an object that values are pushed into returns is
  a function of the values pushed.
\<close>

section \<open>Values one by one\<close>

record math_env =
  math_Exp :: "f64 \<Rightarrow> f64"
  math_Log :: "f64 \<Rightarrow> f64"
  math_Sin :: "f64 \<Rightarrow> f64"
  math_Pow :: "f64 \<Rightarrow> f64 \<Rightarrow> f64"
  stats_Pearson :: "f64 list \<Rightarrow> f64 list \<Rightarrow> f64"
  stats_KS :: "f64 list \<Rightarrow> f64 list \<Rightarrow> f64"
  stats_ExpWeight :: "f64 \<Rightarrow> f64 list \<Rightarrow> f64"
  MovingMedian :: "int \<Rightarrow> (f64 list \<Rightarrow> f64) go_result"
  least_squares :: "f64 list list \<Rightarrow> f64 list \<Rightarrow> f64 list option"

definition or_NaN :: "(f64 \<Rightarrow> f64) \<Rightarrow> f64 \<Rightarrow> f64" where
  "or_NaN f v = (if isNaN v then FNaN else f v)"

definition pow_Do :: "go_env \<Rightarrow> math_env \<Rightarrow> evaluator \<Rightarrow> expr \<Rightarrow> int \<Rightarrow> int \<Rightarrow> MetricData list ev" where
  "pow_Do E M ev e start stop =
     (if length (args e) < 2 then throw missing_argument
      else each_series ev e start stop (\<lambda>as. ev_bind (of_parser (GetFloatArg E e 1)) (\<lambda>factor.
        ret (map (\<lambda>a. tagged ''pow'' (Sprint_f64 E factor) (''pow('' @ Name a @ '','' @ Sprint_f64 E factor @ '')'')
                        (map (or_NaN (\<lambda>v. math_Pow M v factor)) (Values a)) a) as))))"

text \<open>A series that has ended counts as absent; the longest series lends the result its range.\<close>

definition pow_series_point :: "math_env \<Rightarrow> f64 list list \<Rightarrow> nat \<Rightarrow> f64" where
  "pow_series_point M vss i =
     (case map (\<lambda>vs. if i < length vs then vs ! i else FNaN) vss of
        [] \<Rightarrow> 0
      | v # rest \<Rightarrow> let r = foldl (math_Pow M) v rest in if isInf r then FNaN else r)"

definition powSeries_Do :: "math_env \<Rightarrow> evaluator \<Rightarrow> expr \<Rightarrow> int \<Rightarrow> int \<Rightarrow> MetricData list ev" where
  "powSeries_Do M ev e start stop =
     ev_bind (GetSeriesArgs ev (args e) start stop) (\<lambda>series.
       let vss = map Values series; n = Max (insert 0 (set (map length vss)))
       in case find (\<lambda>a. length (Values a) = n) series of
            None \<Rightarrow> of_go Panic
          | Some longest \<Rightarrow>
              ret [(CopyName (''powSeries('' @ argString e @ '')'') longest)\<lparr>Values := map (pow_series_point M vss) [0..<n]\<rparr>])"

definition logarithm_Do :: "math_env \<Rightarrow> evaluator \<Rightarrow> expr \<Rightarrow> int \<Rightarrow> int \<Rightarrow> MetricData list ev" where
  "logarithm_Do M ev e start stop =
     each_series ev e start stop (\<lambda>as. ev_bind (of_parser (GetIntNamedOrPosArgDefault e ''base'' 1 10)) (\<lambda>base.
       let baseLog = math_Log M (f64_of_int base)
       in ret (map (\<lambda>a. tagged ''log'' (FormatInt base)
                 (if base \<noteq> 10 then ''logarithm('' @ Name a @ '','' @ FormatInt base @ '')'' else ''logarithm('' @ Name a @ '')'')
                 (map (\<lambda>v. math_Log M v div baseLog) (Values a)) a) as)))"

definition exp_Do :: "math_env \<Rightarrow> evaluator \<Rightarrow> expr \<Rightarrow> int \<Rightarrow> int \<Rightarrow> MetricData list ev" where
  "exp_Do M ev e start stop =
     each_series ev e start stop (\<lambda>as. ret (map (\<lambda>a.
       tagged ''exp'' ''e'' (''exp('' @ Name a @ '')'') (map (or_NaN (math_Exp M)) (Values a)) a) as))"

definition logit_Do :: "math_env \<Rightarrow> evaluator \<Rightarrow> expr \<Rightarrow> int \<Rightarrow> int \<Rightarrow> MetricData list ev" where
  "logit_Do M ev e start stop =
     each_series ev e start stop (\<lambda>as. ret (map (\<lambda>a.
       tagged ''logit'' ''logit'' (''logit('' @ Name a @ '')'')
         (map (\<lambda>v. if isNaN v \<or> feq v (FNum 1) then FNaN else math_Log M (v div (FNum 1 - v))) (Values a)) a) as))"

definition sigmoid_point :: "math_env \<Rightarrow> f64 \<Rightarrow> f64" where
  "sigmoid_point M v =
     (if isNaN v \<or> feq (math_Exp M (- v)) (FNum (- 1)) then FNaN else FNum 1 div (FNum 1 + math_Exp M (- v)))"

definition sigmoid_Do :: "math_env \<Rightarrow> evaluator \<Rightarrow> expr \<Rightarrow> int \<Rightarrow> int \<Rightarrow> MetricData list ev" where
  "sigmoid_Do M ev e start stop =
     each_series ev e start stop (\<lambda>as. ret (map (\<lambda>a.
       tagged ''sigmoid'' ''sigmoid'' (''sigmoid('' @ Name a @ '')'') (map (sigmoid_point M) (Values a)) a) as))"

section \<open>Series of nothing\<close>

definition sinFunction_Do :: "go_env \<Rightarrow> math_env \<Rightarrow> expr \<Rightarrow> int \<Rightarrow> int \<Rightarrow> MetricData list ev" where
  "sinFunction_Do E M e start stop =
     ev_bind (of_parser (GetStringArg e 0)) (\<lambda>name.
     ev_bind (if 2 \<le> length (args e) then of_parser (GetFloatArgDefault E e 1 (FNum 1)) else ret (FNum 1)) (\<lambda>amplitude.
     ev_bind (if length (args e) = 3 then of_parser (GetIntArgDefault e 2 60) else ret 60) (\<lambda>step.
       of_go (map_option (\<lambda>ts. [new_line name name (map (\<lambda>t. math_Sin M t * amplitude) ts) step start stop])
         (time_values step start stop)))))"

text \<open>The walk stands still on its first two points; \<open>steps\<close> are the numbers \<open>rand.Float64\<close> returns.\<close>

fun walk :: "(nat \<Rightarrow> f64) \<Rightarrow> nat \<Rightarrow> f64 \<Rightarrow> nat \<Rightarrow> f64 list" where
  "walk steps i v 0 = []"
| "walk steps i v (Suc n) = (let v' = v + (steps i - FNum (1 / 2)) in v' # walk steps (Suc i) v' n)"

definition walk_values :: "(nat \<Rightarrow> f64) \<Rightarrow> nat \<Rightarrow> f64 list" where
  "walk_values steps n = take n ([0, 0] @ walk steps 0 0 (n - 2))"

definition randomWalk_Do :: "(nat \<Rightarrow> f64) \<Rightarrow> expr \<Rightarrow> int \<Rightarrow> int \<Rightarrow> MetricData list ev" where
  "randomWalk_Do steps e start stop =
     (let name = (case GetStringArg e 0 of Inl _ \<Rightarrow> ''randomWalk'' | Inr s \<Rightarrow> s)
      in ev_bind (of_parser (GetIntNamedOrPosArgDefault e ''step'' 1 60)) (\<lambda>step.
           of_go (Option.bind (go_div (stop - start) step) (\<lambda>n.
             if n < 0 then Panic
             else Some [(new_line name name (walk_values steps (nat n)) step start (start + step * n))
                         \<lparr>MConsolidationFunc := ''average''\<rparr>]))))"

section \<open>Running statistics\<close>

fun ewma_loop :: "(f64 list \<Rightarrow> f64) \<Rightarrow> f64 list \<Rightarrow> f64 list \<Rightarrow> f64 list" where
  "ewma_loop mean pushed [] = []"
| "ewma_loop mean pushed (v # vs) =
     (if isNaN v then FNaN # ewma_loop mean pushed vs
      else mean (pushed @ [v]) # ewma_loop mean (pushed @ [v]) vs)"

definition ewma_Do :: "go_env \<Rightarrow> math_env \<Rightarrow> evaluator \<Rightarrow> expr \<Rightarrow> int \<Rightarrow> int \<Rightarrow> MetricData list ev" where
  "ewma_Do E M ev e start stop =
     (if length (args e) < 2 then throw missing_argument
      else each_series ev e start stop (\<lambda>as. ev_bind (of_parser (GetFloatArg E e 1)) (\<lambda>alpha.
        ret (map (\<lambda>a. (CopyTag (''ewma('' @ Name a @ '','' @ valStr (args e ! 1) @ '')'') (MTags a) a)
                        \<lparr>Values := ewma_loop (stats_ExpWeight M alpha) [] (Values a)\<rparr>) as))))"

text \<open>The window, in points or as an interval, and its text.\<close>

definition median_window :: "go_env \<Rightarrow> expr \<Rightarrow> (int \<times> string \<times> bool) ev" where
  "median_window E e =
     (if etype (args e ! 1) = EtConst then ev_bind (of_parser (GetIntArg e 1)) (\<lambda>n. ret (n, FormatInt n, False))
      else if etype (args e ! 1) = EtString
      then ev_bind (of_parser (GetIntervalArg E e 1 1)) (\<lambda>n. ret (n, [CHR 0x27] @ valStr (args e ! 1) @ [CHR 0x27], True))
      else throw (plain_error (ParserCause ErrBadType)))"

definition median_values :: "(f64 list \<Rightarrow> f64) \<Rightarrow> int \<Rightarrow> nat \<Rightarrow> f64 list \<Rightarrow> f64 list" where
  "median_values median windowSize offs vs =
     map (\<lambda>i. if windowSize - 1 \<le> int i then median (take (Suc i) vs) else FNaN) [offs..<length vs]"

definition median_one :: "math_env \<Rightarrow> bool \<Rightarrow> int \<Rightarrow> int \<Rightarrow> int \<Rightarrow> string \<Rightarrow> MetricData \<Rightarrow> MetricData go_result" where
  "median_one M NaNsIfStepMismatch start windowSize offs argstr a =
     (let r = (CopyLink a)\<lparr>Name := ''movingMedian('' @ Name a @ '','' @ argstr @ '')''\<rparr>
      in map_option (set_tag ''movingMedian'' argstr)
           (if windowSize = 0
            then Some (if NaNsIfStepMismatch then r\<lparr>Values := replicate (length (Values a)) FNaN\<rparr> else r)
            else if int (length (Values a)) < offs then Panic
            else Option.bind (go_div (start + StepTime a - 1) (StepTime a)) (\<lambda>q.
                 map_option (\<lambda>median.
                     let vs = median_values median windowSize (nat offs) (Values a); s = q * StepTime a
                     in r\<lparr>Values := vs, StartTime := s, StopTime := s + int (length vs) * StepTime a\<rparr>)
                   (MovingMedian M windowSize))))"

definition movingMedian_Do :: "go_env \<Rightarrow> math_env \<Rightarrow> bool \<Rightarrow> evaluator \<Rightarrow> expr \<Rightarrow> int \<Rightarrow> int \<Rightarrow> MetricData list ev" where
  "movingMedian_Do E M NaNsIfStepMismatch ev e start stop =
     (if length (args e) < 2 then throw missing_argument
      else ev_bind (median_window E e) (\<lambda>(n, argstr, scaleByStep).
        ev_bind (GetSeriesArg ev (args e ! 0) (if scaleByStep then start - n else start) stop) (\<lambda>as.
          if as = [] then ret []
          else ev_bind (of_go (if scaleByStep then go_div n (StepTime (hd as)) else Some n)) (\<lambda>windowSize.
            of_go (opt_map (median_one M NaNsIfStepMismatch start windowSize (if scaleByStep then windowSize else 0) argstr) as)))))"

section \<open>Correlations\<close>

text \<open>Two windows side by side; \<open>first\<close> is the first point at which they are compared.\<close>

fun pair_windows :: "(f64 list \<Rightarrow> f64 list \<Rightarrow> f64) \<Rightarrow> int \<Rightarrow> nat \<Rightarrow> windowed \<Rightarrow> windowed \<Rightarrow> f64 list \<Rightarrow> f64 list \<Rightarrow> f64 list go_result" where
  "pair_windows test first i w1 w2 [] us = Some []"
| "pair_windows test first i w1 w2 (v # vs) [] = Panic"
| "pair_windows test first i w1 w2 (v # vs) (u # us) =
     (let w1' = Push w1 v; w2' = Push w2 u
      in map_option ((#) (if first \<le> int i then test (wData w1') (wData w2') else FNaN))
           (pair_windows test first (Suc i) w1' w2' vs us))"

definition single_pair ::
  "evaluator \<Rightarrow> expr \<Rightarrow> int \<Rightarrow> int \<Rightarrow> (MetricData \<Rightarrow> MetricData \<Rightarrow> int \<Rightarrow> MetricData list ev) \<Rightarrow> MetricData list ev" where
  "single_pair ev e start stop k =
     each_series ev e start stop (\<lambda>as1. ev_bind (Arg e 1) (\<lambda>x. ev_bind (GetSeriesArg ev x start stop) (\<lambda>as2.
       case (as1, as2) of
         ([a1], [a2]) \<Rightarrow> ev_bind (of_parser (GetIntArg e 2)) (k a1 a2)
       | _ \<Rightarrow> throw (other_error ErrWildcardNotAllowed))))"

definition pearson_Do :: "math_env \<Rightarrow> evaluator \<Rightarrow> expr \<Rightarrow> int \<Rightarrow> int \<Rightarrow> MetricData list ev" where
  "pearson_Do M ev e start stop =
     single_pair ev e start stop (\<lambda>a1 a2 windowSize.
       let w = empty_window (nat windowSize)
       in if windowSize < 0 then of_go Panic
          else of_go (map_option (\<lambda>vs.
                 [(renamed (''pearson('' @ Name a1 @ '','' @ Name a2 @ '','' @ valStr (args e ! 2) @ '')'') vs a1)
                    \<lparr>StartTime := start, StopTime := start + int (length vs) * StepTime a1\<rparr>])
               (pair_windows (stats_Pearson M) (windowSize - 1) 0 w w (Values a1) (Values a2))))"

definition kolmogorovSmirnovTest2_Do :: "math_env \<Rightarrow> evaluator \<Rightarrow> expr \<Rightarrow> int \<Rightarrow> int \<Rightarrow> MetricData list ev" where
  "kolmogorovSmirnovTest2_Do M ev e start stop =
     single_pair ev e start stop (\<lambda>a1 a2 windowSize.
       let w = empty_window (nat windowSize)
       in if windowSize < 0 then of_go Panic
          else of_go (map_option (\<lambda>vs.
                 [(renamed (''kolmogorovSmirnovTest2('' @ Name a1 @ '','' @ Name a2 @ '','' @ valStr (args e ! 2) @ '')'') vs a1)
                    \<lparr>StartTime := start, StopTime := stop\<rparr>])
               (pair_windows (stats_KS M) windowSize 0 w w (Values a1) (Values a2))))"

text \<open>
  \<open>pearsonClosest\<close>: the correlation as a value of which less is closer, and \<open>None\<close> for a series that is
  passed over.
\<close>

definition closeness :: "string \<Rightarrow> f64 \<Rightarrow> f64 option" where
  "closeness direction v =
     (if isNaN v then None
      else if direction = ''abs'' then Some (\<bar>v\<bar> * FNum (- 1))
      else if direction = ''pos'' \<and> 0 \<le> v then Some (v * FNum (- 1))
      else if direction = ''neg'' \<and> v \<le> 0 then Some v
      else None)"

definition closest_candidates :: "math_env \<Rightarrow> string \<Rightarrow> f64 list \<Rightarrow> MetricData list \<Rightarrow> MetricHeapElement list" where
  "closest_candidates M direction refValues compare_with =
     List.map_filter (\<lambda>(i, a).
         if length (Values a) \<noteq> length refValues then None
         else map_option (\<lambda>v. \<lparr>Idx = i, Val = v\<rparr>) (closeness direction (stats_Pearson M refValues (Values a))))
       (enumerate 0 compare_with)"

definition select_closest :: "int \<Rightarrow> MetricHeapElement list \<Rightarrow> MetricData list \<Rightarrow> MetricData list go_result" where
  "select_closest n cands compare_with =
     (let mh = foldl heap_Push [] cands; n' = (if int (length mh) < n then int (length mh) else n)
      in if n' < 0 then Panic else map_option (map (\<lambda>v. compare_with ! Idx v)) (pops heap_Pop (nat n') mh))"

definition pearsonClosest_Do :: "math_env \<Rightarrow> evaluator \<Rightarrow> expr \<Rightarrow> int \<Rightarrow> int \<Rightarrow> MetricData list ev" where
  "pearsonClosest_Do M ev e start stop =
     (if 3 < length (args e) then throw (other_error ''too many arguments'')
      else each_series ev e start stop (\<lambda>refs. case refs of
          [r] \<Rightarrow>
            ev_bind (Arg e 1) (\<lambda>x. ev_bind (GetSeriesArg ev x start stop) (\<lambda>compare_with.
            ev_bind (of_parser (GetIntArg e 2)) (\<lambda>n.
            ev_bind (of_parser (GetStringNamedOrPosArgDefault e ''direction'' 3 ''abs'')) (\<lambda>direction.
              if direction \<notin> {''pos'', ''neg'', ''abs''} then throw (other_error ''direction must be one of: pos, neg, abs'')
              else of_go (select_closest n (closest_candidates M direction (Values r) compare_with) compare_with)))))
        | _ \<Rightarrow> throw (other_error ErrWildcardNotAllowed)))"

section \<open>Polynomials\<close>

definition power_row :: "nat \<Rightarrow> nat \<Rightarrow> f64 list" where
  "power_row deg i = map (\<lambda>j. f64_of_int (wrap64 (int i ^ j))) [0..<Suc deg]"

definition Vandermonde :: "f64 list \<Rightarrow> nat \<Rightarrow> f64 list list" where
  "Vandermonde vs deg = map (power_row deg) (filter (\<lambda>i. \<not> isNaN (vs ! i)) [0..<length vs])"

text \<open>
  The values of the fitted polynomial at \<open>n\<close> points: no value when there are less than two to fit, \<open>None\<close>
  inside when the matrix has no inverse.
\<close>

definition fit_values :: "math_env \<Rightarrow> nat \<Rightarrow> nat \<Rightarrow> f64 list \<Rightarrow> f64 list option go_result" where
  "fit_values M deg n vs =
     (let nonNulls = filter (\<lambda>v. \<not> isNaN v) vs
      in if length nonNulls < 2 then Some (Some (replicate n FNaN))
         else case least_squares M (Vandermonde vs deg) nonNulls of
                None \<Rightarrow> Some None
              | Some c \<Rightarrow> map_option Some (opt_map (\<lambda>i. Poly (f64_of_int (int i)) c) [0..<n]))"

definition quoted_arg :: "expr \<Rightarrow> nat \<Rightarrow> string" where
  "quoted_arg e i = [CHR 0x27] @ valStr (args e ! i) @ [CHR 0x27]"

definition linearRegression_one :: "math_env \<Rightarrow> expr \<Rightarrow> MetricData \<Rightarrow> MetricData list go_result" where
  "linearRegression_one M e a =
     (let r = (CopyLink a)\<lparr>Name := ''linearRegression('' @ Name a
                @ (if 2 < length (args e) then '','' @ quoted_arg e 1 @ '','' @ quoted_arg e 2
                   else if 1 < length (args e) then '','' @ quoted_arg e 1 else []) @ '')''\<rparr>
      in map_option (\<lambda>fit. case fit of
            None \<Rightarrow> []
          | Some vs \<Rightarrow>
              [if length (filter (\<lambda>v. \<not> isNaN v) (Values a)) < 2 then r\<lparr>Values := vs\<rparr>
               else set_tag ''linearRegressions'' (FormatInt (StartTime a) @ '', '' @ FormatInt (StopTime a)) (r\<lparr>Values := vs\<rparr>)])
        (fit_values M 1 (length (Values a)) (Values a)))"

definition linearRegression_Do :: "math_env \<Rightarrow> evaluator \<Rightarrow> expr \<Rightarrow> int \<Rightarrow> int \<Rightarrow> MetricData list ev" where
  "linearRegression_Do M ev e start stop =
     each_series ev e start stop (\<lambda>as. of_go (map_option concat (opt_map (linearRegression_one M e) as)))"

definition polyfit_one :: "math_env \<Rightarrow> expr \<Rightarrow> int \<Rightarrow> string \<Rightarrow> int \<Rightarrow> MetricData \<Rightarrow> MetricData list go_result" where
  "polyfit_one M e degree offsStr offs a =
     Option.bind (go_div offs (StepTime a)) (\<lambda>more.
       let n = int (length (Values a)) + more;
           name = ''polyfit('' @ Name a @ (if 2 < length (args e) then '','' @ FormatInt degree @ '','' @ [CHR 0x27] @ offsStr @ [CHR 0x27]
                    else if 1 < length (args e) then '','' @ FormatInt degree else []) @ '')''
       in if n < 0 then Panic
          else map_option (\<lambda>fit. case fit of
                 None \<Rightarrow> []
               | Some vs \<Rightarrow> [(CopyLink a)\<lparr>Name := name, Values := vs, StopTime := StopTime a + offs\<rparr>])
             (fit_values M (nat degree) (nat n) (Values a)))"

definition polyfit_Do :: "go_env \<Rightarrow> math_env \<Rightarrow> evaluator \<Rightarrow> expr \<Rightarrow> int \<Rightarrow> int \<Rightarrow> MetricData list ev" where
  "polyfit_Do E M ev e start stop =
     each_series ev e start stop (\<lambda>as.
     ev_bind (of_parser (GetIntNamedOrPosArgDefault e ''degree'' 1 1)) (\<lambda>degree.
       if degree < 1 then throw (other_error ''degree must be larger or equal to 1'')
       else ev_bind (of_parser (GetStringNamedOrPosArgDefault e ''offset'' 2 ''0d'')) (\<lambda>offsStr.
            ev_bind (of_parser (IntervalString E offsStr 1)) (\<lambda>offs.
              of_go (map_option concat (opt_map (polyfit_one M e degree offsStr offs) as))))))"

section \<open>Transforms\<close>

text \<open>The Fourier transform of package \<open>fft\<close>, on complex numbers of a type of its own.\<close>

record 'c fourier =
  FFTReal :: "f64 list \<Rightarrow> 'c list"
  IFFT :: "'c list \<Rightarrow> 'c list"
  IFFTReal :: "f64 list \<Rightarrow> 'c list"
  cmplx_Abs :: "'c \<Rightarrow> f64"
  cmplx_Phase :: "'c \<Rightarrow> f64"
  cmplx_Rect :: "f64 \<Rightarrow> f64 \<Rightarrow> 'c"

definition extractComponent :: "MetricData \<Rightarrow> 'c list \<Rightarrow> string \<Rightarrow> ('c \<Rightarrow> f64) \<Rightarrow> MetricData" where
  "extractComponent m vs t f = (CopyTag (''fft('' @ Name m @ '','' @ t @ '')'') (MTags m) m)\<lparr>Values := map f vs\<rparr>"

definition fft_one :: "'c fourier \<Rightarrow> string \<Rightarrow> MetricData \<Rightarrow> MetricData list" where
  "fft_one F mode a =
     (let vs = FFTReal F (Values a);
          ab = extractComponent a vs ''abs'' (cmplx_Abs F); phase = extractComponent a vs ''phase'' (cmplx_Phase F)
      in if mode \<in> {[], ''both'', ''all''} then [ab, phase]
         else if mode = ''abs'' then [ab] else if mode = ''phase'' then [phase] else [])"

definition fft_Do :: "'c fourier \<Rightarrow> evaluator \<Rightarrow> expr \<Rightarrow> int \<Rightarrow> int \<Rightarrow> MetricData list ev" where
  "fft_Do F ev e start stop =
     each_series ev e start stop (\<lambda>as.
       let mode = (case GetStringArg e 1 of Inl _ \<Rightarrow> [] | Inr s \<Rightarrow> s) in ret (concat (map (fft_one F mode) as)))"

text \<open>The result has as many values as the series; a longer inverse has no room.\<close>

definition ifft_one :: "'c fourier \<Rightarrow> MetricData list \<Rightarrow> nat \<times> MetricData \<Rightarrow> MetricData go_result" where
  "ifft_one F phases = (\<lambda>(j, a).
     let put = (\<lambda>name vs. if length (Values a) < length vs then Panic
                 else Some (renamed name (map (cmplx_Abs F) vs @ replicate (length (Values a) - length vs) 0) a))
     in if j < length phases
        then Option.bind (opt_map (\<lambda>i. map_option (\<lambda>ph. let v = Values a ! i in cmplx_Rect F (if isNaN v then 0 else v) ph)
                 (go_index (Values (phases ! j)) (int i))) [0..<length (Values a)])
               (\<lambda>vs. put (''ifft('' @ Name a @ '','' @ Name (phases ! j) @ '')'') (IFFT F vs))
        else put (''ifft('' @ Name a @ '')'') (IFFTReal F (Values a)))"

definition ifft_Do :: "'c fourier \<Rightarrow> evaluator \<Rightarrow> expr \<Rightarrow> int \<Rightarrow> int \<Rightarrow> MetricData list ev" where
  "ifft_Do F ev e start stop =
     each_series ev e start stop (\<lambda>as.
     ev_bind (if 1 < length (args e) then GetSeriesArg ev (args e ! 1) start stop else ret []) (\<lambda>phases.
       of_go (opt_map (ifft_one F phases) (enumerate 0 as))))"

section \<open>What they do\<close>

lemma closeness_not_NaN: "closeness direction v = Some x \<Longrightarrow> \<not> isNaN x"
  by (cases v) (auto simp: closeness_def times_f64_def zero_f64_def mk_zero_def split: if_splits)

lemma closest_candidates_present:
  "c \<in> set (closest_candidates M direction refs as) \<Longrightarrow>
     \<exists>i<length as. Idx c = i \<and> length (Values (as ! i)) = length refs \<and> \<not> isNaN (Val c)
       \<and> closeness direction (stats_Pearson M refs (Values (as ! i))) = Some (Val c)"
  by (auto simp: closest_candidates_def List.map_filter_def in_set_enumerate_eq closeness_not_NaN split: if_splits)

text \<open>
  \<open>pearsonClosest\<close> gives the series whose correlation with the reference is the strongest in the
  direction asked for, strongest first, as many as asked for or as there are.
\<close>

lemma select_closest_best:
  assumes "0 \<le> n" and "cands = closest_candidates M direction refValues as"
  shows "\<exists>vs others. select_closest n cands as = Some (map (\<lambda>v. as ! Idx v) vs)
     \<and> mset cands = mset vs + others \<and> length vs = min (nat n) (length cands)
     \<and> sorted_wrt (\<lambda>x y. Val x \<le> Val y) vs \<and> (\<forall>x\<in>set vs. \<forall>y\<in>#others. Val x \<le> Val y)"
proof -
  define mh where "mh = foldl heap_Push [] cands"
  have ok: "\<forall>x\<in>set cands. \<not> isNaN (Val x)" using closest_candidates_present assms(2) by blast
  then have mh: "heap_inv mh" "mset mh = mset cands"
    using foldl_heap_Push[OF ok, of "[]"] by (simp_all add: mh_def heap_inv_def heap_upto_def present_def)
  have len: "length mh = length cands" using mh(2) by (metis size_mset)
  obtain vs others where V: "pops heap_Pop (min (nat n) (length mh)) mh = Some vs" "length vs = min (nat n) (length mh)"
    "mset mh = mset vs + others" "sorted (map elem_key vs)" "\<forall>x\<in>set vs. \<forall>y\<in>#others. elem_key x \<le> elem_key y"
    using heap_queue.pops_sorted[OF mh(1), of "min (nat n) (length mh)"] by auto
  have "x \<in># mset vs + others \<Longrightarrow> x \<in> set cands" for x using V(3) mh(2) by (metis set_mset_mset)
  then have nn: "\<not> isNaN (Val x)" if "x \<in># mset vs + others" for x using ok that by blast
  have "nat (if int (length mh) < n then int (length mh) else n) = min (nat n) (length mh)" by auto
  then have "select_closest n cands as = Some (map (\<lambda>v. as ! Idx v) vs)"
    using V(1) assms(1) by (auto simp: select_closest_def mh_def[symmetric] Let_def)
  moreover have "sorted_wrt (\<lambda>x y. Val x \<le> Val y) vs" using nn by (intro sorted_Val[OF V(4)]) simp
  moreover have "\<forall>x\<in>set vs. \<forall>y\<in>#others. Val x \<le> Val y" using V(5) nn by (auto intro: key_le_Val)
  ultimately show ?thesis using V(2,3) mh(2) len by (intro exI[of _ vs] exI[of _ others]) simp
qed

text \<open>A fit is evaluated at every point, and a missing inverse leaves the series out.\<close>

lemma linearRegression_length:
  assumes "linearRegression_one M e a = Some rs" "r \<in> set rs"
  shows "length (Values r) = length (Values a)"
proof -
  have "length vs = n" if "fit_values M 1 n xs = Some (Some vs)" for n xs vs
    using that by (auto simp: fit_values_def Let_def split: if_splits option.splits dest: opt_map_length)
  then have len: "length vs = length (Values a)" if "fit_values M 1 (length (Values a)) (Values a) = Some (Some vs)" for vs
    using that by blast
  obtain fit where fit: "fit_values M 1 (length (Values a)) (Values a) = Some fit"
    using assms(1) by (auto simp: linearRegression_one_def Let_def)
  then obtain vs where vs: "fit = Some vs" "Values r = vs"
    using assms by (cases fit) (auto simp: linearRegression_one_def set_tag_def Let_def split: if_splits)
  then show ?thesis using len fit by simp
qed

text \<open>The first rows of the matrix of a line are 1 and the position.\<close>

lemma Vandermonde_line:
  assumes "list_all (\<lambda>v. \<not> isNaN v) vs" "length vs \<le> 2 ^ 53"
  shows "Vandermonde vs 1 = map (\<lambda>i. [FNum 1, FNum (of_nat i)]) [0..<length vs]"
proof -
  have "f64_of_int (wrap64 (int i)) = FNum (of_nat i)" if "i < length vs" for i
    using that assms(2) by (simp add: wrap64_id in_int64_def f64_of_int_exact)
  moreover have "wrap64 1 = 1" by (simp add: wrap64_id in_int64_def)
  ultimately show ?thesis
    using assms(1) by (auto simp: Vandermonde_def power_row_def list_all_length filter_True f64_of_int_exact)
qed

lemma powSeries_empty_panics: "args e = [] \<Longrightarrow> powSeries_Do M ev e start stop values = Panic"
  by (simp add: powSeries_Do_def ev_bind_def ret_def of_go_def)

text \<open>A random walk has one point per step; the first two of them are zero.\<close>

lemma walk_length [simp]: "length (walk steps i v n) = n"
  by (induction n arbitrary: i v) (simp_all add: Let_def)

lemma walk_values_length: "length (walk_values steps n) = n"
  by (cases n) (auto simp: walk_values_def)

lemma walk_values_start: "i < n \<Longrightarrow> i < 2 \<Longrightarrow> walk_values steps n ! i = 0"
  by (auto simp: walk_values_def less_Suc_eq numeral_2_eq_2)

end
