(* ===== verification/Set_Functions.thy ===== *)
theory Set_Functions
  imports Combining
begin

text \<open>
  Functions of \<open>expr/functions\<close> that work on sets of series: \<open>join\<close>, \<open>rangeOfSeries\<close>, \<open>heatMap\<close>,
  \<open>countValues\<close>, \<open>weightedAverage\<close>, \<open>setXFilesFactor\<close> and \<open>timeShiftByMetric\<close>. The order in which maps
  are visited, the sorting routines and \<open>strings.ToUpper\<close> are parameters.
\<close>

section \<open>Joins\<close>

definition doAnd :: "MetricData list \<Rightarrow> MetricData list \<Rightarrow> MetricData list" where
  "doAnd seriesA seriesB = filter (\<lambda>md. Name md \<in> set (map Name seriesB)) seriesA"

definition doSub :: "MetricData list \<Rightarrow> MetricData list \<Rightarrow> MetricData list" where
  "doSub seriesA seriesB = filter (\<lambda>md. Name md \<notin> set (map Name seriesB)) seriesA"

definition doOr :: "MetricData list \<Rightarrow> MetricData list \<Rightarrow> MetricData list" where
  "doOr seriesA seriesB = seriesA @ filter (\<lambda>md. Name md \<notin> set (map Name seriesA)) seriesB"

definition doXor :: "MetricData list \<Rightarrow> MetricData list \<Rightarrow> MetricData list" where
  "doXor seriesA seriesB =
     filter (\<lambda>md. Name md \<notin> set (map Name seriesB)) seriesA
     @ filter (\<lambda>md. Name md \<notin> set (map Name seriesA)) seriesB"

definition join_Do :: "(string \<Rightarrow> string) \<Rightarrow> evaluator \<Rightarrow> expr \<Rightarrow> int \<Rightarrow> int \<Rightarrow> MetricData list ev" where
  "join_Do ToUpper ev e start stop =
     each_series ev e start stop (\<lambda>seriesA.
     ev_bind (Arg e 1) (\<lambda>a1. ev_bind (GetSeriesArg ev a1 start stop) (\<lambda>seriesB.
     ev_bind (of_parser (GetStringNamedOrPosArgDefault e ''type'' 2 ''AND'')) (\<lambda>joinType0.
       let joinType = ToUpper joinType0
       in if joinType = ''AND'' then ret (doAnd seriesA seriesB)
          else if joinType = ''OR'' then ret (doOr seriesA seriesB)
          else if joinType = ''XOR'' then ret (doXor seriesA seriesB)
          else if joinType = ''SUB'' then ret (doSub seriesA seriesB)
          else throw (other_error (''unknown join type: '' @ joinType))))))"

section \<open>Ranges\<close>

text \<open>\<open>math.Min\<close> and \<open>math.Max\<close>, with their order of the infinities, NaN and the zeros.\<close>

definition math_Min :: "f64 \<Rightarrow> f64 \<Rightarrow> f64" where
  "math_Min x y =
     (if x = FInf True \<or> y = FInf True then FInf True
      else if isNaN x \<or> isNaN y then FNaN
      else if feq x 0 \<and> feq x y then (if fneg x then x else y)
      else if x < y then x else y)"

definition math_Max :: "f64 \<Rightarrow> f64 \<Rightarrow> f64" where
  "math_Max x y =
     (if x = FInf False \<or> y = FInf False then FInf False
      else if isNaN x \<or> isNaN y then FNaN
      else if feq x 0 \<and> feq x y then (if fneg x then y else x)
      else if y < x then x else y)"

definition range_point :: "f64 list \<Rightarrow> f64" where
  "range_point vs =
     (case filter (\<lambda>v. \<not> isNaN v) vs of
        v # w # ws \<Rightarrow> foldl math_Max v (w # ws) - foldl math_Min v (w # ws)
      | _ \<Rightarrow> FNaN)"

definition rangeOfSeries_Do :: "evaluator \<Rightarrow> expr \<Rightarrow> int \<Rightarrow> int \<Rightarrow> MetricData list ev" where
  "rangeOfSeries_Do ev e start stop =
     each_series ev e start stop (\<lambda>series.
       if series = [] then ret []
       else let name = target e @ ''('' @ argString e @ '')'';
                commonTags = GetCommonTags series
            in of_go (map_option (\<lambda>vs.
                   [(CopyLink (hd series))\<lparr>Name := name, Values := vs,
                      MTags := (if map_of commonTags ''name'' = None then AList.update ''name'' name commonTags else commonTags)\<rparr>])
                 (opt_map (\<lambda>i. map_option range_point (column series i)) [0..<length (Values (hd series))])))"

section \<open>Heat maps\<close>

text \<open>The weight of a series is the sum of its first five values at which no series is absent.\<close>

fun no_absent :: "MetricData list \<Rightarrow> nat \<Rightarrow> bool go_result" where
  "no_absent [] i = Some True"
| "no_absent (a # as) i =
     Option.bind (go_index (Values a) (int i)) (\<lambda>v. if isNaN v then Some False else no_absent as i)"

fun weigh :: "MetricData list \<Rightarrow> nat list \<Rightarrow> nat \<Rightarrow> f64 list \<Rightarrow> (f64 list \<times> nat) go_result" where
  "weigh series [] pointsFound ws = Some (ws, pointsFound)"
| "weigh series (i # is) pointsFound ws =
     (if 5 \<le> pointsFound then Some (ws, pointsFound)
      else Option.bind (no_absent series i) (\<lambda>present.
        if present then weigh series is (Suc pointsFound) (map (\<lambda>(w, a). w + Values a ! i) (zip ws series))
        else weigh series is pointsFound ws))"

definition sortMetricData :: "valued_sort \<Rightarrow> MetricData list \<Rightarrow> MetricData list go_result" where
  "sortMetricData sort_by series =
     (if length series < 2 then Some series
      else map_option (\<lambda>(ws, pointsFound).
             if 0 < pointsFound then map snd (sort_by (\<lambda>x y. fst x < fst y) (zip ws series)) else series)
           (weigh series [0..<length (Values (hd series))] 0 (replicate (length series) 0)))"

definition validateNeighbourSeries :: "MetricData list \<Rightarrow> string option" where
  "validateNeighbourSeries series =
     (let differs = (\<lambda>s1 s2.
            if StartTime s1 \<noteq> StartTime s2 then Some (''StartTime differs: '' @ FormatInt (StartTime s1) @ ''!='' @ FormatInt (StartTime s2))
            else if StopTime s1 \<noteq> StopTime s2 then Some (''StartTime differs: '' @ FormatInt (StopTime s1) @ ''!='' @ FormatInt (StopTime s2))
            else if StepTime s1 \<noteq> StepTime s2 then Some (''StartTime differs: '' @ FormatInt (StepTime s1) @ ''!='' @ FormatInt (StepTime s2))
            else if length (Values s1) \<noteq> length (Values s2)
            then Some (''values quantity differs: '' @ FormatInt (int (length (Values s1))) @ ''!='' @ FormatInt (int (length (Values s2))))
            else None)
      in case series of
           [] \<Rightarrow> None
         | s1 # rest \<Rightarrow> (case List.map_filter (differs s1) rest of [] \<Rightarrow> None | err # _ \<Rightarrow> Some err))"

definition heat_point :: "f64 \<Rightarrow> f64 \<Rightarrow> f64" where
  "heat_point c p = (if isNaN c \<or> isNaN p then FNaN else c - p)"

definition heat_line :: "MetricData \<Rightarrow> MetricData \<Rightarrow> MetricData" where
  "heat_line prev here =
     (makeMetricDataWithTags (''heatMap('' @ Name here @ '','' @ Name prev @ '')'')
        (map (\<lambda>(c, p). heat_point c p) (zip (Values here) (Values prev))) (StepTime here) (StartTime here) (MTags here))
     \<lparr>StopTime := StopTime here\<rparr>"

text \<open>The capacity of the result is one less than the number of series, so no series panic.\<close>

definition heatMap_Do :: "valued_sort \<Rightarrow> evaluator \<Rightarrow> expr \<Rightarrow> int \<Rightarrow> int \<Rightarrow> MetricData list ev" where
  "heatMap_Do sort_by ev e start stop =
     each_series ev e start stop (\<lambda>series0.
     ev_bind (of_go (sortMetricData sort_by series0)) (\<lambda>series.
       if series = [] then of_go Panic
       else case validateNeighbourSeries series of
         Some err \<Rightarrow> throw (other_error err)
       | None \<Rightarrow> ret (map (\<lambda>(prev, here). heat_line prev here) (zip series (tl series)))))"

section \<open>Counts of values\<close>

text \<open>One value: \<open>None\<close> inside when there are too many different values.\<close>

definition count_value ::
  "int \<Rightarrow> nat \<Rightarrow> nat \<times> f64 \<Rightarrow> (int \<times> f64 list) list \<Rightarrow> (int \<times> f64 list) list option go_result" where
  "count_value valuesLimit n = (\<lambda>(bucket, value) data.
     if isNaN value then Some (Some data)
     else let key = int_of_f64 value
          in case map_of data key of
               None \<Rightarrow> if valuesLimit \<le> int (length data) then Some None
                       else Some (Some (data @ [(key, (replicate n 0)[bucket := 0 + FNum 1])]))
             | Some v \<Rightarrow> if bucket < length v then Some (Some (AList.update key (v[bucket := v ! bucket + FNum 1]) data)) else Panic)"

fun count_loop ::
  "int \<Rightarrow> nat \<Rightarrow> (nat \<times> f64) list \<Rightarrow> (int \<times> f64 list) list \<Rightarrow> (int \<times> f64 list) list option go_result" where
  "count_loop valuesLimit n [] data = Some (Some data)"
| "count_loop valuesLimit n (p # ps) data =
     (case count_value valuesLimit n p data of
        None \<Rightarrow> Panic
      | Some None \<Rightarrow> Some None
      | Some (Some data') \<Rightarrow> count_loop valuesLimit n ps data')"

fun count_series :: "int \<Rightarrow> MetricData list \<Rightarrow> (int \<times> f64 list) list \<Rightarrow> (int \<times> f64 list) list option go_result" where
  "count_series valuesLimit [] data = Some (Some data)"
| "count_series valuesLimit (a # as) data =
     (case count_loop valuesLimit (length (Values a)) (enumerate 0 (Values a)) data of
        None \<Rightarrow> Panic
      | Some None \<Rightarrow> Some None
      | Some (Some data') \<Rightarrow> count_series valuesLimit as data')"

definition countValues_Do ::
  "((int \<times> f64 list) list \<Rightarrow> (int \<times> f64 list) list) \<Rightarrow> evaluator \<Rightarrow> expr \<Rightarrow> int \<Rightarrow> int \<Rightarrow> MetricData list ev" where
  "countValues_Do visit ev e start stop =
     each_series ev e start stop (\<lambda>as.
     ev_bind (of_parser (GetIntNamedOrPosArgDefault e ''valuesLimit'' 1 32)) (\<lambda>valuesLimit.
     ev_bind (of_go (count_series valuesLimit as [])) (\<lambda>counts.
       ret (case counts of
              None \<Rightarrow> [(hd as)\<lparr>Name := ''valuesLimitReached'', Values := replicate (length (Values (hd as))) 0\<rparr>]
            | Some data \<Rightarrow> map (\<lambda>(key, value). (hd as)\<lparr>Name := FormatInt key, Values := value\<rparr>) (visit data)))))"

section \<open>Weighted averages\<close>

text \<open>A key has the last of the averages and the last of the weights that have it.\<close>

definition last_of_key :: "NodeOrTag list \<Rightarrow> MetricData list \<Rightarrow> (string \<times> MetricData) list go_result" where
  "last_of_key nodes as =
     map_option (\<lambda>ks. foldl (\<lambda>m (k, a). AList.update k a m) [] (zip ks as)) (opt_map (\<lambda>a. AggKey a nodes) as)"

definition weighted_series ::
  "go_env \<Rightarrow> quickselect \<Rightarrow> bool \<Rightarrow> (string list \<Rightarrow> string list) \<Rightarrow> expr \<Rightarrow> NodeOrTag list \<Rightarrow> f64
    \<Rightarrow> MetricData list \<Rightarrow> MetricData list \<Rightarrow> MetricData list go_result" where
  "weighted_series E qs ExtrapolatePoints visit e nodes xff avgs weights =
     (let agg = (\<lambda>as f. AggregateSeries E qs ExtrapolatePoints e as f xff False)
      in Option.bind (last_of_key nodes avgs) (\<lambda>avg_of.
         Option.bind (last_of_key nodes weights) (\<lambda>weight_of.
         Option.bind (opt_map (\<lambda>k. agg [the (map_of avg_of k), the (map_of weight_of k)] (the (map_of (ConsolidationToFunc qs) ''multiply'')))
             (filter (\<lambda>k. map_of weight_of k \<noteq> None) (visit (map fst avg_of)))) (\<lambda>products.
           if concat products = [] then Some []
           else Option.bind (agg (concat products) AggSum) (\<lambda>sumProducts.
                Option.bind (agg weights AggSum) (\<lambda>sumWeights.
                  agg (sumProducts @ sumWeights) (\<lambda>v. v ! 0 div v ! 1)))))))"

definition weightedAverage_Do ::
  "go_env \<Rightarrow> quickselect \<Rightarrow> bool \<Rightarrow> (string list \<Rightarrow> string list) \<Rightarrow> evaluator \<Rightarrow> expr \<Rightarrow> int \<Rightarrow> int \<Rightarrow> MetricData list ev" where
  "weightedAverage_Do E qs ExtrapolatePoints visit ev e start stop =
     (if length (args e) < 2 then throw missing_argument
      else each_series ev e start stop (\<lambda>avgs. ev_bind (GetSeriesArg ev (args e ! 1) start stop) (\<lambda>weights.
        if avgs = [] \<and> weights = [] then ret []
        else ev_bind (of_go (AlignSeries ExtrapolatePoints (avgs @ weights))) (\<lambda>aligned.
             ev_bind (of_parser (GetNodeOrTagArgs e 2 False)) (\<lambda>nodes.
               of_go (weighted_series E qs ExtrapolatePoints visit e nodes (XFilesFactor (hd aligned))
                 (take (length avgs) aligned) (drop (length avgs) aligned)))))))"

section \<open>Consolidation factors\<close>

text \<open>\<open>float32(x)\<close>, as the \<open>float64\<close> of the same number.\<close>

fun to_float32 :: "f64 \<Rightarrow> f64" where
  "to_float32 (FNum q) =
     (let r = round32 \<bar>q\<bar>
      in if r = 0 then mk_zero (q < 0) else if 2 ^ 128 \<le> r then FInf (q < 0) else FNum (if q < 0 then - r else r))"
| "to_float32 x = x"

definition setXFilesFactor_Do :: "go_env \<Rightarrow> evaluator \<Rightarrow> expr \<Rightarrow> int \<Rightarrow> int \<Rightarrow> MetricData list ev" where
  "setXFilesFactor_Do E ev e start stop =
     (if length (args e) < 2 then throw missing_argument
      else each_series ev e start stop (\<lambda>as. ev_bind (of_parser (GetFloatArg E e 1)) (\<lambda>x.
        ret (map (\<lambda>a. set_tag ''xFilesFactor'' (Sprint_f64 E x) ((CopyLink a)\<lparr>XFilesFactor := to_float32 x\<rparr>)) as))))"

section \<open>Shifts by marks\<close>

record version_info =
  vi_mark :: string
  vi_position :: int
  vi_major :: int
  vi_minor :: int

text \<open>The first match of two numbers with an underscore between them.\<close>

fun locate_mark :: "string \<Rightarrow> (string \<times> string) option" where
  "locate_mark [] = None"
| "locate_mark (c # cs) =
     (let major = takeWhile is_digit (c # cs); rest = dropWhile is_digit (c # cs);
          minor = takeWhile is_digit (tl rest)
      in if major \<noteq> [] \<and> rest \<noteq> [] \<and> hd rest = CHR ''_'' \<and> minor \<noteq> [] then Some (major, minor)
         else locate_mark cs)"

definition last_present :: "f64 list \<Rightarrow> nat option" where
  "last_present vs = find (\<lambda>i. \<not> isNaN (vs ! i)) (rev [0..<length vs])"

definition latest_mark :: "MetricData \<Rightarrow> version_info option go_result" where
  "latest_mark mark =
     (let markVersion = last (Split1 (tag_of ''name'' mark) (CHR ''.''))
      in case locate_mark markVersion of
           None \<Rightarrow> Some None
         | Some (x, y) \<Rightarrow>
             (case last_present (Values mark) of
                None \<Rightarrow> Some None
              | Some position \<Rightarrow>
                  (case (Atoi x, Atoi y) of
                     (Inr major, Inr minor) \<Rightarrow>
                       Some (Some \<lparr>vi_mark = markVersion, vi_position = int position, vi_major = major, vi_minor = minor\<rparr>)
                   | _ \<Rightarrow> Panic)))"

definition version_less :: "version_info \<Rightarrow> version_info \<Rightarrow> bool" where
  "version_less v w \<longleftrightarrow>
     (if vi_major v = vi_major w then vi_minor v < vi_minor w else vi_major v < vi_major w)"

type_synonym version_sort = "(version_info \<Rightarrow> version_info \<Rightarrow> bool) \<Rightarrow> version_info list \<Rightarrow> version_info list"

fun first_majors :: "int option \<Rightarrow> version_info list \<Rightarrow> version_info list" where
  "first_majors prev [] = []"
| "first_majors prev (v # vs) =
     (if prev = Some (vi_major v) then first_majors prev vs else v # first_majors (Some (vi_major v)) vs)"

definition HighestVersions :: "version_sort \<Rightarrow> version_info list \<Rightarrow> version_info list" where
  "HighestVersions sort_by vs = first_majors None (sort_by (\<lambda>v w. version_less w v) vs)"

definition locateLatestMarks :: "version_sort \<Rightarrow> MetricData list \<Rightarrow> (string + version_info list) go_result" where
  "locateLatestMarks sort_by marks =
     map_option (\<lambda>found.
         let r = HighestVersions sort_by (List.map_filter id found)
         in if length r < 2
            then Inl (''bad data: could not find 2 marks, only '' @ FormatInt (int (length r)) @ '' found'') else Inr r)
       (opt_map latest_mark marks)"

definition calculateOffsets :: "int \<Rightarrow> version_info list \<Rightarrow> (string \<times> int) list" where
  "calculateOffsets stepTime versions =
     foldl (\<lambda>m v. AList.update (vi_mark v) ((vi_position (hd versions) - vi_position v) * stepTime) m) [] versions"

text \<open>
  The two data sets are checked in the order in which a map of two keys is visited; the step is that of
  the first series seen.
\<close>

fun check_lengths :: "int \<Rightarrow> int \<Rightarrow> MetricData list \<Rightarrow> string + int \<times> int" where
  "check_lengths pointsQty stepTime [] = Inr (pointsQty, stepTime)"
| "check_lengths pointsQty stepTime (s # ss) =
     (let n = int (length (Values s)); stepTime' = (if stepTime = - 1 then StepTime s else stepTime)
      in if pointsQty = - 1
         then (if n = 0 then Inl (''bad data: empty series '' @ Name s) else check_lengths n stepTime' ss)
         else if pointsQty \<noteq> n then Inl (''bad data: length of Values for series '' @ Name s @ '' differs from others'')
         else check_lengths pointsQty stepTime' ss)"

fun check_sets :: "int \<Rightarrow> int \<Rightarrow> (string \<times> MetricData list) list \<Rightarrow> string + int \<times> int" where
  "check_sets pointsQty stepTime [] = Inr (pointsQty, stepTime)"
| "check_sets pointsQty stepTime ((name, dataSet) # ds) =
     (if length dataSet < 2
      then Inl (''bad data: need at least 2 '' @ name @ '' data sets to process, got '' @ FormatInt (int (length dataSet)))
      else case check_lengths pointsQty stepTime dataSet of
             Inl err \<Rightarrow> Inl err
           | Inr (p, s) \<Rightarrow> check_sets p s ds)"

definition shifted_series :: "int \<Rightarrow> MetricData \<Rightarrow> MetricData" where
  "shifted_series offs a =
     (CopyLink a)\<lparr>Name := ''timeShiftByMetric('' @ Name a @ '')'', StopTime := StopTime a + offs, StartTime := StartTime a + offs\<rparr>"

text \<open>
  A node that is no mark takes the offset of the last mark visited that starts with it, and keeps it. The
  entry added meanwhile has that offset too, so it does not matter whether it is visited.
\<close>

fun apply_shifts ::
  "((string \<times> int) list \<Rightarrow> (string \<times> int) list) \<Rightarrow> int \<Rightarrow> (string \<times> int) list \<Rightarrow> MetricData list \<Rightarrow> MetricData list go_result" where
  "apply_shifts visit rank offsets [] = Some []"
| "apply_shifts visit rank offsets (a # as) =
     (let nodes = Split1 (tag_of ''name'' a) (CHR ''.'')
      in if int (length nodes) \<le> rank then apply_shifts visit rank offsets as
         else Option.bind (go_index nodes rank) (\<lambda>node.
           case map_of offsets node of
             Some offs \<Rightarrow> map_option ((#) (shifted_series offs a)) (apply_shifts visit rank offsets as)
           | None \<Rightarrow>
               (case filter (\<lambda>(k, _). HasPrefix k node) (visit offsets) of
                  [] \<Rightarrow> apply_shifts visit rank offsets as
                | ps \<Rightarrow> let offs = snd (last ps)
                       in map_option ((#) (shifted_series offs a)) (apply_shifts visit rank (AList.update node offs offsets) as))))"

definition timeShiftByMetric_Do ::
  "version_sort \<Rightarrow> bool \<Rightarrow> ((string \<times> int) list \<Rightarrow> (string \<times> int) list) \<Rightarrow> evaluator \<Rightarrow> expr \<Rightarrow> int \<Rightarrow> int \<Rightarrow> MetricData list ev" where
  "timeShiftByMetric_Do sort_by marks_first visit ev e start stop =
     each_series ev e start stop (\<lambda>metrics.
     ev_bind (Arg e 1) (\<lambda>a1. ev_bind (GetSeriesArg ev a1 start stop) (\<lambda>marks.
     ev_bind (of_parser (GetIntArg e 2)) (\<lambda>versionRank.
       case check_sets (- 1) (- 1) (if marks_first then [(''marks'', marks), (''metrics'', metrics)]
                                    else [(''metrics'', metrics), (''marks'', marks)]) of
         Inl err \<Rightarrow> throw (other_error err)
       | Inr (_, stepTime) \<Rightarrow>
           ev_bind (of_go (locateLatestMarks sort_by marks)) (\<lambda>r. case r of
               Inl err \<Rightarrow> throw (other_error err)
             | Inr versions \<Rightarrow> of_go (apply_shifts visit versionRank (calculateOffsets stepTime versions) metrics))))))"

section \<open>What they do\<close>

lemma doAnd_doSub_partition: "mset (doAnd as bs) + mset (doSub as bs) = mset as"
  by (simp add: doAnd_def doSub_def union_filter_mset_complement)

lemma doOr_doSub: "doOr as bs = as @ doSub bs as"
  by (simp add: doOr_def doSub_def)

lemma doXor_doSub: "doXor as bs = doSub as bs @ doSub bs as"
  by (simp add: doXor_def doSub_def)

text \<open>Two kinds of versions with one major number: the order of versions is a weak order.\<close>

lemma weak_order_version: "weak_order_on A (\<lambda>v w. version_less w v)"
  unfolding weak_order_on_def version_less_def by (auto split: if_splits)

lemma first_majors_sub: "set (first_majors p vs) \<subseteq> set vs"
  by (induction vs arbitrary: p) auto

lemma first_majors_highest:
  assumes "sorted_wrt (\<lambda>v w. \<not> version_less v w) vs" "\<forall>m v. p = Some m \<longrightarrow> v \<in> set vs \<longrightarrow> vi_major v \<le> m"
  shows "sorted_wrt (\<lambda>v w. vi_major w < vi_major v) (first_majors p vs)
    \<and> (\<forall>v\<in>set (first_majors p vs). p \<noteq> Some (vi_major v))
    \<and> (\<forall>v\<in>set vs. p = Some (vi_major v) \<or>
         (\<exists>w\<in>set (first_majors p vs). vi_major w = vi_major v \<and> vi_minor v \<le> vi_minor w))"
  using assms
proof (induction vs arbitrary: p)
  case (Cons v vs)
  have s: "sorted_wrt (\<lambda>v w. \<not> version_less v w) vs" using Cons.prems(1) by simp
  have below: "vi_major w \<le> vi_major v \<and> (vi_major w = vi_major v \<longrightarrow> vi_minor w \<le> vi_minor v)" if "w \<in> set vs" for w
    using Cons.prems(1) that by (auto simp: version_less_def split: if_splits)
  show ?case
  proof (cases "p = Some (vi_major v)")
    case True
    then show ?thesis using Cons.IH[OF s, of p] Cons.prems(2) by auto
  next
    case False
    have ih: "sorted_wrt (\<lambda>v w. vi_major w < vi_major v) (first_majors (Some (vi_major v)) vs)"
      "\<forall>w\<in>set (first_majors (Some (vi_major v)) vs). vi_major w \<noteq> vi_major v"
      "\<forall>u\<in>set vs. vi_major v = vi_major u \<or>
         (\<exists>w\<in>set (first_majors (Some (vi_major v)) vs). vi_major w = vi_major u \<and> vi_minor u \<le> vi_minor w)"
      using Cons.IH[OF s, of "Some (vi_major v)"] below by auto
    have sub: "set (first_majors (Some (vi_major v)) vs) \<subseteq> set vs" by (rule first_majors_sub)
    have lt: "\<forall>w\<in>set (first_majors (Some (vi_major v)) vs). vi_major w < vi_major v"
      using ih(2) sub below by (meson order_le_imp_less_or_eq subsetD)
    moreover have "\<forall>w\<in>set (first_majors (Some (vi_major v)) vs). p \<noteq> Some (vi_major w)"
      using lt Cons.prems(2) by fastforce
    ultimately show ?thesis using ih(1,3) False below by auto
  qed
qed simp

lemma HighestVersions_highest:
  assumes "go_sort sort_by"
  shows "set (HighestVersions sort_by vs) \<subseteq> set vs"
    "sorted_wrt (\<lambda>v w. vi_major w < vi_major v) (HighestVersions sort_by vs)"
    "v \<in> set vs \<Longrightarrow> \<exists>w\<in>set (HighestVersions sort_by vs). vi_major w = vi_major v \<and> vi_minor v \<le> vi_minor w"
proof -
  let ?lt = "\<lambda>v w. version_less w v"
  have set: "set (sort_by ?lt vs) = set vs" by (rule go_sort.set_sort[OF assms])
  have "weak_order_on (set vs) ?lt"
    unfolding weak_order_on_def version_less_def by (auto split: if_splits)
  then have s: "sorted_wrt (\<lambda>v w. \<not> version_less v w) (sort_by ?lt vs)" by (rule go_sort.sorts[OF assms])
  show "set (HighestVersions sort_by vs) \<subseteq> set vs"
    unfolding HighestVersions_def using first_majors_sub set by blast
  show "sorted_wrt (\<lambda>v w. vi_major w < vi_major v) (HighestVersions sort_by vs)"
    "v \<in> set vs \<Longrightarrow> \<exists>w\<in>set (HighestVersions sort_by vs). vi_major w = vi_major v \<and> vi_minor v \<le> vi_minor w"
    unfolding HighestVersions_def using first_majors_highest[OF s, of None] set by auto
qed

text \<open>The major number of a version is read from its mark, so versions of different majors have different marks.\<close>

definition major_of_mark :: "string \<Rightarrow> int option" where
  "major_of_mark m = (case locate_mark m of None \<Rightarrow> None | Some (x, _) \<Rightarrow> (case Atoi x of Inl _ \<Rightarrow> None | Inr n \<Rightarrow> Some n))"

lemma latest_mark_major: "latest_mark a = Some (Some v) \<Longrightarrow> major_of_mark (vi_mark v) = Some (vi_major v)"
  by (auto simp: latest_mark_def major_of_mark_def Let_def split: option.splits sum.splits prod.splits)

lemma decreasing_majors_marks:
  assumes "sorted_wrt (\<lambda>v w. vi_major w < vi_major v) vs" "\<And>v. v \<in> set vs \<Longrightarrow> major_of_mark (vi_mark v) = Some (vi_major v)"
  shows "distinct (map vi_mark vs)"
  using assms
proof (induction vs)
  case (Cons v vs)
  have "vi_mark v \<noteq> vi_mark w" if "w \<in> set vs" for w
    using Cons.prems(1) Cons.prems(2)[of v] Cons.prems(2)[of w] that by auto
  then show ?case using Cons by auto
qed simp

lemma fold_update_distinct:
  "distinct (map f xs) \<Longrightarrow> map_of (foldl (\<lambda>m x. AList.update (f x) (g x) m) m0 xs) k =
     (case find (\<lambda>x. f x = k) xs of None \<Rightarrow> map_of m0 k | Some x \<Rightarrow> Some (g x))"
proof (induction xs arbitrary: m0)
  case (Cons x xs)
  have "find (\<lambda>y. f y = k) xs = None" if "f x = k"
    using Cons.prems that by (simp add: find_None_iff) (metis image_eqI)
  then show ?case using Cons by (simp add: update_conv split: option.splits)
qed simp

lemma calculateOffsets_of_mark:
  assumes "distinct (map vi_mark vs)" "v \<in> set vs"
  shows "map_of (calculateOffsets stepTime vs) (vi_mark v) = Some ((vi_position (hd vs) - vi_position v) * stepTime)"
proof -
  have "find (\<lambda>w. vi_mark w = vi_mark v) vs = Some v"
    using assms by (induction vs) (auto simp: image_iff)
  then show ?thesis unfolding calculateOffsets_def by (simp add: fold_update_distinct[OF assms(1)])
qed

text \<open>The node of a series that names its version.\<close>

definition version_node :: "int \<Rightarrow> MetricData \<Rightarrow> string option" where
  "version_node rank a = go_index (Split1 (tag_of ''name'' a) (CHR ''.'')) rank"

lemma apply_shifts_marked:
  assumes "apply_shifts visit rank offsets as = Some rs" "a \<in> set as" "version_node rank a = Some k" "map_of offsets k = Some offs"
  shows "shifted_series offs a \<in> set rs"
  using assms
proof (induction visit rank offsets as arbitrary: rs rule: apply_shifts.induct)
  case (2 visit rank offsets b as)
  let ?nodes = "Split1 (tag_of ''name'' b) (CHR ''.'')"
  show ?case
  proof (cases "int (length ?nodes) \<le> rank")
    case True
    then have "a \<noteq> b" using 2(7) by (auto simp: version_node_def go_index_def)
    then show ?thesis using 2(1)[OF refl True] 2(5-8) True by simp
  next
    case False
    then obtain node where n: "go_index ?nodes rank = Some node"
      using 2(5) by (cases "go_index ?nodes rank") auto
    show ?thesis
    proof (cases "map_of offsets node")
      case (Some o')
      then show ?thesis using 2(4)[OF refl False n Some] 2(5-8) False n
        by (auto simp: version_node_def)
    next
      case None
      then have "a \<noteq> b" "k \<noteq> node" using 2(7,8) n by (auto simp: version_node_def)
      then have a: "a \<in> set as" "map_of (AList.update node x offsets) k = Some offs" for x
        using 2(6,8) by (simp_all add: update_conv')
      show ?thesis
      proof (cases "filter (\<lambda>(k, _). HasPrefix k node) (visit offsets)")
        case Nil
        then show ?thesis using 2(2)[OF refl False n None Nil] 2(5,7,8) a(1) False n None by simp
      next
        case (Cons p ps)
        show ?thesis
          using 2(3)[OF refl False n None Cons refl _ a(1) 2(7) a(2)] 2(5) False n None Cons
          by (auto simp: Let_def)
      qed
    qed
  qed
qed simp

lemma locateLatestMarks_versions:
  assumes "go_sort sort_by" "locateLatestMarks sort_by marks = Some (Inr vs)"
  shows "distinct (map vi_mark vs)" "sorted_wrt (\<lambda>v w. vi_major w < vi_major v) vs"
    "\<forall>v\<in>set vs. \<exists>a\<in>set marks. latest_mark a = Some (Some v)"
    "\<forall>a\<in>set marks. \<forall>v. latest_mark a = Some (Some v) \<longrightarrow> (\<exists>w\<in>set vs. vi_major w = vi_major v \<and> vi_minor v \<le> vi_minor w)"
proof -
  obtain found where found: "opt_map latest_mark marks = Some found"
    and vs: "vs = HighestVersions sort_by (List.map_filter id found)"
    using assms(2) by (auto simp: locateLatestMarks_def Let_def split: if_splits)
  have members: "(v \<in> set (List.map_filter id found)) = (\<exists>a\<in>set marks. latest_mark a = Some (Some v))" for v
    using found by (induction marks arbitrary: found) (auto simp: List.map_filter_simps split: option.splits)
  note h = HighestVersions_highest[OF assms(1), where vs = "List.map_filter id found", folded vs]
  show s: "sorted_wrt (\<lambda>v w. vi_major w < vi_major v) vs" by (rule h(2))
  show origin: "\<forall>v\<in>set vs. \<exists>a\<in>set marks. latest_mark a = Some (Some v)" using h(1) members by blast
  show "distinct (map vi_mark vs)"
    using origin latest_mark_major by (intro decreasing_majors_marks[OF s]) blast
  show "\<forall>a\<in>set marks. \<forall>v. latest_mark a = Some (Some v) \<longrightarrow> (\<exists>w\<in>set vs. vi_major w = vi_major v \<and> vi_minor v \<le> vi_minor w)"
    using h(3) members by blast
qed



text \<open>What \<open>countValues\<close> has counted after the points \<open>ps\<close>.\<close>

definition counted :: "int \<Rightarrow> nat \<times> f64 \<Rightarrow> bool" where
  "counted k p \<longleftrightarrow> \<not> isNaN (snd p) \<and> int_of_f64 (snd p) = k"

definition count_at :: "int \<Rightarrow> nat \<Rightarrow> (nat \<times> f64) list \<Rightarrow> nat" where
  "count_at k i ps = length (filter (\<lambda>p. fst p = i \<and> counted k p) ps)"

definition counts :: "nat \<Rightarrow> (nat \<times> f64) list \<Rightarrow> (int \<times> f64 list) list \<Rightarrow> bool" where
  "counts n ps data \<longleftrightarrow> distinct (map fst data)
     \<and> (\<forall>k. map_of data k = (if list_ex (counted k) ps then Some (map (\<lambda>i. FNum (of_nat (count_at k i ps))) [0..<n]) else None))"

lemma count_at_snoc [simp]: "count_at k i (ps @ [p]) = count_at k i ps + (if fst p = i \<and> counted k p then 1 else 0)"
  by (simp add: count_at_def)

lemma count_at_le: "count_at k i ps \<le> length ps"
  by (simp add: count_at_def)

lemma count_plus_one: "n < 2 ^ 53 \<Longrightarrow> FNum (of_nat n) + FNum 1 = FNum (of_nat (Suc n))"
  using round64_int[of "int (Suc n)" False] by (simp add: plus_f64_def add.commute)

lemma length_update_known: "map_of m k \<noteq> None \<Longrightarrow> length (AList.update k v m) = length m"
  by (induction m) (auto split: if_splits)

lemma count_value_counts:
  assumes c: "counts n ps data" and i: "i < n" and small: "length ps < 2 ^ 53"
  shows "\<exists>r. count_value valuesLimit n (i, v) data = Some r
    \<and> (case r of Some data' \<Rightarrow> counts n (ps @ [(i, v)]) data' \<and> (int (length data) \<le> max 0 valuesLimit \<longrightarrow> int (length data') \<le> max 0 valuesLimit)
               | None \<Rightarrow> valuesLimit \<le> int (length data) \<and> \<not> isNaN v \<and> \<not> list_ex (counted (int_of_f64 v)) ps)"
proof (cases "isNaN v")
  case True
  then show ?thesis using c by (simp add: count_value_def counts_def counted_def)
next
  case False
  let ?k = "int_of_f64 v"
  have k: "counted k (i, v) \<longleftrightarrow> k = ?k" for k using False by (auto simp: counted_def)
  have m: "map_of data k = (if list_ex (counted k) ps then Some (map (\<lambda>i. FNum (of_nat (count_at k i ps))) [0..<n]) else None)" for k
    using c by (simp add: counts_def)
  have dist: "distinct (map fst data)" using c by (simp add: counts_def)
  show ?thesis
  proof (cases "list_ex (counted ?k) ps")
    case True
    let ?v = "map (\<lambda>i. FNum (of_nat (count_at ?k i ps))) [0..<n]"
    let ?v' = "map (\<lambda>j. FNum (of_nat (count_at ?k j (ps @ [(i, v)])))) [0..<n]"
    have "?v[i := ?v ! i + FNum 1] = ?v'"
      using i small count_at_le[of ?k i ps]
      by (intro nth_equalityI) (auto simp: nth_list_update k count_plus_one intro!: count_plus_one[symmetric])
    then have "count_value valuesLimit n (i, v) data = Some (Some (AList.update ?k ?v' data))"
      using False True m[of ?k] i by (simp add: count_value_def Let_def)
    moreover have "counts n (ps @ [(i, v)]) (AList.update ?k ?v' data)"
      using dist m True by (auto simp: counts_def distinct_update update_conv' k)
    moreover have "length (AList.update ?k ?v' data) = length data"
      using m[of ?k] True by (intro length_update_known) simp
    ultimately show ?thesis by simp
  next
    case new: False
    then have none: "map_of data ?k = None" using m[of ?k] by simp
    show ?thesis
    proof (cases "valuesLimit \<le> int (length data)")
      case True
      then show ?thesis using False none new by (simp add: count_value_def)
    next
      case room: False
      let ?v' = "map (\<lambda>j. FNum (of_nat (count_at ?k j (ps @ [(i, v)])))) [0..<n]"
      have zero: "count_at ?k j ps = 0" for j
        using new by (auto simp: count_at_def list_ex_iff filter_empty_conv)
      have "(replicate n 0)[i := 0 + FNum 1] = ?v'"
        using i by (intro nth_equalityI) (auto simp: nth_list_update k zero zero_f64_def plus_f64_def)
      then have "count_value valuesLimit n (i, v) data = Some (Some (data @ [(?k, ?v')]))"
        using False none room by (simp add: count_value_def Let_def)
      moreover have "counts n (ps @ [(i, v)]) (data @ [(?k, ?v')])"
        using dist m none new unfolding map_of_eq_None_iff
        by (auto simp: counts_def k map_add_def split: option.splits)
      ultimately show ?thesis using room by simp
    qed
  qed
qed

lemma count_loop_counts:
  assumes "counts n qs data" "\<forall>p\<in>set ps. fst p < n" "length qs + length ps \<le> 2 ^ 53" "int (length data) \<le> max 0 valuesLimit"
  shows "\<exists>r. count_loop valuesLimit n ps data = Some r
    \<and> (\<forall>data'. r = Some data' \<longrightarrow> counts n (qs @ ps) data' \<and> int (length data') \<le> max 0 valuesLimit)"
  using assms
proof (induction ps arbitrary: qs data)
  case (Cons p ps)
  obtain i v where p: "p = (i, v)" by fastforce
  have "length qs < 2 ^ 53" using Cons.prems(3) by simp
  then obtain r where r: "count_value valuesLimit n (i, v) data = Some r"
    "\<And>data'. r = Some data' \<Longrightarrow> counts n (qs @ [(i, v)]) data' \<and> int (length data') \<le> max 0 valuesLimit"
    using count_value_counts[OF Cons.prems(1), of i valuesLimit v] Cons.prems(2,4) p by (auto split: option.splits)
  then show ?case
    using Cons.IH[of "qs @ [p]"] Cons.prems(2,3) by (cases r) (auto simp: p)
qed simp

definition points_of :: "MetricData list \<Rightarrow> (nat \<times> f64) list" where
  "points_of as = concat (map (\<lambda>a. enumerate 0 (Values a)) as)"

lemma count_series_counts:
  assumes "counts n qs data" "\<forall>a\<in>set as. length (Values a) = n" "length qs + length (points_of as) \<le> 2 ^ 53"
    "int (length data) \<le> max 0 valuesLimit"
  shows "\<exists>r. count_series valuesLimit as data = Some r
    \<and> (\<forall>data'. r = Some data' \<longrightarrow> counts n (qs @ points_of as) data' \<and> int (length data') \<le> max 0 valuesLimit)"
  using assms
proof (induction as arbitrary: qs data)
  case (Cons a as)
  have "\<forall>p\<in>set (enumerate 0 (Values a)). fst p < n"
    using Cons.prems(2) by (auto simp: in_set_enumerate_eq)
  moreover have "length qs + length (enumerate 0 (Values a)) \<le> 2 ^ 53"
    using Cons.prems(3) by (simp add: points_of_def)
  ultimately obtain r where r: "count_loop valuesLimit n (enumerate 0 (Values a)) data = Some r"
    "\<And>data'. r = Some data' \<Longrightarrow> counts n (qs @ enumerate 0 (Values a)) data' \<and> int (length data') \<le> max 0 valuesLimit"
    using count_loop_counts[OF Cons.prems(1) _ _ Cons.prems(4)] by blast
  then show ?case
    using Cons.IH[of "qs @ enumerate 0 (Values a)"] Cons.prems(2,3) by (cases r) (auto simp: points_of_def)
qed (simp add: points_of_def)

lemma filter_upt_index: "i < n \<Longrightarrow> filter (\<lambda>j. j = i \<and> Q j) [0..<n] = (if Q i then [i] else [])"
  by (induction n) (auto simp: less_Suc_eq filter_empty_conv)

lemma count_at_points: "\<forall>a\<in>set as. length (Values a) = n \<Longrightarrow> i < n \<Longrightarrow>
   count_at k i (points_of as) = length (filter (\<lambda>a. counted k (i, Values a ! i)) as)"
proof (induction as)
  case (Cons a as)
  have "enumerate 0 (Values a) = map (\<lambda>j. (j, Values a ! j)) [0..<n]"
    using Cons.prems(1) by (intro nth_equalityI) (auto simp: nth_enumerate_eq)
  then have "filter (\<lambda>p. fst p = i \<and> counted k p) (enumerate 0 (Values a)) =
      (if counted k (i, Values a ! i) then [(i, Values a ! i)] else [])"
    using filter_upt_index[OF Cons.prems(2), of "\<lambda>j. counted k (j, Values a ! j)"] by (simp add: filter_map o_def)
  then show ?case using Cons by (simp add: count_at_def points_of_def)
qed (simp add: count_at_def points_of_def)

text \<open>
  The counts of \<open>countValues\<close>: the series of a value has, at every point, the number of series with
  that value (its integer part) there; a value has a series when some series has it somewhere.
\<close>

lemma countValues_counts:
  assumes "\<forall>a\<in>set as. length (Values a) = n" "length as * n \<le> 2 ^ 53"
  shows "\<exists>r. count_series valuesLimit as [] = Some r \<and> (\<forall>data. r = Some data \<longrightarrow>
     distinct (map fst data) \<and> int (length data) \<le> max 0 valuesLimit
     \<and> (\<forall>k. map_of data k = (if \<exists>a\<in>set as. \<exists>i<n. counted k (i, Values a ! i)
          then Some (map (\<lambda>i. FNum (of_nat (length (filter (\<lambda>a. counted k (i, Values a ! i)) as)))) [0..<n]) else None)))"
proof -
  have "length (points_of as) = length as * n"
    using assms(1) by (induction as) (simp_all add: points_of_def)
  then obtain r where r: "count_series valuesLimit as [] = Some r"
    "\<And>data. r = Some data \<Longrightarrow> counts n (points_of as) data \<and> int (length data) \<le> max 0 valuesLimit"
    using count_series_counts[of n "[]" "[]" as valuesLimit] assms by (auto simp: counts_def)
  have ex: "list_ex (counted k) (points_of as) \<longleftrightarrow> (\<exists>a\<in>set as. \<exists>i<n. counted k (i, Values a ! i))" for k
    using assms(1) by (fastforce simp: list_ex_iff points_of_def in_set_enumerate_eq)
  have "map (\<lambda>i. FNum (of_nat (count_at k i (points_of as)))) [0..<n] =
      map (\<lambda>i. FNum (of_nat (length (filter (\<lambda>a. counted k (i, Values a ! i)) as)))) [0..<n]" for k
    using count_at_points[OF assms(1)] by simp
  then show ?thesis using r by (intro exI[of _ r]) (auto simp: counts_def ex)
qed

text \<open>Without series the map of \<open>heatMap\<close> cannot be made.\<close>

lemma heatMap_empty_panics:
  assumes "args e = a # rest" "GetSeriesArg ev a start stop values = Some (Inr [], values')"
  shows "heatMap_Do sort_by ev e start stop values = Panic"
  using assms by (simp add: heatMap_Do_def each_series_def Arg_def go_index_def ev_bind_def of_go_def sortMetricData_def)

text \<open>A heat map has one series less than it is made of.\<close>

lemma heatMap_series_count:
  assumes "args e = a # rest" "GetSeriesArg ev a start stop values = Some (Inr as, values')"
    "heatMap_Do sort_by ev e start stop values = Some (Inr rs, values'')" "go_sort sort_by"
  shows "Suc (length rs) = length as"
proof -
  obtain series where s: "sortMetricData sort_by as = Some series" "series \<noteq> []" "length rs = length series - 1"
    using assms(1-3) by (auto simp: heatMap_Do_def each_series_def Arg_def go_index_def ev_bind_def of_go_def ret_def throw_def
        split: option.splits if_splits)
  have "length ws' = length ws" if "weigh bs is k ws = Some (ws', k')" "length ws = length bs" for bs "is" k ws ws' k'
    using that by (induction bs "is" k ws rule: weigh.induct) (auto split: if_splits bind_splits)
  then have "length series = length as"
    using s(1) go_sort.length_sort[OF assms(4)] by (auto simp: sortMetricData_def split: if_splits)
  then show ?thesis using s(2,3) by (cases series) auto
qed

end
