(* ===== verification/Foreign_Functions.thy ===== *)
theory Foreign_Functions
  imports Set_Functions
begin

text \<open>
  Functions of \<open>expr/functions\<close> that ask other services: \<open>graphiteWeb\<close>, which passes an expression to
  servers of graphite-web and retries, \<open>aliasByRedis\<close> and \<open>aliasByPostgres\<close>, which look names up; and
  \<open>cactiStyle\<close>, whose labels are made by package \<open>humanize\<close>. What the services answer, JSON decoding and
  regular expressions are parameters.
\<close>

section \<open>graphite-web\<close>

text \<open>
  One attempt: no slot in time, a request that cannot be made, no response, a body that cannot be read,
  or a code and a body.
\<close>

datatype web_reply = Web_Busy string | Web_BadRequest string | Web_NoResponse | Web_NoBody | Web_Answer int string

datatype limiter_event = Web_Enter string | Web_Leave string

record graphite_metric =
  gm_Tags :: "(string \<times> string option) list"
  gm_Target :: string
  gm_PathExpression :: string
  gm_Datapoints :: "(f64 \<times> f64) list"
  gm_XFilesFactor :: f64
  gm_ConsolidationFunc :: string

record graphite_web =
  gw_working :: bool
  gw_maxTries :: nat
  gw_fallbackUrls :: "string list"

text \<open>The counter is incremented first; without servers the remainder panics.\<close>

definition pick_fallback :: "string list \<Rightarrow> int \<Rightarrow> (string \<times> int) go_result" where
  "pick_fallback urls counter =
     (let sid = (counter + 1) mod 2 ^ 64
      in if urls = [] then Panic else Some (urls ! nat (sid mod int (length urls)), sid))"

text \<open>
  The attempts. After a request without a response the code closes the body of the response, which there
  is none of. The result has the events at the limiter, the counter and an error or the body, if any.
\<close>

fun web_tries ::
  "string list \<Rightarrow> (int \<Rightarrow> string \<Rightarrow> web_reply) \<Rightarrow> nat \<Rightarrow> int \<Rightarrow> (limiter_event list \<times> int \<times> (string + string option)) go_result" where
  "web_tries urls ask 0 counter = Some ([], counter, Inr None)"
| "web_tries urls ask (Suc n) counter =
     Option.bind (pick_fallback urls counter) (\<lambda>(srv, sid).
       let again = map_option (\<lambda>(evs, c, r). (Web_Enter srv # Web_Leave srv # evs, c, r)) (web_tries urls ask n sid)
       in case ask sid srv of
            Web_Busy err \<Rightarrow> Some ([], sid, Inl err)
          | Web_BadRequest err \<Rightarrow> Some ([Web_Enter srv, Web_Leave srv], sid, Inl err)
          | Web_NoResponse \<Rightarrow> Panic
          | Web_NoBody \<Rightarrow> again
          | Web_Answer code body \<Rightarrow>
              if code = 200 then Some ([Web_Enter srv, Web_Leave srv], sid, Inr (Some body)) else again)"

definition web_series :: "graphite_metric \<Rightarrow> MetricData go_result" where
  "web_series m =
     (let ps = gm_Datapoints m
      in if ps = [] then Panic
         else Some ((makeMetricDataWithTags (gm_Target m) (map fst ps)
                (if 1 < length ps then int_of_f64 (snd (ps ! 1) - snd (ps ! 0)) else 60) (int_of_f64 (snd (hd ps)))
                (List.map_filter (\<lambda>(k, v). map_option (Pair k) v) (gm_Tags m)))
              \<lparr>StopTime := int_of_f64 (snd (last ps)), XFilesFactor := gm_XFilesFactor m, PathExpression := gm_PathExpression m,
               MConsolidationFunc := (if gm_ConsolidationFunc m = [] then ''avg'' else gm_ConsolidationFunc m)\<rparr>))"

definition graphiteWeb_Do ::
  "go_env \<Rightarrow> (string \<Rightarrow> string + graphite_metric list) \<Rightarrow> graphite_web \<Rightarrow> (string \<Rightarrow> int \<Rightarrow> int \<Rightarrow> int \<Rightarrow> string \<Rightarrow> web_reply)
    \<Rightarrow> expr \<Rightarrow> int \<Rightarrow> int \<Rightarrow> int \<Rightarrow> (limiter_event list \<times> int \<times> (eval_error + MetricData list)) go_result" where
  "graphiteWeb_Do E decode G ask e start stop counter =
     (if \<not> gw_working G then Some ([], counter, Inr [])
      else let t = (if target e = ''graphiteWeb'' then argString e else ToString E e)
           in Option.bind (web_tries (gw_fallbackUrls G) (ask t start stop) (gw_maxTries G) counter) (\<lambda>(evs, c, r).
              case r of
                Inl err \<Rightarrow> Some (evs, c, Inl (other_error err))
              | Inr None \<Rightarrow> Some (evs, c, Inl (other_error (''max tries exceeded for request target='' @ t)))
              | Inr (Some body) \<Rightarrow>
                  (case decode body of
                     Inl err \<Rightarrow> Some (evs, c, Inl (other_error err))
                   | Inr ms \<Rightarrow> map_option (\<lambda>rs. (evs, c, Inr rs)) (opt_map web_series ms))))"

text \<open>
  Which of the functions of graphite-web are registered: those forced, and those the program does not have
  itself; in strict mode also those whose parameters differ.
\<close>

record function_param =
  fp_Name :: string
  fp_Type :: string

definition paramsIsEqual :: "function_param list \<Rightarrow> function_param list \<Rightarrow> bool" where
  "paramsIsEqual ps qs \<longleftrightarrow> length ps = length qs \<and> list_all (\<lambda>(p, q). fp_Name p = fp_Name q \<and> fp_Type p = fp_Type q) (zip ps qs)"

definition passes_through ::
  "bool \<Rightarrow> string list \<Rightarrow> string list \<Rightarrow> (string \<Rightarrow> function_param list option) \<Rightarrow> string \<times> function_param list \<Rightarrow> bool" where
  "passes_through strict forceSkip forceAdd known = (\<lambda>(k, ps).
     if k \<in> set forceSkip then False
     else if k \<in> set forceAdd then True
     else case known k of
            None \<Rightarrow> True
          | Some qs \<Rightarrow> \<not> (if strict then paramsIsEqual ps qs else True))"

definition web_functions ::
  "bool \<Rightarrow> string list \<Rightarrow> string list \<Rightarrow> (string \<Rightarrow> function_param list option) \<Rightarrow> (string \<times> function_param list) list \<Rightarrow> string list" where
  "web_functions strict forceSkip forceAdd known supported =
     ''graphiteWeb'' # map fst (filter (passes_through strict forceSkip forceAdd known) supported)"

text \<open>A target that is no string is printed; a JSON number arrives as a float.\<close>

datatype json_scalar = JFloat f64 | JString string | JBool bool | JOther

definition target_text :: "(f64 \<Rightarrow> string) \<Rightarrow> json_scalar \<Rightarrow> string option" where
  "target_text fmtF v =
     (case v of JFloat x \<Rightarrow> Some (fmtF x) | JString s \<Rightarrow> Some s
      | JBool b \<Rightarrow> Some (if b then ''true'' else ''false'') | JOther \<Rightarrow> None)"

section \<open>Names from databases\<close>

text \<open>The connection is \<open>None\<close> when the pool gives none; a name that is not found leaves the series as it is.\<close>

definition redis_name :: "(string \<Rightarrow> string option) \<Rightarrow> bool \<Rightarrow> MetricData \<Rightarrow> MetricData" where
  "redis_name hget keepPath a =
     (let nodes = Split1 (tag_of ''name'' a) (CHR ''.'')
      in case hget (last nodes) of
           None \<Rightarrow> CopyLink a
         | Some n \<Rightarrow> CopyName (if keepPath then Join (nodes[length nodes - 1 := n]) ''.'' else n) a)"

definition aliasByRedis_Do :: "(string \<Rightarrow> string \<Rightarrow> string option) option \<Rightarrow> evaluator \<Rightarrow> expr \<Rightarrow> int \<Rightarrow> int \<Rightarrow> MetricData list ev" where
  "aliasByRedis_Do connection ev e start stop =
     each_series ev e start stop (\<lambda>as.
     ev_bind (of_parser (GetStringArg e 1)) (\<lambda>redisHashName.
     ev_bind (of_parser (GetBoolArgDefault e 2 False)) (\<lambda>keepPath.
       case connection of
         None \<Rightarrow> throw (other_error ''redis'')
       | Some hget \<Rightarrow> ret (map (redis_name (hget redisHashName) keepPath) as))))"

text \<open>
  The template of a query: how many places it has, the query with one of them filled, the rows the
  database returns (\<open>None\<close> for one that cannot be read, and for a query that fails), and which
  results are accepted.
\<close>

record pg_query =
  pg_Places :: nat
  pg_Text :: string
  pg_Fill :: "nat \<Rightarrow> string \<Rightarrow> string \<Rightarrow> string"
  pg_Rows :: "string \<Rightarrow> string option list option"
  pg_Match :: "string \<Rightarrow> bool"

definition SQLQueryDB :: "pg_query \<Rightarrow> string \<Rightarrow> string go_result" where
  "SQLQueryDB Q q = map_option (foldl (\<lambda>r row. case row of None \<Rightarrow> r | Some s \<Rightarrow> s) []) (pg_Rows Q q)"

definition picked_nodes :: "int list \<Rightarrow> string list \<Rightarrow> string list" where
  "picked_nodes positions nodes =
     List.map_filter (\<lambda>f0. let f = (if f0 < 0 then f0 + int (length nodes) else f0)
        in if int (length nodes) \<le> f \<or> f < 0 then None else Some (nodes ! nat f)) positions"

definition pg_name :: "pg_query \<Rightarrow> int list \<Rightarrow> MetricData \<Rightarrow> MetricData list go_result" where
  "pg_name Q positions a =
     (let metric = tag_of ''name'' a
      in if metric = [] then Some []
         else let name = picked_nodes positions (Split1 metric (CHR ''.''))
              in if length name < pg_Places Q then Panic
                 else map_option (\<lambda>res.
                     if res = [] then [CopyName (Join name ''.'') a]
                     else if pg_Match Q res
                     then let name' = drop (pg_Places Q) name
                          in [CopyName (if name' \<noteq> [] then res @ ''.'' @ Join name' ''.'' else res) a]
                     else [])
                   (SQLQueryDB Q (foldl (\<lambda>q i. pg_Fill Q i (name ! i) q) (pg_Text Q) [0..<pg_Places Q])))"

definition aliasByPostgres_Do :: "(string \<Rightarrow> string \<Rightarrow> pg_query) \<Rightarrow> evaluator \<Rightarrow> expr \<Rightarrow> int \<Rightarrow> int \<Rightarrow> MetricData list ev" where
  "aliasByPostgres_Do templates ev e start stop =
     (if length (args e) < 4 then throw (plain_error (ParserCause ErrMissingTimeseries))
      else each_series ev e start stop (\<lambda>as.
        ev_bind (of_parser (GetIntArgs e 3)) (\<lambda>positions.
          if positions = [] then throw missing_argument
          else ev_bind (of_parser (GetStringArg e 1)) (\<lambda>databaseName.
               ev_bind (of_parser (GetStringArg e 2)) (\<lambda>keyString.
                 of_go (map_option concat (opt_map (pg_name (templates databaseName keyString) positions) as)))))))"

section \<open>Labels of cacti\<close>

definition cacti_range :: "f64 list \<Rightarrow> f64 \<times> f64 \<times> f64" where
  "cacti_range vs =
     foldl (\<lambda>(mn, mx, cur) v. if isNaN v then (mn, mx, cur) else (math_Min mn v, math_Max mx v, v))
       (FInf False, FInf True, FInf True) vs"

definition cacti_text :: "float_format \<Rightarrow> (f64 \<Rightarrow> f64 \<times> string) \<Rightarrow> string \<Rightarrow> string \<Rightarrow> f64 \<Rightarrow> string" where
  "cacti_text fmt ComputeSI system unit v =
     (if system = ''si'' then (case ComputeSI v of (x, f) \<Rightarrow> fmt (CHR ''f'') 2 x @ f) else fmt (CHR ''f'') 0 v)
     @ (if unit = [] then [] else '' '' @ unit)"

definition pad_left :: "nat \<Rightarrow> string \<Rightarrow> string" where
  "pad_left n s = replicate (n - length s) (CHR '' '') @ s"

definition cacti_one :: "float_format \<Rightarrow> (f64 \<Rightarrow> f64 \<times> string) \<Rightarrow> string \<Rightarrow> string \<Rightarrow> MetricData \<Rightarrow> MetricData" where
  "cacti_one fmt ComputeSI system unit a =
     (case cacti_range (Values a) of (mn, mx, cur) \<Rightarrow>
        let text = cacti_text fmt ComputeSI system unit;
            c = ''Current:'' @ text cur; l = ''Min:'' @ text mn; h = ''Max:'' @ text mx;
            w = max (length c) (max (length l) (length h))
        in (CopyLink a)\<lparr>Name := Name a @ '' '' @ pad_left w c @ pad_left w h @ pad_left w l\<rparr>)"

definition cactiStyle_Do :: "float_format \<Rightarrow> (f64 \<Rightarrow> f64 \<times> string) \<Rightarrow> evaluator \<Rightarrow> expr \<Rightarrow> int \<Rightarrow> int \<Rightarrow> MetricData list ev" where
  "cactiStyle_Do fmt ComputeSI ev e start stop =
     each_series ev e start stop (\<lambda>as.
     ev_bind (of_parser (GetStringNamedOrPosArgDefault e ''system'' 1 [])) (\<lambda>system.
     ev_bind (of_parser (GetStringNamedOrPosArgDefault e ''units'' 2 [])) (\<lambda>unit.
       if as \<noteq> [] \<and> system \<noteq> ''si'' \<and> system \<noteq> [] then throw (other_error (system @ '' is not supported for system''))
       else ret (map (cacti_one fmt ComputeSI system unit) as))))"

section \<open>What they do\<close>

text \<open>Every slot taken at the limiter is given back before the next one is taken.\<close>

fun paired :: "limiter_event list \<Rightarrow> bool" where
  "paired [] \<longleftrightarrow> True"
| "paired (Web_Enter s # Web_Leave t # evs) \<longleftrightarrow> s = t \<and> paired evs"
| "paired (_ # evs) \<longleftrightarrow> False"

lemma web_tries_paired: "web_tries urls ask n counter = Some (evs, c, r) \<Longrightarrow> paired evs"
  by (induction n arbitrary: counter evs c r) (auto simp: Let_def split: bind_splits web_reply.splits if_splits)

text \<open>A server that gives no response makes the function panic, whatever the other servers would answer.\<close>

lemma graphiteWeb_no_response_panics:
  assumes "gw_working G" "0 < gw_maxTries G" "pick_fallback (gw_fallbackUrls G) counter = Some (srv, sid)"
    "\<And>t. ask t start stop sid srv = Web_NoResponse"
  shows "graphiteWeb_Do E decode G ask e start stop counter = Panic"
  using assms by (cases "gw_maxTries G") (simp_all add: graphiteWeb_Do_def Let_def)

text \<open>Servers that cannot be read or answer another code are asked in turn, each one next after the last.\<close>

lemma web_tries_exhausted:
  assumes "urls \<noteq> []" "\<And>sid srv. case ask sid srv of Web_NoBody \<Rightarrow> True | Web_Answer code _ \<Rightarrow> code \<noteq> 200 | _ \<Rightarrow> False"
    "0 \<le> counter" "counter + int n < 2 ^ 64"
  shows "web_tries urls ask n counter =
    Some (concat (map (\<lambda>i. let s = urls ! nat ((counter + 1 + int i) mod int (length urls)) in [Web_Enter s, Web_Leave s]) [0..<n]),
          counter + int n, Inr None)"
  using assms(3,4)
proof (induction n arbitrary: counter)
  case (Suc n)
  let ?s = "urls ! nat ((counter + 1) mod int (length urls))"
  have p: "pick_fallback urls counter = Some (?s, counter + 1)"
    using assms(1) Suc.prems by (simp add: pick_fallback_def Let_def)
  have ih: "web_tries urls ask n (counter + 1) =
    Some (concat (map (\<lambda>i. let s = urls ! nat ((counter + 1 + 1 + int i) mod int (length urls)) in [Web_Enter s, Web_Leave s]) [0..<n]),
          counter + 1 + int n, Inr None)"
    using Suc.IH[of "counter + 1"] Suc.prems by simp
  have "[0..<Suc n] = 0 # map Suc [0..<n]" by (simp add: upt_conv_Cons map_Suc_upt del: upt_Suc)
  then show ?case
    using assms(2)[of "counter + 1" ?s] p ih
    by (auto simp: Let_def o_def add.assoc split: web_reply.splits if_splits)
qed simp

text \<open>The labels of \<open>cactiStyle\<close> are of one width.\<close>

lemma pad_left_length: "length s \<le> n \<Longrightarrow> length (pad_left n s) = n"
  by (simp add: pad_left_def)

lemma aliasByPostgres_too_few_nodes:
  assumes "tag_of ''name'' a \<noteq> []" "length (picked_nodes positions (Split1 (tag_of ''name'' a) (CHR ''.''))) < pg_Places Q"
  shows "pg_name Q positions a = Panic"
  using assms by (simp add: pg_name_def)

end
