(* ===== verification/Prometheus.thy ===== *)
theory Prometheus
  imports Zipper_Response Go_Sort Align Float_Order
begin

text \<open>
  The Prometheus backend: the translations of \<open>zipper/protocols/prometheus/helpers/helpers.go\<close> (targets to
  regular expressions, \<open>seriesByTag\<close> to selectors, points to a grid, labels to tagged names, the step of a
  query) and the requests of \<open>prometheus_group.go\<close> that use them. The HTTP query with the decoding of its
  answer, \<open>time.ParseDuration\<close>, \<open>strconv.Quote\<close>, \<open>url.QueryUnescape\<close> and the order of maps are parameters.
\<close>

section \<open>Targets\<close>

definition is_meta :: "char \<Rightarrow> bool" where
  "is_meta c \<longleftrightarrow> c \<in> set (CHR 0x5C # ''.+*?()|[]{}^$'')"

definition QuoteMeta :: "string \<Rightarrow> string" where
  "QuoteMeta s = concat (map (\<lambda>c. if is_meta c then [CHR 0x5C, c] else [c]) s)"

definition is_glob :: "char \<Rightarrow> bool" where
  "is_glob c \<longleftrightarrow> c \<in> set ''*[{''"

lemma length_tl_dropWhile: "dropWhile P q = c # r \<Longrightarrow> length r < length q"
  using length_dropWhile_le[of P q] by simp

function ConvertGraphiteTargetToPromQL :: "string \<Rightarrow> string" where
  "ConvertGraphiteTargetToPromQL query =
     (case dropWhile (\<lambda>c. \<not> is_glob c) query of
        [] \<Rightarrow> QuoteMeta query
      | ch # q \<Rightarrow>
          QuoteMeta (takeWhile (\<lambda>c. \<not> is_glob c) query)
          @ (if ch = CHR ''*''
             then (if q = [] then ''.*'' else ''[^.]*?'') @ ConvertGraphiteTargetToPromQL q
             else if ch = CHR ''[''
             then (case index_byte (CHR '']'') q of
                     None \<Rightarrow> QuoteMeta (CHR ''['' # q)
                   | Some n \<Rightarrow> ''['' @ take (n + 1) q @ ConvertGraphiteTargetToPromQL (drop (n + 1) q))
             else (case index_byte (CHR ''}'') q of
                     None \<Rightarrow> QuoteMeta (CHR ''{'' # q)
                   | Some n \<Rightarrow>
                       ''('' @ Join (map QuoteMeta (Split1 (take n q) (CHR '',''))) ''|'' @ '')''
                       @ ConvertGraphiteTargetToPromQL (drop (n + 1) q))))"
  by pat_completeness auto
termination
  by (relation "measure length") (auto dest: length_tl_dropWhile)

declare ConvertGraphiteTargetToPromQL.simps [simp del]

section \<open>Points and steps\<close>

text \<open>The points are put on the grid; a point off the grid is never passed.\<close>

fun align_points :: "int \<Rightarrow> int \<Rightarrow> nat \<Rightarrow> nat \<Rightarrow> (f64 \<times> f64) list \<Rightarrow> f64 list" where
  "align_points start step i 0 ps = []"
| "align_points start step i (Suc n) ps =
     (case ps of
        (t, v) # rest \<Rightarrow>
          if feq t (f64_of_int (start + int i * step)) then v # align_points start step (Suc i) n rest
          else FNaN # align_points start step (Suc i) n ps
      | [] \<Rightarrow> FNaN # align_points start step (Suc i) n [])"

definition prom_AlignValues :: "int \<Rightarrow> int \<Rightarrow> int \<Rightarrow> (f64 \<times> f64) list \<Rightarrow> f64 list go_result" where
  "prom_AlignValues start stop step ps =
     Option.bind (go_div (stop - start) step) (\<lambda>n.
       if n + 1 < 0 then Panic else Some (align_points start step 0 (nat (n + 1)) ps))"

text \<open>\<open>time.Duration.Seconds\<close>, of a number of nanoseconds.\<close>

definition Seconds :: "int \<Rightarrow> f64" where
  "Seconds d = f64_of_int (d sdiv 1000000000) + f64_of_int (d smod 1000000000) div f64_of_int 1000000000"

definition step_ladder :: "int list" where
  "step_ladder = [20, 30, 60, 120, 300, 600, 900, 1200, 1800, 3600, 7200, 10800, 21600, 43200]"

definition AdjustStep :: "int \<Rightarrow> int \<Rightarrow> int \<Rightarrow> int \<Rightarrow> int \<Rightarrow> int" where
  "AdjustStep start stop maxPointsPerQuery minStep forceMinStepInterval =
     (let interval = f64_of_int (stop - start)
      in if interval < Seconds forceMinStepInterval then minStep
         else let safeStep = int_of_f64 (fceil (interval div f64_of_int maxPointsPerQuery));
                  step = (if minStep < safeStep then safeStep else minStep)
              in if step \<le> minStep then minStep
                 else case find (\<lambda>l. step \<le> l) step_ladder of Some l \<Rightarrow> l | None \<Rightarrow> 86400)"

section \<open>Tags\<close>

record prom_tag =
  TagValue :: string
  OP :: string

text \<open>A name and a tag from \<open>name=value\<close>, \<open>name!=value\<close>, \<open>name=~value\<close> or \<open>name!=~value\<close>.\<close>

definition PromethizeTagValue :: "string \<Rightarrow> string \<times> prom_tag" where
  "PromethizeTagValue tv =
     (case index_byte (CHR ''='') tv of
        None \<Rightarrow> ([], \<lparr>TagValue = [], OP = []\<rparr>)
      | Some idx \<Rightarrow>
          let neg = (0 < idx \<and> tv ! (idx - 1) = CHR ''!'');
              rest = drop (idx + 1) tv
          in (take (if neg then idx - 1 else idx) tv,
              if rest = [] then \<lparr>TagValue = [], OP = (if neg then ''!='' else ''='')\<rparr>
              else if hd rest = CHR ''~'' then \<lparr>TagValue = tl rest, OP = (if neg then ''!~'' else ''=~'')\<rparr>
              else \<lparr>TagValue = rest, OP = (if neg then ''!='' else ''='')\<rparr>))"

text \<open>The zero character stands for no quote.\<close>

fun splitWithQuotes :: "char \<Rightarrow> char \<Rightarrow> string \<Rightarrow> string \<Rightarrow> string list" where
  "splitWithQuotes quote delim piece [] = [piece]"
| "splitWithQuotes quote delim piece (c # cs) =
     (if c = quote then splitWithQuotes (CHR 0x00) delim (piece @ [c]) cs
      else if quote = CHR 0x00 \<and> (c = CHR 0x27 \<or> c = CHR 0x22) then splitWithQuotes c delim (piece @ [c]) cs
      else if quote = CHR 0x00 \<and> c = delim then piece # splitWithQuotes quote delim [] cs
      else splitWithQuotes quote delim (piece @ [c]) cs)"

text \<open>\<open>strings.TrimSpace\<close>, from both ends by runes.\<close>

function trim_left :: "string \<Rightarrow> string" where
  "trim_left s = (if s \<noteq> [] \<and> is_space (fst (decode_rune s)) then trim_left (drop (max 1 (snd (decode_rune s))) s) else s)"
  by pat_completeness auto
termination by (relation "measure length") auto

definition last_rune :: "string \<Rightarrow> nat \<times> nat" where
  "last_rune s =
     (case filter (\<lambda>k. k \<le> length s \<and> byte (s ! (length s - k)) div 64 \<noteq> 2) [1..<5] of
        [] \<Rightarrow> (RuneError, 1)
      | k # _ \<Rightarrow> (case decode_rune (drop (length s - k) s) of (r, n) \<Rightarrow> if n = k then (r, n) else (RuneError, 1)))"

function trim_end :: "string \<Rightarrow> string" where
  "trim_end s = (if s \<noteq> [] \<and> is_space (fst (last_rune s)) then trim_end (take (length s - max 1 (snd (last_rune s))) s) else s)"
  by pat_completeness auto
termination by (relation "measure length") auto

declare trim_left.simps [simp del] trim_end.simps [simp del]

definition TrimSpace :: "string \<Rightarrow> string" where
  "TrimSpace s = trim_end (trim_left s)"

type_synonym prom_tags = "(string \<times> prom_tag) list"

definition SplitTagValues :: "string \<Rightarrow> prom_tags" where
  "SplitTagValues query =
     foldl (\<lambda>m tv. let s = TrimSpace tv
                   in if length s < 2 then m
                      else case PromethizeTagValue (take (length s - 2) (drop 1 s)) of (name, t) \<Rightarrow> AList.update name t m)
       [] (splitWithQuotes (CHR 0x00) (CHR '','') [] query)"

definition tag_condition :: "string \<times> prom_tag \<Rightarrow> string" where
  "tag_condition = (\<lambda>(name, t). name @ OP t @ [CHR 0x22] @ TagValue t @ [CHR 0x22])"

text \<open>The selector: an equal \<open>__name__\<close> stands before the braces, the step is taken out of the tags.\<close>

definition promql_of_tags :: "string \<Rightarrow> prom_tags \<Rightarrow> string \<times> string" where
  "promql_of_tags step tvs =
     (let name = map_of tvs ''__name__'';
          before = (case name of Some v \<Rightarrow> if OP v = ''='' then TagValue v else [] | None \<Rightarrow> []);
          name_condition = (case name of Some v \<Rightarrow> if OP v = ''='' then [] else [tag_condition (''__name__'', v)] | None \<Rightarrow> []);
          names = sort_strings (map fst (AList.delete ''__name__'' tvs));
          conditions = name_condition
            @ map (\<lambda>k. tag_condition (k, the (map_of tvs k))) (filter (\<lambda>k. k \<noteq> ''__step__'') names)
      in (case map_of tvs ''__step__'' of Some t \<Rightarrow> TagValue t | None \<Rightarrow> step,
          before @ (if conditions = [] then [] else ''{'' @ Join conditions '', '' @ ''}'')))"

definition convertSeriesByTagToPromQL :: "string \<Rightarrow> string \<Rightarrow> (string \<times> string) list \<Rightarrow> (string \<times> string) go_result" where
  "convertSeriesByTagToPromQL step t tagRenames =
     (if length t < 13 then Panic
      else Some (promql_of_tags step
        (foldl (\<lambda>m (oldName, newName). case map_of m oldName of
              Some v \<Rightarrow> AList.update newName v (AList.delete oldName m) | None \<Rightarrow> m)
          (SplitTagValues (take (length t - 13) (drop 12 t))) tagRenames)))"

definition SeriesByTagToPromQL :: "string \<Rightarrow> string \<Rightarrow> (string \<times> string) go_result" where
  "SeriesByTagToPromQL step t = convertSeriesByTagToPromQL step t []"

definition SeriesByTagToPromQLWithRenames :: "string \<Rightarrow> string \<Rightarrow> (string \<times> string) list \<Rightarrow> (string \<times> string) go_result" where
  "SeriesByTagToPromQLWithRenames step t tagRenames = convertSeriesByTagToPromQL step t tagRenames"

definition PromMetricToGraphite :: "(string \<times> string) list \<Rightarrow> string" where
  "PromMetricToGraphite metric =
     (let rest = AList.delete ''__name__'' metric
      in (case map_of metric ''__name__'' of None \<Rightarrow> [] | Some n \<Rightarrow> n)
         @ concat (map (\<lambda>k. '';'' @ k @ ''='' @ the (map_of rest k)) (sort_strings (map fst rest))))"

section \<open>What the helpers do\<close>

text \<open>A quoted literal reads back as the literal; a plain name only matches itself.\<close>

fun unquote_meta :: "string \<Rightarrow> string" where
  "unquote_meta (c # d # s) = (if c = CHR 0x5C then d # unquote_meta s else c # unquote_meta (d # s))"
| "unquote_meta s = s"

lemma unquote_plain: "c \<noteq> CHR 0x5C \<Longrightarrow> unquote_meta (c # s) = c # unquote_meta s"
  by (cases s) simp_all

lemma unquote_QuoteMeta: "unquote_meta (QuoteMeta s) = s"
proof (induction s)
  case (Cons c s)
  have "\<not> is_meta c \<Longrightarrow> c \<noteq> CHR 0x5C" by (auto simp: is_meta_def)
  then show ?case using Cons by (auto simp: QuoteMeta_def unquote_plain)
qed (simp add: QuoteMeta_def)

lemma Convert_plain:
  assumes "list_all (\<lambda>c. \<not> is_glob c) query"
  shows "ConvertGraphiteTargetToPromQL query = QuoteMeta query"
proof -
  have "dropWhile (\<lambda>c. \<not> is_glob c) query = []"
    using assms by (simp add: list_all_iff)
  then show ?thesis by (subst ConvertGraphiteTargetToPromQL.simps) (simp only: list.case)
qed

lemma Convert_star:
  "list_all (\<lambda>c. \<not> is_glob c) p \<Longrightarrow>
   ConvertGraphiteTargetToPromQL (p @ CHR ''*'' # q) =
     QuoteMeta p @ (if q = [] then ''.*'' else ''[^.]*?'') @ ConvertGraphiteTargetToPromQL q"
  by (subst ConvertGraphiteTargetToPromQL.simps)
    (simp add: dropWhile_append2 takeWhile_append2 list_all_iff is_glob_def)

text \<open>Where the points lie on the grid, each ends up at its place and the gaps are absent.\<close>

lemma feq_of_int: "\<bar>a\<bar> \<le> 2 ^ 53 \<Longrightarrow> \<bar>b\<bar> \<le> 2 ^ 53 \<Longrightarrow> feq (f64_of_int a) (f64_of_int b) \<longleftrightarrow> a = b"
  by (auto simp: f64_of_int_exact feq_def le_f64_finite)

lemma align_points_grid:
  assumes "sorted_wrt (<) (map fst kvs)" "\<forall>k\<in>set (map fst kvs). i \<le> k \<and> k < i + n"
    "\<forall>j<i + n. \<bar>start + int j * step\<bar> \<le> 2 ^ 53" "0 < step"
  shows "align_points start step i n (map (\<lambda>(k, v). (f64_of_int (start + int k * step), v)) kvs) =
    map (\<lambda>j. case map_of kvs j of None \<Rightarrow> FNaN | Some v \<Rightarrow> v) [i..<i + n]"
  using assms
proof (induction n arbitrary: i kvs)
  case (Suc n)
  have up: "[i..<i + Suc n] = i # [Suc i..<Suc i + n]" by (simp add: upt_conv_Cons)
  show ?case
  proof (cases kvs)
    case Nil
    then show ?thesis using Suc.IH[of "[]" "Suc i"] Suc.prems(3,4) unfolding up by simp
  next
    case (Cons p rest)
    obtain k v where p: "p = (k, v)" by fastforce
    have k: "i \<le> k" "k < i + Suc n" using Suc.prems(2) Cons p by auto
    have later: "\<forall>j\<in>set (map fst rest). k < j" using Suc.prems(1) Cons p by auto
    have eq: "feq (f64_of_int (start + int k * step)) (f64_of_int (start + int i * step)) \<longleftrightarrow> k = i"
      using Suc.prems(3,4) k feq_of_int[of "start + int k * step" "start + int i * step"] by auto
    show ?thesis
    proof (cases "k = i")
      case True
      have ih: "align_points start step (Suc i) n (map (\<lambda>(k, v). (f64_of_int (start + int k * step), v)) rest) =
          map (\<lambda>j. case map_of rest j of None \<Rightarrow> FNaN | Some v \<Rightarrow> v) [Suc i..<Suc i + n]"
        using Suc.prems Cons p True later by (intro Suc.IH) auto
      have "map (\<lambda>j. case map_of rest j of None \<Rightarrow> FNaN | Some v \<Rightarrow> v) [Suc i..<Suc i + n] =
          map (\<lambda>j. case map_of kvs j of None \<Rightarrow> FNaN | Some v \<Rightarrow> v) [Suc i..<Suc i + n]"
        using Cons p True by (intro map_cong) auto
      then show ?thesis using ih True Cons p eq unfolding up by simp
    next
      case False
      have ih: "align_points start step (Suc i) n (map (\<lambda>(k, v). (f64_of_int (start + int k * step), v)) kvs) =
          map (\<lambda>j. case map_of kvs j of None \<Rightarrow> FNaN | Some v \<Rightarrow> v) [Suc i..<Suc i + n]"
        using Suc.prems Cons p False later k by (intro Suc.IH) auto
      have "map_of kvs i = None" using Cons p False later k by (auto simp: map_of_eq_None_iff)
      then show ?thesis using ih False Cons p eq unfolding up by simp
    qed
  qed
qed simp

text \<open>
  C29: points of a backend that lie on the grid of the step, in ascending order, are each put at their time,
  and the times without a point are absent.
\<close>

theorem AlignValues_grid:
  assumes "0 < step" "sorted_wrt (<) (map fst kvs)" "\<forall>k\<in>set (map fst kvs). k \<le> n"
    and "\<bar>start\<bar> \<le> 2 ^ 53" "\<bar>start + int n * step\<bar> \<le> 2 ^ 53"
  shows "prom_AlignValues start (start + int n * step) step (map (\<lambda>(k, v). (f64_of_int (start + int k * step), v)) kvs) =
    Some (map (\<lambda>j. case map_of kvs j of None \<Rightarrow> FNaN | Some v \<Rightarrow> v) [0..<Suc n])"
proof -
  have "\<bar>start + int j * step\<bar> \<le> 2 ^ 53" if "j < 0 + Suc n" for j
  proof -
    have "0 \<le> int j * step" "int j * step \<le> int n * step" using that assms(1) by (auto intro: mult_right_mono)
    then show ?thesis using assms(4,5) by linarith
  qed
  then have "align_points start step 0 (Suc n) (map (\<lambda>(k, v). (f64_of_int (start + int k * step), v)) kvs) =
      map (\<lambda>j. case map_of kvs j of None \<Rightarrow> FNaN | Some v \<Rightarrow> v) [0..<0 + Suc n]"
    using assms(1-3) by (intro align_points_grid) auto
  moreover have "go_div (start + int n * step - start) step = Some (int n)"
    using assms(1) by (simp add: go_div_def sdiv_nonneg)
  moreover have "nat (int n + 1) = Suc n" by simp
  ultimately show ?thesis by (simp only: prom_AlignValues_def bind.simps) simp
qed

text \<open>A first point off the grid keeps all points from their places.\<close>

lemma AlignValues_stuck:
  "\<forall>j. \<not> feq t (f64_of_int (start + int j * step)) \<Longrightarrow>
     align_points start step i n ((t, v) # ps) = replicate n FNaN"
  by (induction n arbitrary: i) auto

text \<open>A step shorter than a second is none.\<close>

lemma AlignValues_no_step: "prom_AlignValues start stop 0 ps = Panic"
  by (simp add: prom_AlignValues_def go_div_def)



theorem AlignValues_grid_witness:
  "prom_AlignValues 600 660 20 [(FNum 600, FNum 1), (FNum 640, FNum 3), (FNum 660, FNum 4)] =
     Some [FNum 1, FNaN, FNum 3, FNum 4]"
proof -
  have up: "[0..<Suc 3] = [0, 1, 2, 3]" by (simp add: upt_rec)
  show ?thesis
    using AlignValues_grid[of 20 "[(0, FNum 1), (2, FNum 3), (3, FNum 4)]" 3 600] unfolding up by (simp add: f64_of_int_exact)
qed

section \<open>Round trips\<close>

text \<open>The text of one argument of \<open>seriesByTag\<close>, in quotes of the kind \<open>q\<close>.\<close>

definition op_text :: "string \<Rightarrow> string" where
  "op_text op = (if op = ''!~'' then ''!=~'' else op)"

definition quoted_tag :: "char \<Rightarrow> string \<times> prom_tag \<Rightarrow> string" where
  "quoted_tag q = (\<lambda>(name, t). q # name @ op_text (OP t) @ TagValue t @ [q])"

definition quoted_ok :: "char \<Rightarrow> string \<times> prom_tag \<Rightarrow> bool" where
  "quoted_ok q = (\<lambda>(name, t). q \<notin> set name \<and> q \<notin> set (TagValue t) \<and> CHR ''='' \<notin> set name
     \<and> (name = [] \<or> last name \<noteq> CHR ''!'')
     \<and> (OP t = ''=~'' \<or> OP t = ''!~'' \<or> (OP t = ''='' \<or> OP t = ''!='') \<and> (TagValue t = [] \<or> hd (TagValue t) \<noteq> CHR ''~'')))"

lemma split_inside:
  "q \<notin> set s \<Longrightarrow> q \<noteq> CHR 0x00 \<Longrightarrow> splitWithQuotes q d piece (s @ q # r) = splitWithQuotes (CHR 0x00) d (piece @ s @ [q]) r"
  by (induction s arbitrary: piece) auto

lemma split_quoted:
  assumes "q = CHR 0x27 \<or> q = CHR 0x22" "q \<notin> set s"
  shows "splitWithQuotes (CHR 0x00) (CHR '','') [] (q # s @ [q]) = [q # s @ [q]]"
    "splitWithQuotes (CHR 0x00) (CHR '','') [] (q # s @ q # CHR '','' # r) =
      (q # s @ [q]) # splitWithQuotes (CHR 0x00) (CHR '','') [] r"
proof -
  have q: "q \<noteq> CHR 0x00" "q \<noteq> CHR '',''" using assms(1) by auto
  have o: "splitWithQuotes (CHR 0x00) (CHR '','') [] (q # t) = splitWithQuotes q (CHR '','') [q] t" for t
    using assms(1) by auto
  show "splitWithQuotes (CHR 0x00) (CHR '','') [] (q # s @ [q]) = [q # s @ [q]]"
    unfolding o split_inside[OF assms(2) q(1)] by simp
  show "splitWithQuotes (CHR 0x00) (CHR '','') [] (q # s @ q # CHR '','' # r) =
      (q # s @ [q]) # splitWithQuotes (CHR 0x00) (CHR '','') [] r"
    unfolding o split_inside[OF assms(2) q(1)] by simp
qed

lemma split_joined:
  assumes "q = CHR 0x27 \<or> q = CHR 0x22" "\<forall>s\<in>set ss. q \<notin> set s" "ss \<noteq> []"
  shows "splitWithQuotes (CHR 0x00) (CHR '','') [] (Join (map (\<lambda>s. q # s @ [q]) ss) '','') = map (\<lambda>s. q # s @ [q]) ss"
  using assms(2,3)
proof (induction ss)
  case (Cons s ss)
  show ?case
  proof (cases ss)
    case Nil
    then show ?thesis using split_quoted(1)[OF assms(1), of s] Cons.prems by simp
  next
    case (Cons s' rest)
    then have "Join (map (\<lambda>s. q # s @ [q]) (s # ss)) '','' = q # s @ q # CHR '','' # Join (map (\<lambda>s. q # s @ [q]) ss) '',''"
      by simp
    then show ?thesis using split_quoted(2)[OF assms(1), of s] Cons.IH Cons.prems Cons by simp
  qed
qed simp

lemma trim_quoted:
  assumes "q = CHR 0x27 \<or> q = CHR 0x22" shows "TrimSpace (q # s @ [q]) = q # s @ [q]"
proof -
  have d: "decode_rune (q # t) = (byte q, 1)" for t
    using assms by (intro decode_rune_ascii) (auto simp: is_ascii_def byte_def)
  have sp: "\<not> is_space (byte q)" using assms by (auto simp: is_space_def byte_def)
  have "trim_left (q # s @ [q]) = q # s @ [q]" using d sp by (subst trim_left.simps) simp
  moreover have "last_rune (q # s @ [q]) = (byte q, 1)"
  proof -
    have b: "byte q div 64 = 0" using assms by (auto simp: byte_def)
    have n: "(q # s @ [q]) ! (length (q # s @ [q]) - 1) = q" "drop (length (q # s @ [q]) - 1) (q # s @ [q]) = [q]"
      by (simp_all add: nth_Cons' nth_append)
    have "[1..<5] = 1 # [2..<5]" by (simp add: upt_conv_Cons)
    then show ?thesis using b n d[of "[]"] by (simp add: last_rune_def)
  qed
  ultimately show ?thesis using sp by (simp add: TrimSpace_def) (subst trim_end.simps, simp)
qed

lemma Promethize_text:
  assumes "quoted_ok q (name, t)"
  shows "PromethizeTagValue (name @ op_text (OP t) @ TagValue t) = (name, t)"
proof -
  have n: "CHR ''='' \<notin> set name" "name = [] \<or> last name \<noteq> CHR ''!''" using assms by (auto simp: quoted_ok_def)
  have eq: "index_byte (CHR ''='') (name @ CHR ''='' # r) = Some (length name)" for r
    using n(1) by (simp add: index_byte_append)
  have neq: "index_byte (CHR ''='') (name @ CHR ''!'' # CHR ''='' # r) = Some (Suc (length name))" for r
    using index_byte_append[of "CHR ''=''" "name @ ''!''" r] n(1) by simp
  have before: "name \<noteq> [] \<Longrightarrow> (name @ r) ! (length name - Suc 0) \<noteq> CHR ''!''" for r
    using n(2) by (simp add: nth_append last_conv_nth)
  have t: "t = \<lparr>TagValue = TagValue t, OP = OP t\<rparr>" by simp
  consider "OP t = ''=''" | "OP t = ''!=''" | "OP t = ''=~''" | "OP t = ''!~''" using assms by (auto simp: quoted_ok_def)
  then show ?thesis
  proof cases
    case 1
    then show ?thesis using assms before[of "CHR ''='' # TagValue t"]
      by (subst (3) t) (auto simp: PromethizeTagValue_def op_text_def quoted_ok_def eq Let_def)
  next
    case 2
    then show ?thesis using assms
      by (subst (3) t) (auto simp: PromethizeTagValue_def op_text_def quoted_ok_def neq Let_def nth_append)
  next
    case 3
    then show ?thesis using before[of "CHR ''='' # CHR ''~'' # TagValue t"]
      by (subst (3) t) (auto simp: PromethizeTagValue_def op_text_def eq Let_def)
  next
    case 4
    then show ?thesis
      by (subst (3) t) (auto simp: PromethizeTagValue_def op_text_def neq Let_def nth_append)
  qed
qed

lemma SplitTagValues_text:
  assumes "q = CHR 0x27 \<or> q = CHR 0x22" "list_all (quoted_ok q) ts"
  shows "SplitTagValues (Join (map (quoted_tag q) ts) '','') = AList.updates (map fst ts) (map snd ts) []"
proof (cases "ts = []")
  case True
  have "trim_left [] = []" "trim_end [] = []" by (subst trim_left.simps, simp, subst trim_end.simps, simp)
  then show ?thesis using True by (simp add: SplitTagValues_def TrimSpace_def)
next
  case False
  let ?body = "\<lambda>(name, t). name @ op_text (OP t) @ TagValue t"
  have layout: "quoted_tag q p = q # ?body p @ [q]" for p by (cases p) (simp add: quoted_tag_def)
  have parts: "map (quoted_tag q) ts = map (\<lambda>s. q # s @ [q]) (map ?body ts)" by (simp add: layout)
  have free: "q \<notin> set (?body p)" if "p \<in> set ts" for p
    using assms that by (cases p) (auto simp: list_all_iff quoted_ok_def op_text_def)
  have "splitWithQuotes (CHR 0x00) (CHR '','') [] (Join (map (\<lambda>s. q # s @ [q]) (map ?body ts)) '','') =
      map (\<lambda>s. q # s @ [q]) (map ?body ts)"
    using free False by (intro split_joined[OF assms(1)]) auto
  then have split: "splitWithQuotes (CHR 0x00) (CHR '','') [] (Join (map (quoted_tag q) ts) '','') = map (quoted_tag q) ts"
    by (simp only: parts)
  let ?step = "\<lambda>m tv. let s = TrimSpace tv in if length s < 2 then m
     else case PromethizeTagValue (take (length s - 2) (drop 1 s)) of (name, t) \<Rightarrow> AList.update name t m"
  have one: "?step m (quoted_tag q p) = AList.update (fst p) (snd p) m" if "p \<in> set ts" for m p
  proof -
    obtain n t where p: "p = (n, t)" by fastforce
    have "quoted_ok q (n, t)" using assms(2) that p by (simp add: list_all_iff)
    from Promethize_text[OF this] show ?thesis
      using trim_quoted[OF assms(1), of "n @ op_text (OP t) @ TagValue t"] by (simp add: layout p Let_def)
  qed
  have "foldl ?step m (map (quoted_tag q) ps) = AList.updates (map fst ps) (map snd ps) m" if "set ps \<subseteq> set ts" for m ps
    using that by (induction ps arbitrary: m) (simp_all add: one del: Let_def)
  then show ?thesis unfolding SplitTagValues_def split by simp
qed

text \<open>
  C27: the quoted arguments of a \<open>seriesByTag\<close> read back as the tags they were written from, a later one of a
  name replacing an earlier one, whatever commas the values hold.
\<close>

theorem SplitTagValues_quoted:
  assumes "q = CHR 0x27 \<or> q = CHR 0x22" "list_all (quoted_ok q) ts"
  shows "SplitTagValues (Join (map (quoted_tag q) ts) '','') = AList.updates (map fst ts) (map snd ts) []"
  using assms by (rule SplitTagValues_text)

theorem SplitTagValues_quoted_witness:
  "SplitTagValues [CHR 0x27, CHR ''a'', CHR ''='', CHR ''1'', CHR '','', CHR ''2'', CHR 0x27, CHR '','',
       CHR 0x27, CHR ''b'', CHR ''!'', CHR ''='', CHR ''~'', CHR ''x'', CHR 0x27] =
     [(''a'', \<lparr>TagValue = ''1,2'', OP = ''=''\<rparr>), (''b'', \<lparr>TagValue = ''x'', OP = ''!~''\<rparr>)]"
proof -
  let ?ts = "[(''a'', \<lparr>TagValue = ''1,2'', OP = ''=''\<rparr>), (''b'', \<lparr>TagValue = ''x'', OP = ''!~''\<rparr>)]"
  have "list_all (quoted_ok (CHR 0x27)) ?ts" by code_simp
  from SplitTagValues_quoted[OF disjI1[OF refl] this] show ?thesis by (simp add: quoted_tag_def op_text_def)
qed

text \<open>
  C28: the name made of the labels of a Prometheus series carries them: read back as tags it has every label
  with its value, and the metric name as the tag \<open>name\<close> unless a label is called so.
\<close>

theorem PromMetricToGraphite_tags:
  assumes "list_all tag_ok (AList.delete ''__name__'' metric)"
    and "map_of metric ''__name__'' = Some n" "CHR '';'' \<notin> set n"
  shows "map_of (ExtractTags (PromMetricToGraphite metric)) k =
    (if k = ''__name__'' then None
     else case map_of metric k of Some v \<Rightarrow> Some v | None \<Rightarrow> if k = ''name'' then Some n else None)"
proof -
  define rest where "rest = AList.delete ''__name__'' metric"
  let ?ks = "sort_strings (map fst rest)"
  let ?kvs = "map (\<lambda>k. (k, the (map_of rest k))) ?ks"
  have name: "PromMetricToGraphite metric = tagged_name n ?kvs"
    using assms(2) by (simp add: PromMetricToGraphite_def rest_def Let_def tagged_name_def tag_text_def o_def)
  have keys: "set ?ks = fst ` set rest" by simp
  have "(k, the (map_of rest k)) \<in> set rest" if "k \<in> fst ` set rest" for k
    using that map_of_SomeD[of rest k] by (metis map_of_eq_None_iff option.collapse)
  then have "list_all tag_ok ?kvs" using assms(1) keys by (auto simp: list_all_iff rest_def)
  then have E: "ExtractTags (PromMetricToGraphite metric) = AList.updates (map fst ?kvs) (map snd ?kvs) [(''name'', n)]"
    unfolding name by (rule ExtractTags_text[OF assms(3)])
  have fold: "map_of (AList.updates (map fst (map (\<lambda>k. (k, f k)) ks)) (map snd (map (\<lambda>k. (k, f k)) ks)) al) k =
      (if k \<in> set ks then Some (f k) else map_of al k)" for f :: "string \<Rightarrow> string" and ks al
    by (induction ks arbitrary: al) (auto simp: update_conv')
  have rest_of: "map_of rest j = (if j = ''__name__'' then None else map_of metric j)" for j
    by (simp add: rest_def delete_conv')
  have "k \<in> set ?ks \<longleftrightarrow> map_of rest k \<noteq> None"
    by (simp add: keys map_of_eq_None_iff)
  then show ?thesis unfolding E fold by (auto simp: rest_of split: option.splits)
qed

theorem PromMetricToGraphite_tags_witness:
  "map_of (ExtractTags ''up;instance=a;job=node'') ''job'' = Some ''node''"
proof -
  let ?m = "[(''job'', ''node''), (''__name__'', ''up''), (''instance'', ''a'')]"
  have t: "list_all tag_ok (AList.delete ''__name__'' ?m)" by code_simp
  have n: "PromMetricToGraphite ?m = ''up;instance=a;job=node''" by code_simp
  show ?thesis using PromMetricToGraphite_tags[OF t, of "''up''" "''job''"] unfolding n by simp
qed

text \<open>
  A name that only starts like a call of \<open>seriesByTag\<close> is cut as if it were one, which panics when it is
  short.
\<close>

lemma seriesByTag_name_panics: "SeriesByTagToPromQL step ''seriesByTag'' = Panic"
  by (simp add: SeriesByTagToPromQL_def convertSeriesByTagToPromQL_def)

end
