(* ===== verification/Prometheus_Group.thy ===== *)
theory Prometheus_Group
  imports Prometheus
begin

text \<open>
  The requests of \<open>zipper/protocols/prometheus/prometheus_group.go\<close>: \<open>Fetch\<close>, \<open>Find\<close>, the tag queries and the
  probe of the top level. An HTTP query with the decoding of its answer is a parameter, as are
  \<open>time.ParseDuration\<close>, \<open>strconv.Quote\<close>, \<open>url.QueryUnescape\<close>, the clock and the order of maps.
\<close>

section \<open>Configuration\<close>

text \<open>Durations are numbers of nanoseconds.\<close>

record start_delay =
  sd_IsSet :: bool
  sd_IsDuration :: bool
  sd_D :: int
  sd_T :: int
  sd_S :: string

definition StartDelay_String :: "int \<Rightarrow> start_delay \<Rightarrow> string" where
  "StartDelay_String now s =
     (if sd_IsDuration s then FormatInt ((now + sd_D s) div 1000000000)
      else if sd_S s = [] then FormatInt (sd_T s) else sd_S s)"

record prom_group =
  pg_groupName :: string
  pg_step :: int
  pg_maxPointsPerQuery :: int
  pg_forceMinStepInterval :: int
  pg_startDelay :: start_delay

text \<open>What stands outside the package.\<close>

record prom_env =
  pe_ParseDuration :: "string \<Rightarrow> string + int"
  pe_Quote :: "string \<Rightarrow> string"
  pe_QueryUnescape :: "string \<Rightarrow> string"
  pe_RequestURI :: "string \<Rightarrow> string option"
  pe_now :: int

text \<open>An error is added to the one there is as its cause; a nil error adds nothing.\<close>

definition add_error :: "merry_error option \<Rightarrow> merry_error option \<Rightarrow> merry_error option" where
  "add_error e c = (case e of None \<Rightarrow> c | Some x \<Rightarrow> Some (case c of None \<Rightarrow> x | Some y \<Rightarrow> WithCause x y))"

definition wrap_text :: "string \<Rightarrow> merry_error" where
  "wrap_text s = base_error (OtherErr s)"

section \<open>Fetch\<close>

record prom_request =
  pq_Name :: string
  pq_PathExpression :: string
  pq_StartTime :: int
  pq_StopTime :: int
  pq_MaxDataPoints :: int

text \<open>An answer: a body that is no JSON, or a status with series of labels and points.\<close>

datatype prom_answer = Bad_Json | Prom_Series string "((string \<times> string) list \<times> (f64 \<times> f64) list) list"

record prom_query =
  qy_query :: string
  qy_start :: string
  qy_end :: string
  qy_step :: string

definition group_targets :: "prom_request list \<Rightarrow> (string \<times> string list) list" where
  "group_targets ms =
     foldl (\<lambda>g m. AList.update (pq_PathExpression m)
         ((case map_of g (pq_PathExpression m) of None \<Rightarrow> [] | Some ts \<Rightarrow> ts) @ [pq_Name m]) g) [] ms"

text \<open>The query of a target and its step; a step that ends in no digit has a unit of its own.\<close>

definition target_query :: "prom_env \<Rightarrow> string \<Rightarrow> string \<Rightarrow> (string \<times> string) go_result" where
  "target_query P stepStr t =
     Option.bind (if HasPrefix t ''seriesByTag'' then SeriesByTagToPromQL stepStr t
                  else Some (stepStr, ''{__name__=~'' @ pe_Quote P (ConvertGraphiteTargetToPromQL t) @ ''}'')) (\<lambda>(s, q).
       if s = [] then Panic else Some (if is_digit (last s) then s @ ''s'' else s, q))"

definition prom_series ::
  "string \<Rightarrow> int \<Rightarrow> int \<Rightarrow> int \<Rightarrow> (string \<times> string) list \<times> (f64 \<times> f64) list \<Rightarrow> FetchResponse go_result" where
  "prom_series pathExpr start stop step = (\<lambda>(labels, ps).
     let realStart = (if ps = [] then start else int_of_f64 (fst (hd ps)));
         realStop = (if ps = [] then stop else int_of_f64 (fst (last ps)))
     in map_option (\<lambda>vs. \<lparr>fr_Name = PromMetricToGraphite labels, fr_PathExpression = pathExpr, fr_ConsolidationFunc = ''Average'',
            fr_StartTime = realStart, fr_StopTime = realStop, fr_StepTime = step, fr_XFilesFactor = 0,
            fr_HighPrecisionTimestamps = False, fr_Values = vs, fr_AppliedFunctions = [], fr_RequestStartTime = 0,
            fr_RequestStopTime = 0\<rparr>)
          (prom_AlignValues realStart realStop step ps))"

type_synonym fetch_acc = "FetchResponse list \<times> Stats \<times> merry_error option"

text \<open>
  One target. A failed query is never counted as a timeout, since the code looks at the error of the
  duration, which is nil here; and a body that is no JSON adds the error of the query, which is nil too.
\<close>

definition fetch_target ::
  "prom_env \<Rightarrow> (prom_query \<Rightarrow> merry_error + prom_answer) \<Rightarrow> int \<Rightarrow> int \<Rightarrow> int \<Rightarrow> string \<Rightarrow> string \<Rightarrow> fetch_acc \<Rightarrow> fetch_acc go_result" where
  "fetch_target P ask start stop step pathExpr t = (\<lambda>(rs, stats, e).
     Option.bind (target_query P (FormatInt step) t) (\<lambda>(stepStr, q).
       let failed = stats\<lparr>RenderErrors := RenderErrors stats + 1\<rparr>
       in case pe_ParseDuration P stepStr of
            Inl err \<Rightarrow> Some (rs, failed, if e = None then Some (wrap_text err) else e)
          | Inr d \<Rightarrow>
              (let stepLocal = int_of_f64 (Seconds d);
                   asked = stats\<lparr>RenderRequests := RenderRequests stats + 1\<rparr>;
                   failed = asked\<lparr>RenderErrors := RenderErrors asked + 1\<rparr>
               in case ask \<lparr>qy_query = q, qy_start = FormatInt start, qy_end = FormatInt stop, qy_step = stepStr\<rparr> of
                    Inl err \<Rightarrow> Some (rs, failed, add_error e (Some err))
                  | Inr Bad_Json \<Rightarrow> Some (rs, failed, add_error e None)
                  | Inr (Prom_Series status series) \<Rightarrow>
                      if status \<noteq> ''success''
                      then Some (rs, failed, if e = None then Some (WithMessage (base_error ErrFailedToFetch) status) else e)
                      else map_option (\<lambda>more. (rs @ more, asked, e)) (opt_map (prom_series pathExpr start stop stepLocal) series))))"

fun fetch_targets ::
  "(string \<Rightarrow> string \<Rightarrow> fetch_acc \<Rightarrow> fetch_acc go_result) \<Rightarrow> (string \<times> string) list \<Rightarrow> fetch_acc \<Rightarrow> fetch_acc go_result" where
  "fetch_targets f [] acc = Some acc"
| "fetch_targets f ((p, t) # pts) acc = Option.bind (f p t acc) (fetch_targets f pts)"

definition name_failed :: "prom_group \<Rightarrow> Stats \<Rightarrow> merry_error option \<Rightarrow> Stats" where
  "name_failed G stats e = (if e = None then stats else stats\<lparr>FailedServers := [pg_groupName G]\<rparr>)"

definition prom_Fetch ::
  "prom_group \<Rightarrow> prom_env \<Rightarrow> ((string \<times> string list) list \<Rightarrow> (string \<times> string list) list)
    \<Rightarrow> (prom_query \<Rightarrow> merry_error + prom_answer) \<Rightarrow> prom_request list \<Rightarrow> fetch_acc go_result" where
  "prom_Fetch G P visit ask ms =
     (case ms of
        [] \<Rightarrow> Panic
      | m # _ \<Rightarrow>
          let start = pq_StartTime m; stop = pq_StopTime m;
              points = (if pq_MaxDataPoints m \<noteq> 0 then pq_MaxDataPoints m else pg_maxPointsPerQuery G);
              step = AdjustStep start stop points (pg_step G) (pg_forceMinStepInterval G)
          in map_option (\<lambda>(rs, stats, e). (rs, name_failed G stats e, e))
               (fetch_targets (fetch_target P ask start stop step)
                 (concat (map (\<lambda>(p, ts). map (Pair p) ts) (visit (group_targets ms)))) ([], zero_stats, None)))"

section \<open>Find\<close>

datatype find_answer = Bad_Find_Json | Prom_Labels string string "(string \<times> string) list list"

definition find_query :: "prom_group \<Rightarrow> prom_env \<Rightarrow> string \<Rightarrow> (string \<times> string) list" where
  "find_query G P q =
     (''match[]'', ''{__name__=~'' @ pe_Quote P (ConvertGraphiteTargetToPromQL q) @ ''}'')
     # (if sd_IsSet (pg_startDelay G) then [(''start'', StartDelay_String (pe_now P) (pg_startDelay G))] else [])"

text \<open>The names cut to the depth of the query; a name of that depth is a leaf. The map lives through all queries.\<close>

definition add_match :: "string list \<Rightarrow> (string \<times> bool) list \<Rightarrow> (string \<times> string) list \<Rightarrow> (string \<times> bool) list" where
  "add_match querySplit unique labels =
     (case map_of labels ''__name__'' of
        None \<Rightarrow> unique
      | Some name \<Rightarrow>
          let nameSplit = Split1 name (CHR ''.'')
          in if length nameSplit < length querySplit then unique
             else AList.update (Join (take (length querySplit) nameSplit) ''.'') (length nameSplit = length querySplit) unique)"

text \<open>The response is added to the answer after every match.\<close>

definition growing_responses :: "string \<Rightarrow> (string \<times> bool) list \<Rightarrow> GlobResponse list" where
  "growing_responses q unique =
     map (\<lambda>n. \<lparr>gr_Name = q, gr_Matches = map (\<lambda>(k, leaf). \<lparr>gm_Path = k, gm_IsLeaf = leaf\<rparr>) (take (Suc n) unique)\<rparr>)
       [0..<length unique]"

type_synonym find_acc = "GlobResponse list \<times> (string \<times> bool) list \<times> Stats \<times> merry_error option"

definition find_one ::
  "prom_group \<Rightarrow> prom_env \<Rightarrow> ((string \<times> bool) list \<Rightarrow> (string \<times> bool) list) \<Rightarrow> ((string \<times> string) list \<Rightarrow> merry_error + find_answer)
    \<Rightarrow> find_acc \<Rightarrow> string \<Rightarrow> find_acc" where
  "find_one G P visit ask = (\<lambda>(rs, unique, stats, e) q0.
     let q = (if HasSuffix q0 ''*'' then q0 else q0 @ ''*'');
         asked = stats\<lparr>FindRequests := FindRequests stats + 1\<rparr>;
         failed = asked\<lparr>FindErrors := FindErrors asked + 1\<rparr>
     in case ask (find_query G P q) of
          Inl err \<Rightarrow>
            (rs, unique, if merry_Is err ErrTimeoutExceeded
                         then failed\<lparr>Timeouts := Timeouts failed + 1, FindTimeouts := FindTimeouts failed + 1\<rparr> else failed,
             add_error e (Some err))
        | Inr Bad_Find_Json \<Rightarrow> (rs, unique, failed, add_error e None)
        | Inr (Prom_Labels status err series) \<Rightarrow>
            if status \<noteq> ''success''
            then (rs, unique, failed, if e = None then Some (WithMessage (base_error ErrFailedToFetch) err) else e)
            else let unique' = foldl (add_match (Split1 q (CHR ''.''))) unique series
                 in (rs @ growing_responses q (visit unique'), unique', asked, e))"

definition prom_Find ::
  "prom_group \<Rightarrow> prom_env \<Rightarrow> ((string \<times> bool) list \<Rightarrow> (string \<times> bool) list) \<Rightarrow> ((string \<times> string) list \<Rightarrow> merry_error + find_answer)
    \<Rightarrow> string list \<Rightarrow> GlobResponse list \<times> Stats \<times> merry_error option" where
  "prom_Find G P visit ask queries =
     (case foldl (find_one G P visit ask) ([], [], zero_stats, None) queries of
        (rs, unique, stats, e) \<Rightarrow> (rs, name_failed G stats e, e))"

definition prom_ProbeTLDs ::
  "prom_group \<Rightarrow> prom_env \<Rightarrow> ((string \<times> bool) list \<Rightarrow> (string \<times> bool) list) \<Rightarrow> ((string \<times> string) list \<Rightarrow> merry_error + find_answer)
    \<Rightarrow> merry_error + string list" where
  "prom_ProbeTLDs G P visit ask =
     (case prom_Find G P visit ask [''*''] of
        (rs, _, Some e) \<Rightarrow> Inl e
      | (rs, _, None) \<Rightarrow> Inr (concat (map (\<lambda>r. map gm_Path (gr_Matches r)) rs)))"

section \<open>Tag queries\<close>

type_synonym params = "(string \<times> string list) list"

definition query_params :: "prom_env \<Rightarrow> string \<Rightarrow> params" where
  "query_params P query =
     foldl (\<lambda>m qv. case index_byte (CHR ''='') qv of
           None \<Rightarrow> m
         | Some idx \<Rightarrow>
             if idx < 1 then m
             else AList.update (take idx qv) ((case map_of m (take idx qv) of None \<Rightarrow> [] | Some vs \<Rightarrow> vs) @ [drop (idx + 1) qv]) m)
       [] (Split1 (pe_QueryUnescape P query) (CHR ''&''))"

definition limit_to :: "int \<Rightarrow> 'a list \<Rightarrow> 'a list" where
  "limit_to n xs = (if 0 < n \<and> n < int (length xs) then take (nat n) xs else xs)"

text \<open>The decoded answer: a status with what was asked for, or an error of the decoder.\<close>

definition successful :: "string + string \<times> 'a \<Rightarrow> merry_error + 'a" where
  "successful r =
     (case r of
        Inl err \<Rightarrow> Inl (wrap_text err)
      | Inr (status, a) \<Rightarrow> if status = ''success'' then Inr a else Inl (wrap_text ''request returned an error''))"

definition first_of :: "string \<Rightarrow> params \<Rightarrow> string option" where
  "first_of k m = (case map_of m k of None \<Rightarrow> None | Some vs \<Rightarrow> Some (hd vs))"

text \<open>The name of a tag goes into the path as it is; a path that is no URL leaves a nil pointer.\<close>

definition doSimpleTagQuery ::
  "prom_env \<Rightarrow> (string \<Rightarrow> merry_error + (string + string \<times> string list)) \<Rightarrow> bool \<Rightarrow> params \<Rightarrow> int \<Rightarrow> (merry_error + string list) go_result" where
  "doSimpleTagQuery P ask isTagName m limit =
     (case (if isTagName then Some ''/api/v1/labels'' else map_option (\<lambda>t. ''/api/v1/label/'' @ t @ ''/values'') (first_of ''Tag'' m)) of
        None \<Rightarrow> Some (Inl (base_error ErrNoTagSpecified))
      | Some path \<Rightarrow> map_option (\<lambda>uri.
          (case ask uri of
             Inl e \<Rightarrow> Inl e
           | Inr r \<Rightarrow>
               (case successful r of
                  Inl e \<Rightarrow> Inl e
                | Inr names \<Rightarrow>
                    Inr (limit_to limit (case first_of (if isTagName then ''tagPrefix'' else ''valuePrefix'') m of
                           None \<Rightarrow> names | Some p \<Rightarrow> filter (\<lambda>t. HasPrefix t p) names)))))
          (pe_RequestURI P path))"

definition tag_matches :: "params \<Rightarrow> string list" where
  "tag_matches m =
     map (\<lambda>x. case PromethizeTagValue x of (name, t) \<Rightarrow> ''{'' @ name @ OP t @ [CHR 0x22] @ TagValue t @ [CHR 0x22, CHR ''}''])
       (case map_of m ''expr'' of None \<Rightarrow> [] | Some es \<Rightarrow> es)"

definition tag_results :: "bool \<Rightarrow> params \<Rightarrow> (string \<times> string) list list \<Rightarrow> string list" where
  "tag_results isTagName m data =
     (let p = (case first_of (if isTagName then ''tagPrefix'' else ''valuePrefix'') m of None \<Rightarrow> [] | Some p \<Rightarrow> p);
          found = (if isTagName then concat (map (map fst) data)
                   else List.map_filter (\<lambda>d. map_of d (the (first_of ''Tag'' m))) data)
      in remdups (filter (\<lambda>s. HasPrefix s p) found))"

definition doComplexTagQuery ::
  "(string list \<Rightarrow> merry_error + (string + string \<times> (string \<times> string) list list)) \<Rightarrow> (string list \<Rightarrow> string list) \<Rightarrow> bool \<Rightarrow> params \<Rightarrow> int
    \<Rightarrow> merry_error + string list" where
  "doComplexTagQuery ask visit isTagName m limit =
     (if \<not> isTagName \<and> map_of m ''Tag'' = None then Inl (base_error ErrNoTagSpecified)
      else case ask (tag_matches m) of
             Inl e \<Rightarrow> Inl e
           | Inr r \<Rightarrow>
               (case successful r of
                  Inl e \<Rightarrow> Inl e
                | Inr data \<Rightarrow> Inr (limit_to limit (visit (tag_results isTagName m data)))))"

definition doTagQuery ::
  "prom_env \<Rightarrow> (string \<Rightarrow> merry_error + (string + string \<times> string list))
    \<Rightarrow> (string list \<Rightarrow> merry_error + (string + string \<times> (string \<times> string) list list)) \<Rightarrow> (string list \<Rightarrow> string list)
    \<Rightarrow> bool \<Rightarrow> string \<Rightarrow> int \<Rightarrow> (merry_error + string list) go_result" where
  "doTagQuery P ask_simple ask_series visit isTagName query limit =
     (let m = query_params P query
      in if map_of m ''expr'' = None then doSimpleTagQuery P ask_simple isTagName m limit
         else Some (doComplexTagQuery ask_series visit isTagName m limit))"

section \<open>What the requests do\<close>

text \<open>A body that cannot be decoded is counted, but when it is the only failure no error is returned.\<close>

lemma fetch_bad_json_silent:
  assumes "target_query P (FormatInt step) t = Some (s, q)" "pe_ParseDuration P s = Inr d"
    "ask \<lparr>qy_query = q, qy_start = FormatInt start, qy_end = FormatInt stop, qy_step = s\<rparr> = Inr Bad_Json"
  shows "fetch_target P ask start stop step p t (rs, stats, e) =
    Some (rs, stats\<lparr>RenderRequests := RenderRequests stats + 1, RenderErrors := RenderErrors stats + 1\<rparr>, e)"
  using assms by (simp add: fetch_target_def Let_def add_error_def split: option.splits)

text \<open>A selector with an empty step makes the request panic, and so does a step below a second with a series.\<close>

lemma promql_empty_step: "promql_of_tags x [(''__step__'', \<lparr>TagValue = [], OP = ''=''\<rparr>)] = ([], [])"
  by (simp add: promql_of_tags_def sort_strings_def Let_def)

lemma split_empty_step:
  "SplitTagValues [CHR 0x27, CHR ''_'', CHR ''_'', CHR ''s'', CHR ''t'', CHR ''e'', CHR ''p'', CHR ''_'', CHR ''_'', CHR ''='', CHR 0x27] =
    [(''__step__'', \<lparr>TagValue = [], OP = ''=''\<rparr>)]"
proof -
  let ?t = "\<lparr>TagValue = [], OP = ''=''\<rparr>"
  have "list_all (quoted_ok (CHR 0x27)) [(''__step__'', ?t)]" by code_simp
  from SplitTagValues_text[OF disjI1[OF refl] this] show ?thesis by (simp add: quoted_tag_def op_text_def)
qed

lemma empty_step_panics:
  "fetch_target P ask start stop step p (''seriesByTag('' @ [CHR 0x27] @ ''__step__='' @ [CHR 0x27] @ '')'') acc = Panic"
proof -
  let ?t = "''seriesByTag('' @ [CHR 0x27] @ ''__step__='' @ [CHR 0x27] @ '')''"
  have cut: "take (length ?t - 13) (drop 12 ?t) =
      [CHR 0x27, CHR ''_'', CHR ''_'', CHR ''s'', CHR ''t'', CHR ''e'', CHR ''p'', CHR ''_'', CHR ''_'', CHR ''='', CHR 0x27]" "\<not> length ?t < 13"
    by simp_all
  have "SeriesByTagToPromQL x ?t = Some ([], [])" for x
    unfolding SeriesByTagToPromQL_def convertSeriesByTagToPromQL_def cut(1) split_empty_step
    using cut(2) promql_empty_step[of x] by (simp only: foldl.simps if_False)
  moreover have "HasPrefix ?t ''seriesByTag''" by (simp add: HasPrefix_def)
  ultimately have "target_query P (FormatInt step) ?t = Panic" by (simp add: target_query_def del: append.simps)
  then show ?thesis by (cases acc) (simp only: fetch_target_def prod.case bind.simps)
qed

lemma prom_series_no_step: "prom_series p start stop 0 m = Panic"
  by (cases m) (simp add: prom_series_def AlignValues_no_step Let_def)

lemma short_step_panics:
  assumes "target_query P (FormatInt step) t = Some (s, q)" "pe_ParseDuration P s = Inr d" "int_of_f64 (Seconds d) = 0"
    "ask \<lparr>qy_query = q, qy_start = FormatInt start, qy_end = FormatInt stop, qy_step = s\<rparr> = Inr (Prom_Series ''success'' (m # ms))"
  shows "fetch_target P ask start stop step p t acc = Panic"
proof -
  obtain rs stats e where acc: "acc = (rs, stats, e)" using prod_cases3 by blast
  have "opt_map (prom_series p start stop (int_of_f64 (Seconds d))) (m # ms) = None"
    by (simp add: assms(3) prom_series_no_step)
  then show ?thesis
    unfolding acc fetch_target_def prod.case assms(1) bind.simps Let_def assms(2) sum.case assms(4) prom_answer.case
    by (simp del: opt_map.simps)
qed

text \<open>
  the answer of \<open>Find\<close> to one query holds a response for every match, of which the \<open>n\<close>-th has the first
  \<open>n\<close> matches, so that \<open>n\<close> matches are returned as \<open>n * (n + 1) div 2\<close>.
\<close>

lemma Find_grows:
  assumes "HasSuffix q ''*''" "ask (find_query G P q) = Inr (Prom_Labels ''success'' err series)"
    and "\<And>xs. mset (visit xs) = mset xs"
  defines "n \<equiv> length (foldl (add_match (Split1 q (CHR ''.''))) [] series)"
  shows "case prom_Find G P visit ask [q] of (rs, _, e) \<Rightarrow>
    e = None \<and> length rs = n \<and> sum_list (map (\<lambda>r. length (gr_Matches r)) rs) = n * (n + 1) div 2"
proof -
  let ?u = "visit (foldl (add_match (Split1 q (CHR ''.''))) [] series)"
  have len: "length ?u = n" using mset_eq_length[OF assms(3)] by (simp add: n_def)
  have r: "prom_Find G P visit ask [q] = (growing_responses q ?u, zero_stats\<lparr>FindRequests := FindRequests zero_stats + 1\<rparr>, None)"
    using assms(1,2) by (simp add: prom_Find_def find_one_def Let_def name_failed_def)
  have "sum_list (map (\<lambda>r. length (gr_Matches r)) (growing_responses q ?u)) = sum_list (map Suc [0..<n])"
    unfolding growing_responses_def len by (auto simp: o_def len intro!: arg_cong[of _ _ sum_list] map_cong)
  also have "\<dots> = n * (n + 1) div 2"
    by (induction n) auto
  finally show ?thesis unfolding r by (simp add: growing_responses_def len)
qed

lemma Find_grows_witness:
  "\<forall>G P. case prom_Find G P id (\<lambda>_. Inr (Prom_Labels ''success'' [] [[(''__name__'', ''a'')], [(''__name__'', ''b.c'')]])) [''*''] of (rs, _, e) \<Rightarrow>
     e = None \<and> length rs = 2 \<and> sum_list (map (\<lambda>r. length (gr_Matches r)) rs) = 3"
proof (intro allI)
  fix G P
  let ?series = "[[(''__name__'', ''a'')], [(''__name__'', ''b.c'')]]"
  let ?ask = "\<lambda>_ :: (string \<times> string) list. (Inr (Prom_Labels ''success'' [] ?series) :: merry_error + find_answer)"
  have "HasSuffix ''*'' ''*''" by code_simp
  moreover have "length (foldl (add_match (Split1 ''*'' (CHR ''.''))) [] ?series) = 2" by code_simp
  ultimately show "case prom_Find G P id ?ask [''*''] of (rs, _, e) \<Rightarrow>
     e = None \<and> length rs = 2 \<and> sum_list (map (\<lambda>r. length (gr_Matches r)) rs) = 3"
    using Find_grows[of "''*''" ?ask G P "[]" ?series id] by simp
qed

end
