(* ===== verification/Spec2Isabelle.thy ===== *)
theory Spec2Isabelle
  imports Parser_Roundtrip Tags Limiter Zipper_Requests Broadcast Series_Sort Evaluator Render Hitcount Holt_Winters Math_Functions Foreign_Functions Prometheus_Group
begin

text \<open>
  A verification of the core of carbonapi, the Graphite API server of the Go sources in \<open>src/\<close>.

  \<^bold>\<open>The program.\<close> A request carries a target expression. \<open>pkg/parser\<close> parses it, computes
  which metrics and times it needs, and gives the functions their arguments. The zipper
  (\<open>zipper/\<close>) asks the backends: it limits and retries the requests to the servers of a group,
  gathers the answers and merges them, and makes one HTTP code of their errors. The functions
  of \<open>expr/\<close> work on series (\<open>expr/types\<close>), which they align (\<open>expr/helper\<close>), aggregate
  (\<open>expr/consolidations\<close>), run windows over (\<open>expr/types/windowed.go\<close>) and name by their tags
  (\<open>expr/tags\<close>, \<open>expr/types/extract.go\<close>); the result is consolidated to the number of points
  asked for.

  \<^bold>\<open>Foundations.\<close>
  \<^item> \<open>Prelude\<close>: Go integers with their wrap-around, truncating division, panics as \<open>None\<close>, the
    collections of facts the theories share.
  \<^item> \<open>Float64\<close>: binary64 with exact rationals and rounding to nearest even, one NaN, two
    infinities and a negative zero; \<open>float32\<close> only for the ratio \<open>align.go\<close> computes.
  \<^item> \<open>Go_Strings\<close>: strings as lists of bytes, UTF-8 decoding, the functions of \<open>strings\<close> and
    \<open>strconv\<close> the program calls. What depends on the Unicode tables or on the shortest decimal
    of a float is a field of the parameter \<open>go_env\<close>.
  \<^item> \<open>Float_Order\<close>: rounding is monotone, so sums, products and differences keep signs and order.
  \<^item> \<open>Go_Sort\<close>: the order of strings and the contract of \<open>sort.Sort\<close>, the locale \<open>go_sort\<close>: some
    sorted permutation. Where equal elements could be told apart the sort is a parameter.

  \<^bold>\<open>Parser.\<close>
  \<^item> \<open>Parser_Types\<close>: the struct \<open>expr\<close> with its kinds, constructors and printing.
  \<^item> \<open>Interval\<close>: \<open>IntervalString\<close> and \<open>TruthyBool\<close> of \<open>interval.go\<close>; what a written interval
    means, and the count that wraps past the range check.
  \<^item> \<open>Parser_Args\<close>: the methods \<open>Get...Arg\<close> of \<open>expr\<close> with their conversions, defaults and
    errors; the contract of the getters of optional arguments is the locale \<open>named_getter\<close>, with
    one interpretation per getter.
  \<^item> \<open>Parser\<close>: \<open>parseExprInner\<close> and the functions it calls, with fuel because a callee says how
    much input is left. \<open>Parser_Total\<close> shows that the fuel of the entry points,
    \<open>4 * length e + 4\<close>, is never used up, that no input panics, and that the functions satisfy
    the equations of the source without fuel. \<open>Parser_Roundtrip\<close> shows that the text of an
    expression parses to that expression, and that a pipe is a first argument.
  \<^item> \<open>Calendar\<close>, \<open>Metrics\<close>: \<open>StartAlignTo\<close>, the requests of an expression
    (\<open>expr.Metrics\<close>), and the user-defined templates of \<open>define.go\<close>. A template expansion takes
    fuel: without templates one unit per level of the expression is enough, and a template that
    names itself has none that is.

  \<^bold>\<open>Series.\<close>
  \<^item> \<open>Consolidations\<close>: the aggregation functions and \<open>SummarizeValues\<close>, with the selection of
    package \<open>quickselect\<close> as a parameter that returns the \<open>k\<close> least values.
  \<^item> \<open>Windowed\<close>: the ring buffer of the moving functions; it implements the locale
    \<open>sliding_window\<close> on the queue of the last values.
  \<^item> \<open>Tags\<close>: \<open>ExtractName\<close> and its relatives, \<open>ExtractTags\<close>, \<open>ExtractSeriesByTags\<close>.
  \<^item> \<open>MetricData\<close>: the series with its consolidation, copies and setters, and \<open>ConsolidateJSON\<close>.
  \<^item> \<open>Align\<close>, \<open>Align_Scale\<close>: all of \<open>expr/helper/align.go\<close>; that \<open>ScaleToCommonStep\<close> and
    \<open>AlignSeries\<close> align, and where the values end up.

  \<^bold>\<open>Functions.\<close>
  \<^item> \<open>Helpers\<close>: \<open>expr/helper/helper.go\<close>. A function is a state transformer on the map from
    requests to fetched series that can fail with an error or panic; the evaluator it gets is a
    record of the two methods of \<open>interfaces.Evaluator\<close>. Aggregation across series is described
    by what it is at each time.
  \<^item> \<open>Series_Sort\<close>: \<open>SortMetrics\<close> of \<open>expr/sort.go\<close> is one stable sort by a list of keys.
  \<^item> \<open>Metric_Heap\<close>: the heap of \<open>expr/types/metricheap.go\<close> behind the locale \<open>priority_queue\<close>, and
    the functions \<open>highest*\<close> and \<open>lowest*\<close> that use it.
  \<^item> \<open>Moving\<close>: the moving functions on the ring buffer, each point a statistic of its window.
  \<^item> \<open>Summarize\<close>: \<open>summarize\<close> and \<open>smartSummarize\<close>, each point the aggregate of its bucket.
  \<^item> \<open>Transforms\<close>: the functions that make one series of each (\<open>derivative\<close>, \<open>integral\<close>,
    \<open>interpolate\<close>, \<open>scale\<close>, \<open>timeShift\<close> and twenty more), and those that only choose among series.
  \<^item> \<open>Hitcount\<close>: \<open>hitcount\<close>, whose buckets share each value by time.
  \<^item> \<open>Holt_Winters\<close>: the analysis of \<open>expr/holtwinters/hw.go\<close> as a fold over the values, whose
    forecasts look only back and whose bands are in order, and the three functions on it.
  \<^item> \<open>Grouping\<close>: the functions that group series by a key (\<open>aggregate\<close>, \<open>aggregateWithWildcards\<close>,
    \<open>groupByNode\<close>); a group has exactly the series with its key.
  \<^item> \<open>As_Percent\<close>: \<open>asPercent\<close> with its totals, groups and unpaired keys; each point is the
    percentage of the total at that time.
  \<^item> \<open>Selection\<close>: the functions that choose, filter and sort series (\<open>below\<close>, \<open>filterSeries\<close>,
    \<open>grep\<close>, \<open>removeBelowValue\<close>, \<open>mostDeviant\<close>, \<open>sortByName\<close>, the percentile functions), with
    compiled regular expressions as parameters.
  \<^item> \<open>Naming\<close>: the functions that change names and tags (\<open>alias*\<close>, \<open>substr\<close>, \<open>legendValue\<close>,
    \<open>consolidateBy\<close>, \<open>seriesByTag\<close>).
  \<^item> \<open>Combining\<close>: the functions that make series of several (\<open>divideSeries\<close>, \<open>diffSeriesLists\<close> and
    its relatives, \<open>mapSeries\<close>, \<open>reduceSeries\<close>, \<open>groupByTags\<close>) and the rewriting functions, which
    make targets of series. The order in which Go ranges over a map is a parameter; the values do
    not depend on it where a lemma says so.
  \<^item> \<open>Statistics\<close>: \<open>slo\<close>, \<open>stdev\<close>, \<open>exponentialMovingAverage\<close>, \<open>tukeyAbove\<close>, \<open>lowPass\<close>,
    \<open>timeStack\<close>, \<open>baseline\<close> and others, and which of the series they read \<open>Metrics\<close> asks for.
  \<^item> \<open>Set_Functions\<close>: \<open>join\<close>, \<open>heatMap\<close>, \<open>countValues\<close>, \<open>rangeOfSeries\<close>, \<open>weightedAverage\<close>,
    \<open>setXFilesFactor\<close> and \<open>timeShiftByMetric\<close>, whose marks end up on each other.
  \<^item> \<open>Math_Functions\<close>: the functions that apply mathematics from outside \<open>src\<close> (\<open>pow\<close>, \<open>logarithm\<close>,
    \<open>sigmoid\<close>, \<open>ewma\<close>, \<open>movingMedian\<close>, \<open>pearson\<close>, \<open>pearsonClosest\<close>, \<open>linearRegression\<close>,
    \<open>polyfit\<close>, \<open>fft\<close> and others); that mathematics is a record of functions.
  \<^item> \<open>Foreign_Functions\<close>: \<open>graphiteWeb\<close>, \<open>aliasByRedis\<close>, \<open>aliasByPostgres\<close> and \<open>cactiStyle\<close>; what
    a server or a database answers is a parameter, the tries and the limiter are modelled.
  \<^item> \<open>Evaluator\<close>: \<open>Fetch\<close> and \<open>Eval\<close> of \<open>expr/expr.go\<close>, which fetch what \<open>Metrics\<close> asks for and
    call the registered functions. Nested evaluation takes one unit of fuel per call; the size of
    the expression is enough for functions that use the evaluator only on their arguments, as
    those modelled here do when they evaluate on the map they are given.

  \<^bold>\<open>Requests and answers.\<close>
  \<^item> \<open>Dates\<close>: the times of a request, \<open>date/date.go\<close>. A time zone is a function from instants to
    spans with an offset; a written time parses to that time in its zone.
  \<^item> \<open>Encoders\<close>: JSON, CSV and raw bodies (\<open>expr/types/types.go\<close>) byte for byte. The decimal text
    of a float is a parameter. What a body says is stated by a grammar of JSON texts with their
    values and by a reader of the raw format.
  \<^item> \<open>Render\<close>: the handler of \<open>/render\<close> (\<open>cmd/carbonapi/http/render_handler.go\<close>), from the
    parameters to the code and the body, with the response cache and the backend cache. Its
    histories are requests served one after the other, with cache entries lost in between.

  \<^bold>\<open>Zipper.\<close>
  \<^item> \<open>Zipper_Errors\<close>: the error values, the code several errors are merged to, and the text of
    HTML error pages.
  \<^item> \<open>Limiter\<close>: the limiters of \<open>limiter/\<close> behind the locales \<open>slot_limiter\<close> and
    \<open>free_limiter\<close>, both interpreted on the server limiters and on the simple one, and a step
    relation of concurrent requests with its bound and its liveness.
  \<^item> \<open>Zipper_Requests\<close>: the round robin, the early returns of one request, the retries of a query.
  \<^item> \<open>Zipper_Response\<close>: the four response types, their merges, and the loop that gathers them
    on an explicit sequence of messages and of the end of the context.
  \<^item> \<open>Broadcast\<close>: the group that routes a request by its first component, splits it, sends it to
    its backends and makes one answer of theirs.
  \<^item> \<open>Prometheus\<close>, \<open>Prometheus_Group\<close>: \<open>zipper/protocols/prometheus\<close>. The first has the helpers,
    which turn targets and tags into selectors, choose a step and put points on its grid; the
    second has the requests of the group with their errors and statistics.

  \<^bold>\<open>Conventions.\<close> A run-time panic is \<open>None\<close> (or a constructor of its own where a result has
  several outcomes), an error a value of a sum type. Data a function changes in place is returned
  changed; two names for one slice do not occur in what is modelled. Maps are association lists
  where the code iterates over them. A lemma whose name ends in \<open>_witness\<close> applies a theorem to a
  concrete input.

  \<^bold>\<open>Not modelled.\<close> The other HTTP handlers, configuration, logging and metrics (\<open>cmd/\<close>), which are
  input and output around the parts above; drawing (\<open>expr/functions/cairo\<close>); the pickle and
  protobuf encodings, which other packages make; the other backend protocols (\<open>zipper/protocols\<close>),
  which translate between wire formats; \<open>FetchAndEvalExp\<close> and \<open>FetchAndEvalExprs\<close>, whose
  in-place sorting of the fetched slices needs their aliasing, and which the handler of \<open>/render\<close>
  has as parameters; the mock backend, the tests and the generators. Of the
  functions that ask other services the reading of their configuration is left out.
\<close>

end
